(* ===== verification/Prelude.thy ===== *)
theory Prelude
  imports Complex_Main "HOL-Library.Word"
begin

text \<open>
  Shared vocabulary of the development: the fixed-width integer types of
  \<^verbatim>\<open>include/types.h\<close>, the two interfaces every component is written against (a source of
  random numbers and C's \<^verbatim>\<open>double\<close> arithmetic), the named theorem collections, and the list,
  word and fold lemmas that more than one component needs.
\<close>

unbundle bit_operations_syntax

section \<open>Machine integers\<close>

type_synonym u8 = "8 word"
type_synonym u16 = "16 word"
type_synonym u32 = "32 word"
type_synonym u64 = "64 word"

named_theorems swam_defs
  "definitions of the SWAM components, unfolded by the component proofs"
named_theorems bound_simps
  "bounds on machine integers and on random draws"

section \<open>Double precision arithmetic as an interface\<close>

text \<open>
  The scheduler and the block scorer compute with C doubles. Their safety properties do not
  depend on how an implementation rounds, so the operations are passed as a record; a
  theorem quantified over this record holds for every arithmetic, IEEE doubles included.
  Where the numerical value matters the record is instantiated by exact real arithmetic.
\<close>

record 'd dbl_ops =
  d_of_nat :: "nat \<Rightarrow> 'd"
  d_lit :: "rat \<Rightarrow> 'd"
  d_add :: "'d \<Rightarrow> 'd \<Rightarrow> 'd"
  d_sub :: "'d \<Rightarrow> 'd \<Rightarrow> 'd"
  d_mul :: "'d \<Rightarrow> 'd \<Rightarrow> 'd"
  d_div :: "'d \<Rightarrow> 'd \<Rightarrow> 'd"
  d_log :: "'d \<Rightarrow> 'd"
  d_log2 :: "'d \<Rightarrow> 'd"
  d_log10 :: "'d \<Rightarrow> 'd"
  d_sqrt :: "'d \<Rightarrow> 'd"
  d_abs :: "'d \<Rightarrow> 'd"
  d_less :: "'d \<Rightarrow> 'd \<Rightarrow> bool"
  d_le :: "'d \<Rightarrow> 'd \<Rightarrow> bool"
  d_max :: "'d"
  d_eps :: "'d"
  d_trunc :: "'d \<Rightarrow> nat"

definition real_dbl :: "real dbl_ops" where
  "real_dbl = \<lparr> d_of_nat = real, d_lit = of_rat, d_add = (+), d_sub = (-), d_mul = (*),
     d_div = (/), d_log = ln, d_log2 = log 2, d_log10 = log 10, d_sqrt = sqrt, d_abs = abs,
     d_less = (<), d_le = (\<le>),
     d_max = (2 - 1 / 2 ^ 52) * 2 ^ 1023, d_eps = 1 / 2 ^ 52,
     d_trunc = (\<lambda>x. nat \<lfloor>x\<rfloor>) \<rparr>"

lemma real_dbl_simps [simp]:
  "d_of_nat real_dbl = real" "d_lit real_dbl = of_rat" "d_add real_dbl = (+)"
  "d_sub real_dbl = (-)" "d_mul real_dbl = (*)" "d_div real_dbl = (/)" "d_log real_dbl = ln"
  "d_log2 real_dbl = log 2" "d_log10 real_dbl = log 10"
  "d_sqrt real_dbl = sqrt" "d_abs real_dbl = abs" "d_less real_dbl = (<)"
  "d_le real_dbl = (\<le>)"
  by (simp_all add: real_dbl_def)

lemma real_dbl_eps_pos [simp]: "0 < d_eps real_dbl"
  by (simp add: real_dbl_def)

lemma real_dbl_max_large: "2 ^ 33 < d_max real_dbl - d_eps real_dbl"
proof -
  have "(2 :: real) ^ 33 + 1 < 1 * 2 ^ 1023" by simp
  also have "\<dots> \<le> (2 - 1 / 2 ^ 52) * 2 ^ 1023" by (intro mult_right_mono) simp_all
  finally show ?thesis by (simp add: real_dbl_def)
qed

text \<open>
  An executable instance for evaluating the model on concrete inputs: rational arithmetic,
  with the transcendental functions replaced by the constant 1.
\<close>

definition rat_dbl :: "rat dbl_ops" where
  "rat_dbl = \<lparr> d_of_nat = of_nat, d_lit = (\<lambda>x. x), d_add = (+), d_sub = (-), d_mul = (*),
     d_div = (/), d_log = (\<lambda>_. 1), d_log2 = (\<lambda>_. 1), d_log10 = (\<lambda>_. 1), d_sqrt = (\<lambda>_. 1), d_abs = abs, d_less = (<), d_le = (\<le>),
     d_max = 2 ^ 1023, d_eps = 1 / 2 ^ 52, d_trunc = (\<lambda>x. nat \<lfloor>x\<rfloor>) \<rparr>"

section \<open>A source of random numbers as an interface\<close>

text \<open>
  \<open>ro_rand_below\<close> is a call \<^verbatim>\<open>rand_below(afl, limit)\<close>, \<open>ro_rand\<close> a call of the C library's
  \<^verbatim>\<open>rand()\<close>, \<open>ro_afl\<close> says whether the \<^verbatim>\<open>afl\<close> pointer is non-NULL. The state \<open>'g\<close> is
  whatever the generators keep.
\<close>

record 'g rand_ops =
  ro_rand_below :: "'g \<Rightarrow> u32 \<Rightarrow> u32 \<times> 'g"
  ro_rand :: "'g \<Rightarrow> u32 \<times> 'g"
  ro_afl :: bool

locale bounded_rng =
  fixes R :: "'g rand_ops"
  assumes rand_below_less: "0 < n \<Longrightarrow> fst (ro_rand_below R g n) < n"
begin

lemma rand_below_bound:
  assumes "ro_rand_below R g n = (v, g')" and "0 < n"
  shows "v < n"
  using rand_below_less [OF assms(2), of g] assms(1) by simp

lemma rand_below_unat:
  assumes "ro_rand_below R g n = (v, g')" and "0 < n"
  shows "unat v < unat n"
  using rand_below_bound [OF assms] by (simp add: word_less_nat_alt)

end

section \<open>Lists\<close>

lemma nth_filter_mem: "n < length (filter P xs) \<Longrightarrow> P (filter P xs ! n)"
  using nth_mem [of n "filter P xs"] by auto

lemma sum_list_update_add:
  fixes xs :: "nat list"
  assumes "i < length xs"
  shows "sum_list (xs[i := xs ! i + k]) = sum_list xs + k"
  using assms by (simp add: sum_list_update member_le_sum_list)

lemma upt_cut: "a \<le> b \<Longrightarrow> b \<le> c \<Longrightarrow> [a..<c] = [a..<b] @ [b..<c]"
  using upt_add_eq_append [of a b "c - b"] by simp

lemma list_all_concat: "list_all P (concat xss) = list_all (list_all P) xss"
  by (induction xss) auto

section \<open>Words\<close>

text \<open>The first \<open>n\<close> bytes of a word in memory, on a little-endian machine.\<close>

definition le_bytes :: "nat \<Rightarrow> 'a::len word \<Rightarrow> u8 list" where
  "le_bytes n w = map (\<lambda>i. ucast (drop_bit (8 * i) w)) [0..<n]"

lemma length_le_bytes [simp]: "length (le_bytes n w) = n"
  by (simp add: le_bytes_def)

lemma unat_Suc_less:
  fixes w :: "'a::len word"
  assumes "Suc (unat w) < 2 ^ LENGTH('a)"
  shows "unat (w + 1) = Suc (unat w)"
  using assms by (simp add: unat_word_ariths)

lemma unat_plus1_bounded:
  fixes w :: u32
  assumes "unat w \<le> n" and "n < 4294967295"
  shows "unat (w + 1) = Suc (unat w)"
  using assms by (intro unat_Suc_less) simp

lemma one_le_word_iff: "1 \<le> (w :: 'a::len word) \<longleftrightarrow> w \<noteq> 0"
  using linorder_not_less [of w 1] by simp

end
