(* ===== verification/Swam_Scenarios.thy ===== *)
theory Swam_Scenarios
  imports Prelude
begin

text \<open>
  The scenario catalogue of \<^verbatim>\<open>custom_mutators/wasm/swam_scenarios.h\<close>: its enumerations, the
  record of a scenario, the table-building macros as functions and the catalogue they expand
  to, with the lookup functions. The lemmas show that the table is indexed by its own
  identifiers and which combinations of its columns occur.
\<close>

section \<open>Enumerations\<close>

text \<open>
  \<^verbatim>\<open>SwamOpKind\<close> has 116 enumerators; as in C each is an integer, wrapped in a type of its own.
\<close>

datatype SwamOpKind = SwamOpKind nat

abbreviation SWAM_OP_I32_LOAD :: SwamOpKind where "SWAM_OP_I32_LOAD \<equiv> SwamOpKind 0"

abbreviation SWAM_OP_I32_LOAD8_U :: SwamOpKind where "SWAM_OP_I32_LOAD8_U \<equiv> SwamOpKind 1"

abbreviation SWAM_OP_I32_LOAD8_S :: SwamOpKind where "SWAM_OP_I32_LOAD8_S \<equiv> SwamOpKind 2"

abbreviation SWAM_OP_I32_LOAD16_U :: SwamOpKind where "SWAM_OP_I32_LOAD16_U \<equiv> SwamOpKind 3"

abbreviation SWAM_OP_I32_LOAD16_S :: SwamOpKind where "SWAM_OP_I32_LOAD16_S \<equiv> SwamOpKind 4"

abbreviation SWAM_OP_I32_STORE :: SwamOpKind where "SWAM_OP_I32_STORE \<equiv> SwamOpKind 5"

abbreviation SWAM_OP_I32_STORE8 :: SwamOpKind where "SWAM_OP_I32_STORE8 \<equiv> SwamOpKind 6"

abbreviation SWAM_OP_I32_STORE16 :: SwamOpKind where "SWAM_OP_I32_STORE16 \<equiv> SwamOpKind 7"

abbreviation SWAM_OP_I64_LOAD :: SwamOpKind where "SWAM_OP_I64_LOAD \<equiv> SwamOpKind 8"

abbreviation SWAM_OP_I64_LOAD8_U :: SwamOpKind where "SWAM_OP_I64_LOAD8_U \<equiv> SwamOpKind 9"

abbreviation SWAM_OP_I64_LOAD8_S :: SwamOpKind where "SWAM_OP_I64_LOAD8_S \<equiv> SwamOpKind 10"

abbreviation SWAM_OP_I64_LOAD16_U :: SwamOpKind where "SWAM_OP_I64_LOAD16_U \<equiv> SwamOpKind 11"

abbreviation SWAM_OP_I64_LOAD16_S :: SwamOpKind where "SWAM_OP_I64_LOAD16_S \<equiv> SwamOpKind 12"

abbreviation SWAM_OP_I64_LOAD32_U :: SwamOpKind where "SWAM_OP_I64_LOAD32_U \<equiv> SwamOpKind 13"

abbreviation SWAM_OP_I64_LOAD32_S :: SwamOpKind where "SWAM_OP_I64_LOAD32_S \<equiv> SwamOpKind 14"

abbreviation SWAM_OP_I64_STORE :: SwamOpKind where "SWAM_OP_I64_STORE \<equiv> SwamOpKind 15"

abbreviation SWAM_OP_I64_STORE8 :: SwamOpKind where "SWAM_OP_I64_STORE8 \<equiv> SwamOpKind 16"

abbreviation SWAM_OP_I64_STORE16 :: SwamOpKind where "SWAM_OP_I64_STORE16 \<equiv> SwamOpKind 17"

abbreviation SWAM_OP_I64_STORE32 :: SwamOpKind where "SWAM_OP_I64_STORE32 \<equiv> SwamOpKind 18"

abbreviation SWAM_OP_F32_LOAD :: SwamOpKind where "SWAM_OP_F32_LOAD \<equiv> SwamOpKind 19"

abbreviation SWAM_OP_F32_STORE :: SwamOpKind where "SWAM_OP_F32_STORE \<equiv> SwamOpKind 20"

abbreviation SWAM_OP_F64_LOAD :: SwamOpKind where "SWAM_OP_F64_LOAD \<equiv> SwamOpKind 21"

abbreviation SWAM_OP_F64_STORE :: SwamOpKind where "SWAM_OP_F64_STORE \<equiv> SwamOpKind 22"

abbreviation SWAM_OP_I32_ATOMIC_LOAD :: SwamOpKind where "SWAM_OP_I32_ATOMIC_LOAD \<equiv> SwamOpKind 23"

abbreviation SWAM_OP_I32_ATOMIC_LOAD8_U :: SwamOpKind where "SWAM_OP_I32_ATOMIC_LOAD8_U \<equiv> SwamOpKind 24"

abbreviation SWAM_OP_I32_ATOMIC_LOAD16_U :: SwamOpKind where "SWAM_OP_I32_ATOMIC_LOAD16_U \<equiv> SwamOpKind 25"

abbreviation SWAM_OP_I32_ATOMIC_STORE :: SwamOpKind where "SWAM_OP_I32_ATOMIC_STORE \<equiv> SwamOpKind 26"

abbreviation SWAM_OP_I32_ATOMIC_STORE8 :: SwamOpKind where "SWAM_OP_I32_ATOMIC_STORE8 \<equiv> SwamOpKind 27"

abbreviation SWAM_OP_I32_ATOMIC_STORE16 :: SwamOpKind where "SWAM_OP_I32_ATOMIC_STORE16 \<equiv> SwamOpKind 28"

abbreviation SWAM_OP_I64_ATOMIC_LOAD :: SwamOpKind where "SWAM_OP_I64_ATOMIC_LOAD \<equiv> SwamOpKind 29"

abbreviation SWAM_OP_I64_ATOMIC_LOAD8_U :: SwamOpKind where "SWAM_OP_I64_ATOMIC_LOAD8_U \<equiv> SwamOpKind 30"

abbreviation SWAM_OP_I64_ATOMIC_LOAD16_U :: SwamOpKind where "SWAM_OP_I64_ATOMIC_LOAD16_U \<equiv> SwamOpKind 31"

abbreviation SWAM_OP_I64_ATOMIC_LOAD32_U :: SwamOpKind where "SWAM_OP_I64_ATOMIC_LOAD32_U \<equiv> SwamOpKind 32"

abbreviation SWAM_OP_I64_ATOMIC_STORE :: SwamOpKind where "SWAM_OP_I64_ATOMIC_STORE \<equiv> SwamOpKind 33"

abbreviation SWAM_OP_I64_ATOMIC_STORE8 :: SwamOpKind where "SWAM_OP_I64_ATOMIC_STORE8 \<equiv> SwamOpKind 34"

abbreviation SWAM_OP_I64_ATOMIC_STORE16 :: SwamOpKind where "SWAM_OP_I64_ATOMIC_STORE16 \<equiv> SwamOpKind 35"

abbreviation SWAM_OP_I64_ATOMIC_STORE32 :: SwamOpKind where "SWAM_OP_I64_ATOMIC_STORE32 \<equiv> SwamOpKind 36"

abbreviation SWAM_OP_I32_ATOMIC_RMW_ADD :: SwamOpKind where "SWAM_OP_I32_ATOMIC_RMW_ADD \<equiv> SwamOpKind 37"

abbreviation SWAM_OP_I64_ATOMIC_RMW_ADD :: SwamOpKind where "SWAM_OP_I64_ATOMIC_RMW_ADD \<equiv> SwamOpKind 38"

abbreviation SWAM_OP_I32_ATOMIC_RMW8_ADD_U :: SwamOpKind where "SWAM_OP_I32_ATOMIC_RMW8_ADD_U \<equiv> SwamOpKind 39"

abbreviation SWAM_OP_I32_ATOMIC_RMW16_ADD_U :: SwamOpKind where "SWAM_OP_I32_ATOMIC_RMW16_ADD_U \<equiv> SwamOpKind 40"

abbreviation SWAM_OP_I64_ATOMIC_RMW8_ADD_U :: SwamOpKind where "SWAM_OP_I64_ATOMIC_RMW8_ADD_U \<equiv> SwamOpKind 41"

abbreviation SWAM_OP_I64_ATOMIC_RMW16_ADD_U :: SwamOpKind where "SWAM_OP_I64_ATOMIC_RMW16_ADD_U \<equiv> SwamOpKind 42"

abbreviation SWAM_OP_I64_ATOMIC_RMW32_ADD_U :: SwamOpKind where "SWAM_OP_I64_ATOMIC_RMW32_ADD_U \<equiv> SwamOpKind 43"

abbreviation SWAM_OP_I32_ATOMIC_RMW_SUB :: SwamOpKind where "SWAM_OP_I32_ATOMIC_RMW_SUB \<equiv> SwamOpKind 44"

abbreviation SWAM_OP_I64_ATOMIC_RMW_SUB :: SwamOpKind where "SWAM_OP_I64_ATOMIC_RMW_SUB \<equiv> SwamOpKind 45"

abbreviation SWAM_OP_I32_ATOMIC_RMW8_SUB_U :: SwamOpKind where "SWAM_OP_I32_ATOMIC_RMW8_SUB_U \<equiv> SwamOpKind 46"

abbreviation SWAM_OP_I32_ATOMIC_RMW16_SUB_U :: SwamOpKind where "SWAM_OP_I32_ATOMIC_RMW16_SUB_U \<equiv> SwamOpKind 47"

abbreviation SWAM_OP_I64_ATOMIC_RMW8_SUB_U :: SwamOpKind where "SWAM_OP_I64_ATOMIC_RMW8_SUB_U \<equiv> SwamOpKind 48"

abbreviation SWAM_OP_I64_ATOMIC_RMW16_SUB_U :: SwamOpKind where "SWAM_OP_I64_ATOMIC_RMW16_SUB_U \<equiv> SwamOpKind 49"

abbreviation SWAM_OP_I64_ATOMIC_RMW32_SUB_U :: SwamOpKind where "SWAM_OP_I64_ATOMIC_RMW32_SUB_U \<equiv> SwamOpKind 50"

abbreviation SWAM_OP_I32_ATOMIC_RMW_AND :: SwamOpKind where "SWAM_OP_I32_ATOMIC_RMW_AND \<equiv> SwamOpKind 51"

abbreviation SWAM_OP_I64_ATOMIC_RMW_AND :: SwamOpKind where "SWAM_OP_I64_ATOMIC_RMW_AND \<equiv> SwamOpKind 52"

abbreviation SWAM_OP_I32_ATOMIC_RMW8_AND_U :: SwamOpKind where "SWAM_OP_I32_ATOMIC_RMW8_AND_U \<equiv> SwamOpKind 53"

abbreviation SWAM_OP_I32_ATOMIC_RMW16_AND_U :: SwamOpKind where "SWAM_OP_I32_ATOMIC_RMW16_AND_U \<equiv> SwamOpKind 54"

abbreviation SWAM_OP_I64_ATOMIC_RMW8_AND_U :: SwamOpKind where "SWAM_OP_I64_ATOMIC_RMW8_AND_U \<equiv> SwamOpKind 55"

abbreviation SWAM_OP_I64_ATOMIC_RMW16_AND_U :: SwamOpKind where "SWAM_OP_I64_ATOMIC_RMW16_AND_U \<equiv> SwamOpKind 56"

abbreviation SWAM_OP_I64_ATOMIC_RMW32_AND_U :: SwamOpKind where "SWAM_OP_I64_ATOMIC_RMW32_AND_U \<equiv> SwamOpKind 57"

abbreviation SWAM_OP_I32_ATOMIC_RMW_OR :: SwamOpKind where "SWAM_OP_I32_ATOMIC_RMW_OR \<equiv> SwamOpKind 58"

abbreviation SWAM_OP_I64_ATOMIC_RMW_OR :: SwamOpKind where "SWAM_OP_I64_ATOMIC_RMW_OR \<equiv> SwamOpKind 59"

abbreviation SWAM_OP_I32_ATOMIC_RMW8_OR_U :: SwamOpKind where "SWAM_OP_I32_ATOMIC_RMW8_OR_U \<equiv> SwamOpKind 60"

abbreviation SWAM_OP_I32_ATOMIC_RMW16_OR_U :: SwamOpKind where "SWAM_OP_I32_ATOMIC_RMW16_OR_U \<equiv> SwamOpKind 61"

abbreviation SWAM_OP_I64_ATOMIC_RMW8_OR_U :: SwamOpKind where "SWAM_OP_I64_ATOMIC_RMW8_OR_U \<equiv> SwamOpKind 62"

abbreviation SWAM_OP_I64_ATOMIC_RMW16_OR_U :: SwamOpKind where "SWAM_OP_I64_ATOMIC_RMW16_OR_U \<equiv> SwamOpKind 63"

abbreviation SWAM_OP_I64_ATOMIC_RMW32_OR_U :: SwamOpKind where "SWAM_OP_I64_ATOMIC_RMW32_OR_U \<equiv> SwamOpKind 64"

abbreviation SWAM_OP_I32_ATOMIC_RMW_XOR :: SwamOpKind where "SWAM_OP_I32_ATOMIC_RMW_XOR \<equiv> SwamOpKind 65"

abbreviation SWAM_OP_I64_ATOMIC_RMW_XOR :: SwamOpKind where "SWAM_OP_I64_ATOMIC_RMW_XOR \<equiv> SwamOpKind 66"

abbreviation SWAM_OP_I32_ATOMIC_RMW8_XOR_U :: SwamOpKind where "SWAM_OP_I32_ATOMIC_RMW8_XOR_U \<equiv> SwamOpKind 67"

abbreviation SWAM_OP_I32_ATOMIC_RMW16_XOR_U :: SwamOpKind where "SWAM_OP_I32_ATOMIC_RMW16_XOR_U \<equiv> SwamOpKind 68"

abbreviation SWAM_OP_I64_ATOMIC_RMW8_XOR_U :: SwamOpKind where "SWAM_OP_I64_ATOMIC_RMW8_XOR_U \<equiv> SwamOpKind 69"

abbreviation SWAM_OP_I64_ATOMIC_RMW16_XOR_U :: SwamOpKind where "SWAM_OP_I64_ATOMIC_RMW16_XOR_U \<equiv> SwamOpKind 70"

abbreviation SWAM_OP_I64_ATOMIC_RMW32_XOR_U :: SwamOpKind where "SWAM_OP_I64_ATOMIC_RMW32_XOR_U \<equiv> SwamOpKind 71"

abbreviation SWAM_OP_I32_ATOMIC_RMW_XCHG :: SwamOpKind where "SWAM_OP_I32_ATOMIC_RMW_XCHG \<equiv> SwamOpKind 72"

abbreviation SWAM_OP_I64_ATOMIC_RMW_XCHG :: SwamOpKind where "SWAM_OP_I64_ATOMIC_RMW_XCHG \<equiv> SwamOpKind 73"

abbreviation SWAM_OP_I32_ATOMIC_RMW8_XCHG_U :: SwamOpKind where "SWAM_OP_I32_ATOMIC_RMW8_XCHG_U \<equiv> SwamOpKind 74"

abbreviation SWAM_OP_I32_ATOMIC_RMW16_XCHG_U :: SwamOpKind where "SWAM_OP_I32_ATOMIC_RMW16_XCHG_U \<equiv> SwamOpKind 75"

abbreviation SWAM_OP_I64_ATOMIC_RMW8_XCHG_U :: SwamOpKind where "SWAM_OP_I64_ATOMIC_RMW8_XCHG_U \<equiv> SwamOpKind 76"

abbreviation SWAM_OP_I64_ATOMIC_RMW16_XCHG_U :: SwamOpKind where "SWAM_OP_I64_ATOMIC_RMW16_XCHG_U \<equiv> SwamOpKind 77"

abbreviation SWAM_OP_I64_ATOMIC_RMW32_XCHG_U :: SwamOpKind where "SWAM_OP_I64_ATOMIC_RMW32_XCHG_U \<equiv> SwamOpKind 78"

abbreviation SWAM_OP_I32_ATOMIC_RMW_CMPXCHG :: SwamOpKind where "SWAM_OP_I32_ATOMIC_RMW_CMPXCHG \<equiv> SwamOpKind 79"

abbreviation SWAM_OP_I64_ATOMIC_RMW_CMPXCHG :: SwamOpKind where "SWAM_OP_I64_ATOMIC_RMW_CMPXCHG \<equiv> SwamOpKind 80"

abbreviation SWAM_OP_I32_ATOMIC_RMW8_CMPXCHG_U :: SwamOpKind where "SWAM_OP_I32_ATOMIC_RMW8_CMPXCHG_U \<equiv> SwamOpKind 81"

abbreviation SWAM_OP_I32_ATOMIC_RMW16_CMPXCHG_U :: SwamOpKind where "SWAM_OP_I32_ATOMIC_RMW16_CMPXCHG_U \<equiv> SwamOpKind 82"

abbreviation SWAM_OP_I64_ATOMIC_RMW8_CMPXCHG_U :: SwamOpKind where "SWAM_OP_I64_ATOMIC_RMW8_CMPXCHG_U \<equiv> SwamOpKind 83"

abbreviation SWAM_OP_I64_ATOMIC_RMW16_CMPXCHG_U :: SwamOpKind where "SWAM_OP_I64_ATOMIC_RMW16_CMPXCHG_U \<equiv> SwamOpKind 84"

abbreviation SWAM_OP_I64_ATOMIC_RMW32_CMPXCHG_U :: SwamOpKind where "SWAM_OP_I64_ATOMIC_RMW32_CMPXCHG_U \<equiv> SwamOpKind 85"

abbreviation SWAM_OP_MEMORY_ATOMIC_WAIT32 :: SwamOpKind where "SWAM_OP_MEMORY_ATOMIC_WAIT32 \<equiv> SwamOpKind 86"

abbreviation SWAM_OP_MEMORY_ATOMIC_WAIT64 :: SwamOpKind where "SWAM_OP_MEMORY_ATOMIC_WAIT64 \<equiv> SwamOpKind 87"

abbreviation SWAM_OP_MEMORY_ATOMIC_NOTIFY :: SwamOpKind where "SWAM_OP_MEMORY_ATOMIC_NOTIFY \<equiv> SwamOpKind 88"

abbreviation SWAM_OP_V128_LOAD :: SwamOpKind where "SWAM_OP_V128_LOAD \<equiv> SwamOpKind 89"

abbreviation SWAM_OP_V128_LOAD8X8_S :: SwamOpKind where "SWAM_OP_V128_LOAD8X8_S \<equiv> SwamOpKind 90"

abbreviation SWAM_OP_V128_LOAD8X8_U :: SwamOpKind where "SWAM_OP_V128_LOAD8X8_U \<equiv> SwamOpKind 91"

abbreviation SWAM_OP_V128_LOAD16X4_S :: SwamOpKind where "SWAM_OP_V128_LOAD16X4_S \<equiv> SwamOpKind 92"

abbreviation SWAM_OP_V128_LOAD16X4_U :: SwamOpKind where "SWAM_OP_V128_LOAD16X4_U \<equiv> SwamOpKind 93"

abbreviation SWAM_OP_V128_LOAD32X2_S :: SwamOpKind where "SWAM_OP_V128_LOAD32X2_S \<equiv> SwamOpKind 94"

abbreviation SWAM_OP_V128_LOAD32X2_U :: SwamOpKind where "SWAM_OP_V128_LOAD32X2_U \<equiv> SwamOpKind 95"

abbreviation SWAM_OP_V128_LOAD8_SPLAT :: SwamOpKind where "SWAM_OP_V128_LOAD8_SPLAT \<equiv> SwamOpKind 96"

abbreviation SWAM_OP_V128_LOAD16_SPLAT :: SwamOpKind where "SWAM_OP_V128_LOAD16_SPLAT \<equiv> SwamOpKind 97"

abbreviation SWAM_OP_V128_LOAD32_SPLAT :: SwamOpKind where "SWAM_OP_V128_LOAD32_SPLAT \<equiv> SwamOpKind 98"

abbreviation SWAM_OP_V128_LOAD64_SPLAT :: SwamOpKind where "SWAM_OP_V128_LOAD64_SPLAT \<equiv> SwamOpKind 99"

abbreviation SWAM_OP_V128_LOAD32_ZERO :: SwamOpKind where "SWAM_OP_V128_LOAD32_ZERO \<equiv> SwamOpKind 100"

abbreviation SWAM_OP_V128_LOAD64_ZERO :: SwamOpKind where "SWAM_OP_V128_LOAD64_ZERO \<equiv> SwamOpKind 101"

abbreviation SWAM_OP_V128_LOAD8_LANE :: SwamOpKind where "SWAM_OP_V128_LOAD8_LANE \<equiv> SwamOpKind 102"

abbreviation SWAM_OP_V128_LOAD16_LANE :: SwamOpKind where "SWAM_OP_V128_LOAD16_LANE \<equiv> SwamOpKind 103"

abbreviation SWAM_OP_V128_LOAD32_LANE :: SwamOpKind where "SWAM_OP_V128_LOAD32_LANE \<equiv> SwamOpKind 104"

abbreviation SWAM_OP_V128_LOAD64_LANE :: SwamOpKind where "SWAM_OP_V128_LOAD64_LANE \<equiv> SwamOpKind 105"

abbreviation SWAM_OP_V128_STORE :: SwamOpKind where "SWAM_OP_V128_STORE \<equiv> SwamOpKind 106"

abbreviation SWAM_OP_V128_STORE8_LANE :: SwamOpKind where "SWAM_OP_V128_STORE8_LANE \<equiv> SwamOpKind 107"

abbreviation SWAM_OP_V128_STORE16_LANE :: SwamOpKind where "SWAM_OP_V128_STORE16_LANE \<equiv> SwamOpKind 108"

abbreviation SWAM_OP_V128_STORE32_LANE :: SwamOpKind where "SWAM_OP_V128_STORE32_LANE \<equiv> SwamOpKind 109"

abbreviation SWAM_OP_V128_STORE64_LANE :: SwamOpKind where "SWAM_OP_V128_STORE64_LANE \<equiv> SwamOpKind 110"

abbreviation SWAM_OP_MEMORY_COPY :: SwamOpKind where "SWAM_OP_MEMORY_COPY \<equiv> SwamOpKind 111"

abbreviation SWAM_OP_MEMORY_FILL :: SwamOpKind where "SWAM_OP_MEMORY_FILL \<equiv> SwamOpKind 112"

abbreviation SWAM_OP_MEMORY_INIT :: SwamOpKind where "SWAM_OP_MEMORY_INIT \<equiv> SwamOpKind 113"

abbreviation SWAM_OP_MEMORY_GROW :: SwamOpKind where "SWAM_OP_MEMORY_GROW \<equiv> SwamOpKind 114"

abbreviation SWAM_OP_COUNT :: SwamOpKind where "SWAM_OP_COUNT \<equiv> SwamOpKind 115"

datatype SwamLayout =
    SWAM_LAYOUT_INTERIOR
  | SWAM_LAYOUT_BOUNDARY
  | SWAM_LAYOUT_OOB
  | SWAM_LAYOUT_COUNT

datatype SwamWrap =
    SWAM_WRAP_NO_WRAP
  | SWAM_WRAP_OVERFLOW
  | SWAM_WRAP_COUNT

datatype SwamAlign =
    SWAM_ALIGN_ALIGNED
  | SWAM_ALIGN_MISALIGNED
  | SWAM_ALIGN_NA
  | SWAM_ALIGN_COUNT

datatype SwamExpected =
    SWAM_EXPECT_TRAP
  | SWAM_EXPECT_NO_TRAP
  | SWAM_EXPECT_UNKNOWN

datatype SwamValType =
    SWAM_VALTYPE_I32
  | SWAM_VALTYPE_I64
  | SWAM_VALTYPE_F32
  | SWAM_VALTYPE_F64
  | SWAM_VALTYPE_V128

datatype SwamOpClass =
    SWAM_OPCLASS_LOAD
  | SWAM_OPCLASS_STORE
  | SWAM_OPCLASS_MEMORY_GROW
  | SWAM_OPCLASS_ATOMIC_LOAD
  | SWAM_OPCLASS_ATOMIC_STORE
  | SWAM_OPCLASS_ATOMIC_RMW
  | SWAM_OPCLASS_ATOMIC_CMPXCHG
  | SWAM_OPCLASS_ATOMIC_WAIT
  | SWAM_OPCLASS_ATOMIC_NOTIFY
  | SWAM_OPCLASS_SIMD_LOAD
  | SWAM_OPCLASS_SIMD_LOAD_LANE
  | SWAM_OPCLASS_SIMD_STORE
  | SWAM_OPCLASS_SIMD_STORE_LANE
  | SWAM_OPCLASS_BULK_COPY
  | SWAM_OPCLASS_BULK_FILL
  | SWAM_OPCLASS_BULK_INIT

section \<open>Scenarios and the table macros\<close>

record SwamScenario =
  sc_id :: u32
  sc_op_kind :: SwamOpKind
  sc_op_class :: SwamOpClass
  sc_layout :: SwamLayout
  sc_expected :: SwamExpected
  sc_access_width :: u32
  sc_is_signed :: bool
  sc_value_type :: SwamValType
  sc_wrap :: SwamWrap
  sc_align :: SwamAlign

definition SWAM_SCENARIO_ENTRY ::
  "u32 \<Rightarrow> SwamOpKind \<Rightarrow> SwamOpClass \<Rightarrow> SwamLayout \<Rightarrow> SwamExpected \<Rightarrow> u32 \<Rightarrow> bool \<Rightarrow>
   SwamValType \<Rightarrow> SwamWrap \<Rightarrow> SwamAlign \<Rightarrow> SwamScenario" where
  "SWAM_SCENARIO_ENTRY i op cl lay ex wid sg ty wr al =
     \<lparr> sc_id = i, sc_op_kind = op, sc_op_class = cl, sc_layout = lay, sc_expected = ex,
       sc_access_width = wid, sc_is_signed = sg, sc_value_type = ty, sc_wrap = wr,
       sc_align = al \<rparr>"

definition SWAM_LAYOUT_SCENARIOS ::
  "u32 \<Rightarrow> SwamOpKind \<Rightarrow> SwamOpClass \<Rightarrow> u32 \<Rightarrow> bool \<Rightarrow> SwamValType \<Rightarrow> SwamScenario list" where
  "SWAM_LAYOUT_SCENARIOS b op cl wid sg ty =
     [ SWAM_SCENARIO_ENTRY b op cl SWAM_LAYOUT_INTERIOR SWAM_EXPECT_NO_TRAP
         wid sg ty SWAM_WRAP_NO_WRAP SWAM_ALIGN_NA,
       SWAM_SCENARIO_ENTRY (b + 1) op cl SWAM_LAYOUT_BOUNDARY SWAM_EXPECT_NO_TRAP
         wid sg ty SWAM_WRAP_NO_WRAP SWAM_ALIGN_NA,
       SWAM_SCENARIO_ENTRY (b + 2) op cl SWAM_LAYOUT_OOB SWAM_EXPECT_TRAP
         wid sg ty SWAM_WRAP_NO_WRAP SWAM_ALIGN_NA ]"

definition SWAM_MEMORY_GROW_SCENARIOS ::
  "u32 \<Rightarrow> SwamScenario list" where
  "SWAM_MEMORY_GROW_SCENARIOS b =
     [ SWAM_SCENARIO_ENTRY b SWAM_OP_MEMORY_GROW SWAM_OPCLASS_MEMORY_GROW SWAM_LAYOUT_INTERIOR SWAM_EXPECT_UNKNOWN
         0 False SWAM_VALTYPE_I32 SWAM_WRAP_NO_WRAP SWAM_ALIGN_NA,
       SWAM_SCENARIO_ENTRY (b + 1) SWAM_OP_MEMORY_GROW SWAM_OPCLASS_MEMORY_GROW SWAM_LAYOUT_BOUNDARY SWAM_EXPECT_UNKNOWN
         0 False SWAM_VALTYPE_I32 SWAM_WRAP_NO_WRAP SWAM_ALIGN_NA,
       SWAM_SCENARIO_ENTRY (b + 2) SWAM_OP_MEMORY_GROW SWAM_OPCLASS_MEMORY_GROW SWAM_LAYOUT_OOB SWAM_EXPECT_UNKNOWN
         0 False SWAM_VALTYPE_I32 SWAM_WRAP_NO_WRAP SWAM_ALIGN_NA ]"

definition SWAM_OVERFLOW_SCENARIO ::
  "u32 \<Rightarrow> SwamOpKind \<Rightarrow> SwamOpClass \<Rightarrow> u32 \<Rightarrow> bool \<Rightarrow> SwamValType \<Rightarrow> SwamScenario list" where
  "SWAM_OVERFLOW_SCENARIO i op cl wid sg ty =
     [ SWAM_SCENARIO_ENTRY i op cl SWAM_LAYOUT_INTERIOR SWAM_EXPECT_TRAP
         wid sg ty SWAM_WRAP_OVERFLOW SWAM_ALIGN_NA ]"

definition SWAM_BULK_SCENARIOS ::
  "u32 \<Rightarrow> SwamOpKind \<Rightarrow> SwamOpClass \<Rightarrow> SwamScenario list" where
  "SWAM_BULK_SCENARIOS b op cl =
     [ SWAM_SCENARIO_ENTRY b op cl SWAM_LAYOUT_INTERIOR SWAM_EXPECT_NO_TRAP
         1 False SWAM_VALTYPE_I32 SWAM_WRAP_NO_WRAP SWAM_ALIGN_NA,
       SWAM_SCENARIO_ENTRY (b + 1) op cl SWAM_LAYOUT_BOUNDARY SWAM_EXPECT_NO_TRAP
         1 False SWAM_VALTYPE_I32 SWAM_WRAP_NO_WRAP SWAM_ALIGN_NA,
       SWAM_SCENARIO_ENTRY (b + 2) op cl SWAM_LAYOUT_OOB SWAM_EXPECT_TRAP
         1 False SWAM_VALTYPE_I32 SWAM_WRAP_NO_WRAP SWAM_ALIGN_NA ]"

definition SWAM_ATOMIC_W1_SCENARIOS ::
  "u32 \<Rightarrow> SwamOpKind \<Rightarrow> SwamOpClass \<Rightarrow> SwamValType \<Rightarrow> SwamScenario list" where
  "SWAM_ATOMIC_W1_SCENARIOS b op cl ty =
     [ SWAM_SCENARIO_ENTRY b op cl SWAM_LAYOUT_INTERIOR SWAM_EXPECT_NO_TRAP
         1 False ty SWAM_WRAP_NO_WRAP SWAM_ALIGN_NA,
       SWAM_SCENARIO_ENTRY (b + 1) op cl SWAM_LAYOUT_BOUNDARY SWAM_EXPECT_NO_TRAP
         1 False ty SWAM_WRAP_NO_WRAP SWAM_ALIGN_NA,
       SWAM_SCENARIO_ENTRY (b + 2) op cl SWAM_LAYOUT_OOB SWAM_EXPECT_TRAP
         1 False ty SWAM_WRAP_NO_WRAP SWAM_ALIGN_NA,
       SWAM_SCENARIO_ENTRY (b + 3) op cl SWAM_LAYOUT_INTERIOR SWAM_EXPECT_TRAP
         1 False ty SWAM_WRAP_OVERFLOW SWAM_ALIGN_NA ]"

definition SWAM_ATOMIC_ALIGN_SCENARIOS ::
  "u32 \<Rightarrow> SwamOpKind \<Rightarrow> SwamOpClass \<Rightarrow> u32 \<Rightarrow> SwamValType \<Rightarrow> SwamScenario list" where
  "SWAM_ATOMIC_ALIGN_SCENARIOS b op cl wid ty =
     [ SWAM_SCENARIO_ENTRY b op cl SWAM_LAYOUT_INTERIOR SWAM_EXPECT_NO_TRAP
         wid False ty SWAM_WRAP_NO_WRAP SWAM_ALIGN_ALIGNED,
       SWAM_SCENARIO_ENTRY (b + 1) op cl SWAM_LAYOUT_BOUNDARY SWAM_EXPECT_NO_TRAP
         wid False ty SWAM_WRAP_NO_WRAP SWAM_ALIGN_ALIGNED,
       SWAM_SCENARIO_ENTRY (b + 2) op cl SWAM_LAYOUT_OOB SWAM_EXPECT_TRAP
         wid False ty SWAM_WRAP_NO_WRAP SWAM_ALIGN_ALIGNED,
       SWAM_SCENARIO_ENTRY (b + 3) op cl SWAM_LAYOUT_INTERIOR SWAM_EXPECT_TRAP
         wid False ty SWAM_WRAP_NO_WRAP SWAM_ALIGN_MISALIGNED,
       SWAM_SCENARIO_ENTRY (b + 4) op cl SWAM_LAYOUT_BOUNDARY SWAM_EXPECT_TRAP
         wid False ty SWAM_WRAP_NO_WRAP SWAM_ALIGN_MISALIGNED,
       SWAM_SCENARIO_ENTRY (b + 5) op cl SWAM_LAYOUT_OOB SWAM_EXPECT_TRAP
         wid False ty SWAM_WRAP_NO_WRAP SWAM_ALIGN_MISALIGNED,
       SWAM_SCENARIO_ENTRY (b + 6) op cl SWAM_LAYOUT_INTERIOR SWAM_EXPECT_TRAP
         wid False ty SWAM_WRAP_OVERFLOW SWAM_ALIGN_ALIGNED ]"

lemmas scenario_macro_defs =
  SWAM_LAYOUT_SCENARIOS_def SWAM_MEMORY_GROW_SCENARIOS_def SWAM_OVERFLOW_SCENARIO_def
  SWAM_BULK_SCENARIOS_def SWAM_ATOMIC_W1_SCENARIOS_def SWAM_ATOMIC_ALIGN_SCENARIOS_def
  SWAM_SCENARIO_ENTRY_def

section \<open>The catalogue\<close>

definition catalog_load_store_grow :: "SwamScenario list" where
  "catalog_load_store_grow =
     SWAM_LAYOUT_SCENARIOS 1 SWAM_OP_I32_LOAD SWAM_OPCLASS_LOAD 4 False SWAM_VALTYPE_I32 @
     SWAM_LAYOUT_SCENARIOS 4 SWAM_OP_I32_LOAD8_U SWAM_OPCLASS_LOAD 1 False SWAM_VALTYPE_I32 @
     SWAM_LAYOUT_SCENARIOS 7 SWAM_OP_I32_LOAD8_S SWAM_OPCLASS_LOAD 1 True SWAM_VALTYPE_I32 @
     SWAM_LAYOUT_SCENARIOS 10 SWAM_OP_I32_LOAD16_U SWAM_OPCLASS_LOAD 2 False SWAM_VALTYPE_I32 @
     SWAM_LAYOUT_SCENARIOS 13 SWAM_OP_I32_LOAD16_S SWAM_OPCLASS_LOAD 2 True SWAM_VALTYPE_I32 @
     SWAM_LAYOUT_SCENARIOS 16 SWAM_OP_I32_STORE SWAM_OPCLASS_STORE 4 False SWAM_VALTYPE_I32 @
     SWAM_LAYOUT_SCENARIOS 19 SWAM_OP_I32_STORE8 SWAM_OPCLASS_STORE 1 False SWAM_VALTYPE_I32 @
     SWAM_LAYOUT_SCENARIOS 22 SWAM_OP_I32_STORE16 SWAM_OPCLASS_STORE 2 False SWAM_VALTYPE_I32 @
     SWAM_LAYOUT_SCENARIOS 25 SWAM_OP_I64_LOAD SWAM_OPCLASS_LOAD 8 False SWAM_VALTYPE_I64 @
     SWAM_LAYOUT_SCENARIOS 28 SWAM_OP_I64_LOAD8_U SWAM_OPCLASS_LOAD 1 False SWAM_VALTYPE_I64 @
     SWAM_LAYOUT_SCENARIOS 31 SWAM_OP_I64_LOAD8_S SWAM_OPCLASS_LOAD 1 True SWAM_VALTYPE_I64 @
     SWAM_LAYOUT_SCENARIOS 34 SWAM_OP_I64_LOAD16_U SWAM_OPCLASS_LOAD 2 False SWAM_VALTYPE_I64 @
     SWAM_LAYOUT_SCENARIOS 37 SWAM_OP_I64_LOAD16_S SWAM_OPCLASS_LOAD 2 True SWAM_VALTYPE_I64 @
     SWAM_LAYOUT_SCENARIOS 40 SWAM_OP_I64_LOAD32_U SWAM_OPCLASS_LOAD 4 False SWAM_VALTYPE_I64 @
     SWAM_LAYOUT_SCENARIOS 43 SWAM_OP_I64_LOAD32_S SWAM_OPCLASS_LOAD 4 True SWAM_VALTYPE_I64 @
     SWAM_LAYOUT_SCENARIOS 46 SWAM_OP_I64_STORE SWAM_OPCLASS_STORE 8 False SWAM_VALTYPE_I64 @
     SWAM_LAYOUT_SCENARIOS 49 SWAM_OP_I64_STORE8 SWAM_OPCLASS_STORE 1 False SWAM_VALTYPE_I64 @
     SWAM_LAYOUT_SCENARIOS 52 SWAM_OP_I64_STORE16 SWAM_OPCLASS_STORE 2 False SWAM_VALTYPE_I64 @
     SWAM_LAYOUT_SCENARIOS 55 SWAM_OP_I64_STORE32 SWAM_OPCLASS_STORE 4 False SWAM_VALTYPE_I64 @
     SWAM_LAYOUT_SCENARIOS 58 SWAM_OP_F32_LOAD SWAM_OPCLASS_LOAD 4 False SWAM_VALTYPE_F32 @
     SWAM_LAYOUT_SCENARIOS 61 SWAM_OP_F32_STORE SWAM_OPCLASS_STORE 4 False SWAM_VALTYPE_F32 @
     SWAM_LAYOUT_SCENARIOS 64 SWAM_OP_F64_LOAD SWAM_OPCLASS_LOAD 8 False SWAM_VALTYPE_F64 @
     SWAM_LAYOUT_SCENARIOS 67 SWAM_OP_F64_STORE SWAM_OPCLASS_STORE 8 False SWAM_VALTYPE_F64 @
     SWAM_MEMORY_GROW_SCENARIOS 70"

definition catalog_overflow :: "SwamScenario list" where
  "catalog_overflow =
     SWAM_OVERFLOW_SCENARIO 73 SWAM_OP_I32_LOAD SWAM_OPCLASS_LOAD 4 False SWAM_VALTYPE_I32 @
     SWAM_OVERFLOW_SCENARIO 74 SWAM_OP_I32_LOAD8_U SWAM_OPCLASS_LOAD 1 False SWAM_VALTYPE_I32 @
     SWAM_OVERFLOW_SCENARIO 75 SWAM_OP_I32_LOAD8_S SWAM_OPCLASS_LOAD 1 True SWAM_VALTYPE_I32 @
     SWAM_OVERFLOW_SCENARIO 76 SWAM_OP_I32_LOAD16_U SWAM_OPCLASS_LOAD 2 False SWAM_VALTYPE_I32 @
     SWAM_OVERFLOW_SCENARIO 77 SWAM_OP_I32_LOAD16_S SWAM_OPCLASS_LOAD 2 True SWAM_VALTYPE_I32 @
     SWAM_OVERFLOW_SCENARIO 78 SWAM_OP_I32_STORE SWAM_OPCLASS_STORE 4 False SWAM_VALTYPE_I32 @
     SWAM_OVERFLOW_SCENARIO 79 SWAM_OP_I32_STORE8 SWAM_OPCLASS_STORE 1 False SWAM_VALTYPE_I32 @
     SWAM_OVERFLOW_SCENARIO 80 SWAM_OP_I32_STORE16 SWAM_OPCLASS_STORE 2 False SWAM_VALTYPE_I32 @
     SWAM_OVERFLOW_SCENARIO 81 SWAM_OP_I64_LOAD SWAM_OPCLASS_LOAD 8 False SWAM_VALTYPE_I64 @
     SWAM_OVERFLOW_SCENARIO 82 SWAM_OP_I64_LOAD8_U SWAM_OPCLASS_LOAD 1 False SWAM_VALTYPE_I64 @
     SWAM_OVERFLOW_SCENARIO 83 SWAM_OP_I64_LOAD8_S SWAM_OPCLASS_LOAD 1 True SWAM_VALTYPE_I64 @
     SWAM_OVERFLOW_SCENARIO 84 SWAM_OP_I64_LOAD16_U SWAM_OPCLASS_LOAD 2 False SWAM_VALTYPE_I64 @
     SWAM_OVERFLOW_SCENARIO 85 SWAM_OP_I64_LOAD16_S SWAM_OPCLASS_LOAD 2 True SWAM_VALTYPE_I64 @
     SWAM_OVERFLOW_SCENARIO 86 SWAM_OP_I64_LOAD32_U SWAM_OPCLASS_LOAD 4 False SWAM_VALTYPE_I64 @
     SWAM_OVERFLOW_SCENARIO 87 SWAM_OP_I64_LOAD32_S SWAM_OPCLASS_LOAD 4 True SWAM_VALTYPE_I64 @
     SWAM_OVERFLOW_SCENARIO 88 SWAM_OP_I64_STORE SWAM_OPCLASS_STORE 8 False SWAM_VALTYPE_I64 @
     SWAM_OVERFLOW_SCENARIO 89 SWAM_OP_I64_STORE8 SWAM_OPCLASS_STORE 1 False SWAM_VALTYPE_I64 @
     SWAM_OVERFLOW_SCENARIO 90 SWAM_OP_I64_STORE16 SWAM_OPCLASS_STORE 2 False SWAM_VALTYPE_I64 @
     SWAM_OVERFLOW_SCENARIO 91 SWAM_OP_I64_STORE32 SWAM_OPCLASS_STORE 4 False SWAM_VALTYPE_I64 @
     SWAM_OVERFLOW_SCENARIO 92 SWAM_OP_F32_LOAD SWAM_OPCLASS_LOAD 4 False SWAM_VALTYPE_F32 @
     SWAM_OVERFLOW_SCENARIO 93 SWAM_OP_F32_STORE SWAM_OPCLASS_STORE 4 False SWAM_VALTYPE_F32 @
     SWAM_OVERFLOW_SCENARIO 94 SWAM_OP_F64_LOAD SWAM_OPCLASS_LOAD 8 False SWAM_VALTYPE_F64 @
     SWAM_OVERFLOW_SCENARIO 95 SWAM_OP_F64_STORE SWAM_OPCLASS_STORE 8 False SWAM_VALTYPE_F64"

definition catalog_atomic_load_store :: "SwamScenario list" where
  "catalog_atomic_load_store =
     SWAM_ATOMIC_W1_SCENARIOS 96 SWAM_OP_I32_ATOMIC_LOAD8_U SWAM_OPCLASS_ATOMIC_LOAD SWAM_VALTYPE_I32 @
     SWAM_ATOMIC_W1_SCENARIOS 100 SWAM_OP_I32_ATOMIC_STORE8 SWAM_OPCLASS_ATOMIC_STORE SWAM_VALTYPE_I32 @
     SWAM_ATOMIC_W1_SCENARIOS 104 SWAM_OP_I64_ATOMIC_LOAD8_U SWAM_OPCLASS_ATOMIC_LOAD SWAM_VALTYPE_I64 @
     SWAM_ATOMIC_W1_SCENARIOS 108 SWAM_OP_I64_ATOMIC_STORE8 SWAM_OPCLASS_ATOMIC_STORE SWAM_VALTYPE_I64 @
     SWAM_ATOMIC_ALIGN_SCENARIOS 112 SWAM_OP_I32_ATOMIC_LOAD16_U SWAM_OPCLASS_ATOMIC_LOAD 2 SWAM_VALTYPE_I32 @
     SWAM_ATOMIC_ALIGN_SCENARIOS 119 SWAM_OP_I32_ATOMIC_STORE16 SWAM_OPCLASS_ATOMIC_STORE 2 SWAM_VALTYPE_I32 @
     SWAM_ATOMIC_ALIGN_SCENARIOS 126 SWAM_OP_I64_ATOMIC_LOAD16_U SWAM_OPCLASS_ATOMIC_LOAD 2 SWAM_VALTYPE_I64 @
     SWAM_ATOMIC_ALIGN_SCENARIOS 133 SWAM_OP_I64_ATOMIC_STORE16 SWAM_OPCLASS_ATOMIC_STORE 2 SWAM_VALTYPE_I64 @
     SWAM_ATOMIC_ALIGN_SCENARIOS 140 SWAM_OP_I32_ATOMIC_LOAD SWAM_OPCLASS_ATOMIC_LOAD 4 SWAM_VALTYPE_I32 @
     SWAM_ATOMIC_ALIGN_SCENARIOS 147 SWAM_OP_I32_ATOMIC_STORE SWAM_OPCLASS_ATOMIC_STORE 4 SWAM_VALTYPE_I32 @
     SWAM_ATOMIC_ALIGN_SCENARIOS 154 SWAM_OP_I64_ATOMIC_LOAD32_U SWAM_OPCLASS_ATOMIC_LOAD 4 SWAM_VALTYPE_I64 @
     SWAM_ATOMIC_ALIGN_SCENARIOS 161 SWAM_OP_I64_ATOMIC_STORE32 SWAM_OPCLASS_ATOMIC_STORE 4 SWAM_VALTYPE_I64 @
     SWAM_ATOMIC_ALIGN_SCENARIOS 168 SWAM_OP_I64_ATOMIC_LOAD SWAM_OPCLASS_ATOMIC_LOAD 8 SWAM_VALTYPE_I64 @
     SWAM_ATOMIC_ALIGN_SCENARIOS 175 SWAM_OP_I64_ATOMIC_STORE SWAM_OPCLASS_ATOMIC_STORE 8 SWAM_VALTYPE_I64"

definition catalog_atomic_rmw :: "SwamScenario list" where
  "catalog_atomic_rmw =
     SWAM_ATOMIC_W1_SCENARIOS 182 SWAM_OP_I32_ATOMIC_RMW8_ADD_U SWAM_OPCLASS_ATOMIC_RMW SWAM_VALTYPE_I32 @
     SWAM_ATOMIC_W1_SCENARIOS 186 SWAM_OP_I64_ATOMIC_RMW8_ADD_U SWAM_OPCLASS_ATOMIC_RMW SWAM_VALTYPE_I64 @
     SWAM_ATOMIC_ALIGN_SCENARIOS 190 SWAM_OP_I32_ATOMIC_RMW16_ADD_U SWAM_OPCLASS_ATOMIC_RMW 2 SWAM_VALTYPE_I32 @
     SWAM_ATOMIC_ALIGN_SCENARIOS 197 SWAM_OP_I64_ATOMIC_RMW16_ADD_U SWAM_OPCLASS_ATOMIC_RMW 2 SWAM_VALTYPE_I64 @
     SWAM_ATOMIC_ALIGN_SCENARIOS 204 SWAM_OP_I32_ATOMIC_RMW_ADD SWAM_OPCLASS_ATOMIC_RMW 4 SWAM_VALTYPE_I32 @
     SWAM_ATOMIC_ALIGN_SCENARIOS 211 SWAM_OP_I64_ATOMIC_RMW32_ADD_U SWAM_OPCLASS_ATOMIC_RMW 4 SWAM_VALTYPE_I64 @
     SWAM_ATOMIC_ALIGN_SCENARIOS 218 SWAM_OP_I64_ATOMIC_RMW_ADD SWAM_OPCLASS_ATOMIC_RMW 8 SWAM_VALTYPE_I64 @
     SWAM_ATOMIC_W1_SCENARIOS 225 SWAM_OP_I32_ATOMIC_RMW8_SUB_U SWAM_OPCLASS_ATOMIC_RMW SWAM_VALTYPE_I32 @
     SWAM_ATOMIC_W1_SCENARIOS 229 SWAM_OP_I64_ATOMIC_RMW8_SUB_U SWAM_OPCLASS_ATOMIC_RMW SWAM_VALTYPE_I64 @
     SWAM_ATOMIC_ALIGN_SCENARIOS 233 SWAM_OP_I32_ATOMIC_RMW16_SUB_U SWAM_OPCLASS_ATOMIC_RMW 2 SWAM_VALTYPE_I32 @
     SWAM_ATOMIC_ALIGN_SCENARIOS 240 SWAM_OP_I64_ATOMIC_RMW16_SUB_U SWAM_OPCLASS_ATOMIC_RMW 2 SWAM_VALTYPE_I64 @
     SWAM_ATOMIC_ALIGN_SCENARIOS 247 SWAM_OP_I32_ATOMIC_RMW_SUB SWAM_OPCLASS_ATOMIC_RMW 4 SWAM_VALTYPE_I32 @
     SWAM_ATOMIC_ALIGN_SCENARIOS 254 SWAM_OP_I64_ATOMIC_RMW32_SUB_U SWAM_OPCLASS_ATOMIC_RMW 4 SWAM_VALTYPE_I64 @
     SWAM_ATOMIC_ALIGN_SCENARIOS 261 SWAM_OP_I64_ATOMIC_RMW_SUB SWAM_OPCLASS_ATOMIC_RMW 8 SWAM_VALTYPE_I64 @
     SWAM_ATOMIC_W1_SCENARIOS 268 SWAM_OP_I32_ATOMIC_RMW8_AND_U SWAM_OPCLASS_ATOMIC_RMW SWAM_VALTYPE_I32 @
     SWAM_ATOMIC_W1_SCENARIOS 272 SWAM_OP_I64_ATOMIC_RMW8_AND_U SWAM_OPCLASS_ATOMIC_RMW SWAM_VALTYPE_I64 @
     SWAM_ATOMIC_ALIGN_SCENARIOS 276 SWAM_OP_I32_ATOMIC_RMW16_AND_U SWAM_OPCLASS_ATOMIC_RMW 2 SWAM_VALTYPE_I32 @
     SWAM_ATOMIC_ALIGN_SCENARIOS 283 SWAM_OP_I64_ATOMIC_RMW16_AND_U SWAM_OPCLASS_ATOMIC_RMW 2 SWAM_VALTYPE_I64 @
     SWAM_ATOMIC_ALIGN_SCENARIOS 290 SWAM_OP_I32_ATOMIC_RMW_AND SWAM_OPCLASS_ATOMIC_RMW 4 SWAM_VALTYPE_I32 @
     SWAM_ATOMIC_ALIGN_SCENARIOS 297 SWAM_OP_I64_ATOMIC_RMW32_AND_U SWAM_OPCLASS_ATOMIC_RMW 4 SWAM_VALTYPE_I64 @
     SWAM_ATOMIC_ALIGN_SCENARIOS 304 SWAM_OP_I64_ATOMIC_RMW_AND SWAM_OPCLASS_ATOMIC_RMW 8 SWAM_VALTYPE_I64 @
     SWAM_ATOMIC_W1_SCENARIOS 311 SWAM_OP_I32_ATOMIC_RMW8_OR_U SWAM_OPCLASS_ATOMIC_RMW SWAM_VALTYPE_I32 @
     SWAM_ATOMIC_W1_SCENARIOS 315 SWAM_OP_I64_ATOMIC_RMW8_OR_U SWAM_OPCLASS_ATOMIC_RMW SWAM_VALTYPE_I64 @
     SWAM_ATOMIC_ALIGN_SCENARIOS 319 SWAM_OP_I32_ATOMIC_RMW16_OR_U SWAM_OPCLASS_ATOMIC_RMW 2 SWAM_VALTYPE_I32 @
     SWAM_ATOMIC_ALIGN_SCENARIOS 326 SWAM_OP_I64_ATOMIC_RMW16_OR_U SWAM_OPCLASS_ATOMIC_RMW 2 SWAM_VALTYPE_I64 @
     SWAM_ATOMIC_ALIGN_SCENARIOS 333 SWAM_OP_I32_ATOMIC_RMW_OR SWAM_OPCLASS_ATOMIC_RMW 4 SWAM_VALTYPE_I32 @
     SWAM_ATOMIC_ALIGN_SCENARIOS 340 SWAM_OP_I64_ATOMIC_RMW32_OR_U SWAM_OPCLASS_ATOMIC_RMW 4 SWAM_VALTYPE_I64 @
     SWAM_ATOMIC_ALIGN_SCENARIOS 347 SWAM_OP_I64_ATOMIC_RMW_OR SWAM_OPCLASS_ATOMIC_RMW 8 SWAM_VALTYPE_I64 @
     SWAM_ATOMIC_W1_SCENARIOS 354 SWAM_OP_I32_ATOMIC_RMW8_XOR_U SWAM_OPCLASS_ATOMIC_RMW SWAM_VALTYPE_I32 @
     SWAM_ATOMIC_W1_SCENARIOS 358 SWAM_OP_I64_ATOMIC_RMW8_XOR_U SWAM_OPCLASS_ATOMIC_RMW SWAM_VALTYPE_I64 @
     SWAM_ATOMIC_ALIGN_SCENARIOS 362 SWAM_OP_I32_ATOMIC_RMW16_XOR_U SWAM_OPCLASS_ATOMIC_RMW 2 SWAM_VALTYPE_I32 @
     SWAM_ATOMIC_ALIGN_SCENARIOS 369 SWAM_OP_I64_ATOMIC_RMW16_XOR_U SWAM_OPCLASS_ATOMIC_RMW 2 SWAM_VALTYPE_I64 @
     SWAM_ATOMIC_ALIGN_SCENARIOS 376 SWAM_OP_I32_ATOMIC_RMW_XOR SWAM_OPCLASS_ATOMIC_RMW 4 SWAM_VALTYPE_I32 @
     SWAM_ATOMIC_ALIGN_SCENARIOS 383 SWAM_OP_I64_ATOMIC_RMW32_XOR_U SWAM_OPCLASS_ATOMIC_RMW 4 SWAM_VALTYPE_I64 @
     SWAM_ATOMIC_ALIGN_SCENARIOS 390 SWAM_OP_I64_ATOMIC_RMW_XOR SWAM_OPCLASS_ATOMIC_RMW 8 SWAM_VALTYPE_I64 @
     SWAM_ATOMIC_W1_SCENARIOS 397 SWAM_OP_I32_ATOMIC_RMW8_XCHG_U SWAM_OPCLASS_ATOMIC_RMW SWAM_VALTYPE_I32 @
     SWAM_ATOMIC_W1_SCENARIOS 401 SWAM_OP_I64_ATOMIC_RMW8_XCHG_U SWAM_OPCLASS_ATOMIC_RMW SWAM_VALTYPE_I64 @
     SWAM_ATOMIC_ALIGN_SCENARIOS 405 SWAM_OP_I32_ATOMIC_RMW16_XCHG_U SWAM_OPCLASS_ATOMIC_RMW 2 SWAM_VALTYPE_I32 @
     SWAM_ATOMIC_ALIGN_SCENARIOS 412 SWAM_OP_I64_ATOMIC_RMW16_XCHG_U SWAM_OPCLASS_ATOMIC_RMW 2 SWAM_VALTYPE_I64 @
     SWAM_ATOMIC_ALIGN_SCENARIOS 419 SWAM_OP_I32_ATOMIC_RMW_XCHG SWAM_OPCLASS_ATOMIC_RMW 4 SWAM_VALTYPE_I32 @
     SWAM_ATOMIC_ALIGN_SCENARIOS 426 SWAM_OP_I64_ATOMIC_RMW32_XCHG_U SWAM_OPCLASS_ATOMIC_RMW 4 SWAM_VALTYPE_I64 @
     SWAM_ATOMIC_ALIGN_SCENARIOS 433 SWAM_OP_I64_ATOMIC_RMW_XCHG SWAM_OPCLASS_ATOMIC_RMW 8 SWAM_VALTYPE_I64"

definition catalog_cmpxchg_wait_notify :: "SwamScenario list" where
  "catalog_cmpxchg_wait_notify =
     SWAM_ATOMIC_W1_SCENARIOS 440 SWAM_OP_I32_ATOMIC_RMW8_CMPXCHG_U SWAM_OPCLASS_ATOMIC_CMPXCHG SWAM_VALTYPE_I32 @
     SWAM_ATOMIC_W1_SCENARIOS 444 SWAM_OP_I64_ATOMIC_RMW8_CMPXCHG_U SWAM_OPCLASS_ATOMIC_CMPXCHG SWAM_VALTYPE_I64 @
     SWAM_ATOMIC_ALIGN_SCENARIOS 448 SWAM_OP_I32_ATOMIC_RMW16_CMPXCHG_U SWAM_OPCLASS_ATOMIC_CMPXCHG 2 SWAM_VALTYPE_I32 @
     SWAM_ATOMIC_ALIGN_SCENARIOS 455 SWAM_OP_I64_ATOMIC_RMW16_CMPXCHG_U SWAM_OPCLASS_ATOMIC_CMPXCHG 2 SWAM_VALTYPE_I64 @
     SWAM_ATOMIC_ALIGN_SCENARIOS 462 SWAM_OP_I32_ATOMIC_RMW_CMPXCHG SWAM_OPCLASS_ATOMIC_CMPXCHG 4 SWAM_VALTYPE_I32 @
     SWAM_ATOMIC_ALIGN_SCENARIOS 469 SWAM_OP_I64_ATOMIC_RMW32_CMPXCHG_U SWAM_OPCLASS_ATOMIC_CMPXCHG 4 SWAM_VALTYPE_I64 @
     SWAM_ATOMIC_ALIGN_SCENARIOS 476 SWAM_OP_I64_ATOMIC_RMW_CMPXCHG SWAM_OPCLASS_ATOMIC_CMPXCHG 8 SWAM_VALTYPE_I64 @
     SWAM_ATOMIC_ALIGN_SCENARIOS 483 SWAM_OP_MEMORY_ATOMIC_WAIT32 SWAM_OPCLASS_ATOMIC_WAIT 4 SWAM_VALTYPE_I32 @
     SWAM_ATOMIC_ALIGN_SCENARIOS 490 SWAM_OP_MEMORY_ATOMIC_WAIT64 SWAM_OPCLASS_ATOMIC_WAIT 8 SWAM_VALTYPE_I64 @
     SWAM_ATOMIC_ALIGN_SCENARIOS 497 SWAM_OP_MEMORY_ATOMIC_NOTIFY SWAM_OPCLASS_ATOMIC_NOTIFY 4 SWAM_VALTYPE_I32"

definition catalog_simd :: "SwamScenario list" where
  "catalog_simd =
     SWAM_LAYOUT_SCENARIOS 504 SWAM_OP_V128_LOAD SWAM_OPCLASS_SIMD_LOAD 16 False SWAM_VALTYPE_V128 @
     SWAM_OVERFLOW_SCENARIO 507 SWAM_OP_V128_LOAD SWAM_OPCLASS_SIMD_LOAD 16 False SWAM_VALTYPE_V128 @
     SWAM_LAYOUT_SCENARIOS 508 SWAM_OP_V128_LOAD8X8_S SWAM_OPCLASS_SIMD_LOAD 8 False SWAM_VALTYPE_V128 @
     SWAM_OVERFLOW_SCENARIO 511 SWAM_OP_V128_LOAD8X8_S SWAM_OPCLASS_SIMD_LOAD 8 False SWAM_VALTYPE_V128 @
     SWAM_LAYOUT_SCENARIOS 512 SWAM_OP_V128_LOAD8X8_U SWAM_OPCLASS_SIMD_LOAD 8 False SWAM_VALTYPE_V128 @
     SWAM_OVERFLOW_SCENARIO 515 SWAM_OP_V128_LOAD8X8_U SWAM_OPCLASS_SIMD_LOAD 8 False SWAM_VALTYPE_V128 @
     SWAM_LAYOUT_SCENARIOS 516 SWAM_OP_V128_LOAD16X4_S SWAM_OPCLASS_SIMD_LOAD 8 False SWAM_VALTYPE_V128 @
     SWAM_OVERFLOW_SCENARIO 519 SWAM_OP_V128_LOAD16X4_S SWAM_OPCLASS_SIMD_LOAD 8 False SWAM_VALTYPE_V128 @
     SWAM_LAYOUT_SCENARIOS 520 SWAM_OP_V128_LOAD16X4_U SWAM_OPCLASS_SIMD_LOAD 8 False SWAM_VALTYPE_V128 @
     SWAM_OVERFLOW_SCENARIO 523 SWAM_OP_V128_LOAD16X4_U SWAM_OPCLASS_SIMD_LOAD 8 False SWAM_VALTYPE_V128 @
     SWAM_LAYOUT_SCENARIOS 524 SWAM_OP_V128_LOAD32X2_S SWAM_OPCLASS_SIMD_LOAD 8 False SWAM_VALTYPE_V128 @
     SWAM_OVERFLOW_SCENARIO 527 SWAM_OP_V128_LOAD32X2_S SWAM_OPCLASS_SIMD_LOAD 8 False SWAM_VALTYPE_V128 @
     SWAM_LAYOUT_SCENARIOS 528 SWAM_OP_V128_LOAD32X2_U SWAM_OPCLASS_SIMD_LOAD 8 False SWAM_VALTYPE_V128 @
     SWAM_OVERFLOW_SCENARIO 531 SWAM_OP_V128_LOAD32X2_U SWAM_OPCLASS_SIMD_LOAD 8 False SWAM_VALTYPE_V128 @
     SWAM_LAYOUT_SCENARIOS 532 SWAM_OP_V128_LOAD8_SPLAT SWAM_OPCLASS_SIMD_LOAD 1 False SWAM_VALTYPE_V128 @
     SWAM_OVERFLOW_SCENARIO 535 SWAM_OP_V128_LOAD8_SPLAT SWAM_OPCLASS_SIMD_LOAD 1 False SWAM_VALTYPE_V128 @
     SWAM_LAYOUT_SCENARIOS 536 SWAM_OP_V128_LOAD16_SPLAT SWAM_OPCLASS_SIMD_LOAD 2 False SWAM_VALTYPE_V128 @
     SWAM_OVERFLOW_SCENARIO 539 SWAM_OP_V128_LOAD16_SPLAT SWAM_OPCLASS_SIMD_LOAD 2 False SWAM_VALTYPE_V128 @
     SWAM_LAYOUT_SCENARIOS 540 SWAM_OP_V128_LOAD32_SPLAT SWAM_OPCLASS_SIMD_LOAD 4 False SWAM_VALTYPE_V128 @
     SWAM_OVERFLOW_SCENARIO 543 SWAM_OP_V128_LOAD32_SPLAT SWAM_OPCLASS_SIMD_LOAD 4 False SWAM_VALTYPE_V128 @
     SWAM_LAYOUT_SCENARIOS 544 SWAM_OP_V128_LOAD64_SPLAT SWAM_OPCLASS_SIMD_LOAD 8 False SWAM_VALTYPE_V128 @
     SWAM_OVERFLOW_SCENARIO 547 SWAM_OP_V128_LOAD64_SPLAT SWAM_OPCLASS_SIMD_LOAD 8 False SWAM_VALTYPE_V128 @
     SWAM_LAYOUT_SCENARIOS 548 SWAM_OP_V128_LOAD32_ZERO SWAM_OPCLASS_SIMD_LOAD 4 False SWAM_VALTYPE_V128 @
     SWAM_OVERFLOW_SCENARIO 551 SWAM_OP_V128_LOAD32_ZERO SWAM_OPCLASS_SIMD_LOAD 4 False SWAM_VALTYPE_V128 @
     SWAM_LAYOUT_SCENARIOS 552 SWAM_OP_V128_LOAD64_ZERO SWAM_OPCLASS_SIMD_LOAD 8 False SWAM_VALTYPE_V128 @
     SWAM_OVERFLOW_SCENARIO 555 SWAM_OP_V128_LOAD64_ZERO SWAM_OPCLASS_SIMD_LOAD 8 False SWAM_VALTYPE_V128 @
     SWAM_LAYOUT_SCENARIOS 556 SWAM_OP_V128_LOAD8_LANE SWAM_OPCLASS_SIMD_LOAD_LANE 1 False SWAM_VALTYPE_V128 @
     SWAM_OVERFLOW_SCENARIO 559 SWAM_OP_V128_LOAD8_LANE SWAM_OPCLASS_SIMD_LOAD_LANE 1 False SWAM_VALTYPE_V128 @
     SWAM_LAYOUT_SCENARIOS 560 SWAM_OP_V128_LOAD16_LANE SWAM_OPCLASS_SIMD_LOAD_LANE 2 False SWAM_VALTYPE_V128 @
     SWAM_OVERFLOW_SCENARIO 563 SWAM_OP_V128_LOAD16_LANE SWAM_OPCLASS_SIMD_LOAD_LANE 2 False SWAM_VALTYPE_V128 @
     SWAM_LAYOUT_SCENARIOS 564 SWAM_OP_V128_LOAD32_LANE SWAM_OPCLASS_SIMD_LOAD_LANE 4 False SWAM_VALTYPE_V128 @
     SWAM_OVERFLOW_SCENARIO 567 SWAM_OP_V128_LOAD32_LANE SWAM_OPCLASS_SIMD_LOAD_LANE 4 False SWAM_VALTYPE_V128 @
     SWAM_LAYOUT_SCENARIOS 568 SWAM_OP_V128_LOAD64_LANE SWAM_OPCLASS_SIMD_LOAD_LANE 8 False SWAM_VALTYPE_V128 @
     SWAM_OVERFLOW_SCENARIO 571 SWAM_OP_V128_LOAD64_LANE SWAM_OPCLASS_SIMD_LOAD_LANE 8 False SWAM_VALTYPE_V128 @
     SWAM_LAYOUT_SCENARIOS 572 SWAM_OP_V128_STORE SWAM_OPCLASS_SIMD_STORE 16 False SWAM_VALTYPE_V128 @
     SWAM_OVERFLOW_SCENARIO 575 SWAM_OP_V128_STORE SWAM_OPCLASS_SIMD_STORE 16 False SWAM_VALTYPE_V128 @
     SWAM_LAYOUT_SCENARIOS 576 SWAM_OP_V128_STORE8_LANE SWAM_OPCLASS_SIMD_STORE_LANE 1 False SWAM_VALTYPE_V128 @
     SWAM_OVERFLOW_SCENARIO 579 SWAM_OP_V128_STORE8_LANE SWAM_OPCLASS_SIMD_STORE_LANE 1 False SWAM_VALTYPE_V128 @
     SWAM_LAYOUT_SCENARIOS 580 SWAM_OP_V128_STORE16_LANE SWAM_OPCLASS_SIMD_STORE_LANE 2 False SWAM_VALTYPE_V128 @
     SWAM_OVERFLOW_SCENARIO 583 SWAM_OP_V128_STORE16_LANE SWAM_OPCLASS_SIMD_STORE_LANE 2 False SWAM_VALTYPE_V128 @
     SWAM_LAYOUT_SCENARIOS 584 SWAM_OP_V128_STORE32_LANE SWAM_OPCLASS_SIMD_STORE_LANE 4 False SWAM_VALTYPE_V128 @
     SWAM_OVERFLOW_SCENARIO 587 SWAM_OP_V128_STORE32_LANE SWAM_OPCLASS_SIMD_STORE_LANE 4 False SWAM_VALTYPE_V128 @
     SWAM_LAYOUT_SCENARIOS 588 SWAM_OP_V128_STORE64_LANE SWAM_OPCLASS_SIMD_STORE_LANE 8 False SWAM_VALTYPE_V128 @
     SWAM_OVERFLOW_SCENARIO 591 SWAM_OP_V128_STORE64_LANE SWAM_OPCLASS_SIMD_STORE_LANE 8 False SWAM_VALTYPE_V128"

definition catalog_bulk :: "SwamScenario list" where
  "catalog_bulk =
     SWAM_BULK_SCENARIOS 592 SWAM_OP_MEMORY_COPY SWAM_OPCLASS_BULK_COPY @
     SWAM_BULK_SCENARIOS 595 SWAM_OP_MEMORY_FILL SWAM_OPCLASS_BULK_FILL @
     SWAM_BULK_SCENARIOS 598 SWAM_OP_MEMORY_INIT SWAM_OPCLASS_BULK_INIT"

definition swam_scenario_catalog :: "SwamScenario list" where
  "swam_scenario_catalog =
     catalog_load_store_grow @ catalog_overflow @ catalog_atomic_load_store @
     catalog_atomic_rmw @ catalog_cmpxchg_wait_notify @ catalog_simd @ catalog_bulk"

lemmas catalog_defs =
  catalog_load_store_grow_def catalog_overflow_def catalog_atomic_load_store_def
  catalog_atomic_rmw_def catalog_cmpxchg_wait_notify_def catalog_simd_def catalog_bulk_def

definition swam_scenario_count :: u32 where
  "swam_scenario_count = of_nat (length swam_scenario_catalog)"

definition swam_get_scenario :: "u32 \<Rightarrow> SwamScenario option" where
  "swam_get_scenario i =
     (if i < 1 \<or> i > of_nat (length swam_scenario_catalog) then None
      else Some (swam_scenario_catalog ! unat (i - 1)))"

definition swam_get_random_scenario :: "u32 \<Rightarrow> SwamScenario" where
  "swam_get_random_scenario rand_val =
     swam_scenario_catalog ! unat (rand_val mod of_nat (length swam_scenario_catalog))"
section \<open>The table is indexed by its identifiers\<close>

lemma list_all_catalog:
  "list_all P swam_scenario_catalog \<longleftrightarrow>
     list_all P catalog_load_store_grow \<and> list_all P catalog_overflow \<and>
     list_all P catalog_atomic_load_store \<and> list_all P catalog_atomic_rmw \<and>
     list_all P catalog_cmpxchg_wait_notify \<and> list_all P catalog_simd \<and>
     list_all P catalog_bulk"
  by (simp add: swam_scenario_catalog_def)

lemma catalog_lengths:
  "length catalog_load_store_grow = 72" "length catalog_overflow = 23"
  "length catalog_atomic_load_store = 86" "length catalog_atomic_rmw = 258"
  "length catalog_cmpxchg_wait_notify = 64" "length catalog_simd = 88" "length catalog_bulk = 9"
  by (simp_all add: catalog_defs scenario_macro_defs)

lemma catalog_length: "length swam_scenario_catalog = 600"
  by (simp add: swam_scenario_catalog_def catalog_lengths)

lemma catalog_segment_ids:
  "map sc_id catalog_load_store_grow = map of_nat [1..<73]"
  "map sc_id catalog_overflow = map of_nat [73..<96]"
  "map sc_id catalog_atomic_load_store = map of_nat [96..<182]"
  "map sc_id catalog_atomic_rmw = map of_nat [182..<440]"
  "map sc_id catalog_cmpxchg_wait_notify = map of_nat [440..<504]"
  "map sc_id catalog_simd = map of_nat [504..<592]"
  "map sc_id catalog_bulk = map of_nat [592..<601]"
  by (simp_all add: catalog_defs scenario_macro_defs upt_rec)

lemma catalog_ids: "map sc_id swam_scenario_catalog = map of_nat [1..<601]"
proof -
  have cuts:
    "[1..<601] = [1..<73] @ [73..<601]" "[73..<601] = [73..<96] @ [96..<601]"
    "[96..<601] = [96..<182] @ [182..<601]" "[182..<601] = [182..<440] @ [440..<601]"
    "[440..<601] = [440..<504] @ [504..<601]" "[504..<601] = [504..<592] @ [592..<601]"
    by (rule upt_cut, simp, simp)+
  show ?thesis
    by (simp only: swam_scenario_catalog_def map_append catalog_segment_ids cuts)
qed

lemma catalog_nth_id: "i < 600 \<Longrightarrow> sc_id (swam_scenario_catalog ! i) = of_nat (Suc i)"
proof -
  assume i: "i < 600"
  then have "sc_id (swam_scenario_catalog ! i) = map sc_id swam_scenario_catalog ! i"
    by (simp add: catalog_length)
  also have "\<dots> = of_nat (Suc i)"
    using i by (simp add: catalog_ids)
  finally show ?thesis .
qed

lemma swam_scenario_count_eq [simp]: "swam_scenario_count = 600"
  by (simp add: swam_scenario_count_def catalog_length)

lemma swam_get_scenario_Some:
  "swam_get_scenario i = Some s \<longleftrightarrow>
     1 \<le> unat i \<and> unat i \<le> 600 \<and> s = swam_scenario_catalog ! (unat i - 1)"
proof -
  have "unat (i - 1) = unat i - 1" if "1 \<le> unat i"
    using that by (simp add: unat_sub word_le_nat_alt)
  then show ?thesis
    by (auto simp: swam_get_scenario_def catalog_length word_less_nat_alt not_less)
qed

lemma swam_get_scenario_id:
  assumes "swam_get_scenario i = Some s"
  shows "sc_id s = i"
proof -
  from assms have i: "1 \<le> unat i" "unat i \<le> 600" and s: "s = swam_scenario_catalog ! (unat i - 1)"
    by (auto simp: swam_get_scenario_Some)
  from i have "sc_id s = of_nat (Suc (unat i - 1))"
    unfolding s by (intro catalog_nth_id) simp
  with i show ?thesis by simp
qed

lemma swam_get_scenario_mem:
  "swam_get_scenario i = Some s \<Longrightarrow> s \<in> set swam_scenario_catalog"
  by (auto simp: swam_get_scenario_Some catalog_length intro!: nth_mem)

section \<open>Which rows occur\<close>

definition swam_opclass_atomic :: "SwamOpClass \<Rightarrow> bool" where
  "swam_opclass_atomic c \<longleftrightarrow>
     c \<in> {SWAM_OPCLASS_ATOMIC_LOAD, SWAM_OPCLASS_ATOMIC_STORE, SWAM_OPCLASS_ATOMIC_RMW,
          SWAM_OPCLASS_ATOMIC_CMPXCHG, SWAM_OPCLASS_ATOMIC_WAIT, SWAM_OPCLASS_ATOMIC_NOTIFY}"

definition swam_opclass_bulk :: "SwamOpClass \<Rightarrow> bool" where
  "swam_opclass_bulk c \<longleftrightarrow>
     c \<in> {SWAM_OPCLASS_BULK_COPY, SWAM_OPCLASS_BULK_FILL, SWAM_OPCLASS_BULK_INIT}"

text \<open>
  The shape of a row: a \<^verbatim>\<open>memory.grow\<close> row has width 0 and no expectation; every other row is
  expected to trap exactly when its layout is out of bounds, its address computation overflows
  or its address is misaligned. Only atomic rows wider than a byte carry an alignment, and
  their widths are powers of two, as are all widths.
\<close>

definition scenario_wf :: "SwamScenario \<Rightarrow> bool" where
  "scenario_wf s \<longleftrightarrow>
     (if sc_op_class s = SWAM_OPCLASS_MEMORY_GROW
      then sc_access_width s = 0 \<and> sc_expected s = SWAM_EXPECT_UNKNOWN \<and>
           sc_wrap s = SWAM_WRAP_NO_WRAP \<and> sc_align s = SWAM_ALIGN_NA
      else (sc_expected s =
              (if sc_layout s = SWAM_LAYOUT_OOB \<or> sc_wrap s = SWAM_WRAP_OVERFLOW \<or>
                  sc_align s = SWAM_ALIGN_MISALIGNED
               then SWAM_EXPECT_TRAP else SWAM_EXPECT_NO_TRAP)) \<and>
           sc_access_width s \<in> {1, 2, 4, 8, 16} \<and>
           sc_layout s \<noteq> SWAM_LAYOUT_COUNT \<and> sc_wrap s \<noteq> SWAM_WRAP_COUNT \<and>
           sc_align s \<noteq> SWAM_ALIGN_COUNT \<and>
           (sc_align s = SWAM_ALIGN_NA \<longleftrightarrow>
              \<not> (swam_opclass_atomic (sc_op_class s) \<and> sc_access_width s \<noteq> 1)) \<and>
           (swam_opclass_bulk (sc_op_class s) \<longrightarrow>
              sc_access_width s = 1 \<and> sc_wrap s = SWAM_WRAP_NO_WRAP) \<and>
           (sc_wrap s = SWAM_WRAP_OVERFLOW \<longrightarrow> sc_layout s = SWAM_LAYOUT_INTERIOR) \<and>
           (sc_op_class s = SWAM_OPCLASS_SIMD_STORE \<longrightarrow> sc_access_width s = 16) \<and>
           (sc_op_class s = SWAM_OPCLASS_SIMD_LOAD \<longrightarrow>
              (sc_op_kind s = SWAM_OP_V128_LOAD) = (sc_access_width s = 16)))"

lemma catalog_segments_wf:
  "list_all scenario_wf catalog_load_store_grow" "list_all scenario_wf catalog_overflow"
  "list_all scenario_wf catalog_atomic_load_store" "list_all scenario_wf catalog_atomic_rmw"
  "list_all scenario_wf catalog_cmpxchg_wait_notify" "list_all scenario_wf catalog_simd"
  "list_all scenario_wf catalog_bulk"
  by (simp_all add: catalog_defs scenario_macro_defs scenario_wf_def swam_opclass_atomic_def
        swam_opclass_bulk_def)

lemma catalog_wf: "s \<in> set swam_scenario_catalog \<Longrightarrow> scenario_wf s"
proof -
  have "list_all scenario_wf swam_scenario_catalog"
    by (simp add: list_all_catalog catalog_segments_wf)
  then show "s \<in> set swam_scenario_catalog \<Longrightarrow> scenario_wf s"
    by (simp add: list_all_iff)
qed

section \<open>Properties\<close>

text \<open>
  The catalogue is indexed by its own identifiers: it has 600 rows, looking an identifier
  up succeeds exactly for 1 to 600, the row found carries the identifier that was asked for,
  and a random draw always lands on a row that the lookup by identifier finds again.
\<close>

theorem swam_catalog_indexed:
  "swam_scenario_count = 600 \<and>
   (swam_get_scenario i = None \<longleftrightarrow> i = 0 \<or> 600 < i) \<and>
   map_option sc_id (swam_get_scenario i) = (if i = 0 \<or> 600 < i then None else Some i) \<and>
   swam_get_scenario (sc_id (swam_get_random_scenario r)) = Some (swam_get_random_scenario r)"
proof -
  have none: "swam_get_scenario i = None \<longleftrightarrow> i = 0 \<or> 600 < i"
    by (auto simp: swam_get_scenario_def catalog_length word_less_nat_alt unat_0_iff)
  moreover have "map_option sc_id (swam_get_scenario i) =
      (if i = 0 \<or> 600 < i then None else Some i)"
    using none swam_get_scenario_id [of i] by (cases "swam_get_scenario i") auto
  moreover have "swam_get_scenario (sc_id (swam_get_random_scenario r)) =
      Some (swam_get_random_scenario r)"
  proof -
    have k: "unat (r mod 600) < 600" by (simp add: unat_mod_distrib)
    then have u: "unat (of_nat (Suc (unat (r mod 600))) :: u32) = Suc (unat (r mod 600))"
      by (simp only: unat_of_nat) (simp del: of_nat_Suc)
    show ?thesis
      unfolding swam_get_random_scenario_def catalog_length
      using k by (simp add: catalog_nth_id swam_get_scenario_Some u del: of_nat_Suc)
  qed
  ultimately show ?thesis by simp
qed

end
