(* ===== verification/Swam_Profile.thy ===== *)
theory Swam_Profile
  imports Swam_Scenarios
begin

text \<open>
  Runtime capability profiles, \<^verbatim>\<open>swam_profile.h\<close> and \<^verbatim>\<open>swam_profile.c\<close>: the proposal bits,
  the built-in table of runtimes, the lookup by name, the proposal an operation class needs
  and the test whether a profile supports an operation class.
\<close>

unbundle bit_operations_syntax

definition SWAM_PROPOSAL_MVP :: u32 where "SWAM_PROPOSAL_MVP = push_bit 0 1"

definition SWAM_PROPOSAL_THREADS :: u32 where "SWAM_PROPOSAL_THREADS = push_bit 1 1"

definition SWAM_PROPOSAL_SIMD :: u32 where "SWAM_PROPOSAL_SIMD = push_bit 2 1"

definition SWAM_PROPOSAL_BULK :: u32 where "SWAM_PROPOSAL_BULK = push_bit 3 1"

definition SWAM_PROPOSAL_MEMORY64 :: u32 where "SWAM_PROPOSAL_MEMORY64 = push_bit 4 1"

definition SWAM_PROPOSAL_MULTI_MEM :: u32 where "SWAM_PROPOSAL_MULTI_MEM = push_bit 5 1"

definition SWAM_PROPOSALS_ALL :: u32 where "SWAM_PROPOSALS_ALL = 0xFFFFFFFF"

lemmas proposal_defs =
  SWAM_PROPOSAL_MVP_def SWAM_PROPOSAL_THREADS_def SWAM_PROPOSAL_SIMD_def
  SWAM_PROPOSAL_BULK_def SWAM_PROPOSAL_MEMORY64_def SWAM_PROPOSAL_MULTI_MEM_def
  SWAM_PROPOSALS_ALL_def

datatype SwamIpcKind = SWAM_IPC_SHM | SWAM_IPC_FILE

record SwamRuntimeProfile =
  rp_name :: string
  rp_proposals :: u32
  rp_excluded_opclasses :: "SwamOpClass list"
  rp_marker_ipc :: SwamIpcKind
  rp_cli_notes :: string

definition wasm3_excluded_opclasses :: "SwamOpClass list" where
  "wasm3_excluded_opclasses = [SWAM_OPCLASS_BULK_INIT]"

definition swam_profiles :: "SwamRuntimeProfile list" where
  "swam_profiles =
     [ \<lparr> rp_name = ''wasm3'',
         rp_proposals = SWAM_PROPOSAL_MVP OR SWAM_PROPOSAL_BULK,
         rp_excluded_opclasses = wasm3_excluded_opclasses,
         rp_marker_ipc = SWAM_IPC_SHM, rp_cli_notes = ''--func main @@'' \<rparr>,
       \<lparr> rp_name = ''wamr'',
         rp_proposals = SWAM_PROPOSAL_MVP OR SWAM_PROPOSAL_THREADS OR SWAM_PROPOSAL_SIMD OR
           SWAM_PROPOSAL_BULK OR SWAM_PROPOSAL_MEMORY64,
         rp_excluded_opclasses = [],
         rp_marker_ipc = SWAM_IPC_SHM, rp_cli_notes = ''--function main @@'' \<rparr>,
       \<lparr> rp_name = ''wasmtime'',
         rp_proposals = SWAM_PROPOSAL_MVP OR SWAM_PROPOSAL_THREADS OR SWAM_PROPOSAL_SIMD OR
           SWAM_PROPOSAL_BULK OR SWAM_PROPOSAL_MEMORY64 OR SWAM_PROPOSAL_MULTI_MEM,
         rp_excluded_opclasses = [],
         rp_marker_ipc = SWAM_IPC_SHM, rp_cli_notes = ''run --invoke main (stdin)'' \<rparr>,
       \<lparr> rp_name = ''wasmer'',
         rp_proposals = SWAM_PROPOSAL_MVP OR SWAM_PROPOSAL_THREADS OR SWAM_PROPOSAL_SIMD OR
           SWAM_PROPOSAL_BULK,
         rp_excluded_opclasses = [],
         rp_marker_ipc = SWAM_IPC_SHM,
         rp_cli_notes = ''run --cranelift --enable-bulk-memory --enable-simd ...'' \<rparr>,
       \<lparr> rp_name = ''wasm-interp'',
         rp_proposals = SWAM_PROPOSAL_MVP OR SWAM_PROPOSAL_THREADS OR SWAM_PROPOSAL_SIMD OR
           SWAM_PROPOSAL_BULK OR SWAM_PROPOSAL_MEMORY64 OR SWAM_PROPOSAL_MULTI_MEM,
         rp_excluded_opclasses = [],
         rp_marker_ipc = SWAM_IPC_SHM, rp_cli_notes = ''--enable-all --run-all-exports @@'' \<rparr>,
       \<lparr> rp_name = ''v8'',
         rp_proposals = SWAM_PROPOSAL_MVP OR SWAM_PROPOSAL_THREADS OR SWAM_PROPOSAL_SIMD OR
           SWAM_PROPOSAL_BULK OR SWAM_PROPOSAL_MEMORY64 OR SWAM_PROPOSAL_MULTI_MEM,
         rp_excluded_opclasses = [],
         rp_marker_ipc = SWAM_IPC_FILE, rp_cli_notes = ''src/v8_harness.js -- @@'' \<rparr>,
       \<lparr> rp_name = ''jsc'',
         rp_proposals = SWAM_PROPOSAL_MVP OR SWAM_PROPOSAL_THREADS OR SWAM_PROPOSAL_SIMD OR
           SWAM_PROPOSAL_BULK,
         rp_excluded_opclasses = [],
         rp_marker_ipc = SWAM_IPC_FILE, rp_cli_notes = ''src/jsc_harness.js -- @@'' \<rparr>,
       \<lparr> rp_name = ''spidermonkey'',
         rp_proposals = SWAM_PROPOSAL_MVP OR SWAM_PROPOSAL_THREADS OR SWAM_PROPOSAL_SIMD OR
           SWAM_PROPOSAL_BULK,
         rp_excluded_opclasses = [],
         rp_marker_ipc = SWAM_IPC_FILE, rp_cli_notes = ''src/spidermonkey_harness.js @@'' \<rparr> ]"

text \<open>A \<^verbatim>\<open>NULL\<close> name and a \<^verbatim>\<open>NULL\<close> profile are \<open>None\<close>.\<close>

definition swam_profile_lookup :: "string option \<Rightarrow> SwamRuntimeProfile option" where
  "swam_profile_lookup name =
     (case name of
        None \<Rightarrow> None
      | Some n \<Rightarrow> if n = ''all'' then None
                  else List.find (\<lambda>p. rp_name p = n) swam_profiles)"

fun swam_opclass_required_proposal :: "SwamOpClass \<Rightarrow> u32" where
  "swam_opclass_required_proposal SWAM_OPCLASS_LOAD = SWAM_PROPOSAL_MVP"
| "swam_opclass_required_proposal SWAM_OPCLASS_STORE = SWAM_PROPOSAL_MVP"
| "swam_opclass_required_proposal SWAM_OPCLASS_MEMORY_GROW = SWAM_PROPOSAL_MVP"
| "swam_opclass_required_proposal SWAM_OPCLASS_ATOMIC_LOAD = SWAM_PROPOSAL_THREADS"
| "swam_opclass_required_proposal SWAM_OPCLASS_ATOMIC_STORE = SWAM_PROPOSAL_THREADS"
| "swam_opclass_required_proposal SWAM_OPCLASS_ATOMIC_RMW = SWAM_PROPOSAL_THREADS"
| "swam_opclass_required_proposal SWAM_OPCLASS_ATOMIC_CMPXCHG = SWAM_PROPOSAL_THREADS"
| "swam_opclass_required_proposal SWAM_OPCLASS_ATOMIC_WAIT = SWAM_PROPOSAL_THREADS"
| "swam_opclass_required_proposal SWAM_OPCLASS_ATOMIC_NOTIFY = SWAM_PROPOSAL_THREADS"
| "swam_opclass_required_proposal SWAM_OPCLASS_SIMD_LOAD = SWAM_PROPOSAL_SIMD"
| "swam_opclass_required_proposal SWAM_OPCLASS_SIMD_LOAD_LANE = SWAM_PROPOSAL_SIMD"
| "swam_opclass_required_proposal SWAM_OPCLASS_SIMD_STORE = SWAM_PROPOSAL_SIMD"
| "swam_opclass_required_proposal SWAM_OPCLASS_SIMD_STORE_LANE = SWAM_PROPOSAL_SIMD"
| "swam_opclass_required_proposal SWAM_OPCLASS_BULK_COPY = SWAM_PROPOSAL_BULK"
| "swam_opclass_required_proposal SWAM_OPCLASS_BULK_FILL = SWAM_PROPOSAL_BULK"
| "swam_opclass_required_proposal SWAM_OPCLASS_BULK_INIT = SWAM_PROPOSAL_BULK"

fun excluded_loop :: "SwamOpClass list \<Rightarrow> SwamOpClass \<Rightarrow> bool" where
  "excluded_loop [] op_class = True"
| "excluded_loop (e # es) op_class = (if e = op_class then False else excluded_loop es op_class)"

definition swam_profile_supports_opclass ::
  "SwamRuntimeProfile option \<Rightarrow> SwamOpClass \<Rightarrow> bool" where
  "swam_profile_supports_opclass profile op_class =
     (case profile of
        None \<Rightarrow> True
      | Some p \<Rightarrow>
          if rp_proposals p AND swam_opclass_required_proposal op_class = 0 then False
          else excluded_loop (rp_excluded_opclasses p) op_class)"

section \<open>Properties\<close>

lemma excluded_loop_iff: "excluded_loop es c \<longleftrightarrow> c \<notin> set es"
  by (induction es) auto

lemma required_proposal_nonzero: "swam_opclass_required_proposal c \<noteq> 0"
  by (cases c) (simp_all add: proposal_defs)

lemma proposals_all_minus1: "SWAM_PROPOSALS_ALL = - 1"
  by (simp add: SWAM_PROPOSALS_ALL_def)

lemma proposals_all_and [simp]: "SWAM_PROPOSALS_ALL AND x = x"
  unfolding proposals_all_minus1 by simp

text \<open>
  The capability table in the comment at the head of \<^verbatim>\<open>swam_profile.c\<close>: a row per runtime with
  the columns MVP, THREADS, SIMD, BULK, MEM64 and MULTI\_MEM, and the IPC kind.
\<close>

definition documented_profiles :: "(string \<times> bool list \<times> SwamIpcKind) list" where
  "documented_profiles =
     [ (''wasm3'', [True, False, False, True, False, False], SWAM_IPC_SHM),
       (''wamr'', [True, True, True, True, True, False], SWAM_IPC_SHM),
       (''wasmtime'', [True, True, True, True, True, True], SWAM_IPC_SHM),
       (''wasmer'', [True, True, True, True, False, False], SWAM_IPC_SHM),
       (''wasm-interp'', [True, True, True, True, True, True], SWAM_IPC_SHM),
       (''v8'', [True, True, True, True, True, True], SWAM_IPC_FILE),
       (''jsc'', [True, True, True, True, False, False], SWAM_IPC_FILE),
       (''spidermonkey'', [True, True, True, True, False, False], SWAM_IPC_FILE) ]"

definition proposal_columns :: "SwamRuntimeProfile \<Rightarrow> bool list" where
  "proposal_columns p =
     map (\<lambda>b. rp_proposals p AND b \<noteq> 0)
       [SWAM_PROPOSAL_MVP, SWAM_PROPOSAL_THREADS, SWAM_PROPOSAL_SIMD, SWAM_PROPOSAL_BULK,
        SWAM_PROPOSAL_MEMORY64, SWAM_PROPOSAL_MULTI_MEM]"

text \<open>
  The built-in profiles implement the documented capability table row by row; the lookup
  finds exactly these names (never the special name \<open>all\<close>) and returns the profile of that
  name; and an operation class is supported exactly when its proposal bit is set and the
  profile does not exclude it, so that the only combination excluded beyond the table is
  \<^verbatim>\<open>memory.init\<close> on wasm3.
\<close>

theorem swam_profiles_documented:
  "map (\<lambda>p. (rp_name p, proposal_columns p, rp_marker_ipc p)) swam_profiles = documented_profiles \<and>
   map_option rp_name (swam_profile_lookup (Some n)) =
     (if n \<in> set (map rp_name swam_profiles) then Some n else None) \<and>
   swam_profile_lookup (Some ''all'') = None \<and>
   (swam_profile_supports_opclass (Some p) c \<longleftrightarrow>
      rp_proposals p AND swam_opclass_required_proposal c \<noteq> 0 \<and>
      c \<notin> set (rp_excluded_opclasses p)) \<and>
   filter (\<lambda>p. rp_excluded_opclasses p \<noteq> []) swam_profiles = [hd swam_profiles] \<and>
   rp_excluded_opclasses (hd swam_profiles) = [SWAM_OPCLASS_BULK_INIT]"
proof (intro conjI)
  show "map (\<lambda>p. (rp_name p, proposal_columns p, rp_marker_ipc p)) swam_profiles =
      documented_profiles"
    by (simp add: swam_profiles_def documented_profiles_def proposal_columns_def proposal_defs)
  show "map_option rp_name (swam_profile_lookup (Some n)) =
     (if n \<in> set (map rp_name swam_profiles) then Some n else None)"
  proof (cases "n = ''all''")
    case True
    then show ?thesis by (simp add: swam_profile_lookup_def swam_profiles_def)
  next
    case False
    then have lk: "swam_profile_lookup (Some n) = List.find (\<lambda>p. rp_name p = n) swam_profiles"
      by (simp add: swam_profile_lookup_def)
    show ?thesis
    proof (cases "List.find (\<lambda>p. rp_name p = n) swam_profiles")
      case None
      then show ?thesis by (auto simp: lk find_None_iff)
    next
      case (Some q)
      then have "q \<in> set swam_profiles \<and> rp_name q = n" by (auto simp: find_Some_iff)
      then show ?thesis by (auto simp: lk Some)
    qed
  qed
qed (simp_all add: swam_profile_lookup_def swam_profile_supports_opclass_def excluded_loop_iff
      swam_profiles_def wasm3_excluded_opclasses_def)

end
