(* ===== verification/Afl_Rand.thy ===== *)
theory Afl_Rand
  imports Prelude
begin

text \<open>
  The fuzzer's random numbers: \<^verbatim>\<open>rand_set_seed\<close> and the romuDuoJr generator
  \<^verbatim>\<open>rand_next\<close> of \<^verbatim>\<open>src/afl-performance.c\<close> (the 64-bit build), and
  \<^verbatim>\<open>rand_below\<close>, \<^verbatim>\<open>rand_below_datalen\<close> and \<^verbatim>\<open>rand_get_seed\<close> of
  \<^verbatim>\<open>include/afl-fuzz.h\<close>. The state is the part of \<^verbatim>\<open>afl_state_t\<close> these functions use. Reads of
  \<^verbatim>\<open>/dev/urandom\<close> are taken from a list of blocks; an exhausted list is a failing read, which
  aborts the process. The rejection loop of \<^verbatim>\<open>rand_below\<close> need not end for every generator
  state, so its result is an option: \<open>None\<close> is a call that does not return.
\<close>

unbundle bit_operations_syntax

section \<open>Generator\<close>

record afl_rng =
  rand_seed0 :: u64
  rand_seed1 :: u64
  rand_seed2 :: u64
  init_seed :: u64
  rand_cnt :: u32
  fixed_seed :: bool
  dev_urandom :: "(u64 \<times> u64 \<times> u64) list"

definition ROTL :: "u64 \<Rightarrow> nat \<Rightarrow> u64" where
  "ROTL d lrot = (push_bit lrot d) OR (drop_bit (64 - lrot) d)"

text \<open>The hash of the seed bytes (XXH3, a vendored header) is the argument \<open>hash64\<close>.\<close>

definition rand_set_seed :: "(u64 \<Rightarrow> u64) \<Rightarrow> afl_rng \<Rightarrow> u64 \<Rightarrow> afl_rng" where
  "rand_set_seed hash64 afl seed =
     (let s0 = hash64 seed;
          s1 = s0 XOR 0x1234567890abcdef;
          s2 = (s0 AND 0x1234567890abcdef) XOR (s1 OR 0xfedcba9876543210)
      in afl\<lparr> init_seed := seed, rand_seed0 := s0, rand_seed1 := s1, rand_seed2 := s2 \<rparr>)"

definition rand_next :: "afl_rng \<Rightarrow> u64 \<times> afl_rng" where
  "rand_next afl =
     (let xp = rand_seed0 afl;
          s0 = 15241094284759029579 * rand_seed1 afl;
          s1 = rand_seed1 afl - xp
      in (xp, afl\<lparr> rand_seed0 := s0, rand_seed1 := ROTL s1 27 \<rparr>))"

definition RESEED_RNG :: u64 where
  "RESEED_RNG = 2500000"

text \<open>The first draw the rejection test lets through, with \<^verbatim>\<open>UINT64_MAX\<close> written \<open>-1\<close>.\<close>

definition rand_zone :: "u32 \<Rightarrow> u64" where
  "rand_zone limit = -1 - ((-1) mod ucast limit)"

partial_function (option) rand_unbiased :: "u32 \<Rightarrow> afl_rng \<Rightarrow> (u64 \<times> afl_rng) option" where
  "rand_unbiased limit afl =
     (let (rnd, afl') = rand_next afl
      in if rnd \<ge> rand_zone limit then rand_unbiased limit afl' else Some (rnd, afl'))"

definition rand_reseed :: "afl_rng \<Rightarrow> afl_rng option" where
  "rand_reseed afl =
     (let afl' = afl\<lparr> rand_cnt := rand_cnt afl - 1 \<rparr>
      in if rand_cnt afl = 0 \<and> \<not> fixed_seed afl then
           (case dev_urandom afl of
              [] \<Rightarrow> None
            | (a, b, c) # rest \<Rightarrow>
                Some (afl'\<lparr> rand_seed0 := a, rand_seed1 := b, rand_seed2 := c,
                            dev_urandom := rest,
                            rand_cnt := ucast (RESEED_RNG div 2 + b mod RESEED_RNG) \<rparr>))
         else Some afl')"

definition rand_below :: "afl_rng \<Rightarrow> u32 \<Rightarrow> (u32 \<times> afl_rng) option" where
  "rand_below afl limit =
     (if limit \<le> 1 then Some (0, afl)
      else case rand_reseed afl of
             None \<Rightarrow> None
           | Some afl1 \<Rightarrow>
               (case rand_unbiased limit afl1 of
                  None \<Rightarrow> None
                | Some (rnd, afl2) \<Rightarrow> Some (ucast (rnd mod ucast limit), afl2)))"

definition rand_get_seed :: "afl_rng \<Rightarrow> u64" where
  "rand_get_seed afl = (if fixed_seed afl then init_seed afl else rand_seed0 afl)"

text \<open>
  \<^verbatim>\<open>rand_below_datalen\<close>, its calls in the order in which they are written. C leaves the
  order of the operands of \<^verbatim>\<open>%\<close> open.
\<close>

definition rand_below_datalen :: "afl_rng \<Rightarrow> u32 \<Rightarrow> (u32 \<times> afl_rng) option" where
  "rand_below_datalen afl limit =
     (if limit \<le> 1 then Some (0, afl)
      else Option.bind (rand_below afl 3) (\<lambda>(c, afl0).
        if c = 2 then
          Option.bind (rand_below afl0 limit) (\<lambda>(x, afl1).
          Option.bind (rand_below afl1 (limit - 1)) (\<lambda>(y, afl2).
          Option.bind (rand_below afl2 (limit - 1)) (\<lambda>(z, afl3).
            Some ((x mod (1 + y)) mod (1 + z), afl3))))
        else if c = 1 then
          Option.bind (rand_below afl0 limit) (\<lambda>(x, afl1).
          Option.bind (rand_below afl1 (limit - 1)) (\<lambda>(y, afl2).
            Some (x mod (1 + y), afl2)))
        else if c = 0 then rand_below afl0 limit
        else Some (1, afl0)))"

section \<open>Bounds\<close>

lemma rand_unbiased_zone:
  assumes "rand_unbiased limit afl = Some (r, afl')"
  shows "r < rand_zone limit"
proof -
  have "case p of (r, afl') \<Rightarrow> r < rand_zone limit"
    if "rand_unbiased limit afl = Some p" for p
    by (rule rand_unbiased.raw_induct
          [where P = "\<lambda>l a p. case p of (r, afl') \<Rightarrow> r < rand_zone l", OF _ that])
       (auto simp: Let_def split: prod.splits if_splits)
  with assms show ?thesis by fastforce
qed

lemma ucast_u32_u64: "unat (ucast (n :: u32) :: u64) = unat n"
  using unsigned_less [of n, where ?'a = nat]
  by (simp add: unsigned_ucast_eq take_bit_eq_mod)

lemma ucast_u64_u32: "unat (ucast (r :: u64) :: u32) = unat r mod 2 ^ 32"
  by (simp add: unsigned_ucast_eq take_bit_eq_mod)

lemma unat_mod_ucast: "unat (r mod ucast (n :: u32) :: u64) = unat r mod unat n"
  by (simp add: unat_mod_distrib ucast_u32_u64)

lemma ucast_mod_less:
  fixes r :: u64 and n :: u32
  assumes "0 < n"
  shows "(ucast (r mod ucast n) :: u32) < n"
proof -
  have n: "unat n < 2 ^ 32" using unsigned_less [of n, where ?'a = nat] by simp
  have pos: "0 < unat n" using assms by (simp add: word_less_nat_alt)
  then have "unat r mod unat n < unat n" by simp
  with n have "unat r mod unat n < 2 ^ 32" by (rule order_less_trans [rotated])
  then have "unat (ucast (r mod ucast n) :: u32) = unat r mod unat n"
    by (simp add: ucast_u64_u32 unat_mod_ucast)
  then show ?thesis using pos by (simp add: word_less_nat_alt)
qed

lemma rand_below_bound_aux:
  assumes "rand_below afl limit = Some (v, afl')" and "0 < limit"
  shows "v < limit"
  using assms ucast_mod_less
  by (auto simp: rand_below_def split: if_splits option.splits)

text \<open>
  A completed version for the clients: what a caller that got control back received. Where
  \<^verbatim>\<open>rand_below\<close> does not return, the client does not continue either, and the value is
  irrelevant.
\<close>

definition afl_rand_below :: "afl_rng \<Rightarrow> u32 \<Rightarrow> u32 \<times> afl_rng" where
  "afl_rand_below afl limit =
     (case rand_below afl limit of Some r \<Rightarrow> r | None \<Rightarrow> (0, afl))"

definition afl_rand_ops :: "(afl_rng \<Rightarrow> u32 \<times> afl_rng) \<Rightarrow> afl_rng rand_ops" where
  "afl_rand_ops libc_rand =
     \<lparr> ro_rand_below = afl_rand_below, ro_rand = libc_rand, ro_afl = True \<rparr>"

lemma afl_rand_below_less: "0 < n \<Longrightarrow> fst (afl_rand_below g n) < n"
  by (auto simp: afl_rand_below_def dest: rand_below_bound_aux split: option.splits)

interpretation afl_rng: bounded_rng "afl_rand_ops libc_rand" for libc_rand
  by unfold_locales (simp add: afl_rand_ops_def afl_rand_below_less)

section \<open>Properties\<close>

lemma rand_zone_unat:
  assumes "0 < limit"
  shows "unat (rand_zone limit) = (2 ^ 64 - 1) - (2 ^ 64 - 1) mod unat limit"
proof -
  have m: "unat (- 1 mod ucast limit :: u64) = (2 ^ 64 - 1) mod unat limit"
    by (simp add: unat_mod_ucast unsigned_minus_1_eq_mask mask_eq_exp_minus_1)
  have "- 1 mod ucast limit \<le> (- 1 :: u64)"
    by (rule word_n1_ge)
  then show ?thesis
    by (simp add: rand_zone_def unat_sub m unsigned_minus_1_eq_mask mask_eq_exp_minus_1)
qed

lemma rand_zone_dvd: "0 < limit \<Longrightarrow> unat limit dvd unat (rand_zone limit)"
  by (simp add: rand_zone_unat dvd_minus_mod)

lemma card_residue:
  fixes n r q :: nat
  assumes "r < n"
  shows "card {x. x < n * q \<and> x mod n = r} = q"
proof -
  have "{x. x < n * q \<and> x mod n = r} = (\<lambda>k. n * k + r) ` {..<q}"
  proof (intro set_eqI iffI)
    fix x assume "x \<in> {x. x < n * q \<and> x mod n = r}"
    then have x: "x < n * q" "x = n * (x div n) + r"
      using mult_div_mod_eq [of n x] by auto
    then have "x div n < q" by (metis less_mult_imp_div_less mult.commute)
    with x(2) show "x \<in> (\<lambda>k. n * k + r) ` {..<q}" by blast
  next
    fix x assume "x \<in> (\<lambda>k. n * k + r) ` {..<q}"
    then obtain k where k: "k < q" "x = n * k + r" by auto
    have "n * k + r < n * k + n" using assms by simp
    also have "\<dots> \<le> n * q" using k(1) by (metis Suc_leI mult_Suc_right mult_le_mono2 add.commute)
    finally show "x \<in> {x. x < n * q \<and> x mod n = r}" using k assms by simp
  qed
  moreover have "inj_on (\<lambda>k. n * k + r) {..<q}"
    using assms by (auto simp: inj_on_def)
  ultimately show ?thesis by (simp add: card_image)
qed


text \<open>A generator state for evaluating the model on concrete inputs.\<close>

definition demo_rng :: afl_rng where
  "demo_rng = \<lparr> rand_seed0 = 7, rand_seed1 = 5, rand_seed2 = 0, init_seed = 0,
                rand_cnt = 100, fixed_seed = True, dev_urandom = [] \<rparr>"

lemma demo_rand_below:
  "rand_below demo_rng 4 = Some (3, snd (rand_next (demo_rng\<lparr> rand_cnt := 99 \<rparr>)))"
  by (simp add: rand_below_def rand_reseed_def rand_unbiased.simps rand_next_def demo_rng_def
        rand_zone_def Let_def word_le_nat_alt)


end
