(* ===== verification/Swam_Scheduler.thy ===== *)
theory Swam_Scheduler
  imports Swam_Profile Afl_Rand
begin

text \<open>
  The scenario scheduler, \<^verbatim>\<open>swam_scheduler.h\<close> and \<^verbatim>\<open>swam_scheduler.c\<close>: per-scenario counters, the
  proposal and profile filter, selection (never-tried scenarios first, then one random pick in
  ten, then UCB1 with suppression, then a uniform fallback) and the update after an iteration.
  A scheduler pointer is an option; allocation results are arguments. Random numbers and
  double arithmetic come through the interfaces of the prelude.
\<close>

unbundle bit_operations_syntax

section \<open>State\<close>

datatype SwamSchedOutcome =
    SWAM_SCHED_INSTANTIATE_FAIL
  | SWAM_SCHED_NOT_REACHED
  | SWAM_SCHED_REACHED_TRAPPED
  | SWAM_SCHED_REACHED_COMPLETED

record SwamScenarioStats =
  n_selected :: u32
  n_reached :: u32
  n_completed :: u32
  n_instantiate_fail :: u32

record SwamScheduler =
  stats :: "SwamScenarioStats list"
  num_scenarios :: u32
  total_selected :: u64
  proposals_mask :: u32
  sched_profile :: "SwamRuntimeProfile option"

definition zero_stats :: SwamScenarioStats where
  "zero_stats = \<lparr> n_selected = 0, n_reached = 0, n_completed = 0, n_instantiate_fail = 0 \<rparr>"

section \<open>Operations\<close>

definition swam_scheduler_rand_below :: "'g rand_ops \<Rightarrow> 'g \<Rightarrow> u32 \<Rightarrow> u32 \<times> 'g" where
  "swam_scheduler_rand_below R g limit =
     (if limit \<le> 1 then (0, g)
      else if ro_afl R then ro_rand_below R g limit
      else (let (v, g') = ro_rand R g in (v mod limit, g')))"

text \<open>The two booleans are the outcomes of the two \<^verbatim>\<open>calloc\<close> calls.\<close>

definition swam_scheduler_create :: "bool \<Rightarrow> bool \<Rightarrow> u32 \<Rightarrow> SwamScheduler option" where
  "swam_scheduler_create alloc_sched alloc_stats n =
     (if n = 0 then None
      else if \<not> alloc_sched then None
      else if \<not> alloc_stats then None
      else Some \<lparr> stats = replicate (unat n) zero_stats, num_scenarios = n, total_selected = 0,
                  proposals_mask = SWAM_PROPOSALS_ALL, sched_profile = None \<rparr>)"

definition swam_scheduler_set_proposals ::
  "SwamScheduler option \<Rightarrow> u32 \<Rightarrow> SwamScheduler option" where
  "swam_scheduler_set_proposals sched pmask =
     (case sched of None \<Rightarrow> None
      | Some s \<Rightarrow> Some (s\<lparr> proposals_mask := pmask, sched_profile := None \<rparr>))"

definition swam_scheduler_set_profile ::
  "SwamScheduler option \<Rightarrow> SwamRuntimeProfile option \<Rightarrow> SwamScheduler option" where
  "swam_scheduler_set_profile sched pr =
     (case sched of None \<Rightarrow> None
      | Some s \<Rightarrow> Some (s\<lparr> sched_profile := pr,
                          proposals_mask := (case pr of Some p \<Rightarrow> rp_proposals p
                                             | None \<Rightarrow> SWAM_PROPOSALS_ALL) \<rparr>))"

definition swam_scenario_passes_filter :: "SwamScheduler option \<Rightarrow> u32 \<Rightarrow> bool" where
  "swam_scenario_passes_filter sched scenario_id =
     (case (sched, swam_get_scenario scenario_id) of
        (Some s, Some sc) \<Rightarrow>
          if proposals_mask s AND swam_opclass_required_proposal (sc_op_class sc) = 0 then False
          else if sched_profile s \<noteq> None \<and>
                  \<not> swam_profile_supports_opclass (sched_profile s) (sc_op_class sc) then False
          else True
      | _ \<Rightarrow> False)"

abbreviation sched_indices :: "SwamScheduler \<Rightarrow> nat list" where
  "sched_indices s \<equiv> [0..<unat (num_scenarios s)]"

text \<open>The 1-based identifier of the scenario at index \<open>i\<close>, the \<^verbatim>\<open>i + 1U\<close> of the loops.\<close>

abbreviation idx_id :: "nat \<Rightarrow> u32" where
  "idx_id i \<equiv> of_nat i + 1"

fun active_count_loop :: "SwamScheduler \<Rightarrow> nat list \<Rightarrow> u32 \<Rightarrow> u32" where
  "active_count_loop s [] count = count"
| "active_count_loop s (i # is) count =
     active_count_loop s is
       (if swam_scenario_passes_filter (Some s) (idx_id i) then count + 1 else count)"

definition swam_scheduler_active_count :: "SwamScheduler option \<Rightarrow> u32" where
  "swam_scheduler_active_count sched =
     (case sched of None \<Rightarrow> 0 | Some s \<Rightarrow> active_count_loop s (sched_indices s) 0)"

text \<open>First loop of \<^verbatim>\<open>swam_scheduler_select\<close>: reservoir sampling among never-selected scenarios.\<close>

fun select_untried ::
  "'g rand_ops \<Rightarrow> SwamScheduler \<Rightarrow> nat list \<Rightarrow> u32 \<Rightarrow> nat \<Rightarrow> 'g \<Rightarrow> u32 \<times> nat \<times> 'g" where
  "select_untried R s [] best_count best_idx g = (best_count, best_idx, g)"
| "select_untried R s (i # is) best_count best_idx g =
     (if \<not> swam_scenario_passes_filter (Some s) (idx_id i) then
        select_untried R s is best_count best_idx g
      else if n_selected (stats s ! i) \<noteq> 0 then
        select_untried R s is best_count best_idx g
      else
        (let bc = best_count + 1
         in if bc = 1 then select_untried R s is bc i g
            else (let (v, g') = swam_scheduler_rand_below R g bc
                  in select_untried R s is bc (if v = 0 then i else best_idx) g')))"

text \<open>The loop that walks to the \<open>pick\<close>-th active scenario.\<close>

fun pick_active :: "SwamScheduler \<Rightarrow> nat list \<Rightarrow> u32 \<Rightarrow> u32 option" where
  "pick_active s [] pick = None"
| "pick_active s (i # is) pick =
     (if \<not> swam_scenario_passes_filter (Some s) (idx_id i) then pick_active s is pick
      else if pick = 0 then Some (idx_id i)
      else pick_active s is (pick - 1))"

definition select_epsilon ::
  "'g rand_ops \<Rightarrow> SwamScheduler \<Rightarrow> 'g \<Rightarrow> u32 option \<times> 'g" where
  "select_epsilon R s g =
     (let active = swam_scheduler_active_count (Some s)
      in if active > 0 then
           (let (v, g1) = swam_scheduler_rand_below R g 10
            in if v = 0 then
                 (let (pick, g2) = swam_scheduler_rand_below R g1 active
                  in (pick_active s (sched_indices s) pick, g2))
               else (None, g1))
         else (None, g))"

definition ucb_suppressed :: "'d dbl_ops \<Rightarrow> SwamScenarioStats \<Rightarrow> bool" where
  "ucb_suppressed D st \<longleftrightarrow>
     (n_selected st \<ge> 10 \<and>
      d_less D (d_lit D (9/10))
        (d_div D (d_of_nat D (unat (n_instantiate_fail st)))
                 (d_of_nat D (unat (n_selected st))))) \<or>
     (n_selected st \<ge> 100 \<and> n_reached st = 0)"

definition ucb_score :: "'d dbl_ops \<Rightarrow> 'd \<Rightarrow> SwamScenarioStats \<Rightarrow> 'd" where
  "ucb_score D log_N st =
     (let sel = d_of_nat D (unat (n_selected st));
          reach_rate = d_div D (d_of_nat D (unat (n_reached st))) sel;
          exploit_term = d_sub D (d_lit D 1) reach_rate;
          explore_term = (if d_less D (d_lit D 0) log_N
                          then d_sqrt D (d_div D (d_mul D (d_lit D 2) log_N) sel)
                          else d_lit D 0)
      in d_add D exploit_term explore_term)"

fun select_ucb ::
  "'d dbl_ops \<Rightarrow> 'g rand_ops \<Rightarrow> SwamScheduler \<Rightarrow> 'd \<Rightarrow> nat list \<Rightarrow>
   u32 \<Rightarrow> nat \<Rightarrow> 'd \<Rightarrow> 'g \<Rightarrow> u32 \<times> nat \<times> 'd \<times> 'g" where
  "select_ucb D R s log_N [] best_count best_idx best_score g =
     (best_count, best_idx, best_score, g)"
| "select_ucb D R s log_N (i # is) best_count best_idx best_score g =
     (if \<not> swam_scenario_passes_filter (Some s) (idx_id i) then
        select_ucb D R s log_N is best_count best_idx best_score g
      else if ucb_suppressed D (stats s ! i) then
        select_ucb D R s log_N is best_count best_idx best_score g
      else
        (let score = ucb_score D log_N (stats s ! i)
         in if d_less D (d_add D best_score (d_eps D)) score then
              select_ucb D R s log_N is 1 i score g
            else if d_le D (d_abs D (d_sub D score best_score)) (d_eps D) then
              (let bc = best_count + 1;
                   (v, g') = swam_scheduler_rand_below R g bc
               in select_ucb D R s log_N is bc (if v = 0 then i else best_idx) best_score g')
            else select_ucb D R s log_N is best_count best_idx best_score g))"

definition select_fallback :: "'g rand_ops \<Rightarrow> SwamScheduler \<Rightarrow> 'g \<Rightarrow> u32 \<times> 'g" where
  "select_fallback R s g =
     (let active = swam_scheduler_active_count (Some s)
      in if active = 0 then (0, g)
         else (let (pick, g') = swam_scheduler_rand_below R g active
               in (case pick_active s (sched_indices s) pick of
                     Some i \<Rightarrow> (i, g') | None \<Rightarrow> (0, g'))))"

definition swam_scheduler_select ::
  "'d dbl_ops \<Rightarrow> 'g rand_ops \<Rightarrow> SwamScheduler option \<Rightarrow> 'g \<Rightarrow> u32 \<times> 'g" where
  "swam_scheduler_select D R sched g =
     (case sched of
        None \<Rightarrow> (1, g)
      | Some s \<Rightarrow>
          if num_scenarios s = 0 then (1, g)
          else
            (let (untried_count, untried_idx, g1) = select_untried R s (sched_indices s) 0 0 g
             in if untried_count > 0 then (idx_id untried_idx, g1)
                else
                  (case select_epsilon R s g1 of
                     (Some i, g2) \<Rightarrow> (i, g2)
                   | (None, g2) \<Rightarrow>
                       (let log_N = (if total_selected s > 1
                                     then d_log D (d_of_nat D (unat (total_selected s)))
                                     else d_lit D 0);
                            (best_count, best_idx, best_score, g3) =
                              select_ucb D R s log_N (sched_indices s) 0 untried_idx
                                (d_sub D (d_lit D 0) (d_max D)) g2
                        in if best_count = 0 then select_fallback R s g3
                           else (idx_id best_idx, g3)))))"

fun outcome_update :: "SwamSchedOutcome \<Rightarrow> SwamScenarioStats \<Rightarrow> SwamScenarioStats" where
  "outcome_update SWAM_SCHED_INSTANTIATE_FAIL st =
     st\<lparr> n_instantiate_fail := n_instantiate_fail st + 1 \<rparr>"
| "outcome_update SWAM_SCHED_NOT_REACHED st = st"
| "outcome_update SWAM_SCHED_REACHED_TRAPPED st = st\<lparr> n_reached := n_reached st + 1 \<rparr>"
| "outcome_update SWAM_SCHED_REACHED_COMPLETED st =
     st\<lparr> n_reached := n_reached st + 1, n_completed := n_completed st + 1 \<rparr>"

definition swam_scheduler_update ::
  "SwamScheduler option \<Rightarrow> u32 \<Rightarrow> SwamSchedOutcome \<Rightarrow> SwamScheduler option" where
  "swam_scheduler_update sched scenario_id outcome =
     (case sched of
        None \<Rightarrow> None
      | Some s \<Rightarrow>
          if scenario_id < 1 \<or> scenario_id > num_scenarios s then Some s
          else
            (let idx = unat (scenario_id - 1);
                 st = stats s ! idx;
                 st1 = st\<lparr> n_selected := n_selected st + 1 \<rparr>
             in Some (s\<lparr> total_selected := total_selected s + 1,
                         stats := (stats s)[idx := outcome_update outcome st1] \<rparr>)))"

definition stats_query ::
  "(SwamScenarioStats \<Rightarrow> u32) \<Rightarrow> SwamScheduler option \<Rightarrow> u32 \<Rightarrow> u32" where
  "stats_query field sched scenario_id =
     (case sched of
        None \<Rightarrow> 0
      | Some s \<Rightarrow> if scenario_id < 1 \<or> scenario_id > num_scenarios s then 0
                  else field (stats s ! unat (scenario_id - 1)))"

definition swam_scheduler_scenario_selected :: "SwamScheduler option \<Rightarrow> u32 \<Rightarrow> u32" where
  "swam_scheduler_scenario_selected = stats_query n_selected"

definition swam_scheduler_scenario_reached :: "SwamScheduler option \<Rightarrow> u32 \<Rightarrow> u32" where
  "swam_scheduler_scenario_reached = stats_query n_reached"

definition swam_scheduler_scenario_completed :: "SwamScheduler option \<Rightarrow> u32 \<Rightarrow> u32" where
  "swam_scheduler_scenario_completed = stats_query n_completed"

definition swam_scheduler_total_selected :: "SwamScheduler option \<Rightarrow> u64" where
  "swam_scheduler_total_selected sched =
     (case sched of None \<Rightarrow> 0 | Some s \<Rightarrow> total_selected s)"

section \<open>The filter and the counting loops\<close>

abbreviation active :: "SwamScheduler \<Rightarrow> nat \<Rightarrow> bool" where
  "active s i \<equiv> swam_scenario_passes_filter (Some s) (idx_id i)"

text \<open>Identifiers of the scheduler's indices do not wrap.\<close>

lemma idx_id_unat:
  assumes "i < unat (n :: u32)"
  shows "unat (idx_id i) = Suc i"
proof -
  have "Suc i < 2 ^ 32" using assms unsigned_less [of n, where ?'a = nat] by simp
  then have "unat (of_nat (Suc i) :: u32) = Suc i" by (simp add: unat_of_nat del: of_nat_Suc)
  then show ?thesis by (simp add: add.commute)
qed

lemma idx_id_range:
  assumes "i < unat (n :: u32)"
  shows "1 \<le> idx_id i" "idx_id i \<le> n" "unat (idx_id i - 1) = i"
  using idx_id_unat [OF assms] assms unsigned_less [of n, where ?'a = nat]
  by (auto simp: word_le_nat_alt unat_of_nat)

lemma active_count_loop_length:
  "active_count_loop s is c = c + of_nat (length (filter (active s) is))"
  by (induction s "is" c rule: active_count_loop.induct) (auto simp: algebra_simps)

lemma filter_active_bound: "length (filter (active s) (sched_indices s)) \<le> unat (num_scenarios s)"
  using length_filter_le [of "active s" "sched_indices s"] by simp

lemma active_count_unat:
  "unat (swam_scheduler_active_count (Some s)) = length (filter (active s) (sched_indices s))"
proof -
  have "length (filter (active s) (sched_indices s)) < 2 ^ 32"
    using filter_active_bound [of s] unsigned_less [of "num_scenarios s", where ?'a = nat]
    by (simp add: order_le_less_trans)
  then show ?thesis
    by (simp add: swam_scheduler_active_count_def active_count_loop_length unat_of_nat)
qed

lemma active_count_zero:
  "swam_scheduler_active_count (Some s) = 0 \<longleftrightarrow>
     (\<forall>i < unat (num_scenarios s). \<not> active s i)"
proof -
  have "swam_scheduler_active_count (Some s) = 0 \<longleftrightarrow> filter (active s) (sched_indices s) = []"
    using active_count_unat [of s] by (simp flip: unat_0_iff)
  then show ?thesis by (auto simp: filter_empty_conv)
qed

lemma pick_active_nth:
  assumes "unat pick < length (filter (active s) is)"
  shows "pick_active s is pick = Some (idx_id (filter (active s) is ! unat pick))"
  using assms
proof (induction "is" arbitrary: pick)
  case (Cons i "is")
  show ?case
  proof (cases "active s i \<and> pick \<noteq> 0")
    case True
    then have u: "unat (pick - 1) = unat pick - 1" "0 < unat pick"
      by (simp_all add: unat_minus_one unat_gt_0)
    moreover have "unat (pick - 1) < length (filter (active s) is)"
      using True Cons.prems u by simp
    ultimately show ?thesis
      using True Cons.IH [of "pick - 1"] by (simp add: nth_Cons')
  next
    case False
    then show ?thesis using Cons by auto
  qed
qed simp

lemma pick_active_sound:
  "pick_active s is pick = Some j \<Longrightarrow> \<exists>i \<in> set is. active s i \<and> j = idx_id i"
  by (induction s "is" pick rule: pick_active.induct) (auto split: if_splits)

section \<open>The selection loops\<close>

definition untried_idx :: "SwamScheduler \<Rightarrow> nat \<Rightarrow> bool" where
  "untried_idx s i \<longleftrightarrow> active s i \<and> n_selected (stats s ! i) = 0"

lemma select_untried_Cons:
  "select_untried R s (i # is) bc bi g =
     (if \<not> untried_idx s i then select_untried R s is bc bi g
      else if bc = 0 then select_untried R s is 1 i g
      else (let (v, g') = swam_scheduler_rand_below R g (bc + 1)
            in select_untried R s is (bc + 1) (if v = 0 then i else bi) g'))"
  by (auto simp: untried_idx_def Let_def)

declare select_untried.simps(2) [simp del]
declare select_untried_Cons [simp]

lemma select_untried_count:
  "fst (select_untried R s is bc bi g) = bc + of_nat (length (filter (untried_idx s) is))"
  by (induction "is" arbitrary: bc bi g) (simp_all add: case_prod_unfold Let_def algebra_simps)

lemma select_untried_idx:
  "fst (snd (select_untried R s is bc bi g)) \<in> insert bi {i \<in> set is. untried_idx s i}"
proof (induction "is" arbitrary: bc bi g)
  case (Cons i "is")
  let ?r = "swam_scheduler_rand_below R g (bc + 1)"
  show ?case
    using Cons.IH [of bc bi g] Cons.IH [of 1 i g]
      Cons.IH [of "bc + 1" "if fst ?r = 0 then i else bi" "snd ?r"]
    by (cases "fst ?r = 0") (auto simp: case_prod_unfold Let_def)
qed simp

lemma select_untried_found:
  assumes "\<exists>i \<in> set is. untried_idx s i"
  shows "fst (snd (select_untried R s is 0 bi g)) \<in> {i \<in> set is. untried_idx s i}"
  using assms
proof (induction "is")
  case (Cons i "is")
  then show ?case
    using select_untried_idx [of R s "is" 1 i g] by auto
qed simp

definition ucb_candidate :: "'d dbl_ops \<Rightarrow> SwamScheduler \<Rightarrow> nat \<Rightarrow> bool" where
  "ucb_candidate D s i \<longleftrightarrow> active s i \<and> \<not> ucb_suppressed D (stats s ! i)"

lemma select_ucb_Cons:
  "select_ucb D R s l (i # is) bc bi b g =
     (let score = ucb_score D l (stats s ! i)
      in if \<not> ucb_candidate D s i then select_ucb D R s l is bc bi b g
         else if d_less D (d_add D b (d_eps D)) score then select_ucb D R s l is 1 i score g
         else if d_le D (d_abs D (d_sub D score b)) (d_eps D) then
           (let r = swam_scheduler_rand_below R g (bc + 1)
            in select_ucb D R s l is (bc + 1) (if fst r = 0 then i else bi) b (snd r))
         else select_ucb D R s l is bc bi b g)"
  by (auto simp: ucb_candidate_def Let_def case_prod_unfold)

declare select_ucb.simps(2) [simp del]
declare select_ucb_Cons [simp]

lemma select_ucb_idx:
  "fst (snd (select_ucb D R s l is bc bi b g)) \<in> insert bi {i \<in> set is. ucb_candidate D s i}"
proof (induction "is" arbitrary: bc bi b g)
  case (Cons i "is")
  let ?r = "swam_scheduler_rand_below R g (bc + 1)"
  let ?sc = "ucb_score D l (stats s ! i)"
  show ?case
    using Cons.IH [of bc bi b g] Cons.IH [of 1 i ?sc g]
      Cons.IH [of "bc + 1" "if fst ?r = 0 then i else bi" b "snd ?r"]
    by (cases "fst ?r = 0") (auto simp: Let_def)
qed simp

text \<open>
  With a count of 0 on entry, a positive count on exit means an index was set in this loop:
  the count goes from 0 to 1 only together with the index, because a draw below 1 is 0.
\<close>

lemma rand_below_one [simp]: "swam_scheduler_rand_below R g 1 = (0, g)"
  by (simp add: swam_scheduler_rand_below_def)

lemma select_ucb_found:
  assumes "fst (select_ucb D R s l is 0 bi b g) \<noteq> 0"
  shows "fst (snd (select_ucb D R s l is 0 bi b g)) \<in> {i \<in> set is. ucb_candidate D s i}"
  using assms
proof (induction "is" arbitrary: b g)
  case (Cons i "is")
  let ?sc = "ucb_score D l (stats s ! i)"
  show ?case
    using Cons select_ucb_idx [of D R s l "is" 1 i ?sc g] select_ucb_idx [of D R s l "is" 1 i b g]
    by (auto simp: Let_def split: if_splits)
qed simp

context bounded_rng
begin

lemma sched_rand_below_less:
  assumes "0 < n"
  shows "fst (swam_scheduler_rand_below R g n) < n"
  using assms rand_below_less [of n g]
  by (auto simp: swam_scheduler_rand_below_def case_prod_unfold Let_def word_mod_less_divisor)

lemma pick_active_found:
  assumes "swam_scheduler_active_count (Some s) \<noteq> 0"
  shows "\<exists>i < unat (num_scenarios s). active s i \<and>
    pick_active s (sched_indices s)
      (fst (swam_scheduler_rand_below R g (swam_scheduler_active_count (Some s)))) = Some (idx_id i)"
proof -
  let ?a = "swam_scheduler_active_count (Some s)"
  let ?v = "fst (swam_scheduler_rand_below R g ?a)"
  have "?v < ?a"
    using sched_rand_below_less [of ?a g] assms by (simp add: word_neq_0_conv)
  then have v: "unat ?v < length (filter (active s) (sched_indices s))"
    by (simp add: word_less_nat_alt active_count_unat)
  then have "filter (active s) (sched_indices s) ! unat ?v \<in> set (filter (active s) (sched_indices s))"
    by (rule nth_mem)
  with pick_active_nth [OF v] show ?thesis by auto
qed

end

lemma select_epsilon_sound:
  assumes "fst (select_epsilon R s g) = Some j"
  shows "\<exists>i < unat (num_scenarios s). active s i \<and> j = idx_id i"
  using assms
  by (auto simp: select_epsilon_def Let_def case_prod_unfold dest!: pick_active_sound split: if_splits)

lemma select_untried_some:
  assumes "i < unat (num_scenarios s)" "untried_idx s i"
  shows "\<exists>k < unat (num_scenarios s). untried_idx s k \<and>
     fst (swam_scheduler_select D R (Some s) g) = idx_id k"
proof -
  let ?u = "select_untried R s (sched_indices s) 0 0 g"
  let ?m = "length (filter (untried_idx s) (sched_indices s))"
  have "filter (untried_idx s) (sched_indices s) \<noteq> []" using assms by (auto simp: filter_empty_conv)
  then have "0 < ?m" by simp
  moreover have "?m \<le> unat (num_scenarios s)"
    using length_filter_le [of "untried_idx s" "sched_indices s"] by simp
  then have "?m < 2 ^ 32" using unsigned_less [of "num_scenarios s", where ?'a = nat] by simp
  ultimately have c: "0 < fst ?u"
    by (simp add: select_untried_count word_less_nat_alt unat_of_nat)
  have "fst (snd ?u) \<in> {i \<in> set (sched_indices s). untried_idx s i}"
    by (rule select_untried_found) (use assms in auto)
  moreover have "num_scenarios s \<noteq> 0" using assms by auto
  ultimately show ?thesis
    using c by (auto simp: swam_scheduler_select_def case_prod_unfold Let_def)
qed

context bounded_rng
begin

lemma select_fallback_active:
  assumes "swam_scheduler_active_count (Some s) \<noteq> 0"
  shows "\<exists>i < unat (num_scenarios s). active s i \<and> fst (select_fallback R s g) = idx_id i"
  using pick_active_found [OF assms, of g] assms
  by (auto simp: select_fallback_def Let_def case_prod_unfold)

lemma select_active:
  assumes "i < unat (num_scenarios s)" "active s i"
  shows "\<exists>k < unat (num_scenarios s). active s k \<and>
     fst (swam_scheduler_select D R (Some s) g) = idx_id k"
proof (cases "\<exists>i < unat (num_scenarios s). untried_idx s i")
  case True
  then show ?thesis using select_untried_some [of _ s D R g] by (auto simp: untried_idx_def)
next
  case False
  let ?u = "select_untried R s (sched_indices s) 0 0 g"
  let ?e = "select_epsilon R s (snd (snd ?u))"
  from False have "filter (untried_idx s) (sched_indices s) = []" by (auto simp: filter_empty_conv)
  then have u0: "fst ?u = 0" by (simp add: select_untried_count)
  have nz: "num_scenarios s \<noteq> 0" using assms by auto
  have act: "swam_scheduler_active_count (Some s) \<noteq> 0" using assms by (auto simp: active_count_zero)
  show ?thesis
  proof (cases "fst ?e")
    case (Some j)
    then show ?thesis using select_epsilon_sound [OF Some] u0 nz
      by (auto simp: swam_scheduler_select_def case_prod_unfold Let_def split: prod.splits option.splits)
  next
    case None
    then obtain g2 where e: "?e = (None, g2)" by (metis prod.collapse)
    show ?thesis
      using u0 nz select_fallback_active [OF act] select_ucb_found [of D R s _ "sched_indices s"]
      by (fastforce simp: ucb_candidate_def swam_scheduler_select_def case_prod_unfold Let_def e)
  qed
qed

end

lemma select_none_active:
  assumes "num_scenarios s \<noteq> 0" "\<And>i. i < unat (num_scenarios s) \<Longrightarrow> \<not> active s i"
  shows "fst (swam_scheduler_select D R (Some s) g) = 0"
proof -
  have "filter (untried_idx s) (sched_indices s) = []"
    using assms by (auto simp: filter_empty_conv untried_idx_def)
  then have u0: "fst (select_untried R s (sched_indices s) 0 0 g) = 0" by (simp add: select_untried_count)
  have a0: "swam_scheduler_active_count (Some s) = 0" using assms by (simp add: active_count_zero)
  have c0: "fst (select_ucb D R s l (sched_indices s) 0 bi b g) = 0" for l bi b g
    using select_ucb_found [of D R s l "sched_indices s" bi b g] assms by (auto simp: ucb_candidate_def)
  show ?thesis
    using assms(1)
    by (simp add: swam_scheduler_select_def case_prod_unfold Let_def u0 a0 c0 select_epsilon_def
          select_fallback_def)
qed

section \<open>UCB1\<close>

lemma select_ucb_near_max:
  fixes R :: "'g rand_ops"
  defines "sc \<equiv> \<lambda>l s i. ucb_score real_dbl l (stats s ! i)" and "e \<equiv> d_eps real_dbl"
  assumes "select_ucb real_dbl R s l is bc bi b g = (bc', bi', b', g')"
    and "\<bar>sc l s bi - b\<bar> \<le> e \<or>
         (\<forall>i \<in> set is. b + e < sc l s i) \<and> (\<exists>i \<in> set is. ucb_candidate real_dbl s i)"
  shows "\<bar>sc l s bi' - b'\<bar> \<le> e \<and> b \<le> b' \<and>
     (\<forall>i \<in> set is. ucb_candidate real_dbl s i \<longrightarrow> sc l s i \<le> b' + e)"
  using assms(3,4)
proof (induction "is" arbitrary: bc bi b g)
  case Nil
  then show ?case by simp
next
  case (Cons i "is")
  have e0: "0 < e" by (simp add: e_def)
  consider (skip) "\<not> ucb_candidate real_dbl s i"
    | (new) "ucb_candidate real_dbl s i" "b + e < sc l s i"
    | (tie) "ucb_candidate real_dbl s i" "\<bar>sc l s i - b\<bar> \<le> e"
    | (low) "ucb_candidate real_dbl s i" "sc l s i < b - e"
    by linarith
  then show ?case
  proof cases
    case skip
    with Cons.prems(1) have "select_ucb real_dbl R s l is bc bi b g = (bc', bi', b', g')"
      by (simp add: Let_def)
    from Cons.IH [OF this] Cons.prems(2) skip show ?thesis by auto
  next
    case new
    with Cons.prems(1) have "select_ucb real_dbl R s l is 1 i (sc l s i) g = (bc', bi', b', g')"
      by (simp add: Let_def sc_def e_def)
    from Cons.IH [OF this] new e0 show ?thesis by auto
  next
    case tie
    let ?r = "swam_scheduler_rand_below R g (bc + 1)"
    let ?bi = "if fst ?r = 0 then i else bi"
    have "\<not> b + e < sc l s i" using tie(2) by linarith
    with tie Cons.prems(1)
    have "select_ucb real_dbl R s l is (bc + 1) ?bi b (snd ?r) = (bc', bi', b', g')"
      by (simp add: Let_def sc_def e_def)
    moreover have "\<bar>sc l s ?bi - b\<bar> \<le> e" using Cons.prems(2) tie by auto
    ultimately show ?thesis using Cons.IH [of "bc + 1" ?bi b "snd ?r"] tie by auto
  next
    case low
    then have "\<not> b + e < sc l s i" "\<not> \<bar>sc l s i - b\<bar> \<le> e" using e0 by linarith+
    with low(1) Cons.prems(1) have "select_ucb real_dbl R s l is bc bi b g = (bc', bi', b', g')"
      by (auto simp: Let_def sc_def e_def split: if_splits)
    from Cons.IH [OF this] low Cons.prems(2) e0 show ?thesis by auto
  qed
qed

lemma select_ucb_count_pos:
  assumes "unat bc + length is < 2 ^ 32" and "bc \<noteq> 0"
  shows "fst (select_ucb D R s l is bc bi b g) \<noteq> 0"
  using assms
proof (induction "is" arbitrary: bc bi b g)
  case (Cons i "is")
  have "unat (bc + 1) = Suc (unat bc)" using Cons.prems by (intro unat_Suc_less) simp
  then have "bc + 1 \<noteq> 0" "unat (bc + 1) + length is < 2 ^ 32"
    using Cons.prems by (auto simp flip: unat_0_iff)
  moreover have "unat (1 :: u32) + length is < 2 ^ 32" using Cons.prems by (simp flip: unat_0_iff)
  ultimately show ?case using Cons by (auto simp: Let_def)
qed simp

lemma select_ucb_count_found:
  assumes "length is < 2 ^ 32" and "\<exists>i \<in> set is. ucb_candidate real_dbl s i"
    and "\<forall>i \<in> set is. b + d_eps real_dbl < ucb_score real_dbl l (stats s ! i)"
  shows "fst (select_ucb real_dbl R s l is 0 bi b g) \<noteq> 0"
  using assms
proof (induction "is")
  case (Cons i "is")
  show ?case
    using Cons select_ucb_count_pos [of 1 "is" real_dbl R s l i "ucb_score real_dbl l (stats s ! i)" g]
    by (auto simp: Let_def)
qed simp

lemma nat_div_le_self: "real r / real n \<le> real r"
  by (cases n) (auto simp: field_simps)

lemma ucb_score_lower: "- (2 ^ 32) \<le> ucb_score real_dbl l st"
proof -
  have "real (unat (n_reached st)) / real (unat (n_selected st)) \<le> real (unat (n_reached st))"
    by (rule nat_div_le_self)
  also have "\<dots> \<le> 2 ^ 32" using unsigned_less [of "n_reached st", where ?'a = nat]
    by (simp del: of_nat_unat)
  finally have "real (unat (n_reached st)) / real (unat (n_selected st)) \<le> 2 ^ 32" .
  moreover have "0 \<le> sqrt (2 * l / real (unat (n_selected st)))" if "0 < l"
    using that by (simp del: of_nat_unat)
  ultimately show ?thesis
    by (auto simp: ucb_score_def Let_def simp del: real_sqrt_ge_0_iff)
qed

lemma ucb_score_above_start: "d_eps real_dbl - d_max real_dbl < ucb_score real_dbl l st"
  using ucb_score_lower [of l st] real_dbl_max_large by simp

definition sched_log_N :: "SwamScheduler \<Rightarrow> real" where
  "sched_log_N s = (if total_selected s > 1 then ln (real (unat (total_selected s))) else 0)"

lemma select_untried_none:
  assumes "filter (untried_idx s) is = []"
  shows "select_untried R s is bc bi g = (bc, bi, g)"
  using assms by (induction "is") (auto split: if_splits)

lemma select_ucb_optimal:
  assumes "\<And>i. i < unat (num_scenarios s) \<Longrightarrow> active s i \<Longrightarrow> n_selected (stats s ! i) \<noteq> 0"
    and "fst (swam_scheduler_rand_below R g 10) \<noteq> 0"
    and "i < unat (num_scenarios s)" "ucb_candidate real_dbl s i"
  shows "\<exists>k < unat (num_scenarios s). ucb_candidate real_dbl s k \<and>
      fst (swam_scheduler_select real_dbl R (Some s) g) = idx_id k \<and>
      ucb_score real_dbl (sched_log_N s) (stats s ! i)
        \<le> ucb_score real_dbl (sched_log_N s) (stats s ! k) + 2 * d_eps real_dbl"
proof -
  let ?is = "sched_indices s" and ?l = "sched_log_N s" and ?b = "- d_max real_dbl"
  let ?g = "snd (swam_scheduler_rand_below R g 10)"
  obtain bc k b g' where u: "select_ucb real_dbl R s ?l ?is 0 0 ?b ?g = (bc, k, b, g')"
    by (metis prod_cases4)
  have ut: "filter (untried_idx s) ?is = []"
    using assms(1) by (auto simp: filter_empty_conv untried_idx_def)
  have cand: "\<exists>i \<in> set ?is. ucb_candidate real_dbl s i" using assms(3,4) by auto
  then have "0 < swam_scheduler_active_count (Some s)"
    unfolding word_neq_0_conv [symmetric] active_count_zero by (auto simp: ucb_candidate_def)
  then have e: "select_epsilon R s g = (None, ?g)"
    using assms(2) by (simp add: select_epsilon_def Let_def case_prod_unfold)
  have bc: "bc \<noteq> 0"
    using select_ucb_count_found [OF _ cand, of ?b ?l R 0 ?g] u
      unsigned_less [of "num_scenarios s", where ?'a = nat] by (simp add: ucb_score_above_start)
  have k: "k \<in> set ?is" "ucb_candidate real_dbl s k"
    using select_ucb_found [of real_dbl R s ?l ?is 0 ?b ?g] u bc by auto
  have "fst (swam_scheduler_select real_dbl R (Some s) g) = idx_id k"
    using assms(3) u bc
    by (auto simp: swam_scheduler_select_def select_untried_none [OF ut] e sched_log_N_def Let_def
         split: if_splits)
  moreover have "ucb_score real_dbl ?l (stats s ! i) \<le> ucb_score real_dbl ?l (stats s ! k) + 2 * d_eps real_dbl"
    using select_ucb_near_max [OF u] cand assms(3,4) by (fastforce simp: ucb_score_above_start)
  ultimately show ?thesis using k by auto
qed

section \<open>Fairness as an interface\<close>

text \<open>
  What the fuzzing loop relies on: as long as something has not been tried, selection returns
  such a thing, and the update after it removes exactly that thing from the untried ones.
\<close>

fun rounds ::
  "('s \<Rightarrow> 'g \<Rightarrow> 'k \<times> 'g) \<Rightarrow> ('s \<Rightarrow> 'k \<Rightarrow> 'o \<Rightarrow> 's) \<Rightarrow> 's \<Rightarrow> 'g \<Rightarrow> 'o list \<Rightarrow>
   'k list \<times> 's \<times> 'g" where
  "rounds sel upd s g [] = ([], s, g)"
| "rounds sel upd s g (oc # ocs) =
     (let (k, g1) = sel s g; (ks, s', g') = rounds sel upd (upd s k oc) g1 ocs
      in (k # ks, s', g'))"

locale fair_scheduler =
  fixes sel :: "'s \<Rightarrow> 'g \<Rightarrow> 'k \<times> 'g"
    and upd :: "'s \<Rightarrow> 'k \<Rightarrow> 'o \<Rightarrow> 's"
    and untried :: "'s \<Rightarrow> 'k set"
    and inv :: "'s \<Rightarrow> bool"
  assumes finite_untried: "finite (untried s)"
    and sel_untried: "inv s \<Longrightarrow> untried s \<noteq> {} \<Longrightarrow> fst (sel s g) \<in> untried s"
    and upd_untried: "inv s \<Longrightarrow> k \<in> untried s \<Longrightarrow> untried (upd s k oc) = untried s - {k}"
    and upd_inv: "inv s \<Longrightarrow> inv (upd s k oc)"
begin

lemma rounds_enumerate:
  assumes "inv s" and "length ocs = card (untried s)"
  shows "distinct (fst (rounds sel upd s g ocs))" "set (fst (rounds sel upd s g ocs)) = untried s"
    "untried (fst (snd (rounds sel upd s g ocs))) = {}"
proof -
  have "distinct (fst (rounds sel upd s g ocs)) \<and> set (fst (rounds sel upd s g ocs)) = untried s \<and>
        untried (fst (snd (rounds sel upd s g ocs))) = {}"
    using assms
  proof (induction ocs arbitrary: s g)
    case Nil
    then show ?case using finite_untried [of s] by simp
  next
    case (Cons oc ocs)
    let ?k = "fst (sel s g)"
    have "untried s \<noteq> {}" using Cons.prems(2) by auto
    then have k: "?k \<in> untried s" by (rule sel_untried [OF Cons.prems(1)])
    then have u: "untried (upd s ?k oc) = untried s - {?k}"
      by (rule upd_untried [OF Cons.prems(1)])
    have "length ocs = card (untried (upd s ?k oc))"
      using Cons.prems(2) k finite_untried [of s] by (simp add: u)
    from Cons.IH [OF upd_inv [OF Cons.prems(1)] this, of "snd (sel s g)"] show ?case
      using k by (simp add: u case_prod_unfold Let_def insert_absorb)
  qed
  then show "distinct (fst (rounds sel upd s g ocs))" "set (fst (rounds sel upd s g ocs)) = untried s"
    "untried (fst (snd (rounds sel upd s g ocs))) = {}" by auto
qed

end

definition untried_ids :: "SwamScheduler option \<Rightarrow> u32 set" where
  "untried_ids sched =
     (case sched of None \<Rightarrow> {}
      | Some s \<Rightarrow> idx_id ` {i. i < unat (num_scenarios s) \<and> untried_idx s i})"

definition sched_shape :: "SwamScheduler option \<Rightarrow> bool" where
  "sched_shape sched =
     (case sched of None \<Rightarrow> True | Some s \<Rightarrow> length (stats s) = unat (num_scenarios s))"

lemma passes_filter_stats [simp]:
  "swam_scenario_passes_filter (Some (s\<lparr>total_selected := t, stats := x\<rparr>)) =
   swam_scenario_passes_filter (Some s)"
  by (rule ext) (simp add: swam_scenario_passes_filter_def split: option.split)

lemma outcome_update_selected [simp]: "n_selected (outcome_update oc st) = n_selected st"
  by (cases oc) auto

lemma swam_scheduler_update_idx:
  assumes "i < unat (num_scenarios s)"
  shows "swam_scheduler_update (Some s) (idx_id i) oc =
    Some (s\<lparr> total_selected := total_selected s + 1,
             stats := (stats s)[i := outcome_update oc
               ((stats s ! i)\<lparr> n_selected := n_selected (stats s ! i) + 1 \<rparr>)] \<rparr>)"
proof -
  have "idx_id i \<noteq> 0" using idx_id_unat [OF assms] by (metis unat_0 nat.distinct(1))
  then show ?thesis
    using idx_id_range [OF assms] by (simp add: swam_scheduler_update_def Let_def not_less)
qed

lemma update_shape: "sched_shape s \<Longrightarrow> sched_shape (swam_scheduler_update s k oc)"
  by (auto simp: sched_shape_def swam_scheduler_update_def Let_def split: option.splits)

lemma untried_ids_update:
  assumes "sched_shape sched" and "k \<in> untried_ids sched"
  shows "untried_ids (swam_scheduler_update sched k oc) = untried_ids sched - {k}"
proof -
  obtain s i where s: "sched = Some s" and i: "i < unat (num_scenarios s)" "untried_idx s i"
    and k: "k = idx_id i"
    using assms(2) by (auto simp: untried_ids_def split: option.splits)
  let ?t = "s\<lparr> total_selected := total_selected s + 1,
             stats := (stats s)[i := outcome_update oc
               ((stats s ! i)\<lparr> n_selected := n_selected (stats s ! i) + 1 \<rparr>)] \<rparr>"
  have "untried_idx ?t j \<longleftrightarrow> untried_idx s j \<and> j \<noteq> i" if "j < unat (num_scenarios s)" for j
    using assms(1) that i s by (auto simp: untried_idx_def nth_list_update sched_shape_def)
  then have "untried_ids (Some ?t) =
      idx_id ` ({j. j < unat (num_scenarios s) \<and> untried_idx s j} - {i})"
    by (auto simp: untried_ids_def)
  also have "\<dots> = untried_ids sched - {k}"
  proof -
    have "j = i" if "j < unat (num_scenarios s)" "idx_id j = idx_id i" for j
      using idx_id_range(3) [OF that(1)] idx_id_range(3) [OF i(1)] that(2) by simp
    then show ?thesis by (auto simp: untried_ids_def s k)
  qed
  finally show ?thesis using swam_scheduler_update_idx [OF i(1)] by (simp add: s k)
qed

lemma select_untried_ids:
  assumes "untried_ids sched \<noteq> {}"
  shows "fst (swam_scheduler_select D R sched g) \<in> untried_ids sched"
proof -
  obtain s i where s: "sched = Some s" and "i < unat (num_scenarios s)" "untried_idx s i"
    using assms by (auto simp: untried_ids_def split: option.splits)
  from select_untried_some [OF this(2,3), of D R g] show ?thesis
    by (auto simp: untried_ids_def s)
qed

lemma finite_untried_ids: "finite (untried_ids sched)"
  by (simp add: untried_ids_def split: option.splits)

interpretation sched: fair_scheduler "swam_scheduler_select D R" swam_scheduler_update
    untried_ids sched_shape for D :: "'d dbl_ops" and R :: "'g rand_ops"
  by unfold_locales
    (simp_all add: finite_untried_ids untried_ids_update update_shape select_untried_ids)

text \<open>The scheduler inside the fuzzing loop: one selection and one update per outcome.\<close>

definition sched_rounds ::
  "'d dbl_ops \<Rightarrow> 'g rand_ops \<Rightarrow> SwamScheduler option \<Rightarrow> 'g \<Rightarrow> SwamSchedOutcome list \<Rightarrow>
   u32 list \<times> SwamScheduler option \<times> 'g" where
  "sched_rounds D R = rounds (swam_scheduler_select D R) swam_scheduler_update"

lemma create_untried:
  assumes "swam_scheduler_create a b n = Some s" and "t = s\<lparr> proposals_mask := m, sched_profile := pr \<rparr>"
  shows "untried_ids (Some t) = idx_id ` set (filter (active t) (sched_indices t))"
    "card (untried_ids (Some t)) = unat (swam_scheduler_active_count (Some t))"
proof -
  have "untried_idx t i \<longleftrightarrow> active t i" if "i < unat (num_scenarios t)" for i
    using assms that by (auto simp: untried_idx_def swam_scheduler_create_def zero_stats_def split: if_splits)
  then show u: "untried_ids (Some t) = idx_id ` set (filter (active t) (sched_indices t))"
    by (auto simp: untried_ids_def)
  have "inj_on idx_id (set (filter (active t) (sched_indices t)))"
  proof (rule inj_onI)
    fix i j assume "i \<in> set (filter (active t) (sched_indices t))"
      "j \<in> set (filter (active t) (sched_indices t))" and eq: "idx_id i = idx_id j"
    then have "i < unat (num_scenarios t)" "j < unat (num_scenarios t)" by auto
    from idx_id_range(3) [OF this(1)] idx_id_range(3) [OF this(2)] show "i = j"
      unfolding eq by simp
  qed
  then show "card (untried_ids (Some t)) = unat (swam_scheduler_active_count (Some t))"
    unfolding u active_count_unat by (simp add: card_image distinct_card del: set_filter)
qed

section \<open>The counters as a summary of the history\<close>

definition sched_history ::
  "SwamScheduler option \<Rightarrow> (u32 \<times> SwamSchedOutcome) list \<Rightarrow> SwamScheduler option" where
  "sched_history sched us = foldl (\<lambda>s (i, oc). swam_scheduler_update s i oc) sched us"

definition count_in :: "(SwamSchedOutcome \<Rightarrow> bool) \<Rightarrow> u32 \<Rightarrow> (u32 \<times> SwamSchedOutcome) list \<Rightarrow> nat" where
  "count_in P k us = length (filter (\<lambda>(i, oc). i = k \<and> P oc) us)"

definition outcome_reached :: "SwamSchedOutcome \<Rightarrow> bool" where
  "outcome_reached oc \<longleftrightarrow> oc = SWAM_SCHED_REACHED_TRAPPED \<or> oc = SWAM_SCHED_REACHED_COMPLETED"

lemma outcome_update_counters:
  "n_reached (outcome_update oc st) = n_reached st + (if outcome_reached oc then 1 else 0)"
  "n_completed (outcome_update oc st) =
     n_completed st + (if oc = SWAM_SCHED_REACHED_COMPLETED then 1 else 0)"
  "n_instantiate_fail (outcome_update oc st) =
     n_instantiate_fail st + (if oc = SWAM_SCHED_INSTANTIATE_FAIL then 1 else 0)"
  by (cases oc; simp add: outcome_reached_def)+

text \<open>One statement for all counters: a field that every update of its scenario raises by
  one exactly for the outcomes in \<open>P\<close> counts those outcomes.\<close>

lemma history_counter:
  fixes fld :: "SwamScenarioStats \<Rightarrow> u32"
  assumes step: "\<And>oc st. fld (outcome_update oc (st\<lparr> n_selected := n_selected st + 1 \<rparr>)) =
      fld st + (if P oc then 1 else 0)"
    and "length (stats s) = unat (num_scenarios s)" and "1 \<le> k" "k \<le> num_scenarios s"
  shows "\<exists>t. sched_history (Some s) us = Some t \<and> num_scenarios t = num_scenarios s \<and>
      length (stats t) = unat (num_scenarios t) \<and>
      stats_query fld (Some t) k = stats_query fld (Some s) k + of_nat (count_in P k us)"
  using assms(2-)
proof (induction us arbitrary: s)
  case Nil
  then show ?case by (simp add: sched_history_def count_in_def)
next
  case (Cons u us)
  obtain i oc where u: "u = (i, oc)" by (cases u)
  obtain s1 where s1: "swam_scheduler_update (Some s) i oc = Some s1"
    by (cases "swam_scheduler_update (Some s) i oc")
      (auto simp: swam_scheduler_update_def Let_def split: if_splits)
  have ns: "num_scenarios s1 = num_scenarios s" "length (stats s1) = unat (num_scenarios s1)"
    using s1 Cons.prems(1) by (auto simp: swam_scheduler_update_def Let_def split: if_splits)
  have bnd: "unat (x - 1) < unat (num_scenarios s)" if "1 \<le> x" "x \<le> num_scenarios s" for x
    using that by (auto simp: word_le_nat_alt unat_sub)
  have ne: "unat (i - 1) = unat (k - 1) \<longleftrightarrow> i = k"
    by (metis diff_add_cancel word_unat_eq_iff)
  have "stats_query fld (Some s1) k =
      stats_query fld (Some s) k + (if i = k \<and> P oc then 1 else 0)"
    using s1 Cons.prems step bnd [of i]
    by (auto simp: ne one_le_word_iff stats_query_def swam_scheduler_update_def Let_def nth_list_update not_less
         split: if_splits)
  moreover obtain t where "sched_history (Some s1) us = Some t" "num_scenarios t = num_scenarios s1"
     "length (stats t) = unat (num_scenarios t)"
     "stats_query fld (Some t) k = stats_query fld (Some s1) k + of_nat (count_in P k us)"
    using Cons.IH [of s1] Cons.prems ns by auto
  ultimately show ?case
    using s1 ns by (simp add: sched_history_def u count_in_def)
qed

lemma history_total:
  "\<exists>t. sched_history (Some s) us = Some t \<and> num_scenarios t = num_scenarios s \<and>
     total_selected t = total_selected s +
       of_nat (length (filter (\<lambda>(i, oc). 1 \<le> i \<and> i \<le> num_scenarios s) us))"
proof (induction us arbitrary: s)
  case (Cons u us)
  obtain i oc where u: "u = (i, oc)" by (cases u)
  obtain s1 where s1: "swam_scheduler_update (Some s) i oc = Some s1"
    "num_scenarios s1 = num_scenarios s"
    "total_selected s1 = total_selected s + (if 1 \<le> i \<and> i \<le> num_scenarios s then 1 else 0)"
    by (cases "swam_scheduler_update (Some s) i oc")
      (auto simp: swam_scheduler_update_def Let_def one_le_word_iff linorder_not_le [symmetric]
        split: if_splits)
  with Cons [of s1] show ?case by (auto simp: sched_history_def u)
qed (simp add: sched_history_def)

section \<open>Properties\<close>

text \<open>
  C6. Whatever the floating-point arithmetic does, \<^verbatim>\<open>swam_scheduler_select\<close> driven by the
  fuzzer's own generator returns the identifier of a scenario that passes the proposal and
  profile filter whenever there is one, and 0 when there is none.
\<close>

theorem scheduler_select_sound:
  assumes "num_scenarios s \<noteq> 0"
  shows "if \<exists>i. 1 \<le> i \<and> i \<le> num_scenarios s \<and> swam_scenario_passes_filter (Some s) i
         then (let j = fst (swam_scheduler_select D (afl_rand_ops libc_rand) (Some s) g)
               in 1 \<le> j \<and> j \<le> num_scenarios s \<and> swam_scenario_passes_filter (Some s) j)
         else fst (swam_scheduler_select D (afl_rand_ops libc_rand) (Some s) g) = 0"
proof (cases "\<exists>i < unat (num_scenarios s). active s i")
  case True
  then obtain k where k: "k < unat (num_scenarios s)" "active s k"
     "fst (swam_scheduler_select D (afl_rand_ops libc_rand) (Some s) g) = idx_id k"
    using afl_rng.select_active by meson
  from idx_id_range [OF k(1)] k show ?thesis by (auto simp: Let_def)
next
  case False
  have "\<not> swam_scenario_passes_filter (Some s) i" if "1 \<le> i" "i \<le> num_scenarios s" for i
  proof -
    have "unat (i - 1) < unat (num_scenarios s)" using that by (auto simp: word_le_nat_alt unat_sub)
    with False show ?thesis by force
  qed
  moreover have "fst (swam_scheduler_select D (afl_rand_ops libc_rand) (Some s) g) = 0"
    by (rule select_none_active [OF assms]) (use False in auto)
  ultimately show ?thesis by auto
qed

text \<open>
  C7. Fairness: on a freshly created scheduler, under any filter, the first \<open>active_count\<close>
  rounds of select and update try every active scenario exactly once, whatever the outcomes
  of the rounds and the random numbers are.
\<close>

theorem scheduler_tries_every_active:
  assumes "swam_scheduler_create True True n = Some s"
    and "t = s\<lparr> proposals_mask := pmask, sched_profile := pr \<rparr>"
    and "length ocs = unat (swam_scheduler_active_count (Some t))"
  shows "distinct (fst (sched_rounds D R (Some t) g ocs)) \<and>
         set (fst (sched_rounds D R (Some t) g ocs)) =
           {i. 1 \<le> i \<and> i \<le> n \<and> swam_scenario_passes_filter (Some t) i}"
proof -
  have n: "num_scenarios t = n" and shape: "sched_shape (Some t)"
    using assms(1,2) by (auto simp: swam_scheduler_create_def sched_shape_def split: if_splits)
  have u: "untried_ids (Some t) = idx_id ` set (filter (active t) (sched_indices t))"
    and card: "length ocs = card (untried_ids (Some t))"
    using create_untried [OF assms(1,2)] assms(3) by simp_all
  have "{i. 1 \<le> i \<and> i \<le> n \<and> swam_scenario_passes_filter (Some t) i} = untried_ids (Some t)"
  proof (intro set_eqI iffI)
    fix i assume i: "i \<in> {i. 1 \<le> i \<and> i \<le> n \<and> swam_scenario_passes_filter (Some t) i}"
    then have "unat (i - 1) < unat n" by (auto simp: word_le_nat_alt unat_sub)
    with i show "i \<in> untried_ids (Some t)"
      by (auto simp: u n intro!: image_eqI [where x = "unat (i - 1)"])
  next
    fix i assume "i \<in> untried_ids (Some t)"
    then obtain k where "k < unat n" "active t k" "i = idx_id k" by (auto simp: u n)
    with idx_id_range [of k n] show "i \<in> {i. 1 \<le> i \<and> i \<le> n \<and> swam_scenario_passes_filter (Some t) i}"
      by simp
  qed
  then show ?thesis using sched.rounds_enumerate [OF shape card, of D R g] by (simp add: sched_rounds_def)
qed


text \<open>
  C9. Once every active scenario has been tried and the one-in-ten random pick is not drawn,
  the selected scenario is UCB1-optimal among the unsuppressed ones up to twice the machine
  epsilon of the comparison: no unsuppressed scenario has a score above it by more.
\<close>

theorem scheduler_select_ucb_optimal:
  assumes "\<And>i. i < unat (num_scenarios s) \<Longrightarrow> active s i \<Longrightarrow> n_selected (stats s ! i) \<noteq> 0"
    and "fst (swam_scheduler_rand_below R g 10) \<noteq> 0"
    and "i < unat (num_scenarios s)" "ucb_candidate real_dbl s i"
  shows "\<exists>k < unat (num_scenarios s). ucb_candidate real_dbl s k \<and>
      fst (swam_scheduler_select real_dbl R (Some s) g) = idx_id k \<and>
      ucb_score real_dbl (sched_log_N s) (stats s ! i)
        \<le> ucb_score real_dbl (sched_log_N s) (stats s ! k) + 2 * d_eps real_dbl"
  using select_ucb_optimal [OF assms] .

section \<open>Witnesses\<close>

definition demo_stats :: SwamScenarioStats where
  "demo_stats = \<lparr> n_selected = 4, n_reached = 1, n_completed = 1, n_instantiate_fail = 0 \<rparr>"

definition demo_sched :: SwamScheduler where
  "demo_sched = \<lparr> stats = [demo_stats, demo_stats\<lparr> n_reached := 3 \<rparr>], num_scenarios = 2,
     total_selected = 8, proposals_mask = SWAM_PROPOSALS_ALL, sched_profile = None \<rparr>"

lemma demo_active [simp]: "active demo_sched i \<longleftrightarrow> swam_get_scenario (idx_id i) \<noteq> None"
  by (auto simp: swam_scenario_passes_filter_def demo_sched_def required_proposal_nonzero
      split: option.splits)

theorem scheduler_select_sound_witness:
  "num_scenarios demo_sched \<noteq> 0 \<and>
   swam_scenario_passes_filter (Some demo_sched)
     (fst (swam_scheduler_select rat_dbl (afl_rand_ops (Pair 0)) (Some demo_sched) demo_rng))"
proof -
  have "swam_scenario_passes_filter (Some demo_sched) 1"
    using demo_active [of 0] by (simp add: swam_get_scenario_Some)
  moreover have "1 \<le> (1 :: u32) \<and> 1 \<le> num_scenarios demo_sched"
    by (simp add: demo_sched_def word_le_nat_alt)
  ultimately show ?thesis
    using scheduler_select_sound [of demo_sched rat_dbl "Pair 0" demo_rng]
    by (auto simp: demo_sched_def Let_def split: if_splits)
qed


definition demo_created :: SwamScheduler where
  "demo_created = \<lparr> stats = [zero_stats, zero_stats], num_scenarios = 2,
     total_selected = 0, proposals_mask = SWAM_PROPOSALS_ALL, sched_profile = None \<rparr>"

lemma demo_create: "swam_scheduler_create True True 2 = Some demo_created"
proof -
  have "replicate (unat (2 :: u32)) zero_stats = [zero_stats, zero_stats]"
    by (simp, simp add: numeral_2_eq_2)
  then show ?thesis by (simp add: swam_scheduler_create_def demo_created_def)
qed

lemma demo_created_active: "swam_scenario_passes_filter (Some demo_created) i \<longleftrightarrow> swam_get_scenario i \<noteq> None"
  by (auto simp: swam_scenario_passes_filter_def demo_created_def required_proposal_nonzero
      split: option.splits)

lemma demo_ids [simp]: "\<exists>sc. swam_get_scenario 1 = Some sc" "\<exists>sc. swam_get_scenario 2 = Some sc"
  by (simp_all add: swam_get_scenario_Some)

lemma demo_created_count: "swam_scheduler_active_count (Some demo_created) = 2"
proof -
  have "num_scenarios demo_created = 2" by (simp add: demo_created_def)
  then show ?thesis
    by (simp add: swam_scheduler_active_count_def demo_created_active upt_rec)
qed

theorem scheduler_tries_every_active_witness:
  "set (fst (sched_rounds rat_dbl (afl_rand_ops (Pair 0)) (Some demo_created) demo_rng
     [SWAM_SCHED_NOT_REACHED, SWAM_SCHED_INSTANTIATE_FAIL])) = {1, 2}"
proof -
  have "{i. 1 \<le> i \<and> i \<le> 2 \<and> swam_scenario_passes_filter (Some demo_created) i} = {1, 2}"
  proof -
    have "i = 1 \<or> i = 2" if "1 \<le> i" "i \<le> 2" for i :: u32
    proof -
      have "unat i = unat (1 :: u32) \<or> unat i = unat (2 :: u32)" using that by (auto simp: word_le_nat_alt)
      then show ?thesis by (simp only: word_unat_eq_iff)
    qed
    then show ?thesis by (auto simp: demo_created_active word_le_nat_alt)
  qed
  moreover have "length [SWAM_SCHED_NOT_REACHED, SWAM_SCHED_INSTANTIATE_FAIL] =
      unat (swam_scheduler_active_count (Some demo_created))"
    by (simp add: demo_created_count)
  moreover have "demo_created = demo_created\<lparr> proposals_mask := SWAM_PROPOSALS_ALL, sched_profile := None \<rparr>"
    by (simp add: demo_created_def)
  ultimately show ?thesis
    using scheduler_tries_every_active [OF demo_create, where pmask = SWAM_PROPOSALS_ALL and pr = None
        and t = demo_created and g = demo_rng and D = rat_dbl and R = "afl_rand_ops (Pair 0)"
        and ocs = "[SWAM_SCHED_NOT_REACHED, SWAM_SCHED_INSTANTIATE_FAIL]"]
    by (simp only: simp_thms)
qed


lemma demo_draw10: "fst (swam_scheduler_rand_below (afl_rand_ops (Pair 0)) demo_rng 10) \<noteq> 0"
  by (simp add: swam_scheduler_rand_below_def afl_rand_ops_def afl_rand_below_def rand_below_def rand_reseed_def
       rand_unbiased.simps rand_next_def demo_rng_def
        rand_zone_def Let_def word_le_nat_alt)

theorem scheduler_select_ucb_optimal_witness:
  "\<exists>k < 2. fst (swam_scheduler_select real_dbl (afl_rand_ops (Pair 0)) (Some demo_sched) demo_rng) = idx_id k \<and>
      ucb_score real_dbl (sched_log_N demo_sched) demo_stats
        \<le> ucb_score real_dbl (sched_log_N demo_sched) (stats demo_sched ! k) + 2 * d_eps real_dbl"
proof -
  have "n_selected (stats demo_sched ! i) \<noteq> 0" if "i < unat (num_scenarios demo_sched)" for i
    using that by (auto simp: demo_sched_def demo_stats_def less_2_cases_iff)
  moreover have "ucb_candidate real_dbl demo_sched 0"
    using demo_active [of 0]
    by (simp add: ucb_candidate_def)
      (simp add: ucb_suppressed_def demo_sched_def demo_stats_def word_le_nat_alt)
  moreover have "stats demo_sched ! 0 = demo_stats" "unat (num_scenarios demo_sched) = 2"
    by (simp_all add: demo_sched_def)
  ultimately show ?thesis
    using scheduler_select_ucb_optimal [of demo_sched "afl_rand_ops (Pair 0)" demo_rng 0] demo_draw10
    by auto
qed

end
