(* ===== verification/Swam_Markers.thy ===== *)
theory Swam_Markers
  imports Prelude
begin

text \<open>
  The marker channel between the fuzzer and the harness, \<^verbatim>\<open>swam_markers.c\<close>: a shared
  memory segment of three words (before, after, valid) whose id is published in the
  environment, with a text file as fallback. The state is what the file's two static
  variables and the operating system hold; the outcomes of the system calls that can fail
  are arguments of the operations.
\<close>

section \<open>Reading and printing decimal numbers\<close>

text \<open>The conversions \<^verbatim>\<open>%d\<close> of \<^verbatim>\<open>snprintf\<close> and \<^verbatim>\<open>%u\<close> of \<^verbatim>\<open>fscanf\<close>.\<close>

definition digit_char :: "nat \<Rightarrow> char" where
  "digit_char d = char_of (48 + d)"

fun nat_string :: "nat \<Rightarrow> string" where
  "nat_string n = (if n < 10 then [digit_char n]
                   else nat_string (n div 10) @ [digit_char (n mod 10)])"

declare nat_string.simps [simp del]

definition int_string :: "int \<Rightarrow> string" where
  "int_string i = (if i < 0 then CHR ''-'' # nat_string (nat (- i)) else nat_string (nat i))"

definition is_digit :: "char \<Rightarrow> bool" where
  "is_digit c \<longleftrightarrow> 48 \<le> (of_char c :: nat) \<and> (of_char c :: nat) \<le> 57"

definition is_space :: "char \<Rightarrow> bool" where
  "is_space c \<longleftrightarrow> (of_char c :: nat) = 32 \<or> 9 \<le> (of_char c :: nat) \<and> (of_char c :: nat) \<le> 13"

definition digits_value :: "string \<Rightarrow> nat" where
  "digits_value ds = foldl (\<lambda>n c. 10 * n + (of_char c - 48)) 0 ds"

text \<open>
  One \<^verbatim>\<open>%u\<close> conversion: white space is skipped, a sign is accepted, the digits are
  converted as by \<^verbatim>\<open>strtoul\<close> (saturating at the 64-bit maximum) and stored in 32 bits.
\<close>

definition scanf_u :: "string \<Rightarrow> (u32 \<times> string) option" where
  "scanf_u s =
     (let s1 = dropWhile is_space s;
          neg = (case s1 of c # _ \<Rightarrow> c = CHR ''-'' | [] \<Rightarrow> False);
          s2 = (case s1 of c # r \<Rightarrow> if c = CHR ''-'' \<or> c = CHR ''+'' then r else s1 | [] \<Rightarrow> []);
          ds = takeWhile is_digit s2;
          n = digits_value ds
      in if ds = [] then None
         else Some (if n \<ge> 2 ^ 64 then - 1 else if neg then - of_nat n else of_nat n,
                    dropWhile is_digit s2))"

text \<open>The call \<^verbatim>\<open>fscanf(f, "%u %u", ...) == 2\<close>.\<close>

definition scanf_u_u :: "string \<Rightarrow> (u32 \<times> u32) option" where
  "scanf_u_u s =
     (case scanf_u s of None \<Rightarrow> None
      | Some (a, r) \<Rightarrow> (case scanf_u (dropWhile is_space r) of None \<Rightarrow> None
                        | Some (b, _) \<Rightarrow> Some (a, b)))"

section \<open>State\<close>

text \<open>
  \<open>s_shm\<close> is the attached segment (\<open>None\<close> for the NULL pointer), \<open>segs\<close> the existing
  segments of this process, \<open>environ\<close> the environment, \<open>files\<close> the file system.
\<close>

record markers =
  s_shmid :: int
  s_shm :: "int option"
  segs :: "int \<rightharpoonup> u32 list"
  environ :: "string \<rightharpoonup> string"
  files :: "string \<rightharpoonup> string"

definition SWAM_MARKERS_TMP_PATH :: string where
  "SWAM_MARKERS_TMP_PATH = ''/tmp/swam_markers.txt''"

definition SWAM_MARKERS_ENV :: string where
  "SWAM_MARKERS_ENV = ''SWAM_SHM_ID''"

definition SWAM_MARKERS_WORDS :: nat where
  "SWAM_MARKERS_WORDS = 3"

text \<open>The values of the two static variables when the program starts.\<close>

definition markers_start :: "(string \<rightharpoonup> string) \<Rightarrow> (string \<rightharpoonup> string) \<Rightarrow> markers" where
  "markers_start env fs =
     \<lparr> s_shmid = - 1, s_shm = None, segs = Map.empty, environ = env, files = fs \<rparr>"

section \<open>Operations\<close>

definition get_markers_file_path :: "markers \<Rightarrow> string" where
  "get_markers_file_path m =
     (case environ m ''SWAM_MARKERS_FILE'' of
        Some p \<Rightarrow> if p \<noteq> [] then p else SWAM_MARKERS_TMP_PATH
      | None \<Rightarrow> SWAM_MARKERS_TMP_PATH)"

definition unlink_markers :: "markers \<Rightarrow> markers" where
  "unlink_markers m = m\<lparr> files := (files m)(get_markers_file_path m := None) \<rparr>"

definition shm_clear :: "markers \<Rightarrow> markers" where
  "shm_clear m =
     (case s_shm m of None \<Rightarrow> m
      | Some i \<Rightarrow> m\<lparr> segs := (segs m)(i \<mapsto> replicate SWAM_MARKERS_WORDS 0) \<rparr>)"

definition shm_rmid :: "markers \<Rightarrow> markers" where
  "shm_rmid m = m\<lparr> segs := (segs m)(s_shmid m := None), s_shmid := - 1 \<rparr>"

definition swam_markers_cleanup :: "markers \<Rightarrow> markers" where
  "swam_markers_cleanup m =
     (let m1 = (if s_shm m \<noteq> None then m\<lparr> s_shm := None \<rparr> else m);
          m2 = (if s_shmid m1 \<noteq> - 1 then shm_rmid m1 else m1);
          m3 = unlink_markers m2
      in m3\<lparr> environ := (environ m3)(SWAM_MARKERS_ENV := None) \<rparr>)"

definition init_cleanup :: "markers \<Rightarrow> markers" where
  "init_cleanup m =
     (if s_shm m \<noteq> None \<or> s_shmid m \<noteq> - 1 then swam_markers_cleanup m else m)"

text \<open>
  \<open>shmget_ret\<close> is the result of \<^verbatim>\<open>shmget\<close> (a new segment with contents \<open>fill\<close>, or -1),
  \<open>shmat_ok\<close> and \<open>setenv_ok\<close> say whether those calls succeed.
\<close>

definition swam_markers_init ::
  "int \<Rightarrow> u32 list \<Rightarrow> bool \<Rightarrow> bool \<Rightarrow> markers \<Rightarrow> int \<times> markers" where
  "swam_markers_init shmget_ret fill shmat_ok setenv_ok m =
     (let m0 = init_cleanup m;
          m1 = m0\<lparr> s_shmid := shmget_ret \<rparr>
      in if shmget_ret = - 1 then (- 1, m1)
         else
           (let m2 = m1\<lparr> segs := (segs m1)(shmget_ret \<mapsto> fill) \<rparr>
            in if \<not> shmat_ok then (- 1, shm_rmid m2)
               else
                 (let m3 = shm_clear (m2\<lparr> s_shm := Some shmget_ret \<rparr>);
                      id_buf = int_string shmget_ret
                  in if length id_buf \<ge> 32 \<or> \<not> setenv_ok
                     then (- 1, shm_rmid (m3\<lparr> s_shm := None \<rparr>))
                     else (0, m3\<lparr> environ := (environ m3)(SWAM_MARKERS_ENV \<mapsto> id_buf) \<rparr>))))"

text \<open>The callers pass three non-NULL pointers; the result is what they point to afterwards.\<close>

definition swam_markers_read :: "markers \<Rightarrow> u32 \<times> u32 \<times> bool" where
  "swam_markers_read m =
     (let words = (case s_shm m of None \<Rightarrow> None | Some i \<Rightarrow> segs m i)
      in case words of
           Some w \<Rightarrow> if w ! 2 \<noteq> 0 then (w ! 0, w ! 1, True)
                     else (case files m (get_markers_file_path m) of
                             None \<Rightarrow> (0, 0, False)
                           | Some txt \<Rightarrow> (case scanf_u_u txt of Some (b, a) \<Rightarrow> (b, a, True)
                                         | None \<Rightarrow> (0, 0, False)))
         | None \<Rightarrow> (case files m (get_markers_file_path m) of
                      None \<Rightarrow> (0, 0, False)
                    | Some txt \<Rightarrow> (case scanf_u_u txt of Some (b, a) \<Rightarrow> (b, a, True)
                                  | None \<Rightarrow> (0, 0, False))))"

definition swam_markers_reset :: "markers \<Rightarrow> markers" where
  "swam_markers_reset m = unlink_markers (shm_clear m)"

section \<open>The harness side\<close>

text \<open>
  What a harness does with the channel: write the two markers and the valid flag into the
  segment it finds through the environment, or print them into the marker file.
\<close>

definition harness_write_shm :: "u32 \<Rightarrow> u32 \<Rightarrow> markers \<Rightarrow> markers" where
  "harness_write_shm b a m =
     (case s_shm m of None \<Rightarrow> m | Some i \<Rightarrow> m\<lparr> segs := (segs m)(i \<mapsto> [b, a, 1]) \<rparr>)"

definition harness_write_file :: "u32 \<Rightarrow> u32 \<Rightarrow> markers \<Rightarrow> markers" where
  "harness_write_file b a m =
     m\<lparr> files := (files m)(get_markers_file_path m \<mapsto>
          nat_string (unat b) @ '' '' @ nat_string (unat a)) \<rparr>"

section \<open>Decimal round trip\<close>

lemma of_char_digit: "d < 10 \<Longrightarrow> of_char (digit_char d) = 48 + d"
  by (simp add: digit_char_def)

lemma digit_char_is_digit: "d < 10 \<Longrightarrow> is_digit (digit_char d)"
  by (simp add: is_digit_def of_char_digit)

lemma nat_string_digits: "list_all is_digit (nat_string n)"
proof (induction n rule: nat_string.induct)
  case (1 n)
  then show ?case
    by (subst nat_string.simps) (auto simp: digit_char_is_digit)
qed

lemma nat_string_nonempty: "nat_string n \<noteq> []"
  by (subst nat_string.simps) simp

lemma digits_value_nat_string: "digits_value (nat_string n) = n"
proof (induction n rule: nat_string.induct)
  case (1 n)
  show ?case
  proof (cases "n < 10")
    case True
    then show ?thesis by (subst nat_string.simps) (simp add: digits_value_def of_char_digit)
  next
    case False
    then have "digits_value (nat_string n) = 10 * digits_value (nat_string (n div 10)) + n mod 10"
      by (subst nat_string.simps) (simp add: digits_value_def of_char_digit)
    with 1 [OF False] show ?thesis by simp
  qed
qed

lemma is_digit_not_space: "is_digit c \<Longrightarrow> \<not> is_space c"
  by (auto simp: is_digit_def is_space_def)

lemma is_digit_not_sign: "is_digit c \<Longrightarrow> c \<noteq> CHR ''-'' \<and> c \<noteq> CHR ''+''"
  by (auto simp: is_digit_def)

lemma scanf_u_nat_string:
  assumes "n < 2 ^ 64" and "r = [] \<or> \<not> is_digit (hd r)"
  shows "scanf_u (nat_string n @ r) = Some (of_nat n, r)"
proof -
  obtain c cs where c: "nat_string n = c # cs" using nat_string_nonempty [of n] by (cases "nat_string n") auto
  have d: "list_all is_digit (c # cs)" using nat_string_digits [of n] by (simp add: c)
  have tw: "takeWhile is_digit (c # cs @ r) = c # cs" "dropWhile is_digit (c # cs @ r) = r"
    using d assms(2) by (cases r; auto simp: list_all_iff takeWhile_append dropWhile_append)+
  have "digits_value (c # cs) = n" using digits_value_nat_string [of n] by (simp add: c)
  moreover have "\<not> is_space c" "c \<noteq> CHR ''-''" "c \<noteq> CHR ''+''"
    using d is_digit_not_space is_digit_not_sign by auto
  ultimately show ?thesis
    using assms(1) tw by (simp add: scanf_u_def c)
qed

lemma scanf_print: "scanf_u_u (nat_string (unat b) @ '' '' @ nat_string (unat a)) = Some (b, a)"
proof -
  have lt: "unat w < 2 ^ 64" for w :: u32
    using unsigned_less [of w, where ?'a = nat] by simp
  obtain c cs where c: "nat_string (unat a) = c # cs" using nat_string_nonempty by (meson neq_Nil_conv)
  have "is_digit c" using nat_string_digits [of "unat a"] by (simp add: c)
  then have "dropWhile is_space ('' '' @ nat_string (unat a)) = nat_string (unat a)"
    by (simp add: c is_digit_not_space is_space_def [of "CHR '' ''"])
  moreover have "\<not> is_digit CHR '' ''" by (simp add: is_digit_def)
  ultimately show ?thesis
    using scanf_u_nat_string [OF lt [of b], of "'' '' @ nat_string (unat a)"]
      scanf_u_nat_string [OF lt [of a], of "[]"]
    by (simp add: scanf_u_u_def)
qed

section \<open>The life cycle\<close>

text \<open>
  What the operations keep: the process owns at most one segment, the one whose id is in
  \<open>s_shmid\<close>, it has three words when attached, and without an id nothing is attached.
\<close>

definition markers_inv :: "markers \<Rightarrow> bool" where
  "markers_inv m \<longleftrightarrow>
     (if s_shmid m = - 1 then s_shm m = None \<and> segs m = Map.empty
      else s_shm m = Some (s_shmid m) \<and>
        dom (segs m) = {s_shmid m} \<and>
        map_option length (segs m (s_shmid m)) = Some SWAM_MARKERS_WORDS)"

datatype marker_op =
    Init int "u32 list" bool bool
  | Reset
  | Cleanup
  | HarnessShm u32 u32
  | HarnessFile u32 u32

fun marker_step :: "marker_op \<Rightarrow> markers \<Rightarrow> markers" where
  "marker_step (Init i fill at_ok env_ok) m = snd (swam_markers_init i fill at_ok env_ok m)"
| "marker_step Reset m = swam_markers_reset m"
| "marker_step Cleanup m = swam_markers_cleanup m"
| "marker_step (HarnessShm b a) m = harness_write_shm b a m"
| "marker_step (HarnessFile b a) m = harness_write_file b a m"

definition markers_run ::
  "(string \<rightharpoonup> string) \<Rightarrow> (string \<rightharpoonup> string) \<Rightarrow> marker_op list \<Rightarrow> markers" where
  "markers_run env fs ops = foldl (\<lambda>m op. marker_step op m) (markers_start env fs) ops"

lemma map_remove_only: "dom f = {k} \<Longrightarrow> f(k := None) = Map.empty"
  by (simp flip: dom_eq_empty_conv)

lemma cleanup_inv:
  assumes "markers_inv m"
  shows "s_shmid (swam_markers_cleanup m) = - 1" "s_shm (swam_markers_cleanup m) = None"
    "segs (swam_markers_cleanup m) = Map.empty"
    "environ (swam_markers_cleanup m) SWAM_MARKERS_ENV = None"
  using assms
  by (auto simp: markers_inv_def swam_markers_cleanup_def unlink_markers_def shm_rmid_def Let_def
      map_remove_only split: if_splits)

lemma init_cleanup_inv:
  assumes "markers_inv m"
  shows "s_shmid (init_cleanup m) = - 1" "s_shm (init_cleanup m) = None"
    "segs (init_cleanup m) = Map.empty"
  using assms cleanup_inv [OF assms] by (auto simp: init_cleanup_def markers_inv_def split: if_splits)

lemma init_inv:
  assumes "markers_inv m"
  shows "markers_inv (snd (swam_markers_init i fill at_ok env_ok m))"
  using init_cleanup_inv [OF assms]
  by (simp add: swam_markers_init_def Let_def markers_inv_def shm_rmid_def shm_clear_def)

lemma reset_inv: "markers_inv m \<Longrightarrow> markers_inv (swam_markers_reset m)"
  by (auto simp: markers_inv_def swam_markers_reset_def shm_clear_def unlink_markers_def
      split: if_splits)

lemma harness_inv:
  assumes "markers_inv m"
  shows "markers_inv (harness_write_shm b a m)" "markers_inv (harness_write_file b a m)"
  using assms
  by (auto simp: markers_inv_def harness_write_shm_def harness_write_file_def
      SWAM_MARKERS_WORDS_def split: if_splits)

lemma marker_step_inv: "markers_inv m \<Longrightarrow> markers_inv (marker_step op m)"
  by (cases op) (simp_all add: init_inv reset_inv harness_inv cleanup_inv markers_inv_def [of "swam_markers_cleanup m"])

lemma markers_run_inv: "markers_inv (markers_run env fs ops)"
proof -
  have "markers_inv m \<Longrightarrow> markers_inv (foldl (\<lambda>m op. marker_step op m) m ops)" for m
    by (induction ops arbitrary: m) (auto simp: marker_step_inv)
  then show ?thesis
    unfolding markers_run_def by (simp add: markers_inv_def markers_start_def)
qed

lemma reset_read:
  assumes "markers_inv m"
  shows "swam_markers_read (swam_markers_reset m) = (0, 0, False)"
  using assms
  by (auto simp: markers_inv_def swam_markers_read_def swam_markers_reset_def unlink_markers_def
      shm_clear_def get_markers_file_path_def SWAM_MARKERS_WORDS_def split: option.splits if_splits)

section \<open>Properties\<close>

text \<open>
  C34. No stale verdict: after any sequence of initialisations (with any failures), resets,
  cleanups and harness writes, a reset makes the channel read as empty, and a read sees
  exactly what a harness then writes, through the segment or through the file.
\<close>

theorem markers_reset_write_read:
  assumes "m = markers_run env fs ops"
  shows "swam_markers_read (swam_markers_reset m) = (0, 0, False) \<and>
         (if s_shm m \<noteq> None
          then swam_markers_read (harness_write_shm b a (swam_markers_reset m)) = (b, a, True)
          else harness_write_shm b a (swam_markers_reset m) = swam_markers_reset m) \<and>
         swam_markers_read (harness_write_file b a (swam_markers_reset m)) = (b, a, True)"
proof -
  have inv: "markers_inv m"
    unfolding assms by (rule markers_run_inv)
  have "swam_markers_read (harness_write_file b a (swam_markers_reset m)) = (b, a, True)"
    using inv scanf_print [of b a]
    by (auto simp: markers_inv_def swam_markers_read_def swam_markers_reset_def unlink_markers_def
        harness_write_file_def shm_clear_def get_markers_file_path_def SWAM_MARKERS_WORDS_def
        split: option.splits if_splits)
  moreover have "if s_shm m \<noteq> None
          then swam_markers_read (harness_write_shm b a (swam_markers_reset m)) = (b, a, True)
          else harness_write_shm b a (swam_markers_reset m) = swam_markers_reset m"
    using inv
    by (auto simp: markers_inv_def swam_markers_read_def swam_markers_reset_def unlink_markers_def
        harness_write_shm_def shm_clear_def split: if_splits)
  ultimately show ?thesis using reset_read [OF inv] by blast
qed

theorem markers_reset_write_read_witness:
  "swam_markers_read (harness_write_file 7 7 (swam_markers_reset
     (markers_run Map.empty Map.empty
       [Init 42 [9, 9, 9] True True, HarnessShm 3 0]))) = (7, 7, True)"
  using markers_reset_write_read [OF refl, where env = Map.empty and fs = Map.empty
      and ops = "[Init 42 [9, 9, 9] True True, HarnessShm 3 0]" and b = 7 and a = 7]
  by blast

text \<open>
  C35. The segment is never leaked: whatever happened before, at any point the process owns at
  most the one segment it would remove, a failed initialisation owns none, and after the
  cleanup there is neither a segment nor an id in the environment.
\<close>

theorem markers_no_leak:
  assumes "m = markers_run env fs ops"
  shows "dom (segs m) = (if s_shmid m = - 1 then {} else {s_shmid m}) \<and>
         (fst (swam_markers_init i fill at_ok env_ok m) = 0 \<or>
            dom (segs (snd (swam_markers_init i fill at_ok env_ok m))) = {}) \<and>
         dom (segs (swam_markers_cleanup m)) = {} \<and>
         environ (swam_markers_cleanup m) SWAM_MARKERS_ENV = None"
proof -
  have inv: "markers_inv m"
    unfolding assms by (rule markers_run_inv)
  have "fst (swam_markers_init i fill at_ok env_ok m) = 0 \<or>
      dom (segs (snd (swam_markers_init i fill at_ok env_ok m))) = {}"
    using init_cleanup_inv [OF inv]
    by (simp add: swam_markers_init_def Let_def shm_rmid_def shm_clear_def)
  then show ?thesis
    using inv cleanup_inv [OF inv] by (auto simp: markers_inv_def split: if_splits)
qed

theorem markers_no_leak_witness:
  "dom (segs (swam_markers_cleanup (markers_run Map.empty Map.empty
       [Init 42 [9, 9, 9] True True, Init 43 [9, 9, 9] True False]))) = {}"
  using markers_no_leak [OF refl, where env = Map.empty and fs = Map.empty
      and ops = "[Init 42 [9, 9, 9] True True, Init 43 [9, 9, 9] True False]" and i = 44 and fill = "[]" and at_ok = True and env_ok = True]
  by blast

end
