(* ===== verification/Swam_Mutator.thy ===== *)
theory Swam_Mutator
  imports Swam_Scheduler Swam_Markers
begin

text \<open>
  The custom mutator AFL++ loads, \<^verbatim>\<open>wasm_mutators.c\<close>: initialisation, the online oracle
  that turns the markers of the previous execution into scheduler updates and saved modules,
  and \<^verbatim>\<open>afl_custom_fuzz\<close>, which produces the next module. A module is an abstract value
  \<open>'m\<close>; reading, writing and the mutation passes come through a record, because Binaryen is
  a third-party library. Everything else the passes use (generator, name pool) is a state
  \<open>'g\<close>. Pointers that may be NULL are options, buffers are byte lists.
\<close>

section \<open>State\<close>

definition SWAM_UNKNOWN_NOTRAP_SAVE_CAP :: u32 where
  "SWAM_UNKNOWN_NOTRAP_SAVE_CAP = 32"

definition SWAM_BUG_SAVE_CAP :: u8 where
  "SWAM_BUG_SAVE_CAP = 3"

definition SWAM_BUG_TAG_BYPASS :: nat where
  "SWAM_BUG_TAG_BYPASS = 0"

definition SWAM_BUG_TAG_FALSE_TRAP :: nat where
  "SWAM_BUG_TAG_FALSE_TRAP = 1"

definition MAX_FILE :: nat where
  "MAX_FILE = 8 * 1024 * 1024"

text \<open>
  A file the oracle writes: its path and contents, and for the specifications the scenario
  and the tag it was written for.
\<close>

record saved_file =
  sf_path :: string
  sf_bytes :: "u8 list"
  sf_scenario :: u32
  sf_tag :: string

text \<open>
  The fields of \<^verbatim>\<open>wasm_mutator_t\<close> (its \<^verbatim>\<open>swam_scheduler\<close> is \<open>wm_scheduler\<close>), the static variables of the file
  (\<open>swam_unknown_saved_trap\<close>, \<open>bug_counter\<close>, \<open>unknown_counter\<close>) and the files written.
\<close>

record wasm_mutator =
  name_out_buf :: string
  mutated_out_buf :: "u8 list"
  splice_cnt :: u32
  recurse_cnt :: u32
  interest_cnt :: u32
  operator_cnt :: u32
  br_target_cnt :: u32
  call_target_cnt :: u32
  swam_last_scenario_id :: u32
  swam_last_was_exploit :: bool
  swam_exploit_cnt :: u32
  swam_pending_module :: "u8 list option"
  swam_pending_module_size :: nat
  swam_bug_hits_total :: u32
  swam_saved_bug_count :: "u8 list list"
  swam_unknown_total :: "u32 list"
  swam_unknown_saved_notrap :: "u32 list"
  wm_scheduler :: "SwamScheduler option"
  swam_unknown_saved_trap :: "u32 list"
  bug_counter :: u32
  unknown_counter :: u32
  bug_files :: "saved_file list"
  unknown_files :: "saved_file list"

text \<open>
  The environment of a call: Binaryen (parse, serialise, set the feature flags), the parts of
  the mutator that work on a module, the output directory and the outcome of \<^verbatim>\<open>fopen\<close>.
\<close>

record ('m, 'g, 'f) wasm_env =
  module_read :: "u8 list \<Rightarrow> 'm option"
  module_write :: "'m \<Rightarrow> u8 list option"
  set_features :: "'m \<Rightarrow> 'm"
  strip_markers :: "'m \<Rightarrow> 'm"
  instantiate_scenario :: "'g \<Rightarrow> 'm \<Rightarrow> SwamScenario \<Rightarrow> (bool \<times> 'm) \<times> 'g"
  fragmentize :: "'m \<Rightarrow> 'f"
  no_fragments :: 'f
  call_target_mutate :: "'g \<Rightarrow> 'm \<Rightarrow> (u32 \<times> 'm) \<times> 'g"
  interest_mutate :: "'g \<Rightarrow> 'm \<Rightarrow> (u32 \<times> 'm) \<times> 'g"
  branch_target_mutate :: "'g \<Rightarrow> 'm \<Rightarrow> (u32 \<times> 'm) \<times> 'g"
  operators_mutate :: "'g \<Rightarrow> 'm \<Rightarrow> (u32 \<times> 'm) \<times> 'g"
  recursive_mutate :: "'g \<Rightarrow> 'm \<Rightarrow> (u32 \<times> 'm) \<times> 'g"
  splicing_mutate :: "'g \<Rightarrow> 'm \<Rightarrow> 'm option \<Rightarrow> 'f \<Rightarrow> (u32 \<times> 'm) \<times> 'g"
  reset_name_grp :: "'g \<Rightarrow> 'g"
  out_dir :: string
  fopen_ok :: "string \<Rightarrow> bool"

section \<open>Initialisation\<close>

definition zero_mutator :: wasm_mutator where
  "zero_mutator =
     \<lparr> name_out_buf = replicate 256 (char_of (0 :: nat)), mutated_out_buf = replicate MAX_FILE 0,
       splice_cnt = 0, recurse_cnt = 0, interest_cnt = 0, operator_cnt = 0, br_target_cnt = 0,
       call_target_cnt = 0, swam_last_scenario_id = 0, swam_last_was_exploit = False,
       swam_exploit_cnt = 0, swam_pending_module = None, swam_pending_module_size = 0,
       swam_bug_hits_total = 0,
       swam_saved_bug_count = replicate (length swam_scenario_catalog) [0, 0],
       swam_unknown_total = replicate (length swam_scenario_catalog) 0,
       swam_unknown_saved_notrap = replicate (length swam_scenario_catalog) 0,
       wm_scheduler = None,
       swam_unknown_saved_trap = replicate (length swam_scenario_catalog) 0,
       bug_counter = 0, unknown_counter = 0, bug_files = [], unknown_files = [] \<rparr>"

definition apply_runtime_profile :: "markers \<Rightarrow> SwamScheduler option \<Rightarrow> SwamScheduler option" where
  "apply_runtime_profile m sched =
     (case environ m ''SWAM_RUNTIME'' of
        None \<Rightarrow> sched
      | Some env \<Rightarrow>
          if env = ''all'' then sched
          else (case swam_profile_lookup (Some env) of
                  Some p \<Rightarrow> swam_scheduler_set_profile sched (Some p)
                | None \<Rightarrow> sched))"

text \<open>
  \<open>allocs\<close> are the outcomes of the three \<^verbatim>\<open>calloc\<close> calls, \<open>sched_allocs\<close> those inside
  \<^verbatim>\<open>swam_scheduler_create\<close>, \<open>shm\<close> the outcomes of the system calls of
  \<^verbatim>\<open>swam_markers_init\<close>. Its return value is ignored, as in the code.
\<close>

definition afl_custom_init ::
  "bool \<times> bool \<times> bool \<Rightarrow> bool \<times> bool \<Rightarrow> int \<times> u32 list \<times> bool \<times> bool \<Rightarrow> markers \<Rightarrow>
   (wasm_mutator \<times> markers) option" where
  "afl_custom_init allocs sched_allocs shm m =
     (case (allocs, sched_allocs, shm) of
        ((a1, a2, a3), (b1, b2), (shmid, fill, at_ok, env_ok)) \<Rightarrow>
          if \<not> a1 then None
          else if \<not> a2 then None
          else if \<not> a3 then None
          else
            (let m1 = snd (swam_markers_init shmid fill at_ok env_ok m);
                 sched = swam_scheduler_create b1 b2 swam_scenario_count
             in Some (zero_mutator\<lparr> wm_scheduler := apply_runtime_profile m1 sched \<rparr>, m1)))"

section \<open>Saving modules\<close>

text \<open>The conversions \<^verbatim>\<open>%06u\<close> and \<^verbatim>\<open>%03u\<close>, and \<^verbatim>\<open>snprintf\<close>'s truncation.\<close>

definition pad_string :: "nat \<Rightarrow> nat \<Rightarrow> string" where
  "pad_string w n = replicate (w - length (nat_string n)) CHR ''0'' @ nat_string n"

definition snprintf :: "nat \<Rightarrow> string \<Rightarrow> string" where
  "snprintf n s = take (n - 1) s"

fun layout_num :: "SwamLayout \<Rightarrow> nat" where
  "layout_num SWAM_LAYOUT_INTERIOR = 0"
| "layout_num SWAM_LAYOUT_BOUNDARY = 1"
| "layout_num SWAM_LAYOUT_OOB = 2"
| "layout_num SWAM_LAYOUT_COUNT = 3"

fun expected_num :: "SwamExpected \<Rightarrow> nat" where
  "expected_num SWAM_EXPECT_TRAP = 0"
| "expected_num SWAM_EXPECT_NO_TRAP = 1"
| "expected_num SWAM_EXPECT_UNKNOWN = 2"

definition save_path :: "string \<Rightarrow> string \<Rightarrow> u32 \<Rightarrow> SwamScenario \<Rightarrow> string \<Rightarrow> string" where
  "save_path dir sub counter scenario tag =
     snprintf 1024 (snprintf 512 (dir @ sub) @ ''/id:'' @ pad_string 6 (unat counter) @
       '',scenario:'' @ pad_string 3 (unat (sc_id scenario)) @
       '',layout:'' @ nat_string (layout_num (sc_layout scenario)) @
       '',expected:'' @ nat_string (expected_num (sc_expected scenario)) @
       '',tag:'' @ tag @ ''.wasm'')"

definition no_pending :: "wasm_mutator \<Rightarrow> bool" where
  "no_pending data \<longleftrightarrow> swam_pending_module data = None \<or> swam_pending_module_size data = 0"

definition pending_bytes :: "wasm_mutator \<Rightarrow> u8 list" where
  "pending_bytes data =
     take (swam_pending_module_size data)
       (case swam_pending_module data of Some b \<Rightarrow> b | None \<Rightarrow> [])"

definition swam_save_bug ::
  "('m, 'g, 'f) wasm_env \<Rightarrow> wasm_mutator \<Rightarrow> SwamScenario \<Rightarrow> string \<Rightarrow> wasm_mutator" where
  "swam_save_bug E data scenario tag =
     (if no_pending data then data
      else
        (let path = save_path (out_dir E) ''/swam_bugs'' (bug_counter data) scenario tag;
             data1 = data\<lparr> bug_counter := bug_counter data + 1 \<rparr>
         in if fopen_ok E path
            then data1\<lparr> bug_files := bug_files data1 @
                   [\<lparr> sf_path = path, sf_bytes = pending_bytes data,
                      sf_scenario = sc_id scenario, sf_tag = tag \<rparr>] \<rparr>
            else data1))"

definition swam_save_unknown ::
  "('m, 'g, 'f) wasm_env \<Rightarrow> wasm_mutator \<Rightarrow> SwamScenario \<Rightarrow> string \<Rightarrow> wasm_mutator" where
  "swam_save_unknown E data scenario tag =
     (if no_pending data then data
      else
        (let path = save_path (out_dir E) ''/swam_unknowns'' (unknown_counter data) scenario tag;
             data1 = data\<lparr> unknown_counter := unknown_counter data + 1 \<rparr>
         in if fopen_ok E path
            then data1\<lparr> unknown_files := unknown_files data1 @
                   [\<lparr> sf_path = path, sf_bytes = pending_bytes data,
                      sf_scenario = sc_id scenario, sf_tag = tag \<rparr>] \<rparr>
            else data1))"

definition swam_scheduler_record ::
  "wasm_mutator \<Rightarrow> u32 \<Rightarrow> SwamSchedOutcome \<Rightarrow> wasm_mutator" where
  "swam_scheduler_record data scenario_id outcome =
     data\<lparr> wm_scheduler := swam_scheduler_update (wm_scheduler data) scenario_id outcome \<rparr>"

definition scenario_index :: "SwamScenario \<Rightarrow> nat" where
  "scenario_index sc = unat (sc_id sc - 1)"

definition swam_maybe_save_bug ::
  "('m, 'g, 'f) wasm_env \<Rightarrow> wasm_mutator \<Rightarrow> SwamScenario option \<Rightarrow> nat \<Rightarrow> string \<Rightarrow> wasm_mutator"
where
  "swam_maybe_save_bug E data scenario tag_idx tag_name =
     (case scenario of
        None \<Rightarrow> data
      | Some sc \<Rightarrow>
          (let data1 = data\<lparr> swam_bug_hits_total := swam_bug_hits_total data + 1 \<rparr>;
               i = scenario_index sc;
               cnts = swam_saved_bug_count data1
           in if no_pending data1 then data1
              else if cnts ! i ! tag_idx \<ge> SWAM_BUG_SAVE_CAP then data1
              else swam_save_bug E
                     (data1\<lparr> swam_saved_bug_count :=
                        cnts[i := (cnts ! i)[tag_idx := cnts ! i ! tag_idx + 1]] \<rparr>) sc tag_name))"

section \<open>The oracle\<close>

text \<open>The third branch of the verdict: a scenario whose outcome the catalogue leaves open.\<close>

definition oracle_unknown ::
  "('m, 'g, 'f) wasm_env \<Rightarrow> wasm_mutator \<Rightarrow> SwamScenario \<Rightarrow> bool \<Rightarrow> wasm_mutator" where
  "oracle_unknown E data sc trapped =
     (let i = scenario_index sc;
          data1 = data\<lparr> swam_unknown_total :=
                     (swam_unknown_total data)[i := swam_unknown_total data ! i + 1] \<rparr>
      in if trapped
         then (let data2 = swam_save_unknown E data1 sc ''unknown_trap''
               in data2\<lparr> swam_unknown_saved_trap :=
                     (swam_unknown_saved_trap data2)[i := swam_unknown_saved_trap data2 ! i + 1] \<rparr>)
         else if swam_unknown_saved_notrap data1 ! i < SWAM_UNKNOWN_NOTRAP_SAVE_CAP
         then (let data2 = swam_save_unknown E data1 sc ''unknown_notrap''
               in data2\<lparr> swam_unknown_saved_notrap :=
                     (swam_unknown_saved_notrap data2)
                       [i := swam_unknown_saved_notrap data2 ! i + 1] \<rparr>)
         else data1)"

definition oracle_verdict ::
  "('m, 'g, 'f) wasm_env \<Rightarrow> wasm_mutator \<Rightarrow> SwamScenario \<Rightarrow> bool \<Rightarrow> wasm_mutator" where
  "oracle_verdict E data sc trapped =
     (if sc_expected sc = SWAM_EXPECT_TRAP \<and> \<not> trapped then
        swam_maybe_save_bug E data (Some sc) SWAM_BUG_TAG_BYPASS ''bypass''
      else if sc_expected sc = SWAM_EXPECT_NO_TRAP \<and> trapped then
        swam_maybe_save_bug E data (Some sc) SWAM_BUG_TAG_FALSE_TRAP ''false_trap''
      else if sc_expected sc = SWAM_EXPECT_UNKNOWN then oracle_unknown E data sc trapped
      else data)"

text \<open>The code after the label \<^verbatim>\<open>done\<close>.\<close>

definition oracle_done :: "wasm_mutator \<Rightarrow> wasm_mutator" where
  "oracle_done data = data\<lparr> swam_pending_module := None, swam_pending_module_size := 0 \<rparr>"

definition swam_oracle_check ::
  "('m, 'g, 'f) wasm_env \<Rightarrow> markers \<Rightarrow> wasm_mutator \<Rightarrow> wasm_mutator" where
  "swam_oracle_check E m data =
     (let (before, after, valid) = swam_markers_read m;
          i = swam_last_scenario_id data
      in if \<not> valid then oracle_done (swam_scheduler_record data i SWAM_SCHED_NOT_REACHED)
         else
           (case swam_get_scenario i of
              None \<Rightarrow> oracle_done data
            | Some sc \<Rightarrow>
                if before \<noteq> sc_id sc
                then oracle_done (swam_scheduler_record data i SWAM_SCHED_NOT_REACHED)
                else
                  (let trapped = (after \<noteq> sc_id sc);
                       data1 = swam_scheduler_record data i
                         (if trapped then SWAM_SCHED_REACHED_TRAPPED
                          else SWAM_SCHED_REACHED_COMPLETED)
                   in oracle_done (oracle_verdict E data1 sc trapped))))"

section \<open>Producing the next module\<close>

definition CUSTOM_SPLICE_HAVOC :: nat where
  "CUSTOM_SPLICE_HAVOC = 32"

definition CUSTOM_HAVOC_CYCLES :: nat where
  "CUSTOM_HAVOC_CYCLES = 64"

definition HAVOC_MIN :: u32 where
  "HAVOC_MIN = 12"

definition swam_clone_module :: "('m, 'g, 'f) wasm_env \<Rightarrow> 'm option \<Rightarrow> 'm option" where
  "swam_clone_module E m =
     (case m of None \<Rightarrow> None
      | Some mm \<Rightarrow> (case module_write E mm of None \<Rightarrow> None | Some bytes \<Rightarrow> module_read E bytes))"

text \<open>\<^verbatim>\<open>memcpy(dst, src, n)\<close> on the output buffer.\<close>

definition buf_copy :: "u8 list \<Rightarrow> u8 list \<Rightarrow> u8 list" where
  "buf_copy dst src = src @ drop (length src) dst"

text \<open>The fallback: the original input, clamped to \<^verbatim>\<open>max_size\<close>.\<close>

definition keep_input :: "u8 list \<Rightarrow> nat \<Rightarrow> wasm_mutator \<Rightarrow> nat \<times> wasm_mutator" where
  "keep_input buf max_size data =
     (let out_size = (if length buf > max_size then max_size else length buf)
      in (out_size,
          data\<lparr> mutated_out_buf := buf_copy (mutated_out_buf data) (take out_size buf) \<rparr>))"

definition custom_stage_max :: "'d dbl_ops \<Rightarrow> nat \<Rightarrow> 'd \<Rightarrow> u32 \<Rightarrow> u32" where
  "custom_stage_max D base_cycles perf_score havoc_div =
     (let ull = of_nat (d_trunc D (d_div D (d_mul D (d_of_nat D base_cycles) perf_score)
                                        (d_of_nat D (unat havoc_div)))) :: u64;
          stage_max = ucast (drop_bit 8 ull) :: u32
      in if stage_max < HAVOC_MIN then HAVOC_MIN else stage_max)"

text \<open>
  The switch over the mutation passes. A choice beyond the cases leaves the count of the
  previous round in place.
\<close>

definition run_mutator ::
  "('m, 'g, 'f) wasm_env \<Rightarrow> u32 \<Rightarrow> 'm option \<Rightarrow> 'f \<Rightarrow> u32 \<Rightarrow> wasm_mutator \<Rightarrow> 'm \<Rightarrow> 'g \<Rightarrow>
   u32 \<times> wasm_mutator \<times> 'm \<times> 'g" where
  "run_mutator E choice m2 pool cnt data m g =
     (if choice = 0 then
        (let ((n, m'), g') = call_target_mutate E g m
         in (n, data\<lparr> call_target_cnt := call_target_cnt data + n \<rparr>, m', g'))
      else if choice = 1 then
        (let ((n, m'), g') = interest_mutate E g m
         in (n, data\<lparr> interest_cnt := interest_cnt data + n \<rparr>, m', g'))
      else if choice = 2 then
        (let ((n, m'), g') = branch_target_mutate E g m
         in (n, data\<lparr> br_target_cnt := br_target_cnt data + n \<rparr>, m', g'))
      else if choice = 3 then
        (let ((n, m'), g') = operators_mutate E g m
         in (n, data\<lparr> operator_cnt := operator_cnt data + n \<rparr>, m', g'))
      else if choice = 4 then
        (let ((n, m'), g') = recursive_mutate E g m
         in (n, data\<lparr> recurse_cnt := recurse_cnt data + n \<rparr>, m', g'))
      else if choice = 5 then
        (let ((n, m'), g') = splicing_mutate E g m m2 pool
         in (n, data\<lparr> splice_cnt := splice_cnt data + n \<rparr>, m', g'))
      else (cnt, data, m, g))"

text \<open>The stage loop; \<open>None\<close> would be a loop that never ends.\<close>

partial_function (option) stage_loop ::
  "('m, 'g, 'f) wasm_env \<Rightarrow> 'g rand_ops \<Rightarrow> 'm option \<Rightarrow> 'f \<Rightarrow> u32 \<Rightarrow> u32 \<Rightarrow> u32 \<Rightarrow> u32 \<Rightarrow>
   wasm_mutator \<Rightarrow> 'm \<Rightarrow> 'g \<Rightarrow> (wasm_mutator \<times> 'm \<times> 'g) option" where
  "stage_loop E R m2 pool mutator_cnt stage_max stage_cur mutation_cnt data m g =
     (if stage_cur < stage_max then
        (let (choice, g1) = ro_rand_below R g mutator_cnt;
             (n, data1, m1, g2) = run_mutator E choice m2 pool mutation_cnt data m g1;
             n' = (if n = 0 then 1 else n)
         in stage_loop E R m2 pool mutator_cnt stage_max (stage_cur + n') n' data1 m1 g2)
      else Some (data, m, g))"

text \<open>The explore branch: an optional splice partner, the counters, the stage loop.\<close>

definition explore ::
  "('m, 'g, 'f) wasm_env \<Rightarrow> 'g rand_ops \<Rightarrow> 'd dbl_ops \<Rightarrow> 'd \<Rightarrow> u32 \<Rightarrow> u8 list option \<Rightarrow>
   wasm_mutator \<Rightarrow> 'm \<Rightarrow> 'g \<Rightarrow> (wasm_mutator \<times> 'm \<times> 'g) option" where
  "explore E R D perf_score havoc_div add_buf data m g =
     (let (partner, g1) =
            (case add_buf of
               None \<Rightarrow> (None, g)
             | Some ab \<Rightarrow> (let (v, g') = ro_rand_below R g 2
                          in (if v \<noteq> 0 then module_read E ab else None, g')));
          m2 = map_option (set_features E) partner;
          use_splice = (m2 \<noteq> None);
          base_cycles = (if use_splice then CUSTOM_SPLICE_HAVOC else CUSTOM_HAVOC_CYCLES);
          stage_max = custom_stage_max D base_cycles perf_score havoc_div;
          data1 = data\<lparr> splice_cnt := 0, recurse_cnt := 0, interest_cnt := 0,
                        operator_cnt := 0, br_target_cnt := 0, call_target_cnt := 0 \<rparr>;
          pool = (case m2 of Some mm \<Rightarrow> fragmentize E mm | None \<Rightarrow> no_fragments E)
      in stage_loop E R m2 pool (if use_splice then 6 else 5) stage_max 0 1 data1 m g1)"

text \<open>
  The exploit branch, taken with probability one half: the scenario chosen, the instrumented
  clone when everything succeeded, the state.
\<close>

definition exploit_attempt ::
  "('m, 'g, 'f) wasm_env \<Rightarrow> 'g rand_ops \<Rightarrow> 'd dbl_ops \<Rightarrow> wasm_mutator \<Rightarrow> 'm \<Rightarrow> 'g \<Rightarrow>
   (SwamScenario \<times> 'm) option \<times> wasm_mutator \<times> 'g" where
  "exploit_attempt E R D data m g =
     (let (v, g1) = ro_rand_below R g 2
      in if v \<noteq> 0 then (None, data, g1)
         else
           (let (sched_id, g2) = swam_scheduler_select D R (wm_scheduler data) g1
            in case swam_get_scenario sched_id of
                 None \<Rightarrow> (None, data, g2)
               | Some sc \<Rightarrow>
                   (case swam_clone_module E (Some m) of
                      None \<Rightarrow> (None, data, g2)
                    | Some c \<Rightarrow>
                        (let ((ok, c'), g3) =
                               instantiate_scenario E g2 (strip_markers E (set_features E c)) sc
                         in if ok then
                              (Some (sc, c'),
                               data\<lparr> swam_exploit_cnt := swam_exploit_cnt data + 1 \<rparr>, g3)
                            else
                              (None,
                               swam_scheduler_record data (sc_id sc) SWAM_SCHED_INSTANTIATE_FAIL,
                               g3)))))"

text \<open>
  The end of \<^verbatim>\<open>afl_custom_fuzz\<close>: serialise, clamp, and remember an exploit module for the
  oracle of the next call. \<open>malloc_ok\<close> is the outcome of the allocation of its copy.
\<close>

definition finish_output ::
  "('m, 'g, 'f) wasm_env \<Rightarrow> bool \<Rightarrow> u8 list \<Rightarrow> nat \<Rightarrow> SwamScenario option \<Rightarrow> 'm \<Rightarrow>
   wasm_mutator \<Rightarrow> markers \<Rightarrow> nat \<times> wasm_mutator \<times> markers" where
  "finish_output E malloc_ok buf max_size exploited output_module data mk =
     (case module_write E output_module of
        None \<Rightarrow> (let (n, data1) = keep_input buf max_size data in (n, data1, mk))
      | Some res \<Rightarrow>
          (let (out_size, data1) =
                 (if length res > max_size then keep_input buf max_size data
                  else (length res,
                        data\<lparr> mutated_out_buf := buf_copy (mutated_out_buf data) res \<rparr>))
           in case exploited of
                None \<Rightarrow> (out_size, data1, mk)
              | Some sc \<Rightarrow>
                  if out_size = length res then
                    if malloc_ok then
                      (out_size,
                       data1\<lparr> swam_pending_module := Some (take out_size (mutated_out_buf data1)),
                              swam_pending_module_size := out_size,
                              swam_last_was_exploit := True,
                              swam_last_scenario_id := sc_id sc \<rparr>,
                       swam_markers_reset mk)
                    else (out_size,
                          data1\<lparr> swam_pending_module := None, swam_pending_module_size := 0 \<rparr>, mk)
                  else (out_size, data1, mk)))"

definition fuzz_oracle ::
  "('m, 'g, 'f) wasm_env \<Rightarrow> markers \<Rightarrow> wasm_mutator \<Rightarrow> wasm_mutator" where
  "fuzz_oracle E mk data =
     (if swam_last_was_exploit data
      then (swam_oracle_check E mk data)\<lparr> swam_last_was_exploit := False \<rparr> else data)"

definition afl_custom_fuzz ::
  "('m, 'g, 'f) wasm_env \<Rightarrow> 'g rand_ops \<Rightarrow> 'd dbl_ops \<Rightarrow> 'd \<Rightarrow> u32 \<Rightarrow> bool \<Rightarrow> u8 list \<Rightarrow>
   u8 list option \<Rightarrow> nat \<Rightarrow> wasm_mutator \<Rightarrow> markers \<Rightarrow> 'g \<Rightarrow>
   (nat \<times> wasm_mutator \<times> markers \<times> 'g) option" where
  "afl_custom_fuzz E R D perf_score havoc_div malloc_ok buf add_buf max_size data mk g =
     (let data1 = fuzz_oracle E mk data
      in case module_read E buf of
           None \<Rightarrow> (let (n, data2) = keep_input buf max_size data1 in Some (n, data2, mk, g))
         | Some wm \<Rightarrow>
             (let m1 = set_features E wm
              in case exploit_attempt E R D data1 m1 g of
                   (Some (sc, c), data2, g2) \<Rightarrow>
                     (let (n, data3, mk3) = finish_output E malloc_ok buf max_size (Some sc) c data2 mk
                      in Some (n, data3, mk3, reset_name_grp E g2))
                 | (None, data2, g2) \<Rightarrow>
                     (case explore E R D perf_score havoc_div add_buf data2 m1 g2 of
                        None \<Rightarrow> None
                      | Some (data3, m3, g3) \<Rightarrow>
                          (let (n, data4, mk4) = finish_output E malloc_ok buf max_size None m3 data3 mk
                           in Some (n, data4, mk4, reset_name_grp E g3)))))"

text \<open>The entry points that disable trimming, and the description of the last mutation.\<close>

definition afl_custom_init_trim :: "wasm_mutator \<Rightarrow> u8 list \<Rightarrow> int" where
  "afl_custom_init_trim data buf = 0"

definition afl_custom_trim :: "wasm_mutator \<Rightarrow> nat" where
  "afl_custom_trim data = 0"

definition afl_custom_post_trim :: "wasm_mutator \<Rightarrow> int \<Rightarrow> int" where
  "afl_custom_post_trim data success = 0"

definition afl_custom_describe :: "wasm_mutator \<Rightarrow> nat \<Rightarrow> string \<times> wasm_mutator" where
  "afl_custom_describe data max_description_len =
     (let u = (\<lambda>w :: u32. nat_string (unat w));
          str = snprintf max_description_len
                (''br:'' @ u (br_target_cnt data) @ '',int:'' @ u (interest_cnt data) @
                 '',opt:'' @ u (operator_cnt data) @ '',cal:'' @ u (call_target_cnt data) @
                 '',rec:'' @ u (recurse_cnt data) @ '',spl:'' @ u (splice_cnt data) @
                 '',swam:'' @ u (swam_exploit_cnt data))
      in (str, data\<lparr> name_out_buf := str @ char_of (0 :: nat) #
                      drop (Suc (length str)) (name_out_buf data) \<rparr>))"

text \<open>What remains of the shared state after \<^verbatim>\<open>afl_custom_deinit\<close>: the marker channel.\<close>

definition afl_custom_deinit :: "wasm_mutator \<Rightarrow> markers \<Rightarrow> markers" where
  "afl_custom_deinit data mk = swam_markers_cleanup mk"

section \<open>The oracle\<close>

definition contradicts :: "SwamScenario \<Rightarrow> bool \<Rightarrow> bool" where
  "contradicts sc trapped \<longleftrightarrow>
     sc_expected sc = SWAM_EXPECT_TRAP \<and> \<not> trapped \<or> sc_expected sc = SWAM_EXPECT_NO_TRAP \<and> trapped"

lemma save_bug_fields [simp]:
  "swam_bug_hits_total (swam_save_bug E d sc t) = swam_bug_hits_total d"
  "wm_scheduler (swam_save_bug E d sc t) = wm_scheduler d"
  "swam_saved_bug_count (swam_save_bug E d sc t) = swam_saved_bug_count d"
  "swam_unknown_saved_notrap (swam_save_bug E d sc t) = swam_unknown_saved_notrap d"
  "mutated_out_buf (swam_save_bug E d sc t) = mutated_out_buf d"
  "unknown_files (swam_save_bug E d sc t) = unknown_files d"
  by (auto simp: swam_save_bug_def Let_def)

lemma save_unknown_fields [simp]:
  "swam_bug_hits_total (swam_save_unknown E d sc t) = swam_bug_hits_total d"
  "wm_scheduler (swam_save_unknown E d sc t) = wm_scheduler d"
  "swam_saved_bug_count (swam_save_unknown E d sc t) = swam_saved_bug_count d"
  "swam_unknown_saved_notrap (swam_save_unknown E d sc t) = swam_unknown_saved_notrap d"
  "mutated_out_buf (swam_save_unknown E d sc t) = mutated_out_buf d"
  "bug_files (swam_save_unknown E d sc t) = bug_files d"
  by (auto simp: swam_save_unknown_def Let_def)

lemma maybe_save_bug_fields [simp]:
  "swam_bug_hits_total (swam_maybe_save_bug E d (Some sc) k t) = swam_bug_hits_total d + 1"
  "wm_scheduler (swam_maybe_save_bug E d (Some sc) k t) = wm_scheduler d"
  "swam_unknown_saved_notrap (swam_maybe_save_bug E d (Some sc) k t) = swam_unknown_saved_notrap d"
  "mutated_out_buf (swam_maybe_save_bug E d (Some sc) k t) = mutated_out_buf d"
  "unknown_files (swam_maybe_save_bug E d (Some sc) k t) = unknown_files d"
  by (auto simp: swam_maybe_save_bug_def Let_def)

lemma oracle_unknown_fields [simp]:
  "swam_bug_hits_total (oracle_unknown E d sc tr) = swam_bug_hits_total d"
  "wm_scheduler (oracle_unknown E d sc tr) = wm_scheduler d"
  "swam_saved_bug_count (oracle_unknown E d sc tr) = swam_saved_bug_count d"
  "mutated_out_buf (oracle_unknown E d sc tr) = mutated_out_buf d"
  "bug_files (oracle_unknown E d sc tr) = bug_files d"
  by (auto simp: oracle_unknown_def Let_def)

lemma oracle_verdict_fields [simp]:
  "swam_bug_hits_total (oracle_verdict E d sc tr) =
     swam_bug_hits_total d + (if contradicts sc tr then 1 else 0)"
  "wm_scheduler (oracle_verdict E d sc tr) = wm_scheduler d"
  "mutated_out_buf (oracle_verdict E d sc tr) = mutated_out_buf d"
  by (auto simp: oracle_verdict_def contradicts_def)

lemma record_fields [simp]:
  "wm_scheduler (swam_scheduler_record d i oc) = swam_scheduler_update (wm_scheduler d) i oc"
  "swam_bug_hits_total (swam_scheduler_record d i oc) = swam_bug_hits_total d"
  "swam_saved_bug_count (swam_scheduler_record d i oc) = swam_saved_bug_count d"
  "swam_unknown_saved_notrap (swam_scheduler_record d i oc) = swam_unknown_saved_notrap d"
  "swam_pending_module (swam_scheduler_record d i oc) = swam_pending_module d"
  "swam_pending_module_size (swam_scheduler_record d i oc) = swam_pending_module_size d"
  "swam_last_was_exploit (swam_scheduler_record d i oc) = swam_last_was_exploit d"
  "mutated_out_buf (swam_scheduler_record d i oc) = mutated_out_buf d"
  "bug_files (swam_scheduler_record d i oc) = bug_files d"
  "unknown_files (swam_scheduler_record d i oc) = unknown_files d"
  by (simp_all add: swam_scheduler_record_def)

lemma done_fields [simp]:
  "wm_scheduler (oracle_done d) = wm_scheduler d"
  "swam_bug_hits_total (oracle_done d) = swam_bug_hits_total d"
  "swam_saved_bug_count (oracle_done d) = swam_saved_bug_count d"
  "swam_unknown_saved_notrap (oracle_done d) = swam_unknown_saved_notrap d"
  "swam_pending_module (oracle_done d) = None"
  "mutated_out_buf (oracle_done d) = mutated_out_buf d"
  "bug_files (oracle_done d) = bug_files d"
  "unknown_files (oracle_done d) = unknown_files d"
  by (simp_all add: oracle_done_def)

text \<open>The outcome a marker reading stands for, as the comment in the oracle classifies it.\<close>

definition marker_outcome :: "u32 \<times> u32 \<times> bool \<Rightarrow> u32 \<Rightarrow> SwamSchedOutcome" where
  "marker_outcome r i =
     (case r of (before, after, valid) \<Rightarrow>
        if \<not> valid \<or> before \<noteq> i then SWAM_SCHED_NOT_REACHED
        else if after = i then SWAM_SCHED_REACHED_COMPLETED else SWAM_SCHED_REACHED_TRAPPED)"

lemma oracle_check_unfold:
  assumes "swam_get_scenario (swam_last_scenario_id d) = Some sc"
  shows "swam_oracle_check E mk d =
    (let oc = marker_outcome (swam_markers_read mk) (sc_id sc);
         d1 = swam_scheduler_record d (sc_id sc) oc
     in if oc = SWAM_SCHED_NOT_REACHED then oracle_done d1
        else oracle_done (oracle_verdict E d1 sc (oc = SWAM_SCHED_REACHED_TRAPPED)))"
  using swam_get_scenario_id [OF assms] assms
  by (auto simp: swam_oracle_check_def marker_outcome_def Let_def split: prod.splits)

section \<open>The stage loop\<close>

definition mutators_bounded :: "nat \<Rightarrow> ('m, 'g, 'f) wasm_env \<Rightarrow> bool" where
  "mutators_bounded B E \<longleftrightarrow>
     (\<forall>g m. unat (fst (fst (call_target_mutate E g m))) \<le> B \<and>
            unat (fst (fst (interest_mutate E g m))) \<le> B \<and>
            unat (fst (fst (branch_target_mutate E g m))) \<le> B \<and>
            unat (fst (fst (operators_mutate E g m))) \<le> B \<and>
            unat (fst (fst (recursive_mutate E g m))) \<le> B) \<and>
     (\<forall>g m m2 pool. unat (fst (fst (splicing_mutate E g m m2 pool))) \<le> B)"

lemma run_mutator_bound:
  assumes "mutators_bounded B E" and "unat cnt \<le> B"
  shows "unat (fst (run_mutator E choice m2 pool cnt d m g)) \<le> B"
  using assms by (auto simp: run_mutator_def mutators_bounded_def case_prod_unfold Let_def)

lemma stage_loop_terminates:
  assumes "mutators_bounded B E" and "0 < B" and "unat smax + B < 2 ^ 32" and "unat cnt \<le> B"
  shows "\<exists>r. stage_loop E R m2 pool mcnt smax cur cnt d m g = Some r"
  using assms(4)
proof (induction "unat smax - unat cur" arbitrary: cur cnt d m g rule: less_induct)
  case less
  show ?case
  proof (cases "cur < smax")
    case True
    let ?r = "ro_rand_below R g mcnt"
    let ?s = "run_mutator E (fst ?r) m2 pool cnt d m (snd ?r)"
    let ?n = "if fst ?s = 0 then 1 else fst ?s"
    have n: "unat ?n \<le> B" "0 < unat ?n"
      using run_mutator_bound [OF assms(1) less.prems, of "fst ?r" m2 pool d m "snd ?r"] assms(2)
      by (auto simp: unat_gt_0)
    have lt: "unat cur < unat smax" using True by (simp add: word_less_nat_alt)
    then have "unat (cur + ?n) = unat cur + unat ?n"
      using n assms(3) by (simp add: unat_word_ariths)
    with n lt have "unat smax - unat (cur + ?n) < unat smax - unat cur" by linarith
    from less.hyps [OF this n(1)] show ?thesis
      using True by (subst stage_loop.simps) (simp add: case_prod_unfold Let_def)
  qed (subst stage_loop.simps, simp)
qed

text \<open>The loop touches only its six counters.\<close>

definition erase_counters :: "wasm_mutator \<Rightarrow> wasm_mutator" where
  "erase_counters d = d\<lparr> splice_cnt := 0, recurse_cnt := 0, interest_cnt := 0, operator_cnt := 0,
     br_target_cnt := 0, call_target_cnt := 0 \<rparr>"

lemma run_mutator_erase:
  "erase_counters (fst (snd (run_mutator E choice m2 pool cnt d m g))) = erase_counters d"
  by (simp add: run_mutator_def erase_counters_def case_prod_unfold Let_def)

lemma stage_loop_erase:
  assumes "stage_loop E R m2 pool mcnt smax cur cnt d m g = Some (d', m', g')"
  shows "erase_counters d' = erase_counters d"
proof -
  have "erase_counters (fst r) = erase_counters d"
    if "stage_loop E R m2 pool mcnt smax cur cnt d m g = Some r" for r
  proof (rule stage_loop.raw_induct
      [where P = "\<lambda>E R m2 pool mcnt smax cur cnt d m g r. erase_counters (fst r) = erase_counters d",
       OF _ that])
    fix sl E R m2 pool mcnt smax cur cnt d m g r
    assume IH: "\<And>E R m2 pool mcnt smax cur cnt d m g r.
        sl E R m2 pool mcnt smax cur cnt d m g = Some r \<Longrightarrow> erase_counters (fst r) = erase_counters d"
      and eq: "(if cur < smax then let (choice, g1) = ro_rand_below R g mcnt;
             (n, data1, m1, g2) = run_mutator E choice m2 pool cnt d m g1;
             n' = (if n = 0 then 1 else n)
         in sl E R m2 pool mcnt smax (cur + n') n' data1 m1 g2
      else Some (d, m, g)) = Some r"
    let ?r = "ro_rand_below R g mcnt"
    let ?s = "run_mutator E (fst ?r) m2 pool cnt d m (snd ?r)"
    let ?n = "if fst ?s = 0 then 1 else fst ?s"
    show "erase_counters (fst r) = erase_counters d"
    proof (cases "cur < smax")
      case True
      with eq have "sl E R m2 pool mcnt smax (cur + ?n) ?n (fst (snd ?s)) (fst (snd (snd ?s)))
          (snd (snd (snd ?s))) = Some r"
        by (simp only: case_prod_unfold Let_def if_True)
      from IH [OF this] show ?thesis by (simp only: run_mutator_erase)
    qed (use eq in auto)
  qed
  from this [OF assms] show ?thesis by simp
qed

section \<open>The output\<close>

lemma keep_input_spec:
  assumes "keep_input buf mx d = (n, d')" and "mx \<le> length (mutated_out_buf d)"
  shows "n \<le> mx" "take n (mutated_out_buf d') = take mx buf"
    "length (mutated_out_buf d') = length (mutated_out_buf d)"
  using assms by (auto simp: keep_input_def buf_copy_def Let_def split: if_splits)

lemma erase_fields:
  assumes "erase_counters d' = erase_counters d"
  shows "mutated_out_buf d' = mutated_out_buf d" "swam_last_was_exploit d' = swam_last_was_exploit d"
    "swam_pending_module d' = swam_pending_module d"
    "swam_pending_module_size d' = swam_pending_module_size d"
    "swam_last_scenario_id d' = swam_last_scenario_id d" "bug_files d' = bug_files d"
    "swam_saved_bug_count d' = swam_saved_bug_count d" "wm_scheduler d' = wm_scheduler d"
    "unknown_files d' = unknown_files d"
    "swam_unknown_saved_notrap d' = swam_unknown_saved_notrap d"
  using assms by (cases d; cases d'; simp add: erase_counters_def)+

lemma explore_erase:
  assumes "explore E R D perf hdiv ab d m g = Some (d', m', g')"
  shows "erase_counters d' = erase_counters d"
proof -
  have e: "erase_counters (d\<lparr> splice_cnt := 0, recurse_cnt := 0, interest_cnt := 0,
      operator_cnt := 0, br_target_cnt := 0, call_target_cnt := 0 \<rparr>) = erase_counters d"
    by (simp add: erase_counters_def)
  show ?thesis
    using assms by (auto simp: explore_def Let_def case_prod_unfold e dest!: stage_loop_erase)
qed

lemma explore_terminates:
  assumes "mutators_bounded B E" and "0 < B"
    and "\<And>b. b \<in> {CUSTOM_SPLICE_HAVOC, CUSTOM_HAVOC_CYCLES} \<Longrightarrow>
         unat (custom_stage_max D b perf hdiv) + B < 2 ^ 32"
  shows "\<exists>r. explore E R D perf hdiv ab d m g = Some r"
  using assms(2) assms(3) [of CUSTOM_SPLICE_HAVOC] assms(3) [of CUSTOM_HAVOC_CYCLES]
  unfolding explore_def case_prod_unfold Let_def
  by (intro stage_loop_terminates [OF assms(1,2)]) auto

definition output_ok :: "('m, 'g, 'f) wasm_env \<Rightarrow> u8 list \<Rightarrow> nat \<Rightarrow> nat \<Rightarrow> wasm_mutator \<Rightarrow> bool" where
  "output_ok E buf mx n d \<longleftrightarrow> n \<le> mx \<and> length (mutated_out_buf d) = MAX_FILE \<and>
     (take n (mutated_out_buf d) = take mx buf \<or>
      (\<exists>m. module_write E m = Some (take n (mutated_out_buf d))))"

lemma finish_output_ok:
  assumes "mx \<le> MAX_FILE" and "length (mutated_out_buf d) = MAX_FILE"
    and "finish_output E ok buf mx ex m d mk = (n, d', mk')"
  shows "output_ok E buf mx n d'"
proof (cases "module_write E m")
  case None
  then show ?thesis
    using assms keep_input_spec [of buf mx d]
    by (auto simp: finish_output_def output_ok_def split: prod.splits)
next
  case (Some res)
  show ?thesis
  proof (cases "length res > mx")
    case True
    then show ?thesis
      using assms Some keep_input_spec [of buf mx d]
      by (auto simp: finish_output_def output_ok_def split: prod.splits option.splits if_splits)
  next
    case False
    then show ?thesis
      using assms Some
      by (auto simp: finish_output_def output_ok_def buf_copy_def split: option.splits if_splits)
  qed
qed

lemma oracle_buf [simp]: "mutated_out_buf (fuzz_oracle E mk d) = mutated_out_buf d"
  by (auto simp: fuzz_oracle_def swam_oracle_check_def Let_def split: prod.splits option.splits)

lemma exploit_attempt_cases:
  assumes "exploit_attempt E R D d m g = (r, d', g')"
  obtains (none) "r = None" "d' = d"
    | (ok) i sc c where "r = Some (sc, c)" "d' = d\<lparr> swam_exploit_cnt := swam_exploit_cnt d + 1 \<rparr>"
        "swam_get_scenario i = Some sc"
    | (fail) i sc where "r = None" "d' = swam_scheduler_record d (sc_id sc) SWAM_SCHED_INSTANTIATE_FAIL"
        "swam_get_scenario i = Some sc"
  using assms
  by (auto simp: exploit_attempt_def Let_def case_prod_unfold split: if_splits option.splits)

section \<open>The campaign\<close>

text \<open>
  One run of the fuzzer as a sequence of steps: a call of \<^verbatim>\<open>afl_custom_fuzz\<close>, or an
  execution of the module it returned last. The target is what an execution of a module
  makes the harness report: nothing, or a before and an after marker.
\<close>

record 'g campaign =
  cp_data :: wasm_mutator
  cp_markers :: markers
  cp_rest :: 'g
  cp_out :: "u8 list option"

definition harness_run :: "(u8 list \<Rightarrow> (u32 \<times> u32) option) \<Rightarrow> u8 list \<Rightarrow> markers \<Rightarrow> markers" where
  "harness_run target w mk =
     (case target w of None \<Rightarrow> mk
      | Some (b, a) \<Rightarrow> if s_shm mk \<noteq> None then harness_write_shm b a mk else harness_write_file b a mk)"

inductive campaign_step ::
  "('m, 'g, 'f) wasm_env \<Rightarrow> 'g rand_ops \<Rightarrow> 'd dbl_ops \<Rightarrow> (u8 list \<Rightarrow> (u32 \<times> u32) option) \<Rightarrow>
   'g campaign \<Rightarrow> 'g campaign \<Rightarrow> bool"
  for E R D target where
  Fuzz: "afl_custom_fuzz E R D perf hdiv malloc_ok buf add_buf mx (cp_data c) (cp_markers c) (cp_rest c)
           = Some (n, d, mk, g) \<Longrightarrow> mx \<le> MAX_FILE \<Longrightarrow>
         campaign_step E R D target c
           \<lparr> cp_data = d, cp_markers = mk, cp_rest = g, cp_out = Some (take n (mutated_out_buf d)) \<rparr>"
| Exec: "cp_out c = Some w \<Longrightarrow>
         campaign_step E R D target c (c\<lparr> cp_markers := harness_run target w (cp_markers c) \<rparr>)"

inductive campaign_reach ::
  "('m, 'g, 'f) wasm_env \<Rightarrow> 'g rand_ops \<Rightarrow> 'd dbl_ops \<Rightarrow> (u8 list \<Rightarrow> (u32 \<times> u32) option) \<Rightarrow>
   'g campaign \<Rightarrow> bool"
  for E R D target where
  Start: "afl_custom_init allocs sched_allocs shm (markers_start env fs) = Some (d, mk) \<Longrightarrow>
          campaign_reach E R D target
            \<lparr> cp_data = d, cp_markers = mk, cp_rest = g, cp_out = None \<rparr>"
| Step: "campaign_reach E R D target c \<Longrightarrow> campaign_step E R D target c c' \<Longrightarrow>
         campaign_reach E R D target c'"

inductive_cases campaign_stepE: "campaign_step E R D target c c'"

text \<open>The claim of a saved file: executing it contradicts its scenario's expectation.\<close>

definition bug_file_true :: "(u8 list \<Rightarrow> (u32 \<times> u32) option) \<Rightarrow> saved_file \<Rightarrow> bool" where
  "bug_file_true target f =
     (case swam_get_scenario (sf_scenario f) of
        None \<Rightarrow> False
      | Some sc \<Rightarrow>
          (case target (sf_bytes f) of
             None \<Rightarrow> False
           | Some (b, a) \<Rightarrow> b = sc_id sc \<and> contradicts sc (a \<noteq> sc_id sc) \<and>
               sf_tag f = (if a = sc_id sc then ''bypass'' else ''false_trap'')))"

text \<open>
  The protocol invariant: while a verdict is outstanding, the pending copy is the module
  handed to the fuzzer last, and the marker channel is empty or holds what an execution of
  exactly that module reported.
\<close>

definition pending_inv :: "(u8 list \<Rightarrow> (u32 \<times> u32) option) \<Rightarrow> 'g campaign \<Rightarrow> bool" where
  "pending_inv target c \<longleftrightarrow>
     (swam_last_was_exploit (cp_data c) \<longrightarrow>
        (\<exists>w sc. swam_pending_module (cp_data c) = Some w \<and>
           swam_pending_module_size (cp_data c) = length w \<and> cp_out c = Some w \<and>
           swam_get_scenario (swam_last_scenario_id (cp_data c)) = Some sc \<and>
           (swam_markers_read (cp_markers c) = (0, 0, False) \<or>
            (\<exists>b a. target w = Some (b, a) \<and> swam_markers_read (cp_markers c) = (b, a, True)))))"

definition bug_log_inv :: "(u8 list \<Rightarrow> (u32 \<times> u32) option) \<Rightarrow> wasm_mutator \<Rightarrow> bool" where
  "bug_log_inv target d \<longleftrightarrow> list_all (bug_file_true target) (bug_files d)"

lemma save_bug_log:
  "bug_files (swam_maybe_save_bug E d (Some sc) k t) = bug_files d \<or>
   (\<exists>p. \<not> no_pending d \<and> bug_files (swam_maybe_save_bug E d (Some sc) k t) = bug_files d @
      [\<lparr> sf_path = p, sf_bytes = pending_bytes d, sf_scenario = sc_id sc, sf_tag = t \<rparr>])"
  by (auto simp: swam_maybe_save_bug_def swam_save_bug_def no_pending_def pending_bytes_def Let_def)

lemma oracle_log:
  assumes "swam_get_scenario (swam_last_scenario_id d) = Some sc"
    and "swam_pending_module d = Some w" "swam_pending_module_size d = length w"
    and "swam_markers_read mk = (0, 0, False) \<or>
            target w = Some (b, a) \<and> swam_markers_read mk = (b, a, True)"
    and "bug_log_inv target d"
  shows "bug_log_inv target (swam_oracle_check E mk d)"
proof (cases "swam_markers_read mk = (b, a, True) \<and> target w = Some (b, a) \<and> b = sc_id sc \<and>
    contradicts sc (a \<noteq> sc_id sc)")
  case True
  let ?d = "swam_scheduler_record d (sc_id sc) (marker_outcome (swam_markers_read mk) (sc_id sc))"
  have sid: "swam_get_scenario (sc_id sc) = Some sc"
    using swam_get_scenario_id [OF assms(1)] assms(1) by simp
  have pb: "pending_bytes ?d = w"
    using assms(2,3) by (simp add: pending_bytes_def)
  have "bug_log_inv target (oracle_verdict E ?d sc (a \<noteq> sc_id sc))"
    using True assms(5) sid pb save_bug_log [of E ?d sc SWAM_BUG_TAG_BYPASS "''bypass''"]
      save_bug_log [of E ?d sc SWAM_BUG_TAG_FALSE_TRAP "''false_trap''"]
    by (auto simp: bug_log_inv_def oracle_verdict_def contradicts_def bug_file_true_def)
  with True show ?thesis
    unfolding oracle_check_unfold [OF assms(1)]
    by (auto simp: Let_def marker_outcome_def bug_log_inv_def)
next
  case False
  then have "bug_files (swam_oracle_check E mk d) = bug_files d"
    using assms(4) unfolding oracle_check_unfold [OF assms(1)]
    by (auto simp: Let_def marker_outcome_def oracle_verdict_def contradicts_def split: if_splits)
  with assms(5) show ?thesis by (simp add: bug_log_inv_def)
qed

lemma fuzz_oracle_log:
  assumes "pending_inv target c" and "bug_log_inv target (cp_data c)"
  shows "bug_log_inv target (fuzz_oracle E (cp_markers c) (cp_data c))"
    "\<not> swam_last_was_exploit (fuzz_oracle E (cp_markers c) (cp_data c))"
proof -
  show "\<not> swam_last_was_exploit (fuzz_oracle E (cp_markers c) (cp_data c))"
    by (simp add: fuzz_oracle_def)
  show "bug_log_inv target (fuzz_oracle E (cp_markers c) (cp_data c))"
  proof (cases "swam_last_was_exploit (cp_data c)")
    case True
    then obtain w sc where w: "swam_pending_module (cp_data c) = Some w"
      "swam_pending_module_size (cp_data c) = length w"
      "swam_get_scenario (swam_last_scenario_id (cp_data c)) = Some sc"
      "swam_markers_read (cp_markers c) = (0, 0, False) \<or>
            (\<exists>b a. target w = Some (b, a) \<and> swam_markers_read (cp_markers c) = (b, a, True))"
      using assms(1) by (auto simp: pending_inv_def)
    then obtain b a where "swam_markers_read (cp_markers c) = (0, 0, False) \<or>
        target w = Some (b, a) \<and> swam_markers_read (cp_markers c) = (b, a, True)" by blast
    from oracle_log [OF w(3,1,2) this assms(2), of E] True show ?thesis
      by (simp add: fuzz_oracle_def bug_log_inv_def)
  qed (simp add: fuzz_oracle_def assms(2))
qed

lemma keep_input_fields:
  assumes "keep_input buf mx d = (n, d')"
  shows "swam_last_was_exploit d' = swam_last_was_exploit d" "bug_files d' = bug_files d"
    "swam_saved_bug_count d' = swam_saved_bug_count d"
    "swam_unknown_saved_notrap d' = swam_unknown_saved_notrap d"
    "unknown_files d' = unknown_files d" "wm_scheduler d' = wm_scheduler d"
  using assms by (auto simp: keep_input_def Let_def)

lemma finish_fields:
  assumes "finish_output E ok buf mx ex m d mk = (n, d', mk')"
  shows "bug_files d' = bug_files d" "swam_saved_bug_count d' = swam_saved_bug_count d"
    "swam_unknown_saved_notrap d' = swam_unknown_saved_notrap d"
    "unknown_files d' = unknown_files d" "wm_scheduler d' = wm_scheduler d"
  using assms
  by (auto simp: finish_output_def keep_input_def Let_def split: option.splits if_splits)

lemma finish_markers:
  assumes "finish_output E ok buf mx ex m d mk = (n, d', mk')"
  shows "mk' = mk \<or> mk' = swam_markers_reset mk"
  using assms
  by (auto simp: finish_output_def keep_input_def Let_def split: option.splits if_splits)

lemma finish_pending:
  assumes "finish_output E ok buf mx ex m d mk = (n, d', mk')"
    and "\<not> swam_last_was_exploit d" and "swam_last_was_exploit d'"
  shows "mk' = swam_markers_reset mk" "swam_pending_module d' = Some (take n (mutated_out_buf d'))"
    "swam_pending_module_size d' = n" "ex = Some sc \<Longrightarrow> swam_last_scenario_id d' = sc_id sc"
    "n = length (take n (mutated_out_buf d'))" "ex \<noteq> None"
  using assms
  by (auto simp: finish_output_def keep_input_def buf_copy_def Let_def min_def
      split: option.splits if_splits)

text \<open>One call of \<^verbatim>\<open>afl_custom_fuzz\<close>, taken apart for the invariants.\<close>

lemma custom_fuzz_cases:
  assumes "afl_custom_fuzz E R D perf hdiv mok buf ab mx d mk g = Some (n, d', mk', g')"
  obtains (keep) "keep_input buf mx (fuzz_oracle E mk d) = (n, d')" "mk' = mk"
    | (exploit) i sc cm d2 where "swam_get_scenario i = Some sc"
        "d2 = (fuzz_oracle E mk d)\<lparr> swam_exploit_cnt := swam_exploit_cnt (fuzz_oracle E mk d) + 1 \<rparr>"
        "finish_output E mok buf mx (Some sc) cm d2 mk = (n, d', mk')"
    | (explore) m3 d2 i where "erase_counters d2 = erase_counters (fuzz_oracle E mk d) \<or>
        erase_counters d2 =
          erase_counters (swam_scheduler_record (fuzz_oracle E mk d) i SWAM_SCHED_INSTANTIATE_FAIL)"
        "finish_output E mok buf mx None m3 d2 mk = (n, d', mk')"
proof (cases "module_read E buf")
  case None
  with assms keep show ?thesis by (auto simp: afl_custom_fuzz_def split: prod.splits)
next
  case (Some wm)
  obtain r d1 g1 where ea: "exploit_attempt E R D (fuzz_oracle E mk d) (set_features E wm) g = (r, d1, g1)"
    by (metis prod_cases3)
  show ?thesis
  proof (cases r)
    case None
    then obtain d3 m3 g3 where ex: "explore E R D perf hdiv ab d1 (set_features E wm) g1 = Some (d3, m3, g3)"
      "finish_output E mok buf mx None m3 d3 mk = (n, d', mk')"
      using assms Some ea by (auto simp: afl_custom_fuzz_def Let_def split: option.splits prod.splits)
    from ea show ?thesis
      by (cases rule: exploit_attempt_cases)
         (use None explore [OF _ ex(2)] explore_erase [OF ex(1)] in auto)
  next
    case (Some p)
    from ea show ?thesis
      by (cases rule: exploit_attempt_cases)
        (use Some assms \<open>module_read E buf = _\<close> ea exploit in
          \<open>auto simp: afl_custom_fuzz_def Let_def split: prod.splits\<close>)
  qed
qed

section \<open>Caps\<close>

definition count_files :: "u32 \<Rightarrow> string \<Rightarrow> saved_file list \<Rightarrow> nat" where
  "count_files i tag fs = length (filter (\<lambda>f. sf_scenario f = i \<and> sf_tag f = tag) fs)"

definition tag_name :: "nat \<Rightarrow> string" where
  "tag_name t = (if t = SWAM_BUG_TAG_BYPASS then ''bypass'' else ''false_trap'')"

definition bug_cap_inv :: "wasm_mutator \<Rightarrow> bool" where
  "bug_cap_inv d \<longleftrightarrow> length (swam_saved_bug_count d) = 600 \<and>
     (\<forall>i < 600. length (swam_saved_bug_count d ! i) = 2 \<and>
        (\<forall>t < 2. count_files (of_nat i + 1) (tag_name t) (bug_files d)
                   \<le> unat (swam_saved_bug_count d ! i ! t) \<and>
                 unat (swam_saved_bug_count d ! i ! t) \<le> unat SWAM_BUG_SAVE_CAP))"

definition unknown_cap_inv :: "wasm_mutator \<Rightarrow> bool" where
  "unknown_cap_inv d \<longleftrightarrow> length (swam_unknown_saved_notrap d) = 600 \<and>
     (\<forall>i < 600. count_files (of_nat i + 1) ''unknown_notrap'' (unknown_files d)
                  \<le> unat (swam_unknown_saved_notrap d ! i) \<and>
                unat (swam_unknown_saved_notrap d ! i) \<le> unat SWAM_UNKNOWN_NOTRAP_SAVE_CAP)"

lemma scenario_index_less:
  assumes "swam_get_scenario j = Some sc"
  shows "scenario_index sc < 600" "of_nat (scenario_index sc) + 1 = sc_id sc"
proof -
  have "1 \<le> unat (sc_id sc)" "unat (sc_id sc) \<le> 600"
    using assms swam_get_scenario_id [OF assms] by (auto simp: swam_get_scenario_Some)
  then show "scenario_index sc < 600"
    by (simp add: scenario_index_def unat_sub word_le_nat_alt)
  show "of_nat (scenario_index sc) + 1 = sc_id sc"
    by (simp add: scenario_index_def)
qed

lemma idx_id_inj:
  assumes "i < 600" "j < 600" and eq: "(of_nat i + 1 :: u32) = of_nat j + 1"
  shows "i = j"
proof -
  have "unat (of_nat i + 1 :: u32) = Suc i" "unat (of_nat j + 1 :: u32) = Suc j"
    using assms(1,2) by (simp_all add: idx_id_unat [of _ 600])
  then show ?thesis unfolding eq by simp
qed

lemma maybe_save_bug_cap:
  assumes "bug_cap_inv d" and "swam_get_scenario j = Some sc" and "t < 2"
  shows "bug_cap_inv (swam_maybe_save_bug E d (Some sc) t (tag_name t))"
proof -
  let ?i = "scenario_index sc" and ?c = "swam_saved_bug_count d"
  note i = scenario_index_less [OF assms(2)]
  show ?thesis
  proof (cases "no_pending d \<or> SWAM_BUG_SAVE_CAP \<le> ?c ! ?i ! t")
    case True
    then show ?thesis
      using assms(1) by (auto simp: swam_maybe_save_bug_def bug_cap_inv_def no_pending_def Let_def)
  next
    case False
    then have lt: "unat (?c ! ?i ! t) < unat SWAM_BUG_SAVE_CAP"
      by (simp add: word_le_nat_alt not_le)
    then have suc: "unat (?c ! ?i ! t + 1) = Suc (unat (?c ! ?i ! t))"
      by (intro unat_Suc_less) (simp add: SWAM_BUG_SAVE_CAP_def)
    have tags: "tag_name s = tag_name t \<longleftrightarrow> s = t" if "s < 2" for s
      using that assms(3) by (auto simp: tag_name_def SWAM_BUG_TAG_BYPASS_def)
    let ?d = "swam_maybe_save_bug E d (Some sc) t (tag_name t)"
    have c': "swam_saved_bug_count ?d = ?c[?i := (?c ! ?i)[t := ?c ! ?i ! t + 1]]"
      using False by (auto simp: swam_maybe_save_bug_def Let_def no_pending_def)
    have f: "count_files k s (bug_files ?d) \<le> count_files k s (bug_files d) +
        (if k = sc_id sc \<and> s = tag_name t then 1 else 0)" for k s
      using save_bug_log [of E d sc t "tag_name t"] by (auto simp: count_files_def)
    show ?thesis
      unfolding bug_cap_inv_def c'
    proof (intro conjI allI impI)
      fix k s :: nat assume k: "k < 600" and s: "s < 2"
      have old: "count_files (of_nat k + 1) (tag_name s) (bug_files d) \<le> unat (?c ! k ! s)"
        "unat (?c ! k ! s) \<le> unat SWAM_BUG_SAVE_CAP" "length (?c ! k) = 2" "length ?c = 600"
        using assms(1) k s by (auto simp: bug_cap_inv_def)
      have eq: "of_nat k + 1 = sc_id sc \<longleftrightarrow> k = ?i"
        using idx_id_inj [OF k i(1)] i(2) by metis
      show "count_files (of_nat k + 1) (tag_name s) (bug_files ?d)
          \<le> unat (?c[?i := (?c ! ?i)[t := ?c ! ?i ! t + 1]] ! k ! s)"
        using old f [of "of_nat k + 1" "tag_name s"] suc tags [OF s] i(1) assms(3)
        by (cases "k = ?i \<and> s = t") (auto simp: eq nth_list_update split: if_splits)
      show "unat (?c[?i := (?c ! ?i)[t := ?c ! ?i ! t + 1]] ! k ! s) \<le> unat SWAM_BUG_SAVE_CAP"
        using old suc lt i(1) assms(3) by (auto simp: nth_list_update)
    qed (use assms(1) i(1) in \<open>auto simp: bug_cap_inv_def nth_list_update\<close>)
  qed
qed

lemma oracle_unknown_cap:
  assumes "unknown_cap_inv d" and "swam_get_scenario j = Some sc"
  shows "unknown_cap_inv (oracle_unknown E d sc tr)"
proof -
  let ?i = "scenario_index sc" and ?c = "swam_unknown_saved_notrap d"
  note i = scenario_index_less [OF assms(2)]
  have log: "count_files k s (unknown_files (oracle_unknown E d sc tr)) \<le>
     count_files k s (unknown_files d) +
       (if k = sc_id sc \<and> s = (if tr then ''unknown_trap'' else ''unknown_notrap'') \<and>
           (tr \<or> ?c ! ?i < SWAM_UNKNOWN_NOTRAP_SAVE_CAP) then 1 else 0)" for k s
    by (auto simp: oracle_unknown_def swam_save_unknown_def Let_def count_files_def no_pending_def)
  have cnt: "swam_unknown_saved_notrap (oracle_unknown E d sc tr) =
      (if \<not> tr \<and> ?c ! ?i < SWAM_UNKNOWN_NOTRAP_SAVE_CAP then ?c[?i := ?c ! ?i + 1] else ?c)"
    by (auto simp: oracle_unknown_def Let_def)
  show ?thesis
    unfolding unknown_cap_inv_def
  proof (intro conjI allI impI)
    fix k :: nat assume k: "k < 600"
    have old: "count_files (of_nat k + 1) ''unknown_notrap'' (unknown_files d) \<le> unat (?c ! k)"
        "unat (?c ! k) \<le> unat SWAM_UNKNOWN_NOTRAP_SAVE_CAP" "length ?c = 600"
      using assms(1) k by (auto simp: unknown_cap_inv_def)
    have eq: "of_nat k + 1 = sc_id sc \<longleftrightarrow> k = ?i"
      using idx_id_inj [OF k i(1)] i(2) by metis
    have suc: "unat (?c ! ?i + 1) = Suc (unat (?c ! ?i))" "unat (?c ! ?i) < unat SWAM_UNKNOWN_NOTRAP_SAVE_CAP"
      if "?c ! ?i < SWAM_UNKNOWN_NOTRAP_SAVE_CAP"
      using that
      by (auto intro!: unat_Suc_less simp: word_less_nat_alt SWAM_UNKNOWN_NOTRAP_SAVE_CAP_def)
    show "count_files (of_nat k + 1) ''unknown_notrap'' (unknown_files (oracle_unknown E d sc tr))
        \<le> unat (swam_unknown_saved_notrap (oracle_unknown E d sc tr) ! k)"
      using log [of "of_nat k + 1" "''unknown_notrap''"] old suc i(1)
      by (auto simp: eq cnt nth_list_update split: if_splits)
    show "unat (swam_unknown_saved_notrap (oracle_unknown E d sc tr) ! k)
        \<le> unat SWAM_UNKNOWN_NOTRAP_SAVE_CAP"
      using old suc i(1) by (auto simp: cnt nth_list_update)
  qed (use assms(1) in \<open>auto simp: unknown_cap_inv_def cnt\<close>)
qed

lemma oracle_verdict_cap:
  assumes "bug_cap_inv d" "unknown_cap_inv d" and "swam_get_scenario j = Some sc"
  shows "bug_cap_inv (oracle_verdict E d sc tr) \<and> unknown_cap_inv (oracle_verdict E d sc tr)"
proof -
  have u: "unknown_cap_inv (swam_maybe_save_bug E d (Some sc) t tn)" for t tn
    using assms(2) by (simp add: unknown_cap_inv_def)
  have b: "bug_cap_inv (oracle_unknown E d sc tr)"
    using assms(1) by (simp add: bug_cap_inv_def)
  show ?thesis
    using maybe_save_bug_cap [OF assms(1,3), of SWAM_BUG_TAG_BYPASS E]
      maybe_save_bug_cap [OF assms(1,3), of SWAM_BUG_TAG_FALSE_TRAP E]
      oracle_unknown_cap [OF assms(2,3), of E tr] u b assms(1,2)
    by (auto simp: oracle_verdict_def tag_name_def SWAM_BUG_TAG_BYPASS_def SWAM_BUG_TAG_FALSE_TRAP_def)
qed

lemma fuzz_oracle_cap:
  assumes "bug_cap_inv d" "unknown_cap_inv d"
  shows "bug_cap_inv (fuzz_oracle E mk d)" "unknown_cap_inv (fuzz_oracle E mk d)"
proof -
  have "bug_cap_inv (swam_oracle_check E mk d) \<and> unknown_cap_inv (swam_oracle_check E mk d)"
  proof (cases "swam_get_scenario (swam_last_scenario_id d)")
    case None
    then show ?thesis
      using assms by (auto simp: swam_oracle_check_def bug_cap_inv_def unknown_cap_inv_def Let_def split: prod.splits)
  next
    case (Some sc)
    let ?d = "swam_scheduler_record d (sc_id sc) (marker_outcome (swam_markers_read mk) (sc_id sc))"
    have d: "bug_cap_inv ?d" "unknown_cap_inv ?d"
      using assms by (simp_all add: bug_cap_inv_def unknown_cap_inv_def)
    show ?thesis
      unfolding oracle_check_unfold [OF Some]
      using d oracle_verdict_cap [OF d Some]
      by (auto simp: Let_def bug_cap_inv_def unknown_cap_inv_def)
  qed
  then show "bug_cap_inv (fuzz_oracle E mk d)" "unknown_cap_inv (fuzz_oracle E mk d)"
    using assms by (auto simp: fuzz_oracle_def bug_cap_inv_def unknown_cap_inv_def)
qed

lemma custom_fuzz_cap:
  assumes "afl_custom_fuzz E R D perf hdiv mok buf ab mx d mk g = Some (n, d', mk', g')"
    and "bug_cap_inv d" "unknown_cap_inv d"
  shows "bug_cap_inv d' \<and> unknown_cap_inv d'"
  using assms(1)
proof (cases rule: custom_fuzz_cases)
  case keep
  then show ?thesis
    using fuzz_oracle_cap [OF assms(2,3), of E mk] keep_input_fields [OF keep(1)]
    by (simp add: bug_cap_inv_def unknown_cap_inv_def)
next
  case (exploit i sc cm d2)
  then show ?thesis
    using fuzz_oracle_cap [OF assms(2,3), of E mk] finish_fields [OF exploit(3)]
    by (simp add: bug_cap_inv_def unknown_cap_inv_def)
next
  case (explore m3 d2 i)
  have "swam_saved_bug_count d2 = swam_saved_bug_count (fuzz_oracle E mk d)"
    "bug_files d2 = bug_files (fuzz_oracle E mk d)"
    "unknown_files d2 = unknown_files (fuzz_oracle E mk d)"
    "swam_unknown_saved_notrap d2 = swam_unknown_saved_notrap (fuzz_oracle E mk d)"
    using explore(1) erase_fields [of d2 "fuzz_oracle E mk d"]
      erase_fields [of d2 "swam_scheduler_record (fuzz_oracle E mk d) i SWAM_SCHED_INSTANTIATE_FAIL"]
    by auto
  then show ?thesis
    using fuzz_oracle_cap [OF assms(2,3), of E mk] finish_fields [OF explore(2)]
    by (simp add: bug_cap_inv_def unknown_cap_inv_def)
qed

section \<open>The campaign invariant\<close>

definition campaign_inv :: "(u8 list \<Rightarrow> (u32 \<times> u32) option) \<Rightarrow> 'g campaign \<Rightarrow> bool" where
  "campaign_inv target c \<longleftrightarrow>
     markers_inv (cp_markers c) \<and> pending_inv target c \<and> bug_log_inv target (cp_data c) \<and>
     bug_cap_inv (cp_data c) \<and> unknown_cap_inv (cp_data c)"

lemma zero_mutator_caps: "bug_cap_inv (zero_mutator\<lparr> wm_scheduler := s \<rparr>)"
    "unknown_cap_inv (zero_mutator\<lparr> wm_scheduler := s \<rparr>)"
  by (auto simp: zero_mutator_def bug_cap_inv_def unknown_cap_inv_def catalog_length count_files_def
      less_2_cases_iff)

lemma custom_init_inv:
  assumes "afl_custom_init al sal shm (markers_start env fs) = Some (d, mk)"
  shows "campaign_inv target \<lparr> cp_data = d, cp_markers = mk, cp_rest = g, cp_out = None \<rparr>"
proof -
  have "markers_inv (markers_start env fs)" by (simp add: markers_inv_def markers_start_def)
  note ms = init_inv [OF this]
  obtain a1 a2 a3 b1 b2 i fill ok1 ok2 where args: "al = (a1, a2, a3)" "sal = (b1, b2)"
    "shm = (i, fill, ok1, ok2)"
    by (metis prod.exhaust)
  let ?mk = "snd (swam_markers_init i fill ok1 ok2 (markers_start env fs))"
  let ?s = "apply_runtime_profile ?mk (swam_scheduler_create b1 b2 swam_scenario_count)"
  have d: "d = zero_mutator\<lparr> wm_scheduler := ?s \<rparr>" and "mk = ?mk"
    using assms by (auto simp: afl_custom_init_def args Let_def split: if_splits)
  then have mk: "markers_inv mk" by (simp only: ms)
  have "\<not> swam_last_was_exploit d" "bug_files d = []" unfolding d by (simp_all add: zero_mutator_def)
  moreover have "bug_cap_inv d" "unknown_cap_inv d" unfolding d by (rule zero_mutator_caps)+
  ultimately show ?thesis
    using mk by (simp add: campaign_inv_def pending_inv_def bug_log_inv_def)
qed

lemma harness_run_inv: "markers_inv mk \<Longrightarrow> markers_inv (harness_run target w mk)"
  by (auto simp: harness_run_def harness_inv split: option.splits)

lemma read_harness_shm:
  assumes "s_shm mk = Some i"
  shows "swam_markers_read (harness_write_shm b a mk) = (b, a, True)"
  using assms by (simp add: swam_markers_read_def harness_write_shm_def)

lemma read_harness_file:
  assumes "s_shm mk = None"
  shows "swam_markers_read (harness_write_file b a mk) = (b, a, True)"
  using assms scanf_print [of b a]
  by (simp add: swam_markers_read_def harness_write_file_def get_markers_file_path_def)

lemma harness_run_read:
  "swam_markers_read (harness_run target w mk) =
     (case target w of None \<Rightarrow> swam_markers_read mk | Some (b, a) \<Rightarrow> (b, a, True))"
  by (auto simp: harness_run_def read_harness_shm read_harness_file split: option.splits)

lemma custom_fuzz_pending:
  assumes "afl_custom_fuzz E R D perf hdiv mok buf ab mx (cp_data c) (cp_markers c) g = Some (n, d', mk', g')"
    and "campaign_inv target c"
  shows "markers_inv mk' \<and> bug_log_inv target d' \<and>
     pending_inv target \<lparr> cp_data = d', cp_markers = mk', cp_rest = g', cp_out = Some (take n (mutated_out_buf d')) \<rparr>"
proof -
  let ?o = "fuzz_oracle E (cp_markers c) (cp_data c)"
  have o: "bug_log_inv target ?o" "\<not> swam_last_was_exploit ?o" and mk: "markers_inv (cp_markers c)"
    using assms(2) fuzz_oracle_log [of target c E] by (auto simp: campaign_inv_def)
  from assms(1) show ?thesis
  proof (cases rule: custom_fuzz_cases)
    case keep
    then show ?thesis
      using o mk keep_input_fields [OF keep(1)] by (simp add: bug_log_inv_def pending_inv_def)
  next
    case (exploit i sc cm d2)
    note f = finish_fields [OF exploit(3)]
    have "\<not> swam_last_was_exploit d2" "bug_log_inv target d2"
      using o by (simp_all add: exploit(2) bug_log_inv_def)
    moreover have "swam_get_scenario (sc_id sc) = Some sc"
      using swam_get_scenario_id [OF exploit(1)] exploit(1) by simp
    ultimately show ?thesis
      using finish_markers [OF exploit(3)] finish_pending [OF exploit(3)] f mk reset_inv [OF mk]
        reset_read [OF mk]
      by (auto simp: bug_log_inv_def pending_inv_def)
  next
    case (explore m3 d2 i)
    have d2: "\<not> swam_last_was_exploit d2" "bug_files d2 = bug_files ?o"
      using explore(1) o erase_fields [of d2 ?o]
        erase_fields [of d2 "swam_scheduler_record ?o i SWAM_SCHED_INSTANTIATE_FAIL"]
      by auto
    then show ?thesis
      using o finish_fields [OF explore(2)] finish_pending [OF explore(2) d2(1)]
        finish_markers [OF explore(2)] mk reset_inv [OF mk]
      by (auto simp: bug_log_inv_def pending_inv_def)
  qed
qed

lemma campaign_step_inv:
  assumes "campaign_step E R D target c c'" and "campaign_inv target c"
  shows "campaign_inv target c'"
proof -
  consider (fuzz) perf hdiv mok buf ab mx n d mk g where
      "afl_custom_fuzz E R D perf hdiv mok buf ab mx (cp_data c) (cp_markers c) (cp_rest c)
         = Some (n, d, mk, g)"
      "c' = \<lparr> cp_data = d, cp_markers = mk, cp_rest = g, cp_out = Some (take n (mutated_out_buf d)) \<rparr>"
    | (exec) w where "cp_out c = Some w" "c' = c\<lparr> cp_markers := harness_run target w (cp_markers c) \<rparr>"
    using assms(1) by (rule campaign_stepE) blast+
  then show ?thesis
  proof cases
    case (fuzz perf hdiv mok buf ab mx n d mk g)
    then show ?thesis
      using custom_fuzz_pending [OF fuzz(1) assms(2)] custom_fuzz_cap [OF fuzz(1)] assms(2)
      by (simp add: campaign_inv_def)
  next
    case (exec w)
    then show ?thesis
      using assms(2) harness_run_inv [of "cp_markers c" target w]
      by (auto simp: campaign_inv_def pending_inv_def harness_run_read split: option.splits)
  qed
qed

lemma campaign_reach_inv: "campaign_reach E R D target c \<Longrightarrow> campaign_inv target c"
  by (induction rule: campaign_reach.induct) (auto simp: custom_init_inv intro: campaign_step_inv)

section \<open>Properties\<close>


text \<open>
  C5. The save caps hold in every reachable state: at most 3 modules are written per scenario
  and kind of contradiction, and at most 32 unremarkable modules per scenario whose outcome
  is unknown; the 8-bit and 32-bit counters never wrap.
\<close>

theorem campaign_save_caps:
  assumes "campaign_reach E R D target c" and "swam_get_scenario i = Some sc"
  shows "count_files i ''bypass'' (bug_files (cp_data c)) \<le> 3 \<and>
         count_files i ''false_trap'' (bug_files (cp_data c)) \<le> 3 \<and>
         count_files i ''unknown_notrap'' (unknown_files (cp_data c)) \<le> 32"
proof -
  have inv: "bug_cap_inv (cp_data c)" "unknown_cap_inv (cp_data c)"
    using campaign_reach_inv [OF assms(1)] by (simp_all add: campaign_inv_def)
  let ?k = "scenario_index sc"
  have k: "?k < 600" "of_nat ?k + 1 = i"
    using scenario_index_less [OF assms(2)] swam_get_scenario_id [OF assms(2)] by auto
  have b: "count_files i (tag_name t) (bug_files (cp_data c)) \<le> unat SWAM_BUG_SAVE_CAP" if "t < 2" for t
  proof -
    have "count_files (of_nat ?k + 1) (tag_name t) (bug_files (cp_data c))
        \<le> unat (swam_saved_bug_count (cp_data c) ! ?k ! t)"
      "unat (swam_saved_bug_count (cp_data c) ! ?k ! t) \<le> unat SWAM_BUG_SAVE_CAP"
      using inv(1) k(1) that by (auto simp: bug_cap_inv_def)
    then show ?thesis unfolding k(2) by (rule order_trans)
  qed
  have "count_files i ''unknown_notrap'' (unknown_files (cp_data c)) \<le> unat SWAM_UNKNOWN_NOTRAP_SAVE_CAP"
  proof -
    have "count_files (of_nat ?k + 1) ''unknown_notrap'' (unknown_files (cp_data c))
        \<le> unat (swam_unknown_saved_notrap (cp_data c) ! ?k)"
      "unat (swam_unknown_saved_notrap (cp_data c) ! ?k) \<le> unat SWAM_UNKNOWN_NOTRAP_SAVE_CAP"
      using inv(2) k(1) by (auto simp: unknown_cap_inv_def)
    then show ?thesis unfolding k(2) by (rule order_trans)
  qed
  then show ?thesis
    using b [of 0] b [of 1]
    by (simp add: tag_name_def SWAM_BUG_TAG_BYPASS_def SWAM_BUG_SAVE_CAP_def
        SWAM_UNKNOWN_NOTRAP_SAVE_CAP_def)
qed


text \<open>
  C3. \<^verbatim>\<open>afl_custom_fuzz\<close> always returns when the mutation passes report at most \<open>B\<close> changes
  and the stage length leaves room for one more round, however often a pass changes nothing;
  the result respects \<^verbatim>\<open>max_size\<close>, nothing is written past the end of the output buffer,
  and the output is a complete serialised module or the clamped input.
\<close>

theorem custom_fuzz_returns:
  assumes "mutators_bounded B E" and "0 < B"
    and "unat (custom_stage_max D CUSTOM_SPLICE_HAVOC perf hdiv) + B < 2 ^ 32"
    and "unat (custom_stage_max D CUSTOM_HAVOC_CYCLES perf hdiv) + B < 2 ^ 32"
    and "mx \<le> MAX_FILE" and "length (mutated_out_buf d) = MAX_FILE"
  shows "\<exists>n d' mk' g'. afl_custom_fuzz E R D perf hdiv mok buf ab mx d mk g = Some (n, d', mk', g') \<and>
           output_ok E buf mx n d'"
proof -
  let ?d = "fuzz_oracle E mk d"
  have keep: "output_ok E buf mx n d'" if "keep_input buf mx ?d = (n, d')" for n d'
    using keep_input_spec [OF that] assms(5,6) by (simp add: output_ok_def)
  have ret: "\<exists>r. afl_custom_fuzz E R D perf hdiv mok buf ab mx d mk g = Some r"
  proof (cases "module_read E buf")
    case None
    then show ?thesis by (simp add: afl_custom_fuzz_def case_prod_unfold Let_def)
  next
    case (Some wm)
    obtain r d1 g1 where "exploit_attempt E R D ?d (set_features E wm) g = (r, d1, g1)"
      by (metis prod_cases3)
    moreover have "\<exists>x. explore E R D perf hdiv ab d1 (set_features E wm) g1 = Some x"
      by (rule explore_terminates [OF assms(1,2)]) (use assms(3,4) in auto)
    ultimately show ?thesis
      using Some by (auto simp: afl_custom_fuzz_def Let_def case_prod_unfold split: option.splits)
  qed
  then obtain n d' mk' g' where r: "afl_custom_fuzz E R D perf hdiv mok buf ab mx d mk g = Some (n, d', mk', g')"
    by (metis prod_cases4)
  then have "output_ok E buf mx n d'"
  proof (cases rule: custom_fuzz_cases)
    case keep
    then show ?thesis using \<open>\<And>n d'. keep_input buf mx ?d = (n, d') \<Longrightarrow> _\<close> by blast
  next
    case (exploit i sc cm d2)
    then show ?thesis using finish_output_ok [OF assms(5) _ exploit(3)] assms(6) by simp
  next
    case (explore m3 d2 i)
    have "mutated_out_buf d2 = mutated_out_buf ?d"
      using explore(1) erase_fields(1) [of d2 ?d]
        erase_fields(1) [of d2 "swam_scheduler_record ?d i SWAM_SCHED_INSTANTIATE_FAIL"] by auto
    then show ?thesis using finish_output_ok [OF assms(5) _ explore(2)] assms(6) by simp
  qed
  with r show ?thesis by blast
qed

section \<open>Witnesses\<close>

text \<open>
  A small environment: modules are their own bytes, instantiating a scenario succeeds, every
  mutation pass reports no change. The generator returns 0 always.
\<close>

definition demo_env :: "(u8 list, unit, unit) wasm_env" where
  "demo_env =
     \<lparr> module_read = Some, module_write = Some, set_features = id, strip_markers = id,
       instantiate_scenario = (\<lambda>g m sc. ((True, m), g)), fragmentize = (\<lambda>_. ()), no_fragments = (),
       call_target_mutate = (\<lambda>g m. ((0, m), g)), interest_mutate = (\<lambda>g m. ((0, m), g)),
       branch_target_mutate = (\<lambda>g m. ((0, m), g)), operators_mutate = (\<lambda>g m. ((0, m), g)),
       recursive_mutate = (\<lambda>g m. ((0, m), g)),
       splicing_mutate = (\<lambda>g m m2 pool. ((0, m), g)), reset_name_grp = id,
       out_dir = ''out'', fopen_ok = (\<lambda>_. True) \<rparr>"

definition zero_rand :: "unit rand_ops" where
  "zero_rand = \<lparr> ro_rand_below = (\<lambda>g n. (0, g)), ro_rand = (\<lambda>g. (0, g)), ro_afl = True \<rparr>"

definition demo_target :: "u8 list \<Rightarrow> (u32 \<times> u32) option" where
  "demo_target w = Some (1, 0)"

text \<open>The mutator after an initialisation in which the scheduler could not be allocated.\<close>

definition demo_mutator :: wasm_mutator where
  "demo_mutator = zero_mutator\<lparr> wm_scheduler := None \<rparr>"

definition demo_markers :: markers where
  "demo_markers = snd (swam_markers_init 5 [0, 0, 0] True True (markers_start Map.empty Map.empty))"

lemma demo_init:
  "afl_custom_init (True, True, True) (False, True) (5, [0, 0, 0], True, True)
     (markers_start Map.empty Map.empty) = Some (demo_mutator, demo_markers)"
proof -
  have "environ demo_markers ''SWAM_RUNTIME'' = None"
    by (simp add: demo_markers_def swam_markers_init_def init_cleanup_def markers_start_def
        shm_clear_def shm_rmid_def Let_def SWAM_MARKERS_ENV_def)
  then show ?thesis
    by (simp add: afl_custom_init_def Let_def demo_mutator_def demo_markers_def [symmetric]
        apply_runtime_profile_def swam_scheduler_create_def)
qed

definition demo_start :: "unit campaign" where
  "demo_start = \<lparr> cp_data = demo_mutator, cp_markers = demo_markers, cp_rest = (), cp_out = None \<rparr>"

lemma demo_reach_start: "campaign_reach demo_env zero_rand rat_dbl demo_target demo_start"
  unfolding demo_start_def by (rule campaign_reach.Start [OF demo_init])

lemma demo_scenario: "swam_get_scenario 1 = Some (swam_scenario_catalog ! 0)"
  by (simp add: swam_get_scenario_Some)

definition demo_exploited :: wasm_mutator where
  "demo_exploited = demo_mutator\<lparr>
     mutated_out_buf := buf_copy (mutated_out_buf demo_mutator) [7], swam_exploit_cnt := 1,
     swam_pending_module := Some [7], swam_pending_module_size := 1,
     swam_last_was_exploit := True, swam_last_scenario_id := 1 \<rparr>"

lemma demo_fuzz:
  "afl_custom_fuzz demo_env zero_rand rat_dbl 1 1 True [7] None 4 demo_mutator demo_markers () =
     Some (1, demo_exploited, swam_markers_reset demo_markers, ())"
proof -
  have "sc_id (swam_scenario_catalog ! 0) = 1" using swam_get_scenario_id [OF demo_scenario] .
  then show ?thesis
    by (simp add: afl_custom_fuzz_def fuzz_oracle_def exploit_attempt_def demo_env_def zero_rand_def
        swam_scheduler_select_def demo_scenario swam_clone_module_def finish_output_def Let_def
        demo_exploited_def buf_copy_def demo_mutator_def) (simp add: zero_mutator_def)
qed


lemma demo_scenario_expected: "sc_expected (swam_scenario_catalog ! 0) = SWAM_EXPECT_NO_TRAP"
proof -
  obtain r where r: "swam_scenario_catalog =
      SWAM_LAYOUT_SCENARIOS 1 SWAM_OP_I32_LOAD SWAM_OPCLASS_LOAD 4 False SWAM_VALTYPE_I32 @ r"
    unfolding swam_scenario_catalog_def catalog_load_store_grow_def append_assoc by blast
  show ?thesis unfolding r by (simp add: SWAM_LAYOUT_SCENARIOS_def SWAM_SCENARIO_ENTRY_def)
qed

definition demo_ran :: markers where
  "demo_ran = harness_run demo_target [7] (swam_markers_reset demo_markers)"

lemma demo_ran_read: "swam_markers_read demo_ran = (1, 0, True)"
  by (simp add: demo_ran_def harness_run_read demo_target_def)

lemma demo_second:
  obtains d g where
    "afl_custom_fuzz demo_env zero_rand rat_dbl 1 1 True [7] None 4 demo_exploited demo_ran () =
       Some (1, d, swam_markers_reset demo_ran, g)"
    "map sf_bytes (bug_files d) = [[7]]" "map sf_tag (bug_files d) = [''false_trap'']"
proof -
  note sid = swam_get_scenario_id [OF demo_scenario]
  let ?o = "fuzz_oracle demo_env demo_ran demo_exploited"
  have idx: "scenario_index (swam_scenario_catalog ! 0) = 0"
    by (simp add: scenario_index_def sid)
  have last: "swam_last_scenario_id demo_exploited = 1" "swam_last_was_exploit demo_exploited"
    by (simp_all add: demo_exploited_def)
  have "bug_files ?o = [\<lparr> sf_path = save_path ''out'' ''/swam_bugs'' 0 (swam_scenario_catalog ! 0) ''false_trap'',
      sf_bytes = [7], sf_scenario = 1, sf_tag = ''false_trap'' \<rparr>]"
    using oracle_check_unfold [of demo_exploited, unfolded last, OF demo_scenario, of demo_env demo_ran]
    by (simp add: fuzz_oracle_def last Let_def marker_outcome_def demo_ran_read sid
        oracle_verdict_def demo_scenario_expected swam_maybe_save_bug_def idx
        swam_save_bug_def no_pending_def pending_bytes_def demo_exploited_def demo_mutator_def
        swam_scheduler_record_def demo_env_def SWAM_BUG_SAVE_CAP_def)
      (simp add: zero_mutator_def catalog_length SWAM_BUG_TAG_FALSE_TRAP_def word_le_nat_alt)
  moreover have "wm_scheduler ?o = None"
    using oracle_check_unfold [of demo_exploited, unfolded last, OF demo_scenario, of demo_env demo_ran]
    by (simp add: fuzz_oracle_def last Let_def marker_outcome_def demo_ran_read sid
        demo_exploited_def demo_mutator_def swam_scheduler_update_def)
  ultimately show thesis
    using that
    by (simp add: afl_custom_fuzz_def exploit_attempt_def zero_rand_def swam_scheduler_select_def
        demo_scenario swam_clone_module_def finish_output_def Let_def demo_env_def)
qed

lemma demo_campaign:
  obtains c where "campaign_reach demo_env zero_rand rat_dbl demo_target c"
    "map sf_bytes (bug_files (cp_data c)) = [[7]]"
proof -
  let ?c1 = "\<lparr> cp_data = demo_exploited, cp_markers = swam_markers_reset demo_markers, cp_rest = (),
                cp_out = Some [7] \<rparr>"
  have "take 1 (mutated_out_buf demo_exploited) = [7]"
    by (simp add: demo_exploited_def buf_copy_def)
  then have c1: "campaign_reach demo_env zero_rand rat_dbl demo_target ?c1"
    using campaign_step.Fuzz [of demo_env zero_rand rat_dbl 1 1 True "[7]" None 4 demo_start,
        where target = demo_target] demo_fuzz
      campaign_reach.Step [OF demo_reach_start]
    by (simp add: demo_start_def MAX_FILE_def)
  have c2: "campaign_reach demo_env zero_rand rat_dbl demo_target (?c1\<lparr> cp_markers := demo_ran \<rparr>)"
    using campaign_reach.Step [OF c1 campaign_step.Exec [where w = "[7]"]] by (simp add: demo_ran_def)
  obtain d g where d: "afl_custom_fuzz demo_env zero_rand rat_dbl 1 1 True [7] None 4 demo_exploited demo_ran () =
       Some (1, d, swam_markers_reset demo_ran, g)"
    "map sf_bytes (bug_files d) = [[7]]" by (rule demo_second)
  have "campaign_step demo_env zero_rand rat_dbl demo_target (?c1\<lparr> cp_markers := demo_ran \<rparr>)
     \<lparr> cp_data = d, cp_markers = swam_markers_reset demo_ran, cp_rest = g,
       cp_out = Some (take 1 (mutated_out_buf d)) \<rparr>"
    by (rule campaign_step.Fuzz [where mx = 4]) (use d(1) in \<open>simp_all add: MAX_FILE_def\<close>)
  from campaign_reach.Step [OF c2 this] d(2) that show thesis by simp
qed


theorem campaign_save_caps_witness:
  "\<exists>c. campaign_reach demo_env zero_rand rat_dbl demo_target c \<and>
       map sf_bytes (bug_files (cp_data c)) = [[7]] \<and>
       count_files 1 ''false_trap'' (bug_files (cp_data c)) \<le> 3"
  using demo_campaign campaign_save_caps [OF _ demo_scenario] by metis


theorem custom_fuzz_returns_witness:
  "\<exists>n d' mk' g'. afl_custom_fuzz demo_env zero_rand rat_dbl 100 1 True [7] (Some [9]) 4
      demo_mutator demo_markers () = Some (n, d', mk', g') \<and> output_ok demo_env [7] 4 n d'"
proof -
  have "mutators_bounded 10 demo_env" by (simp add: mutators_bounded_def demo_env_def)
  moreover have "length (mutated_out_buf demo_mutator) = MAX_FILE"
    by (simp add: demo_mutator_def zero_mutator_def)
  moreover have "unat (custom_stage_max rat_dbl b 100 1) + 10 < 2 ^ 32"
    if "b \<in> {CUSTOM_SPLICE_HAVOC, CUSTOM_HAVOC_CYCLES}" for b
    using that
    by (auto simp: custom_stage_max_def rat_dbl_def CUSTOM_SPLICE_HAVOC_def CUSTOM_HAVOC_CYCLES_def
        HAVOC_MIN_def Let_def)
  ultimately show ?thesis
    by (intro custom_fuzz_returns [of 10]) (simp_all add: MAX_FILE_def)
qed

end
