(* ===== verification/Binaryen.thy ===== *)
theory Binaryen
  imports Prelude
begin

text \<open>
  The vocabulary of the Binaryen C API that the mutator works with. An expression reference
  is modelled by the tree its constructor calls built: one constructor per expression kind,
  with the fields the API's getters and setters address; a NULL reference is \<open>None\<close>. Binaryen
  caches a result type in every node; the model keeps no cache, so refreshing it
  (\<^verbatim>\<open>BinaryenExpressionFinalize\<close>) changes nothing here.

  The second half is a specification: the trapping behaviour the WebAssembly standard
  (core, threads, SIMD and bulk memory) gives to the expressions a probe is made of.
\<close>

section \<open>Types, operators, literals\<close>

datatype btype =
    TypeNone | TypeInt32 | TypeInt64 | TypeFloat32 | TypeFloat64 | TypeVec128
  | TypeFuncref | TypeExternref | TypeNullFuncref | TypeNullExternref | TypeUnreachable
  | TypeOther nat | TypeTuple "btype list"

text \<open>
  Tuple types as the API presents them: \<^verbatim>\<open>BinaryenTypeArity\<close>, \<^verbatim>\<open>BinaryenTypeExpand\<close> and
  \<^verbatim>\<open>BinaryenTypeCreate\<close>. The empty tuple is the type none, a tuple of one type is that type.
\<close>

definition type_expand :: "btype \<Rightarrow> btype list" where
  "type_expand t = (case t of TypeNone \<Rightarrow> [] | TypeTuple ts \<Rightarrow> ts | _ \<Rightarrow> [t])"

definition type_arity :: "btype \<Rightarrow> nat" where
  "type_arity t = length (type_expand t)"

definition type_create :: "btype list \<Rightarrow> btype" where
  "type_create ts = (case ts of [] \<Rightarrow> TypeNone | [t] \<Rightarrow> t | _ \<Rightarrow> TypeTuple ts)"

text \<open>Operators the sources test for are constructors; any other one carries its name in the API.\<close>

datatype bop =
    MulInt32 | AddInt32 | DivUInt32 | SubInt32 | MulInt64 | AddInt64 | DivUInt64 | SubInt64
  | Load8x8SVec128 | Load8x8UVec128 | Load16x4SVec128 | Load16x4UVec128
  | Load32x2SVec128 | Load32x2UVec128 | Load8SplatVec128 | Load16SplatVec128
  | Load32SplatVec128 | Load64SplatVec128 | Load32ZeroVec128 | Load64ZeroVec128
  | Load8LaneVec128 | Load16LaneVec128 | Load32LaneVec128 | Load64LaneVec128
  | Store8LaneVec128 | Store16LaneVec128 | Store32LaneVec128 | Store64LaneVec128
  | AtomicRMWAdd | AtomicRMWSub | AtomicRMWAnd | AtomicRMWOr | AtomicRMWXor | AtomicRMWXchg
  | ExtractLaneSVecI8x16 | ExtractLaneUVecI8x16 | ExtractLaneSVecI16x8 | ExtractLaneUVecI16x8
  | ExtractLaneVecI32x4 | ExtractLaneVecF32x4 | ExtractLaneVecI64x2 | ExtractLaneVecF64x2
  | ReplaceLaneVecI8x16 | ReplaceLaneVecI16x8 | ReplaceLaneVecI32x4 | ReplaceLaneVecI64x2
  | ReplaceLaneVecF32x4 | ReplaceLaneVecF64x2
  | NamedOp string

text \<open>Floating point literals are kept as their bit patterns.\<close>

datatype literal =
    LitInt32 u32 | LitInt64 u64 | LitFloat32 u32 | LitFloat64 u64 | LitVec128 "u8 list"

fun lit_type :: "literal \<Rightarrow> btype" where
  "lit_type (LitInt32 v) = TypeInt32"
| "lit_type (LitInt64 v) = TypeInt64"
| "lit_type (LitFloat32 v) = TypeFloat32"
| "lit_type (LitFloat64 v) = TypeFloat64"
| "lit_type (LitVec128 v) = TypeVec128"

section \<open>Expressions\<close>

text \<open>
  Atomic loads and stores are \<open>Load\<close> and \<open>Store\<close> nodes with the atomic flag set, as in
  Binaryen, where they share the expression id of the plain ones. A tee shares the id of
  a set; it is a constructor of its own because it has a result.
\<close>

datatype (plugins only: size) bexpr =
    Block "string option" "bexpr list"
  | If bexpr bexpr "bexpr option"
  | Loop "string option" bexpr
  | Break string "bexpr option" "bexpr option"
  | Switch "string list" string "bexpr option" bexpr
  | Call string "bexpr list"
  | CallIndirect string "bexpr list" bexpr btype btype
  | LocalGet nat btype
  | LocalSet nat bexpr
  | LocalTee nat bexpr btype
  | GlobalGet string btype
  | GlobalSet string bexpr
  | Load bool u32 bool u32 u32 btype bexpr string
  | Store bool u32 u32 u32 bexpr bexpr btype string
  | Const literal
  | Unary bop bexpr
  | Binary bop bexpr bexpr
  | Select bexpr bexpr bexpr
  | Drop bexpr
  | Return "bexpr option"
  | MemorySize string bool
  | MemoryGrow bexpr string bool
  | Nop
  | Unreachable
  | AtomicRMW bop u32 u32 bexpr bexpr btype string
  | AtomicCmpxchg u32 u32 bexpr bexpr bexpr btype string
  | AtomicWait bexpr bexpr bexpr btype u32 string
  | AtomicNotify bexpr bexpr u32 string
  | SIMDExtract bop bexpr u8
  | SIMDReplace bop bexpr u8 bexpr
  | SIMDShuffle bexpr bexpr "u8 list"
  | SIMDTernary bop bexpr bexpr bexpr
  | SIMDShift bop bexpr bexpr
  | SIMDLoad bop u32 u32 bexpr string
  | SIMDLoadStoreLane bop u32 u32 u8 bexpr bexpr string
  | MemoryInit string bexpr bexpr bexpr string
  | DataDrop string
  | MemoryCopy bexpr bexpr bexpr string string
  | MemoryFill bexpr bexpr bexpr string
  | RefNull btype
  | RefIsNull bexpr
  | RefFunc string
  | TableGet string bexpr btype
  | TableSet string bexpr bexpr
  | TableSize string
  | TableGrow string bexpr bexpr
  | Try "string option" bexpr "string list" "bexpr list"
  | Throw string "bexpr list"
  | Rethrow string
  | TupleMake "bexpr list"
  | TupleExtract bexpr nat

section \<open>Modules\<close>

datatype external_kind =
    ExternalFunction | ExternalTable | ExternalMemory | ExternalGlobal | ExternalTag

record bfunction =
  f_name :: string
  f_body :: "bexpr option"
  f_params :: "btype list"
  f_results :: "btype list"
  f_vars :: "btype list"

record bglobal =
  g_name :: string
  g_type :: btype
  g_mutable :: bool
  g_init :: bexpr

record bexport =
  x_name :: string
  x_kind :: external_kind
  x_value :: string

record bmemory =
  mem_name :: string
  mem_initial :: u32
  mem_max :: "u32 option"
  mem_shared :: bool
  mem_is64 :: bool

record bsegment =
  seg_name :: string
  seg_passive :: bool
  seg_offset :: u64
  seg_data :: "u8 list"

record btable =
  t_name :: string
  t_initial :: u32
  t_max :: u32
  t_type :: btype

record bmodule =
  m_funcs :: "bfunction list"
  m_tables :: "btable list"
  m_globals :: "bglobal list"
  m_exports :: "bexport list"
  m_memories :: "bmemory list"
  m_segments :: "bsegment list"
  m_features :: u32

text \<open>
  \<^verbatim>\<open>BinaryenFunctionAddVar\<close> appends a variable and returns its index, which counts the
  parameters first.
\<close>

definition add_var :: "bfunction \<Rightarrow> btype \<Rightarrow> nat \<times> bfunction" where
  "add_var f ty = (length (f_params f) + length (f_vars f), f\<lparr> f_vars := f_vars f @ [ty] \<rparr>)"

section \<open>The standard's trapping behaviour\<close>

datatype wval = VI32 u32 | VI64 u64 | VOther

text \<open>
  The part of an instance the probe depends on: the memory's size in pages, the lengths of
  the passive segments, the locals of the running function, the i32 globals.
\<close>

record winst =
  w_pages :: nat
  w_segments :: "string \<rightharpoonup> nat"
  w_locals :: "nat \<Rightarrow> wval"
  w_globals :: "string \<Rightarrow> u32"

text \<open>\<open>Stuck\<close> stands for programs outside the fragment or ill-typed; a validated probe is never that.\<close>

datatype wres = Done wval winst | Trap winst | Stuck

definition PAGE_SIZE :: nat where
  "PAGE_SIZE = 65536"

definition mem_len :: "winst \<Rightarrow> nat" where
  "mem_len w = w_pages w * PAGE_SIZE"

text \<open>
  An access of \<open>width\<close> bytes: the effective address is the unbounded sum of the operand and
  the static offset; it traps when it does not lie inside the memory, an atomic one also
  when the effective address is not a multiple of the width.
\<close>

definition access_traps :: "winst \<Rightarrow> bool \<Rightarrow> nat \<Rightarrow> nat \<Rightarrow> nat \<Rightarrow> bool" where
  "access_traps w atomic addr offset width \<longleftrightarrow>
     addr + offset + width > mem_len w \<or> atomic \<and> (addr + offset) mod width \<noteq> 0"

fun wval_addr :: "wval \<Rightarrow> nat option" where
  "wval_addr (VI32 a) = Some (unat a)"
| "wval_addr (VI64 a) = Some (unat a)"
| "wval_addr VOther = None"

fun lit_val :: "literal \<Rightarrow> wval" where
  "lit_val (LitInt32 a) = VI32 a"
| "lit_val (LitInt64 a) = VI64 a"
| "lit_val (LitFloat32 r) = VOther"
| "lit_val (LitFloat64 r) = VOther"
| "lit_val (LitVec128 b) = VOther"

definition binop32 :: "bop \<Rightarrow> u32 \<Rightarrow> u32 \<Rightarrow> u32 option" where
  "binop32 op x y =
     (if op = MulInt32 then Some (x * y)
      else if op = AddInt32 then Some (x + y)
      else if op = SubInt32 then Some (x - y)
      else if op = DivUInt32 \<and> y \<noteq> 0 then Some (x div y)
      else None)"

definition binop64 :: "bop \<Rightarrow> u64 \<Rightarrow> u64 \<Rightarrow> u64 option" where
  "binop64 op x y =
     (if op = MulInt64 then Some (x * y)
      else if op = AddInt64 then Some (x + y)
      else if op = SubInt64 then Some (x - y)
      else if op = DivUInt64 \<and> y \<noteq> 0 then Some (x div y)
      else None)"

definition binop_val :: "bop \<Rightarrow> wval \<Rightarrow> wval \<Rightarrow> wval option" where
  "binop_val op a b =
     (case (a, b) of
        (VI32 x, VI32 y) \<Rightarrow> map_option VI32 (binop32 op x y)
      | (VI64 x, VI64 y) \<Rightarrow> map_option VI64 (binop64 op x y)
      | _ \<Rightarrow> None)"

text \<open>The number of bytes a SIMD memory operator touches.\<close>

fun simd_op_bytes :: "bop \<Rightarrow> nat" where
  "simd_op_bytes Load8x8SVec128 = 8" | "simd_op_bytes Load8x8UVec128 = 8"
| "simd_op_bytes Load16x4SVec128 = 8" | "simd_op_bytes Load16x4UVec128 = 8"
| "simd_op_bytes Load32x2SVec128 = 8" | "simd_op_bytes Load32x2UVec128 = 8"
| "simd_op_bytes Load8SplatVec128 = 1" | "simd_op_bytes Load16SplatVec128 = 2"
| "simd_op_bytes Load32SplatVec128 = 4" | "simd_op_bytes Load64SplatVec128 = 8"
| "simd_op_bytes Load32ZeroVec128 = 4" | "simd_op_bytes Load64ZeroVec128 = 8"
| "simd_op_bytes Load8LaneVec128 = 1" | "simd_op_bytes Load16LaneVec128 = 2"
| "simd_op_bytes Load32LaneVec128 = 4" | "simd_op_bytes Load64LaneVec128 = 8"
| "simd_op_bytes Store8LaneVec128 = 1" | "simd_op_bytes Store16LaneVec128 = 2"
| "simd_op_bytes Store32LaneVec128 = 4" | "simd_op_bytes Store64LaneVec128 = 8"
| "simd_op_bytes op = 0"

text \<open>The access of \<^verbatim>\<open>memory.atomic.wait\<close> is as wide as its expected type.\<close>

definition wait_bytes :: "btype \<Rightarrow> nat" where
  "wait_bytes ty = (if ty = TypeInt64 then 8 else 4)"

definition do_access :: "winst \<Rightarrow> bool \<Rightarrow> wval \<Rightarrow> u32 \<Rightarrow> nat \<Rightarrow> wres" where
  "do_access w atomic a offset width =
     (case wval_addr a of
        None \<Rightarrow> Stuck
      | Some addr \<Rightarrow> if access_traps w atomic addr (unat offset) width then Trap w
                     else Done VOther w)"

definition do_bulk :: "winst \<Rightarrow> bool \<Rightarrow> wres" where
  "do_bulk w traps = (if traps then Trap w else Done VOther w)"

fun wthen :: "wres \<Rightarrow> (wval \<Rightarrow> winst \<Rightarrow> wres) \<Rightarrow> wres" where
  "wthen (Done v w) k = k v w"
| "wthen (Trap w) k = Trap w"
| "wthen Stuck k = Stuck"

text \<open>
  Evaluation of the fragment: constants, i32 and i64 arithmetic, locals, markers, memory
  instructions, and blocks without branches.
\<close>

fun run_list :: "(winst \<Rightarrow> wres) list \<Rightarrow> winst \<Rightarrow> wres" where
  "run_list [] w = Done VOther w"
| "run_list (f # fs) w = wthen (f w) (\<lambda>_ w1. run_list fs w1)"

primrec weval :: "bexpr \<Rightarrow> winst \<Rightarrow> wres" where
  "weval (Const l) w = Done (lit_val l) w"
| "weval (MemorySize mem is64) w =
     Done (if is64 then VI64 (of_nat (w_pages w)) else VI32 (of_nat (w_pages w))) w"
| "weval (Binary op l r) w =
     wthen (weval l w) (\<lambda>a w1. wthen (weval r w1) (\<lambda>b w2.
       case binop_val op a b of Some v \<Rightarrow> Done v w2 | None \<Rightarrow> Stuck))"
| "weval (LocalGet i ty) w = Done (w_locals w i) w"
| "weval (LocalSet i e) w =
     wthen (weval e w) (\<lambda>v w1. Done VOther (w1\<lparr> w_locals := (w_locals w1)(i := v) \<rparr>))"
| "weval (LocalTee i e ty) w =
     wthen (weval e w) (\<lambda>v w1. Done v (w1\<lparr> w_locals := (w_locals w1)(i := v) \<rparr>))"
| "weval (GlobalSet nm e) w =
     wthen (weval e w) (\<lambda>v w1.
       case v of VI32 x \<Rightarrow> Done VOther (w1\<lparr> w_globals := (w_globals w1)(nm := x) \<rparr>) | _ \<Rightarrow> Stuck)"
| "weval (Drop e) w = weval e w"
| "weval Nop w = Done VOther w"
| "weval (Load atm bytes sg off al ty p mem) w =
     wthen (weval p w) (\<lambda>a w1. do_access w1 atm a off (unat bytes))"
| "weval (Store atm bytes off al p v ty mem) w =
     wthen (weval p w) (\<lambda>a w1. wthen (weval v w1) (\<lambda>_ w2. do_access w2 atm a off (unat bytes)))"
| "weval (AtomicRMW op bytes off p v ty mem) w =
     wthen (weval p w) (\<lambda>a w1. wthen (weval v w1) (\<lambda>_ w2. do_access w2 True a off (unat bytes)))"
| "weval (AtomicCmpxchg bytes off p e r ty mem) w =
     wthen (weval p w) (\<lambda>a w1. wthen (weval e w1) (\<lambda>_ w2. wthen (weval r w2) (\<lambda>_ w3.
       do_access w3 True a off (unat bytes))))"
| "weval (AtomicWait p e t ty off mem) w =
     wthen (weval p w) (\<lambda>a w1. wthen (weval e w1) (\<lambda>_ w2. wthen (weval t w2) (\<lambda>_ w3.
       do_access w3 True a off (wait_bytes ty))))"
| "weval (AtomicNotify p n off mem) w =
     wthen (weval p w) (\<lambda>a w1. wthen (weval n w1) (\<lambda>_ w2. do_access w2 True a off 4))"
| "weval (MemoryGrow d mem is64) w = wthen (weval d w) (\<lambda>_ w1. Done VOther w1)"
| "weval (SIMDLoad op off al p mem) w =
     wthen (weval p w) (\<lambda>a w1. do_access w1 False a off (simd_op_bytes op))"
| "weval (SIMDLoadStoreLane op off al idx p v mem) w =
     wthen (weval p w) (\<lambda>a w1. wthen (weval v w1) (\<lambda>_ w2.
       do_access w2 False a off (simd_op_bytes op)))"
| "weval (MemoryCopy d s n dm sm) w =
     wthen (weval d w) (\<lambda>a w1. wthen (weval s w1) (\<lambda>b w2. wthen (weval n w2) (\<lambda>c w3.
       case (wval_addr a, wval_addr b, wval_addr c) of
         (Some x, Some y, Some k) \<Rightarrow> do_bulk w3 (x + k > mem_len w3 \<or> y + k > mem_len w3)
       | _ \<Rightarrow> Stuck)))"
| "weval (MemoryFill d v n mem) w =
     wthen (weval d w) (\<lambda>a w1. wthen (weval v w1) (\<lambda>_ w2. wthen (weval n w2) (\<lambda>c w3.
       case (wval_addr a, wval_addr c) of
         (Some x, Some k) \<Rightarrow> do_bulk w3 (x + k > mem_len w3) | _ \<Rightarrow> Stuck)))"
| "weval (MemoryInit seg d s n mem) w =
     wthen (weval d w) (\<lambda>a w1. wthen (weval s w1) (\<lambda>b w2. wthen (weval n w2) (\<lambda>c w3.
       case (w_segments w3 seg, wval_addr a, wval_addr b, wval_addr c) of
         (Some len, Some x, Some y, Some k) \<Rightarrow> do_bulk w3 (x + k > mem_len w3 \<or> y + k > len)
       | _ \<Rightarrow> Stuck)))"
| "weval (Block nm es) w = run_list (map weval es) w"
| "weval (If c t f) w = Stuck"
| "weval (Loop nm e) w = Stuck"
| "weval (Break nm v c) w = Stuck"
| "weval (Switch ns nm v c) w = Stuck"
| "weval (Call nm es) w = Stuck"
| "weval (CallIndirect nm es e pt rt) w = Stuck"
| "weval (GlobalGet nm ty) w = Stuck"
| "weval (Unary op e) w = Stuck"
| "weval (Select t f c) w = Stuck"
| "weval (Return e) w = Stuck"
| "weval Unreachable w = Stuck"
| "weval (SIMDExtract op e i) w = Stuck"
| "weval (SIMDReplace op e i v) w = Stuck"
| "weval (SIMDShuffle l r m) w = Stuck"
| "weval (SIMDTernary op a b c) w = Stuck"
| "weval (SIMDShift op e x) w = Stuck"
| "weval (DataDrop nm) w = Stuck"
| "weval (RefNull ty) w = Stuck"
| "weval (RefIsNull e) w = Stuck"
| "weval (RefFunc nm) w = Stuck"
| "weval (TableGet nm e ty) w = Stuck"
| "weval (TableSet nm e v) w = Stuck"
| "weval (TableSize nm) w = Stuck"
| "weval (TableGrow nm e d) w = Stuck"
| "weval (Try nm e tags cs) w = Stuck"
| "weval (Throw nm es) w = Stuck"
| "weval (Rethrow nm) w = Stuck"
| "weval (TupleMake es) w = Stuck"
| "weval (TupleExtract e i) w = Stuck"

end
