(* ===== verification/Wasm_Helpers.thy ===== *)
theory Wasm_Helpers
  imports Binaryen Afl_Rand "HOL-Library.Multiset"
begin

text \<open>
  Helpers of the structural mutators, \<^verbatim>\<open>helper_func.c\<close>: random shuffling, reading and
  replacing the children of an expression. The long if-chains over expression kinds are cut
  into groups in the order of the source; a group returns \<open>None\<close> for the kinds it does not
  handle. \<open>alloc_ok\<close> is the outcome of the \<^verbatim>\<open>calloc\<close> of the result array.
\<close>

section \<open>Shuffling\<close>

definition swap_at :: "'a list \<Rightarrow> nat \<Rightarrow> nat \<Rightarrow> 'a list" where
  "swap_at xs i j = (let temp = xs ! i in (xs[i := xs ! j])[j := temp])"

text \<open>The loop from \<open>i\<close> down to 1.\<close>

fun shuffle_loop :: "'g rand_ops \<Rightarrow> 'a list \<Rightarrow> nat \<Rightarrow> 'g \<Rightarrow> 'a list \<times> 'g" where
  "shuffle_loop R arr 0 g = (arr, g)"
| "shuffle_loop R arr (Suc i) g =
     (let (j, g1) = ro_rand_below R g (of_nat (Suc i) + 1)
      in shuffle_loop R (swap_at arr (Suc i) (unat j)) i g1)"

definition fisher_yates_shuffle :: "'g rand_ops \<Rightarrow> u32 list \<Rightarrow> 'g \<Rightarrow> u32 list \<times> 'g" where
  "fisher_yates_shuffle R arr g =
     (if length arr \<le> 1 then (arr, g) else shuffle_loop R arr (length arr - 1) g)"

section \<open>Reading the children\<close>

definition children_control :: "bexpr \<Rightarrow> bexpr option list option" where
  "children_control parent =
     (case parent of
        Block nm es \<Rightarrow> Some (map Some es)
      | If c t f \<Rightarrow> Some [Some c, Some t, f]
      | Loop nm body \<Rightarrow> Some [Some body]
      | Break nm v c \<Rightarrow> Some [v, c]
      | Switch ns nm v c \<Rightarrow> Some [v, Some c]
      | Call nm es \<Rightarrow> Some (map Some es)
      | CallIndirect tbl es target pt rt \<Rightarrow> Some (map Some es @ [Some target])
      | _ \<Rightarrow> None)"

definition children_basic :: "bexpr \<Rightarrow> bexpr option list option" where
  "children_basic parent =
     (case parent of
        LocalSet i v \<Rightarrow> Some [Some v]
      | LocalTee i v ty \<Rightarrow> Some [Some v]
      | GlobalSet nm v \<Rightarrow> Some [Some v]
      | Load atm by sg off al ty p mem \<Rightarrow> Some [Some p]
      | Store atm by off al p v ty mem \<Rightarrow> Some [Some p, Some v]
      | Unary op v \<Rightarrow> Some [Some v]
      | Binary op l r \<Rightarrow> Some [Some l, Some r]
      | Select t f c \<Rightarrow> Some [Some t, Some f, Some c]
      | Drop v \<Rightarrow> Some [Some v]
      | Return v \<Rightarrow> Some [v]
      | MemoryGrow d mem is64 \<Rightarrow> Some [Some d]
      | _ \<Rightarrow> None)"

definition children_simd :: "bexpr \<Rightarrow> bexpr option list option" where
  "children_simd parent =
     (case parent of
        SIMDExtract op v i \<Rightarrow> Some [Some v]
      | SIMDReplace op v i x \<Rightarrow> Some [Some v, Some x]
      | SIMDShuffle l r m \<Rightarrow> Some [Some l, Some r]
      | SIMDTernary op a b c \<Rightarrow> Some [Some a, Some b, Some c]
      | SIMDShift op v x \<Rightarrow> Some [Some v, Some x]
      | SIMDLoad op off al p mem \<Rightarrow> Some [Some p]
      | SIMDLoadStoreLane op off al i p v mem \<Rightarrow> Some [Some p, Some v]
      | _ \<Rightarrow> None)"

definition children_bulk :: "bexpr \<Rightarrow> bexpr option list option" where
  "children_bulk parent =
     (case parent of
        MemoryInit seg d off n mem \<Rightarrow> Some [Some d, Some off, Some n]
      | MemoryCopy d s n dm sm \<Rightarrow> Some [Some d, Some s, Some n]
      | MemoryFill d v n mem \<Rightarrow> Some [Some d, Some v, Some n]
      | RefIsNull v \<Rightarrow> Some [Some v]
      | TableGet tbl i ty \<Rightarrow> Some [Some i]
      | TableSet tbl i v \<Rightarrow> Some [Some i, Some v]
      | TableGrow tbl v d \<Rightarrow> Some [Some v, Some d]
      | TupleMake es \<Rightarrow> Some (map Some es)
      | TupleExtract t i \<Rightarrow> Some [Some t]
      | _ \<Rightarrow> None)"

text \<open>
  The whole function: 0 children for NULL, for a kind without a case and for a failed
  allocation (a failed allocation of 0 elements is not an error).
\<close>

definition wasm_get_children_expr :: "bool \<Rightarrow> bexpr option \<Rightarrow> bexpr option list" where
  "wasm_get_children_expr alloc_ok parent =
     (case parent of
        None \<Rightarrow> []
      | Some p \<Rightarrow>
          (let found = (case children_control p of Some cs \<Rightarrow> Some cs
                        | None \<Rightarrow> (case children_basic p of Some cs \<Rightarrow> Some cs
                          | None \<Rightarrow> (case children_simd p of Some cs \<Rightarrow> Some cs
                            | None \<Rightarrow> children_bulk p)))
           in case found of None \<Rightarrow> [] | Some cs \<Rightarrow> if alloc_ok then cs else []))"

section \<open>Replacing a child\<close>

definition set_children_control :: "bexpr \<Rightarrow> bexpr \<Rightarrow> nat \<Rightarrow> bexpr option" where
  "set_children_control parent new_child index =
     (case parent of
        Block nm es \<Rightarrow> Some (Block nm (es[index := new_child]))
      | If c t f \<Rightarrow> Some (if index = 0 then If new_child t f
                          else if index = 1 then If c new_child f
                          else if index = 2 then If c t (Some new_child) else parent)
      | Loop nm body \<Rightarrow> Some (Loop nm new_child)
      | Break nm v c \<Rightarrow> Some (if index = 0 then Break nm (Some new_child) c
                             else if index = 1 then Break nm v (Some new_child) else parent)
      | Switch ns nm v c \<Rightarrow> Some (if index = 0 then Switch ns nm (Some new_child) c
                                 else if index = 1 then Switch ns nm v new_child else parent)
      | Call nm es \<Rightarrow> Some (Call nm (es[index := new_child]))
      | CallIndirect tbl es target pt rt \<Rightarrow>
          Some (if index < length es then CallIndirect tbl (es[index := new_child]) target pt rt
                else CallIndirect tbl es new_child pt rt)
      | _ \<Rightarrow> None)"

definition set_children_basic :: "bexpr \<Rightarrow> bexpr \<Rightarrow> nat \<Rightarrow> bexpr option" where
  "set_children_basic parent new_child index =
     (case parent of
        LocalSet i v \<Rightarrow> Some (LocalSet i new_child)
      | LocalTee i v ty \<Rightarrow> Some (LocalTee i new_child ty)
      | GlobalSet nm v \<Rightarrow> Some (GlobalSet nm new_child)
      | Load atm by sg off al ty p mem \<Rightarrow> Some (Load atm by sg off al ty new_child mem)
      | Store atm by off al p v ty mem \<Rightarrow>
          Some (if index = 0 then Store atm by off al new_child v ty mem
                else if index = 1 then Store atm by off al p new_child ty mem else parent)
      | Unary op v \<Rightarrow> Some (Unary op new_child)
      | Binary op l r \<Rightarrow> Some (if index = 0 then Binary op new_child r
                              else if index = 1 then Binary op l new_child else parent)
      | Select t f c \<Rightarrow> Some (if index = 0 then Select new_child f c
                             else if index = 1 then Select t new_child c
                             else if index = 2 then Select t f new_child else parent)
      | Drop v \<Rightarrow> Some (Drop new_child)
      | Return v \<Rightarrow> Some (Return (Some new_child))
      | MemoryGrow d mem is64 \<Rightarrow> Some (MemoryGrow new_child mem is64)
      | _ \<Rightarrow> None)"

definition set_children_simd :: "bexpr \<Rightarrow> bexpr \<Rightarrow> nat \<Rightarrow> bexpr option" where
  "set_children_simd parent new_child index =
     (case parent of
        SIMDExtract op v i \<Rightarrow> Some (SIMDExtract op new_child i)
      | SIMDReplace op v i x \<Rightarrow> Some (if index = 0 then SIMDReplace op new_child i x
                                     else if index = 1 then SIMDReplace op v i new_child else parent)
      | SIMDShuffle l r m \<Rightarrow> Some (if index = 0 then SIMDShuffle new_child r m
                                  else if index = 1 then SIMDShuffle l new_child m else parent)
      | SIMDTernary op a b c \<Rightarrow> Some (if index = 0 then SIMDTernary op new_child b c
                                     else if index = 1 then SIMDTernary op a new_child c
                                     else if index = 2 then SIMDTernary op a b new_child else parent)
      | SIMDShift op v x \<Rightarrow> Some (if index = 0 then SIMDShift op new_child x
                                 else if index = 1 then SIMDShift op v new_child else parent)
      | SIMDLoad op off al p mem \<Rightarrow> Some (SIMDLoad op off al new_child mem)
      | SIMDLoadStoreLane op off al i p v mem \<Rightarrow>
          Some (if index = 0 then SIMDLoadStoreLane op off al i new_child v mem
                else if index = 1 then SIMDLoadStoreLane op off al i p new_child mem else parent)
      | _ \<Rightarrow> None)"

definition set_children_bulk :: "bexpr \<Rightarrow> bexpr \<Rightarrow> nat \<Rightarrow> bexpr option" where
  "set_children_bulk parent new_child index =
     (case parent of
        MemoryInit seg d off n mem \<Rightarrow>
          Some (if index = 0 then MemoryInit seg new_child off n mem
                else if index = 1 then MemoryInit seg d new_child n mem
                else if index = 2 then MemoryInit seg d off new_child mem else parent)
      | MemoryCopy d s n dm sm \<Rightarrow>
          Some (if index = 0 then MemoryCopy new_child s n dm sm
                else if index = 1 then MemoryCopy d new_child n dm sm
                else if index = 2 then MemoryCopy d s new_child dm sm else parent)
      | MemoryFill d v n mem \<Rightarrow>
          Some (if index = 0 then MemoryFill new_child v n mem
                else if index = 1 then MemoryFill d new_child n mem
                else if index = 2 then MemoryFill d v new_child mem else parent)
      | RefIsNull v \<Rightarrow> Some (RefIsNull new_child)
      | TableGet tbl i ty \<Rightarrow> Some (TableGet tbl new_child ty)
      | TableSet tbl i v \<Rightarrow> Some (if index = 0 then TableSet tbl new_child v
                                 else if index = 1 then TableSet tbl i new_child else parent)
      | TableGrow tbl v d \<Rightarrow> Some (if index = 0 then TableGrow tbl new_child d
                                  else if index = 1 then TableGrow tbl v new_child else parent)
      | TupleMake es \<Rightarrow> Some (TupleMake (es[index := new_child]))
      | TupleExtract t i \<Rightarrow> Some (TupleExtract new_child i)
      | _ \<Rightarrow> None)"

definition wasm_set_children_expr :: "bexpr \<Rightarrow> bexpr \<Rightarrow> nat \<Rightarrow> bexpr" where
  "wasm_set_children_expr parent new_child index =
     (case set_children_control parent new_child index of Some p \<Rightarrow> p
      | None \<Rightarrow> (case set_children_basic parent new_child index of Some p \<Rightarrow> p
        | None \<Rightarrow> (case set_children_simd parent new_child index of Some p \<Rightarrow> p
          | None \<Rightarrow> (case set_children_bulk parent new_child index of Some p \<Rightarrow> p
            | None \<Rightarrow> parent))))"

section \<open>Lemmas\<close>

lemmas children_defs =
  wasm_get_children_expr_def children_control_def children_basic_def children_simd_def children_bulk_def

lemmas set_children_defs =
  wasm_set_children_expr_def set_children_control_def set_children_basic_def set_children_simd_def
  set_children_bulk_def

abbreviation kids :: "bexpr \<Rightarrow> bexpr option list" where
  "kids e \<equiv> wasm_get_children_expr True (Some e)"

lemma kids_size: "Some c \<in> set (kids e) \<Longrightarrow> size c < size e"
  by (cases e) (auto simp: children_defs less_Suc_eq_le dest!: size_list_estimation' [where f = size, OF _ order_refl])

lemma set_children_kids:
  assumes "i < length (kids e)"
  shows "kids (wasm_set_children_expr e c i) = (kids e)[i := Some c]"
  using assms
  by (cases e)
     (auto simp: children_defs set_children_defs map_update nth_append less_Suc_eq list_update_append
       split: nat.splits)

lemma set_children_same:
  assumes "i < length (kids e)" and "kids e ! i = Some c"
  shows "wasm_set_children_expr e c i = e"
  using assms
  by (cases e)
     (auto simp: children_defs set_children_defs nth_append less_Suc_eq split: if_splits)

lemma mset_swap_at:
  assumes "i < length xs" "j < length xs"
  shows "mset (swap_at xs i j) = mset xs"
  using assms by (simp add: swap_at_def Let_def mset_swap)

context bounded_rng
begin

lemma shuffle_loop_mset:
  assumes "i < length arr" and "length arr < 2 ^ 32"
  shows "mset (fst (shuffle_loop R arr i g)) = mset arr"
  using assms
proof (induction i arbitrary: arr g)
  case (Suc i)
  let ?n = "of_nat (Suc i) + 1 :: u32"
  let ?j = "unat (fst (ro_rand_below R g ?n))"
  have n: "unat ?n = Suc (Suc i)"
    using Suc.prems by (subst unat_Suc_less) (simp_all add: unat_of_nat del: of_nat_Suc)
  then have "0 < ?n" by (simp add: word_less_nat_alt)
  then have "?j < Suc (Suc i)"
    using rand_below_less [of ?n g] n by (simp add: word_less_nat_alt)
  then have "?j < length arr" using Suc.prems by simp
  then have "mset (swap_at arr (Suc i) ?j) = mset arr"
    using Suc.prems(1) by (intro mset_swap_at)
  moreover have "length (swap_at arr (Suc i) ?j) = length arr"
    by (simp add: swap_at_def Let_def)
  ultimately show ?case
    using Suc.IH [of "swap_at arr (Suc i) ?j" "snd (ro_rand_below R g ?n)"] Suc.prems
    by (simp add: case_prod_unfold Let_def)
qed simp

lemma shuffle_mset:
  assumes "length arr < 2 ^ 32"
  shows "mset (fst (fisher_yates_shuffle R arr g)) = mset arr"
  using assms shuffle_loop_mset [of "length arr - 1" arr g]
  by (auto simp: fisher_yates_shuffle_def)

end

section \<open>Properties\<close>

text \<open>
  C37. Reading and replacing children agree for every expression kind: after replacing the
  child at a valid index, the children read back are the old ones with exactly that entry
  changed, a later replacement at the same index overrides the earlier one, and writing back
  the child that is already there changes nothing.
\<close>

theorem children_set_get:
  assumes "i < length (wasm_get_children_expr True (Some e))"
  shows "wasm_get_children_expr True (Some (wasm_set_children_expr e c i))
           = (wasm_get_children_expr True (Some e))[i := Some c] \<and>
         wasm_set_children_expr (wasm_set_children_expr e c i) d i = wasm_set_children_expr e d i \<and>
         (if wasm_get_children_expr True (Some e) ! i = Some c
          then wasm_set_children_expr e c i = e else True)"
proof -
  have "wasm_set_children_expr (wasm_set_children_expr e c i) d i = wasm_set_children_expr e d i"
    using assms by (cases e) (auto simp: children_defs set_children_defs less_Suc_eq)
  then show ?thesis
    using set_children_kids [OF assms] set_children_same [OF assms] by auto
qed

theorem children_set_get_witness:
  "wasm_get_children_expr True (Some (wasm_set_children_expr (Binary AddInt32 Nop Unreachable) (Const (LitInt32 7)) 1))
     = [Some Nop, Some (Const (LitInt32 7))]"
proof -
  have "kids (Binary AddInt32 Nop Unreachable) = [Some Nop, Some Unreachable]"
    by (simp add: children_defs)
  then show ?thesis
    using children_set_get [of 1 "Binary AddInt32 Nop Unreachable" "Const (LitInt32 7)"] by simp
qed

text \<open>
  C38. The shuffle is a permutation: for every array whose length fits the 32-bit index, with
  the fuzzer's generator, the result has the same elements with the same multiplicities.
\<close>

theorem fisher_yates_permutation:
  assumes "length arr < 2 ^ 32"
  shows "mset (fst (fisher_yates_shuffle (afl_rand_ops libc_rand) arr g)) = mset arr"
  using assms by (rule afl_rng.shuffle_mset)

theorem fisher_yates_permutation_witness:
  "mset (fst (fisher_yates_shuffle (afl_rand_ops (Pair 0)) [5, 6, 6, 9] demo_rng)) = {#5, 6, 6, 9#}"
  using fisher_yates_permutation [of "[5, 6, 6, 9]" "Pair 0" demo_rng] by simp

end
