(* ===== verification/Swam_Strip.thy ===== *)
theory Swam_Strip
  imports Wasm_Helpers
begin

text \<open>
  Removing the markers of an earlier exploit round from a cloned module, \<^verbatim>\<open>swam_strip.c\<close>.
  The code rewrites the tree in place while it walks down; the model writes the stripped
  child back at its index, which is the same tree.
\<close>

definition SWAM_MARKER_BEFORE :: string where
  "SWAM_MARKER_BEFORE = ''__swam_marker_before''"

definition SWAM_MARKER_AFTER :: string where
  "SWAM_MARKER_AFTER = ''__swam_marker_after''"

definition swam_is_marker_name :: "string option \<Rightarrow> bool" where
  "swam_is_marker_name name =
     (case name of None \<Rightarrow> False
      | Some n \<Rightarrow> n = SWAM_MARKER_BEFORE \<or> n = SWAM_MARKER_AFTER)"

definition swam_is_marker_set :: "bexpr option \<Rightarrow> bool" where
  "swam_is_marker_set expr =
     (case expr of Some (GlobalSet nm v) \<Rightarrow> swam_is_marker_name (Some nm) | _ \<Rightarrow> False)"

text \<open>Writing the replacements back, in index order; \<open>None\<close> is a NULL child, left alone.\<close>

fun write_children :: "bexpr \<Rightarrow> nat \<Rightarrow> bexpr option list \<Rightarrow> bexpr" where
  "write_children p i [] = p"
| "write_children p i (None # rs) = write_children p (Suc i) rs"
| "write_children p i (Some c # rs) = write_children (wasm_set_children_expr p c i) (Suc i) rs"

function swam_strip_expr :: "bexpr \<Rightarrow> bexpr" where
  "swam_strip_expr expr =
     write_children expr 0
       (map (\<lambda>child. case child of
               None \<Rightarrow> None
             | Some c \<Rightarrow> if swam_is_marker_set (Some c) then Some Nop
                         else Some (swam_strip_expr c))
            (wasm_get_children_expr True (Some expr)))"
  by pat_completeness auto
termination
  by (relation "measure size") (auto simp: kids_size)

declare swam_strip_expr.simps [simp del]

definition strip_function :: "bfunction \<Rightarrow> bfunction" where
  "strip_function func =
     (case f_body func of
        None \<Rightarrow> func
      | Some body \<Rightarrow>
          if swam_is_marker_set (Some body) then func\<lparr> f_body := Some Nop \<rparr>
          else func\<lparr> f_body := Some (swam_strip_expr body) \<rparr>)"

definition swam_strip_markers :: "bmodule \<Rightarrow> bmodule" where
  "swam_strip_markers m = m\<lparr> m_funcs := map strip_function (m_funcs m) \<rparr>"

section \<open>What stripping does\<close>

text \<open>No marker assignment at or below an expression, in the positions the walk visits.\<close>

function marker_free :: "bexpr \<Rightarrow> bool" where
  "marker_free e \<longleftrightarrow> \<not> swam_is_marker_set (Some e) \<and>
     list_all (\<lambda>c. case c of None \<Rightarrow> True | Some x \<Rightarrow> marker_free x) (kids e)"
  by pat_completeness auto
termination
  by (relation "measure size") (auto simp: kids_size)

declare marker_free.simps [simp del]

lemma kids_write_children:
  assumes "i + length rs = length (kids p)"
  shows "kids (write_children p i rs) =
    take i (kids p) @ map2 (\<lambda>r c. if r = None then c else r) rs (drop i (kids p))"
  using assms
proof (induction p i rs rule: write_children.induct)
  case (2 p i rs)
  then have "i < length (kids p)" by simp
  with 2 show ?case by (simp add: take_Suc_conv_app_nth Cons_nth_drop_Suc [symmetric])
next
  case (3 p i c rs)
  then have i: "i < length (kids p)" by simp
  note k = set_children_kids [OF i, of c]
  have "kids (write_children p i (Some c # rs)) =
      take (Suc i) ((kids p)[i := Some c]) @
      map2 (\<lambda>r c. if r = None then c else r) rs (drop (Suc i) ((kids p)[i := Some c]))"
    using 3 k by simp
  then show ?case
    using i by (simp add: take_Suc_conv_app_nth Cons_nth_drop_Suc [symmetric] take_update_swap
        list_update_append)
qed simp

lemma kids_strip:
  "kids (swam_strip_expr e) =
     map (map_option (\<lambda>c. if swam_is_marker_set (Some c) then Nop else swam_strip_expr c)) (kids e)"
proof -
  have "map2 (\<lambda>r c. if r = None then c else r)
      (map (\<lambda>child. case child of None \<Rightarrow> None
         | Some c \<Rightarrow> if swam_is_marker_set (Some c) then Some Nop else Some (swam_strip_expr c)) cs) cs =
    map (map_option (\<lambda>c. if swam_is_marker_set (Some c) then Nop else swam_strip_expr c)) cs" for cs
    by (induction cs) (auto split: option.splits)
  then show ?thesis
    by (subst swam_strip_expr.simps) (simp add: kids_write_children)
qed

text \<open>Stripping never turns an expression into a marker assignment.\<close>

lemma set_children_global_set:
  "(\<exists>v. wasm_set_children_expr p c i = GlobalSet nm v) \<longleftrightarrow> (\<exists>v. p = GlobalSet nm v)"
  by (cases p) (auto simp: set_children_defs)

lemma set_children_marker:
  "swam_is_marker_set (Some (wasm_set_children_expr p c i)) = swam_is_marker_set (Some p)"
  by (cases p) (auto simp: set_children_defs swam_is_marker_set_def)

lemma write_children_marker:
  "swam_is_marker_set (Some (write_children p i rs)) = swam_is_marker_set (Some p)"
  by (induction p i rs rule: write_children.induct) (auto simp: set_children_marker)

lemma strip_marker: "swam_is_marker_set (Some (swam_strip_expr e)) = swam_is_marker_set (Some e)"
  by (subst swam_strip_expr.simps) (rule write_children_marker)

lemma marker_free_Nop [simp]: "marker_free Nop"
  by (simp add: marker_free.simps [of Nop] swam_is_marker_set_def children_defs)

lemma strip_marker_free:
  assumes "\<not> swam_is_marker_set (Some e)"
  shows "marker_free (swam_strip_expr e)"
  using assms
proof (induction e rule: swam_strip_expr.induct)
  case (1 e)
  have "marker_free x" if mem: "Some x \<in> set (kids (swam_strip_expr e))" for x
  proof -
    obtain z where z: "z \<in> set (kids e)" "Some x = map_option
        (\<lambda>c. if swam_is_marker_set (Some c) then Nop else swam_strip_expr c) z"
      using mem unfolding kids_strip by auto
    from z(2) [symmetric, unfolded map_option_eq_Some] z(1)
    obtain c where c: "Some c \<in> set (kids e)"
      "x = (if swam_is_marker_set (Some c) then Nop else swam_strip_expr c)" by blast
    then show ?thesis using 1(1) [OF c(1) refl] by auto
  qed
  then show ?case
    using 1(2) by (subst marker_free.simps) (auto simp: strip_marker list_all_iff split: option.splits)
qed

lemma write_children_same:
  assumes "i + length rs = length (kids p)" and "rs = drop i (kids p)"
  shows "write_children p i rs = p"
  using assms
proof (induction p i rs rule: write_children.induct)
  case (2 p i rs)
  have "i < length (kids p)" using 2(2) by simp
  with 2(3) have rs: "rs = drop (Suc i) (kids p)"
    by (simp add: Cons_nth_drop_Suc [symmetric])
  have "write_children p (Suc i) rs = p"
    by (rule 2(1) [OF _ rs]) (use 2(2) in simp)
  then show ?case by simp
next
  case (3 p i c rs)
  have i: "i < length (kids p)" using 3(2) by simp
  with 3(3) have eq: "kids p ! i = Some c" "rs = drop (Suc i) (kids p)"
    by (simp_all add: Cons_nth_drop_Suc [symmetric])
  note same = set_children_same [OF i eq(1)]
  have "write_children (wasm_set_children_expr p c i) (Suc i) rs = wasm_set_children_expr p c i"
    by (rule 3(1)) (use 3(2) eq(2) in \<open>simp_all add: same\<close>)
  then show ?case by (simp add: same)
qed simp

lemma strip_id: "marker_free e \<Longrightarrow> swam_strip_expr e = e"
proof (induction e rule: swam_strip_expr.induct)
  case (1 e)
  have "map (\<lambda>child. case child of None \<Rightarrow> None
         | Some c \<Rightarrow> if swam_is_marker_set (Some c) then Some Nop else Some (swam_strip_expr c)) (kids e)
      = kids e"
  proof (rule map_idI)
    fix x assume x: "x \<in> set (kids e)"
    show "(case x of None \<Rightarrow> None
         | Some c \<Rightarrow> if swam_is_marker_set (Some c) then Some Nop else Some (swam_strip_expr c)) = x"
    proof (cases x)
      case (Some c)
      have "marker_free c"
        using 1(2) x by (subst (asm) marker_free.simps) (auto simp: list_all_iff Some)
      moreover from this have "\<not> swam_is_marker_set (Some c)"
        by (subst (asm) marker_free.simps) simp
      ultimately show ?thesis using 1(1) [OF x Some] by (simp add: Some)
    qed simp
  qed
  then show ?case
    by (subst swam_strip_expr.simps) (simp add: write_children_same)
qed

section \<open>Properties\<close>

text \<open>
  C32. After stripping, no function body has a marker assignment in any position the child
  walk reaches; stripping twice is stripping once; and a module without markers is left
  exactly as it was.
\<close>

theorem strip_removes_markers:
  "list_all (\<lambda>f. case f_body f of None \<Rightarrow> True | Some b \<Rightarrow> marker_free b)
     (m_funcs (swam_strip_markers m)) \<and>
   swam_strip_markers (swam_strip_markers m) = swam_strip_markers m \<and>
   (if list_all (\<lambda>f. case f_body f of None \<Rightarrow> True | Some b \<Rightarrow> marker_free b) (m_funcs m)
    then swam_strip_markers m = m else True)"
proof -
  have free: "case f_body (strip_function f) of None \<Rightarrow> True | Some b \<Rightarrow> marker_free b" for f
    using strip_marker_free by (auto simp: strip_function_def split: option.splits)
  have keep: "strip_function f = f" if "case f_body f of None \<Rightarrow> True | Some b \<Rightarrow> marker_free b" for f
  proof (cases "f_body f")
    case (Some b)
    then have "marker_free b" using that by simp
    moreover from this have "\<not> swam_is_marker_set (Some b)" by (subst (asm) marker_free.simps) simp
    ultimately show ?thesis using Some by (simp add: strip_function_def strip_id)
  qed (simp add: strip_function_def)
  have "swam_strip_markers m' = m'"
    if "list_all (\<lambda>f. case f_body f of None \<Rightarrow> True | Some b \<Rightarrow> marker_free b) (m_funcs m')" for m' :: bmodule
    using that keep by (simp add: swam_strip_markers_def list_all_iff map_idI)
  moreover have all: "list_all (\<lambda>f. case f_body f of None \<Rightarrow> True | Some b \<Rightarrow> marker_free b)
     (m_funcs (swam_strip_markers m))"
    using free by (simp add: swam_strip_markers_def list_all_iff)
  ultimately show ?thesis by simp
qed

text \<open>
  C33. The child walk does not know the expression kind of exception handling: a marker
  assignment inside the body or a catch of a \<open>Try\<close> survives stripping unchanged.
\<close>

theorem strip_misses_try:
  "swam_strip_expr (Block nm [Try l (Block n [GlobalSet SWAM_MARKER_AFTER v]) tags cs]) =
     Block nm [Try l (Block n [GlobalSet SWAM_MARKER_AFTER v]) tags cs]"
proof -
  have t: "swam_strip_expr (Try l b tags cs) = Try l b tags cs" for b
    by (subst swam_strip_expr.simps) (simp add: children_defs)
  show ?thesis
    by (subst swam_strip_expr.simps) (simp add: children_defs swam_is_marker_set_def t set_children_defs)
qed

end
