(* ===== verification/Swam_Probe.thy ===== *)
theory Swam_Probe
  imports Swam_Scenarios Swam_Strip
begin

text \<open>
  The probe, \<^verbatim>\<open>swam_probe.c\<close>: four expressions that set the before marker, compute the
  address the scenario asks for, perform the memory access under test and set the after
  marker. The theorems relate it to the trapping behaviour of the standard, so they say that
  the catalogue's expectations are the right ones to test a runtime against.
\<close>

definition SWAM_BULK_SEGMENT_NAME :: string where
  "SWAM_BULK_SEGMENT_NAME = ''__swam_bulk_seg''"

definition SWAM_PAGE_SIZE_BYTES :: int where
  "SWAM_PAGE_SIZE_BYTES = 65536"

section \<open>Constants\<close>

definition swam_make_i32_const :: "int \<Rightarrow> bexpr" where
  "swam_make_i32_const v = Const (LitInt32 (word_of_int v))"

definition swam_make_index_const :: "int \<Rightarrow> bool \<Rightarrow> bexpr" where
  "swam_make_index_const v is_memory64 =
     (if is_memory64 then Const (LitInt64 (word_of_int v)) else swam_make_i32_const v)"

fun swam_valtype_to_binaryen :: "SwamValType \<Rightarrow> btype" where
  "swam_valtype_to_binaryen SWAM_VALTYPE_I32 = TypeInt32"
| "swam_valtype_to_binaryen SWAM_VALTYPE_I64 = TypeInt64"
| "swam_valtype_to_binaryen SWAM_VALTYPE_F32 = TypeFloat32"
| "swam_valtype_to_binaryen SWAM_VALTYPE_F64 = TypeFloat64"
| "swam_valtype_to_binaryen SWAM_VALTYPE_V128 = TypeVec128"

definition swam_make_v128_const :: bexpr where
  "swam_make_v128_const = Const (LitVec128 (replicate 16 0))"

fun swam_make_dummy_value :: "SwamValType \<Rightarrow> bexpr" where
  "swam_make_dummy_value SWAM_VALTYPE_I32 = Const (LitInt32 0x42)"
| "swam_make_dummy_value SWAM_VALTYPE_I64 = Const (LitInt64 0x42)"
| "swam_make_dummy_value SWAM_VALTYPE_F32 = Const (LitFloat32 0x3f800000)"
| "swam_make_dummy_value SWAM_VALTYPE_F64 = Const (LitFloat64 0x3ff0000000000000)"
| "swam_make_dummy_value SWAM_VALTYPE_V128 = swam_make_v128_const"

section \<open>Operators\<close>

definition swam_simd_load_op :: "SwamOpKind \<Rightarrow> bop" where
  "swam_simd_load_op kind =
     (if kind = SWAM_OP_V128_LOAD8X8_S then Load8x8SVec128
      else if kind = SWAM_OP_V128_LOAD8X8_U then Load8x8UVec128
      else if kind = SWAM_OP_V128_LOAD16X4_S then Load16x4SVec128
      else if kind = SWAM_OP_V128_LOAD16X4_U then Load16x4UVec128
      else if kind = SWAM_OP_V128_LOAD32X2_S then Load32x2SVec128
      else if kind = SWAM_OP_V128_LOAD32X2_U then Load32x2UVec128
      else if kind = SWAM_OP_V128_LOAD8_SPLAT then Load8SplatVec128
      else if kind = SWAM_OP_V128_LOAD16_SPLAT then Load16SplatVec128
      else if kind = SWAM_OP_V128_LOAD32_SPLAT then Load32SplatVec128
      else if kind = SWAM_OP_V128_LOAD64_SPLAT then Load64SplatVec128
      else if kind = SWAM_OP_V128_LOAD32_ZERO then Load32ZeroVec128
      else if kind = SWAM_OP_V128_LOAD64_ZERO then Load64ZeroVec128
      else Load8SplatVec128)"

definition swam_simd_lane_op :: "SwamOpKind \<Rightarrow> bop" where
  "swam_simd_lane_op kind =
     (if kind = SWAM_OP_V128_LOAD8_LANE then Load8LaneVec128
      else if kind = SWAM_OP_V128_LOAD16_LANE then Load16LaneVec128
      else if kind = SWAM_OP_V128_LOAD32_LANE then Load32LaneVec128
      else if kind = SWAM_OP_V128_LOAD64_LANE then Load64LaneVec128
      else if kind = SWAM_OP_V128_STORE8_LANE then Store8LaneVec128
      else if kind = SWAM_OP_V128_STORE16_LANE then Store16LaneVec128
      else if kind = SWAM_OP_V128_STORE32_LANE then Store32LaneVec128
      else if kind = SWAM_OP_V128_STORE64_LANE then Store64LaneVec128
      else Load8LaneVec128)"

definition swam_rmw_binaryen_op :: "SwamOpKind \<Rightarrow> bop" where
  "swam_rmw_binaryen_op kind =
     (if kind \<in> {SWAM_OP_I32_ATOMIC_RMW_ADD, SWAM_OP_I64_ATOMIC_RMW_ADD,
            SWAM_OP_I32_ATOMIC_RMW8_ADD_U, SWAM_OP_I32_ATOMIC_RMW16_ADD_U,
            SWAM_OP_I64_ATOMIC_RMW8_ADD_U, SWAM_OP_I64_ATOMIC_RMW16_ADD_U,
            SWAM_OP_I64_ATOMIC_RMW32_ADD_U}
      then AtomicRMWAdd
      else if kind \<in> {SWAM_OP_I32_ATOMIC_RMW_SUB, SWAM_OP_I64_ATOMIC_RMW_SUB,
            SWAM_OP_I32_ATOMIC_RMW8_SUB_U, SWAM_OP_I32_ATOMIC_RMW16_SUB_U,
            SWAM_OP_I64_ATOMIC_RMW8_SUB_U, SWAM_OP_I64_ATOMIC_RMW16_SUB_U,
            SWAM_OP_I64_ATOMIC_RMW32_SUB_U}
      then AtomicRMWSub
      else if kind \<in> {SWAM_OP_I32_ATOMIC_RMW_AND, SWAM_OP_I64_ATOMIC_RMW_AND,
            SWAM_OP_I32_ATOMIC_RMW8_AND_U, SWAM_OP_I32_ATOMIC_RMW16_AND_U,
            SWAM_OP_I64_ATOMIC_RMW8_AND_U, SWAM_OP_I64_ATOMIC_RMW16_AND_U,
            SWAM_OP_I64_ATOMIC_RMW32_AND_U}
      then AtomicRMWAnd
      else if kind \<in> {SWAM_OP_I32_ATOMIC_RMW_OR, SWAM_OP_I64_ATOMIC_RMW_OR,
            SWAM_OP_I32_ATOMIC_RMW8_OR_U, SWAM_OP_I32_ATOMIC_RMW16_OR_U,
            SWAM_OP_I64_ATOMIC_RMW8_OR_U, SWAM_OP_I64_ATOMIC_RMW16_OR_U,
            SWAM_OP_I64_ATOMIC_RMW32_OR_U}
      then AtomicRMWOr
      else if kind \<in> {SWAM_OP_I32_ATOMIC_RMW_XOR, SWAM_OP_I64_ATOMIC_RMW_XOR,
            SWAM_OP_I32_ATOMIC_RMW8_XOR_U, SWAM_OP_I32_ATOMIC_RMW16_XOR_U,
            SWAM_OP_I64_ATOMIC_RMW8_XOR_U, SWAM_OP_I64_ATOMIC_RMW16_XOR_U,
            SWAM_OP_I64_ATOMIC_RMW32_XOR_U}
      then AtomicRMWXor
      else if kind \<in> {SWAM_OP_I32_ATOMIC_RMW_XCHG, SWAM_OP_I64_ATOMIC_RMW_XCHG,
            SWAM_OP_I32_ATOMIC_RMW8_XCHG_U, SWAM_OP_I32_ATOMIC_RMW16_XCHG_U,
            SWAM_OP_I64_ATOMIC_RMW8_XCHG_U, SWAM_OP_I64_ATOMIC_RMW16_XCHG_U,
            SWAM_OP_I64_ATOMIC_RMW32_XCHG_U}
      then AtomicRMWXchg
      else AtomicRMWAdd)"


section \<open>The address\<close>

definition swam_build_memory_bytes :: "string \<Rightarrow> bool \<Rightarrow> bexpr" where
  "swam_build_memory_bytes mem is_memory64 =
     Binary (if is_memory64 then MulInt64 else MulInt32)
       (MemorySize mem is_memory64)
       (swam_make_index_const SWAM_PAGE_SIZE_BYTES is_memory64)"

text \<open>The two sums the layouts are built from: \<open>bytes - width\<close> and \<open>bytes / 2\<close>.\<close>

definition bytes_minus_width :: "SwamScenario \<Rightarrow> string \<Rightarrow> bool \<Rightarrow> bexpr" where
  "bytes_minus_width sc mem is_memory64 =
     Binary (if is_memory64 then SubInt64 else SubInt32)
       (swam_build_memory_bytes mem is_memory64)
       (swam_make_index_const (uint (sc_access_width sc)) is_memory64)"

definition bytes_half :: "string \<Rightarrow> bool \<Rightarrow> bexpr" where
  "bytes_half mem is_memory64 =
     Binary (if is_memory64 then DivUInt64 else DivUInt32)
       (swam_build_memory_bytes mem is_memory64) (swam_make_index_const 2 is_memory64)"

definition swam_build_base_address :: "SwamScenario option \<Rightarrow> string \<Rightarrow> bool \<Rightarrow> bexpr" where
  "swam_build_base_address scenario mem is_memory64 =
     (let add_op = (if is_memory64 then AddInt64 else AddInt32);
          sub_op = (if is_memory64 then SubInt64 else SubInt32);
          one = swam_make_index_const 1 is_memory64
      in case scenario of
           None \<Rightarrow> swam_make_index_const 0 is_memory64
         | Some sc \<Rightarrow>
             if sc_op_class sc = SWAM_OPCLASS_MEMORY_GROW \<or> sc_access_width sc = 0
             then swam_make_index_const 0 is_memory64
             else if sc_wrap sc = SWAM_WRAP_OVERFLOW
             then (if is_memory64
                   then swam_make_index_const (- uint (sc_access_width sc)) True
                   else swam_make_i32_const (- uint (sc_access_width sc)))
             else if sc_align sc = SWAM_ALIGN_ALIGNED \<and> sc_layout sc = SWAM_LAYOUT_OOB
             then swam_build_memory_bytes mem is_memory64
             else if sc_align sc = SWAM_ALIGN_MISALIGNED
             then (case sc_layout sc of
                     SWAM_LAYOUT_INTERIOR \<Rightarrow> Binary add_op (bytes_half mem is_memory64) one
                   | SWAM_LAYOUT_BOUNDARY \<Rightarrow>
                       Binary sub_op (bytes_minus_width sc mem is_memory64) one
                   | _ \<Rightarrow> Binary add_op (bytes_minus_width sc mem is_memory64) one)
             else (case sc_layout sc of
                     SWAM_LAYOUT_BOUNDARY \<Rightarrow> bytes_minus_width sc mem is_memory64
                   | SWAM_LAYOUT_OOB \<Rightarrow>
                       Binary add_op (bytes_minus_width sc mem is_memory64) one
                   | _ \<Rightarrow> bytes_half mem is_memory64))"

section \<open>Markers\<close>

definition swam_build_marker_set :: "string \<Rightarrow> u32 \<Rightarrow> bexpr" where
  "swam_build_marker_set marker scenario_id =
     GlobalSet marker (swam_make_i32_const (sint scenario_id))"

definition swam_ensure_marker_global :: "string \<Rightarrow> bmodule \<Rightarrow> bmodule" where
  "swam_ensure_marker_global marker m =
     (let m1 = (if \<exists>g \<in> set (m_globals m). g_name g = marker then m
                else m\<lparr> m_globals := m_globals m @
                       [\<lparr> g_name = marker, g_type = TypeInt32, g_mutable = True,
                          g_init = swam_make_i32_const 0 \<rparr>] \<rparr>)
      in if \<exists>x \<in> set (m_exports m1). x_name x = marker then m1
         else m1\<lparr> m_exports := m_exports m1 @
                  [\<lparr> x_name = marker, x_kind = ExternalGlobal, x_value = marker \<rparr>] \<rparr>)"

definition swam_add_marker_globals :: "bmodule \<Rightarrow> bmodule" where
  "swam_add_marker_globals m =
     swam_ensure_marker_global SWAM_MARKER_AFTER (swam_ensure_marker_global SWAM_MARKER_BEFORE m)"

section \<open>The access under test\<close>

text \<open>The cases for the scalar and atomic classes.\<close>

definition target_op_scalar ::
  "SwamScenario \<Rightarrow> bexpr \<Rightarrow> u32 \<Rightarrow> string \<Rightarrow> bool \<Rightarrow> bexpr option" where
  "target_op_scalar sc ptr static_offset mem is_memory64 =
     (let vt = swam_valtype_to_binaryen (sc_value_type sc);
          w = sc_access_width sc;
          dummy = swam_make_dummy_value (sc_value_type sc)
      in case sc_op_class sc of
           SWAM_OPCLASS_LOAD \<Rightarrow>
             Some (Drop (Load False w (sc_is_signed sc) static_offset 0 vt ptr mem))
         | SWAM_OPCLASS_STORE \<Rightarrow> Some (Store False w static_offset 0 ptr dummy vt mem)
         | SWAM_OPCLASS_ATOMIC_LOAD \<Rightarrow>
             Some (Drop (Load True w False static_offset w vt ptr mem))
         | SWAM_OPCLASS_ATOMIC_STORE \<Rightarrow> Some (Store True w static_offset w ptr dummy vt mem)
         | SWAM_OPCLASS_ATOMIC_RMW \<Rightarrow>
             Some (Drop (AtomicRMW (swam_rmw_binaryen_op (sc_op_kind sc)) w static_offset ptr
                           dummy vt mem))
         | SWAM_OPCLASS_ATOMIC_CMPXCHG \<Rightarrow>
             Some (Drop (AtomicCmpxchg w static_offset ptr dummy dummy vt mem))
         | SWAM_OPCLASS_ATOMIC_WAIT \<Rightarrow>
             Some (Drop (AtomicWait ptr dummy (Const (LitInt64 0)) vt static_offset mem))
         | SWAM_OPCLASS_ATOMIC_NOTIFY \<Rightarrow>
             Some (Drop (AtomicNotify ptr (swam_make_i32_const 0) static_offset mem))
         | SWAM_OPCLASS_MEMORY_GROW \<Rightarrow>
             Some (Drop (MemoryGrow (swam_make_index_const 1 is_memory64) mem is_memory64))
         | _ \<Rightarrow> None)"

text \<open>The cases for the SIMD and bulk classes.\<close>

definition target_op_vector ::
  "SwamScenario \<Rightarrow> bexpr \<Rightarrow> u32 \<Rightarrow> string \<Rightarrow> bool \<Rightarrow> bexpr" where
  "target_op_vector sc ptr static_offset mem is_memory64 =
     (let w = sc_access_width sc;
          zero = swam_make_index_const 0 is_memory64;
          one = swam_make_index_const 1 is_memory64
      in case sc_op_class sc of
           SWAM_OPCLASS_SIMD_LOAD \<Rightarrow>
             if sc_op_kind sc = SWAM_OP_V128_LOAD
             then Drop (Load False 16 False static_offset 0 TypeVec128 ptr mem)
             else Drop (SIMDLoad (swam_simd_load_op (sc_op_kind sc)) static_offset w ptr mem)
         | SWAM_OPCLASS_SIMD_LOAD_LANE \<Rightarrow>
             Drop (SIMDLoadStoreLane (swam_simd_lane_op (sc_op_kind sc)) static_offset w 0 ptr
                     swam_make_v128_const mem)
         | SWAM_OPCLASS_SIMD_STORE \<Rightarrow>
             Store False 16 static_offset 0 ptr swam_make_v128_const TypeVec128 mem
         | SWAM_OPCLASS_SIMD_STORE_LANE \<Rightarrow>
             SIMDLoadStoreLane (swam_simd_lane_op (sc_op_kind sc)) static_offset w 0 ptr
               swam_make_v128_const mem
         | SWAM_OPCLASS_BULK_COPY \<Rightarrow> MemoryCopy ptr zero one mem mem
         | SWAM_OPCLASS_BULK_FILL \<Rightarrow> MemoryFill ptr (swam_make_i32_const 0x42) one mem
         | SWAM_OPCLASS_BULK_INIT \<Rightarrow> MemoryInit SWAM_BULK_SEGMENT_NAME ptr zero one mem
         | _ \<Rightarrow> Nop)"

definition swam_build_target_op :: "SwamScenario option \<Rightarrow> nat \<Rightarrow> string \<Rightarrow> bool \<Rightarrow> bexpr" where
  "swam_build_target_op scenario addr_local_idx mem is_memory64 =
     (case scenario of
        None \<Rightarrow> Nop
      | Some sc \<Rightarrow>
          (let ptr_type = (if is_memory64 then TypeInt64 else TypeInt32);
               static_offset = (if sc_wrap sc = SWAM_WRAP_OVERFLOW then sc_access_width sc else 0);
               ptr = LocalGet addr_local_idx ptr_type
           in case target_op_scalar sc ptr static_offset mem is_memory64 of
                Some e \<Rightarrow> e
              | None \<Rightarrow> target_op_vector sc ptr static_offset mem is_memory64))"

definition swam_build_probe ::
  "bmodule option \<Rightarrow> SwamScenario option \<Rightarrow> nat \<Rightarrow> string \<Rightarrow> bool \<Rightarrow> bexpr option \<times> bmodule option"
where
  "swam_build_probe m scenario addr_local_idx mem is_memory64 =
     (case m of
        None \<Rightarrow> (None, None)
      | Some mm \<Rightarrow>
          (case scenario of
             None \<Rightarrow> (Some Nop, Some mm)
           | Some sc \<Rightarrow>
               (Some (Block None
                  [swam_build_marker_set SWAM_MARKER_BEFORE (sc_id sc),
                   LocalSet addr_local_idx (swam_build_base_address (Some sc) mem is_memory64),
                   swam_build_target_op (Some sc) addr_local_idx mem is_memory64,
                   swam_build_marker_set SWAM_MARKER_AFTER (sc_id sc)]),
                Some (swam_add_marker_globals mm))))"

section \<open>Evaluating addresses\<close>

lemma unat_word_of_int:
  assumes "0 \<le> v" and "v < 2 ^ LENGTH('a::len)"
  shows "unat (word_of_int v :: 'a word) = nat v"
  using assms by (simp add: unsigned_of_int take_bit_eq_mod)

lemma unat_word_of_int_neg:
  assumes "0 < v" and "v < 2 ^ LENGTH('a::len)"
  shows "unat (word_of_int (- v) :: 'a word) = 2 ^ LENGTH('a) - nat v"
proof -
  have "(- v) mod 2 ^ LENGTH('a) = 2 ^ LENGTH('a) - v"
    using assms by (simp add: zmod_zminus1_eq_if)
  moreover have "unat (word_of_int (- v) :: 'a word) = nat ((- v) mod 2 ^ LENGTH('a))"
    by (simp only: unsigned_of_int take_bit_eq_mod of_nat_id)
  ultimately show ?thesis
    using assms by (simp add: nat_diff_distrib nat_power_eq)
qed

definition addr_lim :: "bool \<Rightarrow> nat" where
  "addr_lim is64 = (if is64 then 2 ^ 64 else 2 ^ 32)"

text \<open>The expression computes the address \<open>n\<close> in the memory's index type without side effects.\<close>

definition addr_is :: "bool \<Rightarrow> bexpr \<Rightarrow> winst \<Rightarrow> nat \<Rightarrow> bool" where
  "addr_is is64 e w n \<longleftrightarrow>
     (if is64 then \<exists>a. weval e w = Done (VI64 a) w \<and> unat a = n
      else \<exists>a. weval e w = Done (VI32 a) w \<and> unat a = n)"

lemma addr_const:
  assumes "0 \<le> v" and "v < 2 ^ 32"
  shows "addr_is is64 (swam_make_index_const v is64) w (nat v)"
proof -
  have "v < 2 ^ 64" using assms(2) by simp
  then show ?thesis
    using assms unat_word_of_int [of v, where ?'a = 32] unat_word_of_int [of v, where ?'a = 64]
    by (simp add: addr_is_def swam_make_index_const_def swam_make_i32_const_def)
qed

lemma addr_neg:
  assumes "0 < v" and "v < 2 ^ 32"
  shows "addr_is is64 (swam_make_index_const (- v) is64) w (addr_lim is64 - nat v)"
proof -
  have "v < 2 ^ 64" using assms(2) by simp
  then show ?thesis
    using assms unat_word_of_int_neg [of v, where ?'a = 32] unat_word_of_int_neg [of v, where ?'a = 64]
    by (simp add: addr_is_def addr_lim_def swam_make_index_const_def swam_make_i32_const_def)
qed

lemma addr_binary:
  assumes "addr_is is64 e w x" and "addr_is is64 f w y"
  shows "x + y < addr_lim is64 \<Longrightarrow>
      addr_is is64 (Binary (if is64 then AddInt64 else AddInt32) e f) w (x + y)"
    "y \<le> x \<Longrightarrow> addr_is is64 (Binary (if is64 then SubInt64 else SubInt32) e f) w (x - y)"
    "x * y < addr_lim is64 \<Longrightarrow>
      addr_is is64 (Binary (if is64 then MulInt64 else MulInt32) e f) w (x * y)"
  using assms
  by (auto simp: addr_is_def addr_lim_def binop_val_def binop32_def binop64_def unat_word_ariths
      unat_sub word_le_nat_alt split: if_splits)

lemma addr_div:
  assumes "addr_is is64 e w x" and "addr_is is64 f w y" and "0 < y"
  shows "addr_is is64 (Binary (if is64 then DivUInt64 else DivUInt32) e f) w (x div y)"
  using assms
  by (auto simp: addr_is_def binop_val_def binop32_def binop64_def unat_div split: if_splits)

lemma addr_memory_size:
  assumes "w_pages w < addr_lim is64"
  shows "addr_is is64 (MemorySize mem is64) w (w_pages w)"
  using assms by (auto simp: addr_is_def addr_lim_def unat_of_nat)

lemma addr_bytes:
  assumes "mem_len w < addr_lim is64"
  shows "addr_is is64 (swam_build_memory_bytes mem is64) w (mem_len w)"
proof -
  have "w_pages w \<le> mem_len w" by (simp add: mem_len_def PAGE_SIZE_def)
  then have "addr_is is64 (MemorySize mem is64) w (w_pages w)"
    using assms by (intro addr_memory_size) simp
  moreover have "addr_is is64 (swam_make_index_const SWAM_PAGE_SIZE_BYTES is64) w PAGE_SIZE"
    using addr_const [of SWAM_PAGE_SIZE_BYTES is64 w] by (simp add: SWAM_PAGE_SIZE_BYTES_def PAGE_SIZE_def)
  ultimately show ?thesis
    using assms addr_binary(3) unfolding swam_build_memory_bytes_def mem_len_def by blast
qed

text \<open>The address a scenario asks for in a memory of \<open>len\<close> bytes.\<close>

definition probe_addr :: "SwamScenario \<Rightarrow> bool \<Rightarrow> nat \<Rightarrow> nat" where
  "probe_addr sc is64 len =
     (let w = unat (sc_access_width sc)
      in if sc_wrap sc = SWAM_WRAP_OVERFLOW then addr_lim is64 - w
         else if sc_align sc = SWAM_ALIGN_ALIGNED \<and> sc_layout sc = SWAM_LAYOUT_OOB then len
         else (case sc_layout sc of
                 SWAM_LAYOUT_INTERIOR \<Rightarrow>
                   if sc_align sc = SWAM_ALIGN_MISALIGNED then len div 2 + 1 else len div 2
               | SWAM_LAYOUT_BOUNDARY \<Rightarrow>
                   if sc_align sc = SWAM_ALIGN_MISALIGNED then len - w - 1 else len - w
               | _ \<Rightarrow> len - w + 1))"

lemma base_address_eval:
  assumes "scenario_wf sc" and "sc_op_class sc \<noteq> SWAM_OPCLASS_MEMORY_GROW"
    and "mem_len w < addr_lim is64" and "32 \<le> mem_len w"
  shows "addr_is is64 (swam_build_base_address (Some sc) mem is64) w (probe_addr sc is64 (mem_len w))"
proof -
  let ?w = "sc_access_width sc"
  have wd: "?w \<in> {1, 2, 4, 8, 16}" and lay: "sc_layout sc \<noteq> SWAM_LAYOUT_COUNT"
    using assms(1,2) by (auto simp: scenario_wf_def)
  have w: "0 < unat ?w" "unat ?w \<le> 16" "?w \<noteq> 0" using wd by auto
  have u: "nat (uint ?w) = unat ?w" by simp
  have wc: "addr_is is64 (swam_make_index_const (uint ?w) is64) w (unat ?w)"
    using addr_const [of "uint ?w" is64 w] uint_lt2p [of ?w] unfolding u by simp
  have one: "addr_is is64 (swam_make_index_const 1 is64) w 1"
    and two: "addr_is is64 (swam_make_index_const 2 is64) w 2"
    using addr_const [of 1 is64 w] addr_const [of 2 is64 w] by simp_all
  note bytes = addr_bytes [OF assms(3), of mem]
  have minus: "addr_is is64 (bytes_minus_width sc mem is64) w (mem_len w - unat ?w)"
    unfolding bytes_minus_width_def by (rule addr_binary(2) [OF bytes wc]) (use w assms(4) in simp)
  have half: "addr_is is64 (bytes_half mem is64) w (mem_len w div 2)"
    unfolding bytes_half_def by (rule addr_div [OF bytes two]) simp
  have neg: "addr_is is64 (swam_make_index_const (- uint ?w) is64) w (addr_lim is64 - unat ?w)"
  proof -
    have "0 < uint ?w" by (metis u w(1) zero_less_nat_eq)
    from addr_neg [OF this, of is64 w] uint_lt2p [of ?w] show ?thesis unfolding u by simp
  qed
  have neg32: "swam_make_i32_const v = swam_make_index_const v False" for v
    by (simp add: swam_make_index_const_def)
  have sums: "mem_len w - unat ?w + 1 < addr_lim is64" "mem_len w div 2 + 1 < addr_lim is64"
    "1 \<le> mem_len w - unat ?w" "0 < unat ?w"
    using w assms(3,4) by simp_all
  show ?thesis
    unfolding swam_build_base_address_def probe_addr_def
    using assms(2) w(3) neg bytes lay addr_binary(1) [OF minus one sums(1)]
      addr_binary(1) [OF half one sums(2)] addr_binary(2) [OF minus one sums(3)] half minus
    by (cases "sc_layout sc") (auto simp: Let_def neg32)
qed

section \<open>Evaluating the access\<close>

text \<open>The operators the probe picks touch as many bytes as the row says.\<close>

definition op_width_ok :: "SwamScenario \<Rightarrow> bool" where
  "op_width_ok sc \<longleftrightarrow>
     (case sc_op_class sc of
        SWAM_OPCLASS_SIMD_LOAD \<Rightarrow> sc_op_kind sc = SWAM_OP_V128_LOAD \<or>
          simd_op_bytes (swam_simd_load_op (sc_op_kind sc)) = unat (sc_access_width sc)
      | SWAM_OPCLASS_SIMD_LOAD_LANE \<Rightarrow>
          simd_op_bytes (swam_simd_lane_op (sc_op_kind sc)) = unat (sc_access_width sc)
      | SWAM_OPCLASS_SIMD_STORE_LANE \<Rightarrow>
          simd_op_bytes (swam_simd_lane_op (sc_op_kind sc)) = unat (sc_access_width sc)
      | SWAM_OPCLASS_ATOMIC_WAIT \<Rightarrow>
          wait_bytes (swam_valtype_to_binaryen (sc_value_type sc)) = unat (sc_access_width sc)
      | SWAM_OPCLASS_ATOMIC_NOTIFY \<Rightarrow> sc_access_width sc = 4
      | _ \<Rightarrow> True)"

lemma catalog_segments_op_width:
  "list_all op_width_ok catalog_load_store_grow" "list_all op_width_ok catalog_overflow"
  "list_all op_width_ok catalog_atomic_load_store" "list_all op_width_ok catalog_atomic_rmw"
  "list_all op_width_ok catalog_cmpxchg_wait_notify" "list_all op_width_ok catalog_simd"
  "list_all op_width_ok catalog_bulk"
  by (simp_all add: catalog_defs scenario_macro_defs op_width_ok_def swam_simd_load_op_def
        swam_simd_lane_op_def wait_bytes_def)

lemma catalog_op_width:
  assumes "swam_get_scenario i = Some sc"
  shows "op_width_ok sc"
proof -
  have "list_all op_width_ok swam_scenario_catalog"
    by (simp add: list_all_catalog catalog_segments_op_width)
  then show ?thesis using swam_get_scenario_mem [OF assms] by (simp add: list_all_iff)
qed

lemma dummy_eval: "\<exists>v. weval (swam_make_dummy_value vt) w = Done v w"
  by (cases vt) (auto simp: swam_make_v128_const_def)

lemma v128_eval: "\<exists>v. weval swam_make_v128_const w = Done v w"
  by (simp add: swam_make_v128_const_def)

lemma index_eval:
  assumes "v \<in> {0, 1}"
  obtains x where "weval (swam_make_index_const v is64) w = Done x w" "wval_addr x = Some (nat v)"
  using assms addr_const [of v is64 w] by (auto simp: addr_is_def split: if_splits)

definition probe_offset :: "SwamScenario \<Rightarrow> nat" where
  "probe_offset sc = (if sc_wrap sc = SWAM_WRAP_OVERFLOW then unat (sc_access_width sc) else 0)"

definition probe_traps :: "SwamScenario \<Rightarrow> winst \<Rightarrow> nat \<Rightarrow> bool" where
  "probe_traps sc w n =
     access_traps w (swam_opclass_atomic (sc_op_class sc)) n (probe_offset sc)
       (unat (sc_access_width sc))"

lemma target_op_eval:
  assumes "scenario_wf sc" "op_width_ok sc" and "sc_op_class sc \<noteq> SWAM_OPCLASS_MEMORY_GROW"
    and "wval_addr (w_locals w idx) = Some n" and "0 < mem_len w"
    and "w_segments w SWAM_BULK_SEGMENT_NAME = Some 1"
  shows "weval (swam_build_target_op (Some sc) idx mem is64) w =
    (if probe_traps sc w n then Trap w else Done VOther w)"
proof -
  let ?off = "if sc_wrap sc = SWAM_WRAP_OVERFLOW then sc_access_width sc else 0"
  have acc: "do_access w atm (w_locals w idx) ?off k =
      (if access_traps w atm n (probe_offset sc) k then Trap w else Done VOther w)" for atm k
    using assms(4) by (simp add: do_access_def probe_offset_def)
  obtain d where d: "weval (swam_make_dummy_value (sc_value_type sc)) w = Done d w"
    using dummy_eval by blast
  obtain v where v: "weval swam_make_v128_const w = Done v w" using v128_eval by blast
  obtain x where x: "weval (swam_make_index_const 0 is64) w = Done x w" "wval_addr x = Some 0"
    using index_eval [of 0 is64 w] by auto
  obtain y where y: "weval (swam_make_index_const 1 is64) w = Done y w" "wval_addr y = Some 1"
    using index_eval [of 1 is64 w] by auto
  note facts = assms acc d v x y
  have bulk: "do_bulk w (Suc n > mem_len w) = (if probe_traps sc w n then Trap w else Done VOther w)"
    if "swam_opclass_bulk (sc_op_class sc)"
    using that assms(1,3)
    by (auto simp: scenario_wf_def do_bulk_def probe_traps_def access_traps_def probe_offset_def
        swam_opclass_bulk_def swam_opclass_atomic_def)
  show ?thesis
  proof (cases "sc_op_class sc")
    case SWAM_OPCLASS_SIMD_LOAD
    then show ?thesis
      using facts
      by (auto simp: swam_build_target_op_def target_op_scalar_def target_op_vector_def Let_def
          op_width_ok_def probe_traps_def swam_opclass_atomic_def scenario_wf_def)
  qed (use facts bulk in \<open>simp_all add: swam_build_target_op_def target_op_scalar_def target_op_vector_def
        Let_def op_width_ok_def probe_traps_def swam_opclass_atomic_def swam_opclass_bulk_def
        scenario_wf_def swam_make_i32_const_def\<close>)
qed

section \<open>When the access traps\<close>

lemma page_multiple_facts:
  fixes l k :: nat
  assumes "l = 65536 * Suc p" and "k = 1 \<or> k = 2 \<or> k = 4 \<or> k = 8 \<or> k = 16"
  shows "(l div 2) mod k = 0" "(l - k) mod k = 0" "k \<noteq> 1 \<Longrightarrow> (l div 2 + 1) mod k \<noteq> 0"
    "k \<noteq> 1 \<Longrightarrow> (l - k - 1) mod k \<noteq> 0" "k \<noteq> 1 \<Longrightarrow> (l - k + 1) mod k \<noteq> 0"
    "l div 2 + k \<le> l" "k < l" "0 < k"
proof -
  have k: "0 < k" "k \<le> 16" "k dvd 32768" using assms(2) by auto
  have l: "l = 2 * (32768 * Suc p)" using assms(1) by simp
  then have half: "l div 2 = 32768 * Suc p" by simp
  have "k dvd l div 2" unfolding half using k(3) by (rule dvd_mult2)
  then show z: "(l div 2) mod k = 0" by simp
  have "k dvd l" unfolding l by (intro dvd_mult dvd_mult2 k(3))
  moreover show lt: "k < l" "l div 2 + k \<le> l" "0 < k" using k l by simp_all
  ultimately show z2: "(l - k) mod k = 0" by (simp add: dvd_imp_mod_0)
  show "k \<noteq> 1 \<Longrightarrow> (l div 2 + 1) mod k \<noteq> 0" using z by (simp add: mod_Suc)
  show "k \<noteq> 1 \<Longrightarrow> (l - k + 1) mod k \<noteq> 0" using z2 by (simp add: mod_Suc)
  have "l - k = Suc (l - k - 1)" using lt(1) by simp
  then show "k \<noteq> 1 \<Longrightarrow> (l - k - 1) mod k \<noteq> 0"
    using z2 by (metis mod_Suc nat.distinct(1) One_nat_def)
qed

lemma access_traps_expected:
  assumes "scenario_wf sc" and "sc_op_class sc \<noteq> SWAM_OPCLASS_MEMORY_GROW"
    and "1 \<le> w_pages w" and "mem_len w < addr_lim is64"
  shows "probe_traps sc w (probe_addr sc is64 (mem_len w)) \<longleftrightarrow> sc_expected sc = SWAM_EXPECT_TRAP"
proof -
  let ?w = "unat (sc_access_width sc)" and ?l = "mem_len w"
  obtain p where p: "w_pages w = Suc p" using assms(3) by (cases "w_pages w") auto
  have len: "?l = 65536 * Suc p" by (simp add: mem_len_def PAGE_SIZE_def p)
  have w: "?w = 1 \<or> ?w = 2 \<or> ?w = 4 \<or> ?w = 8 \<or> ?w = 16"
    using assms(1,2) by (auto simp: scenario_wf_def)
  note f = page_multiple_facts [OF len w]
  have lim: "?w \<le> addr_lim is64" using w by (auto simp: addr_lim_def)
  have one: "sc_access_width sc = 1 \<longleftrightarrow> ?w = 1" by (metis unat_1 word_unat_eq_iff)
  have wf: "sc_expected sc = (if sc_layout sc = SWAM_LAYOUT_OOB \<or> sc_wrap sc = SWAM_WRAP_OVERFLOW \<or>
        sc_align sc = SWAM_ALIGN_MISALIGNED then SWAM_EXPECT_TRAP else SWAM_EXPECT_NO_TRAP)"
    "sc_layout sc \<noteq> SWAM_LAYOUT_COUNT" "sc_align sc \<noteq> SWAM_ALIGN_COUNT"
    "sc_align sc = SWAM_ALIGN_NA \<longleftrightarrow> \<not> (swam_opclass_atomic (sc_op_class sc) \<and> ?w \<noteq> 1)"
    using assms(1,2) by (auto simp: scenario_wf_def one)
  show ?thesis
  proof (cases "sc_wrap sc = SWAM_WRAP_OVERFLOW")
    case True
    then show ?thesis
      using wf(1) lim f(8) assms(4)
      by (simp add: probe_traps_def access_traps_def probe_addr_def probe_offset_def Let_def)
  next
    case False
    then show ?thesis
      using wf f lim
      by (cases "sc_layout sc"; cases "sc_align sc")
        (auto simp: probe_traps_def access_traps_def probe_addr_def probe_offset_def Let_def)
  qed
qed

lemma addr_is_local:
  assumes "addr_is is64 e w n"
  obtains v where "weval e w = Done v w" "wval_addr v = Some n"
  using assms by (auto simp: addr_is_def split: if_splits)

section \<open>Properties\<close>

definition probe_inst :: "winst \<Rightarrow> nat \<Rightarrow> wval \<Rightarrow> u32 \<Rightarrow> winst" where
  "probe_inst w idx v i =
     w\<lparr> w_locals := (w_locals w)(idx := v), w_globals := (w_globals w)(SWAM_MARKER_BEFORE := i) \<rparr>"

lemma probe_eval:
  assumes "swam_get_scenario i = Some sc" and "sc_op_class sc \<noteq> SWAM_OPCLASS_MEMORY_GROW"
    and "1 \<le> w_pages w" and "mem_len w < addr_lim is64"
    and "w_segments w SWAM_BULK_SEGMENT_NAME = Some 1"
    and "swam_build_probe (Some m) (Some sc) idx mem is64 = (Some e, m')"
  shows "\<exists>v. weval e w =
    (if sc_expected sc = SWAM_EXPECT_TRAP then Trap (probe_inst w idx v i)
     else Done VOther ((probe_inst w idx v i)\<lparr> w_globals :=
            (w_globals (probe_inst w idx v i))(SWAM_MARKER_AFTER := i) \<rparr>))"
proof -
  have id: "sc_id sc = i" using swam_get_scenario_id [OF assms(1)] .
  have wf: "scenario_wf sc" using catalog_wf swam_get_scenario_mem [OF assms(1)] by blast
  let ?w1 = "w\<lparr> w_globals := (w_globals w)(SWAM_MARKER_BEFORE := i) \<rparr>"
  have len: "mem_len ?w1 = mem_len w" by (simp add: mem_len_def)
  have "65536 \<le> mem_len w" using assms(3) by (simp add: mem_len_def PAGE_SIZE_def)
  then have big: "32 \<le> mem_len w" "0 < mem_len w" by simp_all
  have "addr_is is64 (swam_build_base_address (Some sc) mem is64) ?w1 (probe_addr sc is64 (mem_len w))"
    using base_address_eval [OF wf assms(2), of ?w1] assms(4) big(1) by (simp add: len)
  then obtain v where v: "weval (swam_build_base_address (Some sc) mem is64) ?w1 = Done v ?w1"
    "wval_addr v = Some (probe_addr sc is64 (mem_len w))" by (rule addr_is_local)
  let ?w2 = "probe_inst w idx v i"
  have w2: "mem_len ?w2 = mem_len w" "w_pages ?w2 = w_pages w" "w_locals ?w2 idx = v"
    "w_segments ?w2 = w_segments w"
    "w\<lparr> w_globals := (w_globals w)(SWAM_MARKER_BEFORE := i), w_locals := (w_locals w)(idx := v) \<rparr> = ?w2"
    by (simp_all add: probe_inst_def mem_len_def)
  have t: "weval (swam_build_target_op (Some sc) idx mem is64) ?w2 =
      (if sc_expected sc = SWAM_EXPECT_TRAP then Trap ?w2 else Done VOther ?w2)"
    using target_op_eval [OF wf catalog_op_width [OF assms(1)] assms(2), of ?w2 idx] v(2) big(2) assms(5)
      access_traps_expected [OF wf assms(2), of ?w2 is64] assms(3,4) by (simp add: w2)
  have e: "e = Block None
      [swam_build_marker_set SWAM_MARKER_BEFORE i,
       LocalSet idx (swam_build_base_address (Some sc) mem is64),
       swam_build_target_op (Some sc) idx mem is64, swam_build_marker_set SWAM_MARKER_AFTER i]"
    using assms(6) by (simp add: swam_build_probe_def id)
  have s: "weval (swam_build_marker_set nm i) z = Done VOther (z\<lparr> w_globals := (w_globals z)(nm := i) \<rparr>)" for nm z
    by (simp add: swam_build_marker_set_def swam_make_i32_const_def)
  show ?thesis
    by (rule exI [of _ v]) (simp add: e s v t w2 del: fun_upd_apply)
qed

text \<open>
  C2. The catalogue tells the truth about the standard: for every scenario that has an
  expectation, in any memory of at least one page whose size fits the index type, the probe
  runs into its access with the before marker set to the scenario's identifier; the access
  traps exactly when the catalogue expects a trap; and the after marker is set to the
  identifier exactly when it does not trap.
\<close>

theorem probe_matches_catalogue:
  assumes "swam_get_scenario i = Some sc" and "sc_expected sc \<noteq> SWAM_EXPECT_UNKNOWN"
    and "1 \<le> w_pages w" and "mem_len w < addr_lim is64"
    and "w_segments w SWAM_BULK_SEGMENT_NAME = Some 1"
    and "swam_build_probe (Some m) (Some sc) idx mem is64 = (Some e, m')"
  shows "case weval e w of
           Done v w' \<Rightarrow> sc_expected sc = SWAM_EXPECT_NO_TRAP \<and>
             w_globals w' SWAM_MARKER_BEFORE = i \<and> w_globals w' SWAM_MARKER_AFTER = i
         | Trap w' \<Rightarrow> sc_expected sc = SWAM_EXPECT_TRAP \<and>
             w_globals w' SWAM_MARKER_BEFORE = i \<and>
             w_globals w' SWAM_MARKER_AFTER = w_globals w SWAM_MARKER_AFTER
         | Stuck \<Rightarrow> False"
proof -
  have wf: "scenario_wf sc" using catalog_wf swam_get_scenario_mem [OF assms(1)] by blast
  then have "sc_op_class sc \<noteq> SWAM_OPCLASS_MEMORY_GROW" using assms(2) by (auto simp: scenario_wf_def)
  from probe_eval [OF assms(1) this assms(3-)] assms(2) show ?thesis
    by (cases "sc_expected sc")
      (auto simp: probe_inst_def SWAM_MARKER_BEFORE_def SWAM_MARKER_AFTER_def)
qed


text \<open>A module without functions and an instance with a memory of one page.\<close>

definition demo_module :: bmodule where
  "demo_module = \<lparr> m_funcs = [], m_tables = [], m_globals = [], m_exports = [], m_memories = [],
     m_segments = [], m_features = 0 \<rparr>"

definition demo_inst :: "nat \<Rightarrow> winst" where
  "demo_inst pages = \<lparr> w_pages = pages, w_segments = [SWAM_BULK_SEGMENT_NAME \<mapsto> 1],
     w_locals = (\<lambda>_. VI32 0), w_globals = (\<lambda>_. 0) \<rparr>"

lemma first_scenario: "swam_get_scenario 1 = Some (SWAM_SCENARIO_ENTRY 1 SWAM_OP_I32_LOAD
    SWAM_OPCLASS_LOAD SWAM_LAYOUT_INTERIOR SWAM_EXPECT_NO_TRAP 4 False SWAM_VALTYPE_I32
    SWAM_WRAP_NO_WRAP SWAM_ALIGN_NA)"
proof -
  obtain r where r: "swam_scenario_catalog =
      SWAM_LAYOUT_SCENARIOS 1 SWAM_OP_I32_LOAD SWAM_OPCLASS_LOAD 4 False SWAM_VALTYPE_I32 @ r"
    unfolding swam_scenario_catalog_def catalog_load_store_grow_def append_assoc by blast
  show ?thesis unfolding swam_get_scenario_Some r by (simp add: SWAM_LAYOUT_SCENARIOS_def)
qed

theorem probe_matches_catalogue_witness:
  "\<exists>e v w'. fst (swam_build_probe (Some demo_module) (swam_get_scenario 1) 0 ''0'' False) = Some e \<and>
     weval e (demo_inst 1) = Done v w' \<and> w_globals w' SWAM_MARKER_AFTER = 1"
proof -
  obtain e m' where e: "swam_build_probe (Some demo_module) (swam_get_scenario 1) 0 ''0'' False = (Some e, m')"
    by (simp add: swam_build_probe_def first_scenario)
  note p = probe_matches_catalogue [OF first_scenario _ _ _ _ e [unfolded first_scenario], of "demo_inst 1"]
  have "case weval e (demo_inst 1) of
           Done v w' \<Rightarrow> w_globals w' SWAM_MARKER_AFTER = 1 | Trap w' \<Rightarrow> False | Stuck \<Rightarrow> False"
    using p by (simp add: SWAM_SCENARIO_ENTRY_def demo_inst_def mem_len_def PAGE_SIZE_def addr_lim_def
        split: wres.splits)
  with e show ?thesis by (auto split: wres.splits)
qed

text \<open>
  C31. The expectation fails for a 32-bit memory of the maximal size: the probe's
  multiplication of 65536 pages by 65536 wraps to 0, so an aligned out-of-bounds scenario
  accesses address 0, does not trap and sets its after marker, although the catalogue
  expects a trap.
\<close>

theorem probe_full_memory_wraps:
  assumes "swam_get_scenario i = Some sc" and "sc_align sc = SWAM_ALIGN_ALIGNED"
    and "sc_layout sc = SWAM_LAYOUT_OOB" and "w_pages w = 65536"
    and "w_segments w SWAM_BULK_SEGMENT_NAME = Some 1"
    and "swam_build_probe (Some m) (Some sc) idx mem False = (Some e, m')"
  shows "sc_expected sc = SWAM_EXPECT_TRAP \<and>
         (\<exists>v w'. weval e w = Done v w' \<and> w_globals w' SWAM_MARKER_AFTER = i)"
proof -
  have id: "sc_id sc = i" using swam_get_scenario_id [OF assms(1)] .
  have wf: "scenario_wf sc" using catalog_wf swam_get_scenario_mem [OF assms(1)] by blast
  then have cl: "sc_op_class sc \<noteq> SWAM_OPCLASS_MEMORY_GROW" "sc_expected sc = SWAM_EXPECT_TRAP"
    "sc_wrap sc \<noteq> SWAM_WRAP_OVERFLOW" "sc_access_width sc \<in> {1, 2, 4, 8, 16}"
    using assms(2,3) by (auto simp: scenario_wf_def split: if_splits)
  have base: "swam_build_base_address (Some sc) mem False = swam_build_memory_bytes mem False"
    using cl assms(2,3) by (auto simp: swam_build_base_address_def)
  have b: "weval (swam_build_memory_bytes mem False) z = Done (VI32 0) z" if "w_pages z = 65536" for z
    using that by (simp add: swam_build_memory_bytes_def swam_make_index_const_def
        swam_make_i32_const_def SWAM_PAGE_SIZE_BYTES_def binop_val_def binop32_def)
  let ?w = "probe_inst w idx (VI32 0) i"
  have w2: "mem_len ?w = 2 ^ 32" "w_locals ?w idx = VI32 0" "w_segments ?w = w_segments w"
    "w\<lparr> w_globals := (w_globals w)(SWAM_MARKER_BEFORE := i), w_locals := (w_locals w)(idx := VI32 0) \<rparr> = ?w"
    using assms(4) by (simp_all add: probe_inst_def mem_len_def PAGE_SIZE_def)
  have "\<not> probe_traps sc ?w 0"
    using cl(3,4) by (auto simp: probe_traps_def access_traps_def probe_offset_def w2)
  then have t: "weval (swam_build_target_op (Some sc) idx mem False) ?w = Done VOther ?w"
    using target_op_eval [OF wf catalog_op_width [OF assms(1)] cl(1), of ?w idx 0] assms(5) by (simp add: w2)
  have e: "e = Block None
      [swam_build_marker_set SWAM_MARKER_BEFORE i,
       LocalSet idx (swam_build_memory_bytes mem False),
       swam_build_target_op (Some sc) idx mem False, swam_build_marker_set SWAM_MARKER_AFTER i]"
    using assms(6) by (simp add: swam_build_probe_def id base)
  have s: "weval (swam_build_marker_set nm i) z = Done VOther (z\<lparr> w_globals := (w_globals z)(nm := i) \<rparr>)" for nm z
    by (simp add: swam_build_marker_set_def swam_make_i32_const_def)
  have "weval e w = Done VOther (?w\<lparr> w_globals := (w_globals ?w)(SWAM_MARKER_AFTER := i) \<rparr>)"
    by (simp add: e s b assms(4) t w2 del: fun_upd_apply)
  then show ?thesis using cl(2) by simp
qed

lemma aligned_oob_scenario:
  "\<exists>i sc. swam_get_scenario i = Some sc \<and> sc_align sc = SWAM_ALIGN_ALIGNED \<and> sc_layout sc = SWAM_LAYOUT_OOB"
proof -
  obtain sc where "sc \<in> set swam_scenario_catalog" "sc_align sc = SWAM_ALIGN_ALIGNED"
    "sc_layout sc = SWAM_LAYOUT_OOB"
    by (fastforce simp: swam_scenario_catalog_def catalog_atomic_load_store_def
        SWAM_ATOMIC_ALIGN_SCENARIOS_def SWAM_SCENARIO_ENTRY_def)
  then obtain k where k: "k < 600" "sc = swam_scenario_catalog ! k"
    by (auto simp: in_set_conv_nth catalog_length)
  have "unat (of_nat (Suc k) :: u32) = Suc k" using k(1) by (simp add: unat_of_nat del: of_nat_Suc)
  then have "swam_get_scenario (of_nat (Suc k)) = Some sc"
    using k by (simp add: swam_get_scenario_Some del: of_nat_Suc)
  then show ?thesis using \<open>sc_align sc = _\<close> \<open>sc_layout sc = _\<close> by blast
qed

theorem probe_full_memory_wraps_witness:
  "\<exists>i e v w'. fst (swam_build_probe (Some demo_module) (swam_get_scenario i) 0 ''0'' False) = Some e \<and>
     weval e (demo_inst 65536) = Done v w' \<and> w_globals w' SWAM_MARKER_AFTER = i"
proof -
  obtain i sc where sc: "swam_get_scenario i = Some sc" "sc_align sc = SWAM_ALIGN_ALIGNED"
    "sc_layout sc = SWAM_LAYOUT_OOB" using aligned_oob_scenario by blast
  obtain e m' where e: "swam_build_probe (Some demo_module) (Some sc) 0 ''0'' False = (Some e, m')"
    by (simp add: swam_build_probe_def)
  have "w_pages (demo_inst 65536) = 65536" "w_segments (demo_inst 65536) SWAM_BULK_SEGMENT_NAME = Some 1"
    by (simp_all add: demo_inst_def)
  from probe_full_memory_wraps [OF sc this e] e sc(1) show ?thesis by force
qed

end
