(* ===== verification/Swam_Exploit.thy ===== *)
theory Swam_Exploit
  imports Swam_Probe Swam_Scheduler Swam_Markers
begin

text \<open>
  Placing a probe into a module, \<^verbatim>\<open>swam_exploit.c\<close>: choosing a function, making sure the
  module has the memory and the data segment the scenario needs, scoring the blocks of the
  body by how likely they are to be reached, inserting the probe into one of them and
  validating the result, with up to five attempts.

  A block pointer is modelled by the path from the function body to the block. What Binaryen
  computes (validation, the type of an expression, replacing the memory) comes through a
  record; \<open>None\<close> as a result of an operation that reads segments stands for Binaryen's fatal
  error on an unknown segment name. \<open>alloc_ok\<close> says whether the \<^verbatim>\<open>calloc\<close> calls succeed.
\<close>

unbundle bit_operations_syntax

section \<open>Constants and types\<close>

definition SWAM_MAX_BLOCKS :: nat where
  "SWAM_MAX_BLOCKS = 256"

definition SWAM_K_ATTEMPTS :: nat where
  "SWAM_K_ATTEMPTS = 5"

definition SWAM_MAX_EXPORT_FUNCS :: nat where
  "SWAM_MAX_EXPORT_FUNCS = 64"

record 'd SwamScoredBlock =
  sb_path :: "nat list"
  sb_score :: 'd
  sb_depth :: u32

text \<open>A segment as \<^verbatim>\<open>BinaryenSetMemory\<close> takes it, and its other arguments.\<close>

record seg_arg =
  sa_name :: "string option"
  sa_data :: "u8 list"
  sa_passive :: bool
  sa_offset :: "bexpr option"

record set_memory_args =
  sm_initial :: u32
  sm_maximum :: u32
  sm_segments :: "seg_arg list"
  sm_shared :: bool
  sm_memory64 :: bool
  sm_name :: string

record binaryen_env =
  be_validate :: "bmodule \<Rightarrow> bool"
  be_type :: "bexpr \<Rightarrow> btype"
  be_set_memory :: "set_memory_args \<Rightarrow> bmodule \<Rightarrow> bmodule"
  feature_atomics :: u32
  feature_simd :: u32
  feature_bulk :: u32

section \<open>Choosing a function\<close>

definition find_func :: "bmodule \<Rightarrow> string \<Rightarrow> nat option" where
  "find_func m nm =
     (case filter (\<lambda>i. f_name (m_funcs m ! i) = nm) [0..<length (m_funcs m)] of
        [] \<Rightarrow> None | i # _ \<Rightarrow> Some i)"

definition has_body :: "bmodule \<Rightarrow> nat \<Rightarrow> bool" where
  "has_body m i \<longleftrightarrow> i < length (m_funcs m) \<and> f_body (m_funcs m ! i) \<noteq> None"

text \<open>The loop over the exports: function exports with a body, at most 64 of them.\<close>

fun export_funcs_loop :: "bmodule \<Rightarrow> bexport list \<Rightarrow> nat list \<Rightarrow> nat list" where
  "export_funcs_loop m [] acc = acc"
| "export_funcs_loop m (x # xs) acc =
     (if length acc \<ge> SWAM_MAX_EXPORT_FUNCS then acc
      else if x_kind x \<noteq> ExternalFunction then export_funcs_loop m xs acc
      else (case find_func m (x_value x) of
              Some i \<Rightarrow> export_funcs_loop m xs (if has_body m i then acc @ [i] else acc)
            | None \<Rightarrow> export_funcs_loop m xs acc))"

text \<open>Up to \<open>attempts\<close> random draws.\<close>

fun random_func_loop :: "'g rand_ops \<Rightarrow> bmodule \<Rightarrow> nat \<Rightarrow> 'g \<Rightarrow> nat option \<times> 'g" where
  "random_func_loop R m 0 g = (None, g)"
| "random_func_loop R m (Suc attempts) g =
     (let (idx, g1) = ro_rand_below R g (of_nat (length (m_funcs m)))
      in if has_body m (unat idx) then (Some (unat idx), g1) else random_func_loop R m attempts g1)"

definition first_func_with_body :: "bmodule \<Rightarrow> nat option" where
  "first_func_with_body m =
     (case filter (has_body m) [0..<length (m_funcs m)] of [] \<Rightarrow> None | i # _ \<Rightarrow> Some i)"

definition swam_choose_function_with_body ::
  "'g rand_ops \<Rightarrow> bmodule \<Rightarrow> 'g \<Rightarrow> nat option \<times> 'g" where
  "swam_choose_function_with_body R m g =
     (let exports = export_funcs_loop m (m_exports m) []
      in if exports \<noteq> [] then
           (let (k, g1) = ro_rand_below R g (of_nat (length exports))
            in (Some (exports ! unat k), g1))
         else if m_funcs m = [] then (None, g)
         else (case random_func_loop R m 20 g of
                 (Some i, g1) \<Rightarrow> (Some i, g1)
               | (None, g1) \<Rightarrow> (first_func_with_body m, g1)))"

definition swam_select_scenario :: "'g rand_ops \<Rightarrow> 'g \<Rightarrow> SwamScenario option \<times> 'g" where
  "swam_select_scenario R g =
     (if swam_scenario_count = 0 then (None, g)
      else (let (i, g1) = ro_rand_below R g swam_scenario_count
            in (Some (swam_get_random_scenario i), g1)))"

section \<open>Memory and segments\<close>

definition swam_get_memory_name :: "bmodule \<Rightarrow> string option" where
  "swam_get_memory_name m = (case m_memories m of [] \<Rightarrow> None | x # _ \<Rightarrow> Some (mem_name x))"

definition find_memory :: "bmodule \<Rightarrow> string \<Rightarrow> bmemory option" where
  "find_memory m nm = find (\<lambda>x. mem_name x = nm) (m_memories m)"

definition find_segment :: "bmodule \<Rightarrow> string \<Rightarrow> bsegment option" where
  "find_segment m nm = find (\<lambda>s. seg_name s = nm) (m_segments m)"

text \<open>
  The loop that copies the existing segments, addressed by the names 0, 1, 2 and so on;
  \<open>named\<close> says whether the copies keep these names.
\<close>

fun copy_segments :: "bmodule \<Rightarrow> bool \<Rightarrow> bool \<Rightarrow> nat list \<Rightarrow> seg_arg list option" where
  "copy_segments m memory64 named [] = Some []"
| "copy_segments m memory64 named (ind # inds) =
     (case find_segment m (nat_string ind) of
        None \<Rightarrow> None
      | Some s \<Rightarrow>
          (case copy_segments m memory64 named inds of
             None \<Rightarrow> None
           | Some rest \<Rightarrow>
               Some (\<lparr> sa_name = (if named then Some (nat_string ind) else None),
                       sa_data = seg_data s, sa_passive = seg_passive s,
                       sa_offset = (if seg_passive s then None
                                    else Some (if memory64 then Const (LitInt64 (seg_offset s))
                                               else Const (LitInt32 (ucast (seg_offset s))))) \<rparr>
                     # rest)))"

definition swam_ensure_shared_memory ::
  "binaryen_env \<Rightarrow> bool \<Rightarrow> bmodule \<Rightarrow> (bool \<times> bmodule) option" where
  "swam_ensure_shared_memory B alloc_ok m =
     (let mem = (case m_memories m of [] \<Rightarrow> None | x # _ \<Rightarrow> Some x)
      in if (case mem of Some x \<Rightarrow> mem_max x \<noteq> None \<and> mem_shared x | None \<Rightarrow> False)
         then Some (True, m)
         else
           (let memory64 = (case mem of Some x \<Rightarrow> mem_is64 x | None \<Rightarrow> False);
                initial = (case mem of Some x \<Rightarrow> mem_initial x | None \<Rightarrow> 1);
                maximum = (case mem of
                             Some x \<Rightarrow> (case mem_max x of
                                         Some k \<Rightarrow> k
                                       | None \<Rightarrow> if mem_initial x > 256 then mem_initial x else 256)
                           | None \<Rightarrow> 256);
                n = length (m_segments m)
            in if n > 0 \<and> \<not> alloc_ok then Some (False, m)
               else
                 (case copy_segments m memory64 False [0..<n] of
                    None \<Rightarrow> None
                  | Some segs' \<Rightarrow>
                      (let m1 = be_set_memory B
                             \<lparr> sm_initial = initial, sm_maximum = maximum, sm_segments = segs',
                               sm_shared = True, sm_memory64 = memory64,
                               sm_name = (case mem of Some x \<Rightarrow> mem_name x | None \<Rightarrow> ''0'') \<rparr> m;
                           ok = (case m_memories m1 of
                                   [] \<Rightarrow> False
                                 | x # _ \<Rightarrow> mem_shared x \<and> mem_max x \<noteq> None)
                       in Some (ok, m1)))))"

definition swam_ensure_passive_data_segment ::
  "binaryen_env \<Rightarrow> bool \<Rightarrow> string option \<Rightarrow> bmodule \<Rightarrow> (bool \<times> bmodule) option" where
  "swam_ensure_passive_data_segment B alloc_ok mem m =
     (case mem of
        None \<Rightarrow> Some (False, m)
      | Some nm \<Rightarrow>
          (case find_memory m nm of
             None \<Rightarrow> Some (False, m)
           | Some x \<Rightarrow>
               if \<not> alloc_ok then Some (False, m)
               else
                 (case copy_segments m (mem_is64 x) True [0..<length (m_segments m)] of
                    None \<Rightarrow> None
                  | Some segs' \<Rightarrow>
                      Some (True, be_set_memory B
                        \<lparr> sm_initial = mem_initial x,
                          sm_maximum = (case mem_max x of Some k \<Rightarrow> k | None \<Rightarrow> - 1),
                          sm_segments = segs' @
                            [\<lparr> sa_name = Some SWAM_BULK_SEGMENT_NAME, sa_data = [0x42],
                               sa_passive = True, sa_offset = None \<rparr>],
                          sm_shared = mem_shared x, sm_memory64 = mem_is64 x, sm_name = nm \<rparr> m))))"

section \<open>Scoring blocks\<close>

definition swam_classify_terminator :: "bexpr option \<Rightarrow> nat" where
  "swam_classify_terminator expr =
     (case expr of
        Some (Break nm v c) \<Rightarrow> if c \<noteq> None then 1 else 2
      | Some (Switch ns nm v c) \<Rightarrow> 2
      | Some (Return v) \<Rightarrow> 2
      | Some Unreachable \<Rightarrow> 2
      | _ \<Rightarrow> 0)"

text \<open>
  The collection; the array of blocks with its count is a list. The second function is the
  loop over the children of a block, the third the loop over the catch bodies of a try.
\<close>

function swam_collect_scored_blocks ::
  "'d dbl_ops \<Rightarrow> bexpr \<Rightarrow> nat list \<Rightarrow> 'd SwamScoredBlock list \<Rightarrow> 'd \<Rightarrow> u32 \<Rightarrow>
   'd SwamScoredBlock list"
and collect_children ::
  "'d dbl_ops \<Rightarrow> bexpr list \<Rightarrow> nat \<Rightarrow> nat list \<Rightarrow> 'd SwamScoredBlock list \<Rightarrow> 'd \<Rightarrow> u32 \<Rightarrow>
   'd SwamScoredBlock list"
and collect_catches ::
  "'d dbl_ops \<Rightarrow> bexpr list \<Rightarrow> nat \<Rightarrow> nat list \<Rightarrow> 'd SwamScoredBlock list \<Rightarrow> 'd \<Rightarrow> u32 \<Rightarrow>
   'd SwamScoredBlock list" where
  "swam_collect_scored_blocks D expr path blocks score depth =
     (if length blocks \<ge> SWAM_MAX_BLOCKS \<or> d_le D score (d_lit D 0) then blocks
      else case expr of
        Block nm es \<Rightarrow>
          collect_children D es 0 path
            (blocks @ [\<lparr> sb_path = path, sb_score = score, sb_depth = depth \<rparr>]) score (depth + 1)
      | If c t f \<Rightarrow>
          (let s = d_mul D score (d_lit D (1 / 2));
               b1 = swam_collect_scored_blocks D t (path @ [1]) blocks s (depth + 1)
           in case f of
                None \<Rightarrow> b1
              | Some e \<Rightarrow> swam_collect_scored_blocks D e (path @ [2]) b1 s (depth + 1))
      | Loop nm body \<Rightarrow>
          swam_collect_scored_blocks D body (path @ [0]) blocks (d_mul D score (d_lit D 2))
            (depth + 1)
      | Try nm body tags cs \<Rightarrow>
          collect_catches D cs 1 path
            (swam_collect_scored_blocks D body (path @ [0]) blocks score (depth + 1))
            (d_mul D score (d_lit D (1 / 10))) (depth + 1)
      | _ \<Rightarrow> blocks)"
| "collect_children D [] i path blocks child_score depth = blocks"
| "collect_children D (e # es) i path blocks child_score depth =
     (if length blocks \<ge> SWAM_MAX_BLOCKS then blocks
      else
        (let b1 = swam_collect_scored_blocks D e (path @ [i]) blocks child_score depth;
             k = swam_classify_terminator (Some e);
             child_score' = (if k = 2 then d_lit D 0
                             else if k = 1 then d_mul D child_score (d_lit D (1 / 2))
                             else child_score)
         in if d_le D child_score' (d_lit D 0) then b1
            else collect_children D es (Suc i) path b1 child_score' depth))"
| "collect_catches D [] i path blocks score depth = blocks"
| "collect_catches D (e # es) i path blocks score depth =
     (if length blocks \<ge> SWAM_MAX_BLOCKS then blocks
      else collect_catches D es (Suc i) path
             (swam_collect_scored_blocks D e (path @ [i]) blocks score depth) score depth)"
  by pat_completeness auto
termination
  by (relation "measure (\<lambda>x. case x of
        Inl (D, e, p, b, s, d) \<Rightarrow> size e
      | Inr (Inl (D, es, i, p, b, s, d)) \<Rightarrow> size_list size es
      | Inr (Inr (D, es, i, p, b, s, d)) \<Rightarrow> size_list size es)") auto

declare swam_collect_scored_blocks.simps [simp del]

definition swam_apply_depth_boost :: "'d dbl_ops \<Rightarrow> 'd SwamScoredBlock list \<Rightarrow> 'd SwamScoredBlock list" where
  "swam_apply_depth_boost D blocks =
     map (\<lambda>b. b\<lparr> sb_score := d_mul D (sb_score b)
               (d_add D (d_lit D 1) (d_mul D (d_lit D (1 / 2)) (d_of_nat D (unat (sb_depth b))))) \<rparr>)
       blocks"

text \<open>The second loop of the selection: the first block whose cumulative score exceeds \<open>r\<close>.\<close>

fun weighted_scan :: "'d dbl_ops \<Rightarrow> 'd \<Rightarrow> 'd SwamScoredBlock list \<Rightarrow> nat \<Rightarrow> 'd \<Rightarrow> nat option" where
  "weighted_scan D r [] i cumulative = None"
| "weighted_scan D r (b # bs) i cumulative =
     (let c = d_add D cumulative (sb_score b)
      in if d_less D r c then Some i else weighted_scan D r bs (Suc i) c)"

definition swam_weighted_block_select ::
  "'d dbl_ops \<Rightarrow> 'g rand_ops \<Rightarrow> 'd SwamScoredBlock list \<Rightarrow> 'g \<Rightarrow> nat \<times> 'g" where
  "swam_weighted_block_select D R blocks g =
     (if length blocks \<le> 1 then (0, g)
      else
        (let total = foldl (\<lambda>t b. d_add D t (sb_score b)) (d_lit D 0) blocks
         in if d_le D total (d_lit D (1 / 1000000000000)) then
              (let (k, g1) = ro_rand_below R g (of_nat (length blocks)) in (unat k, g1))
            else
              (let (k, g1) = ro_rand_below R g 1000000;
                   r = d_mul D (d_div D (d_of_nat D (unat k)) (d_lit D 1000000)) total
               in (case weighted_scan D r blocks 0 (d_lit D 0) of
                     Some i \<Rightarrow> (i, g1) | None \<Rightarrow> (length blocks - 1, g1)))))"

section \<open>Block positions\<close>

text \<open>The steps of a path: a child of a block, an arm of an if, the body of a loop or try, a catch.\<close>

definition child_at :: "bexpr \<Rightarrow> nat \<Rightarrow> bexpr option" where
  "child_at e i =
     (case e of
        Block nm es \<Rightarrow> if i < length es then Some (es ! i) else None
      | If c t f \<Rightarrow> if i = 1 then Some t else if i = 2 then f else None
      | Loop nm b \<Rightarrow> if i = 0 then Some b else None
      | Try nm b tags cs \<Rightarrow>
          if i = 0 then Some b else if i - 1 < length cs then Some (cs ! (i - 1)) else None
      | _ \<Rightarrow> None)"

definition set_child_at :: "bexpr \<Rightarrow> nat \<Rightarrow> bexpr \<Rightarrow> bexpr" where
  "set_child_at e i x =
     (case e of
        Block nm es \<Rightarrow> Block nm (es[i := x])
      | If c t f \<Rightarrow> if i = 1 then If c x f else If c t (Some x)
      | Loop nm b \<Rightarrow> Loop nm x
      | Try nm b tags cs \<Rightarrow> if i = 0 then Try nm x tags cs else Try nm b tags (cs[i - 1 := x])
      | _ \<Rightarrow> e)"

fun subexpr_at :: "bexpr \<Rightarrow> nat list \<Rightarrow> bexpr option" where
  "subexpr_at e [] = Some e"
| "subexpr_at e (i # p) = (case child_at e i of None \<Rightarrow> None | Some c \<Rightarrow> subexpr_at c p)"

fun replace_at :: "bexpr \<Rightarrow> nat list \<Rightarrow> bexpr \<Rightarrow> bexpr" where
  "replace_at e [] x = x"
| "replace_at e (i # p) x =
     (case child_at e i of None \<Rightarrow> e | Some c \<Rightarrow> set_child_at e i (replace_at c p x))"

text \<open>\<^verbatim>\<open>BinaryenBlockInsertChildAt\<close>.\<close>

definition insert_at :: "nat \<Rightarrow> 'a \<Rightarrow> 'a list \<Rightarrow> 'a list" where
  "insert_at pos x xs = take pos xs @ x # drop pos xs"

section \<open>Instantiating a scenario\<close>

text \<open>
  \<^verbatim>\<open>wasm_set_memory\<close> of \<^verbatim>\<open>helper_func.c\<close>. Its existing segments are copied with 32-bit
  offsets, whatever the memory's index type is.
\<close>

fun random_segments :: "'g rand_ops \<Rightarrow> nat \<Rightarrow> 'g \<Rightarrow> seg_arg list \<times> 'g" where
  "random_segments R 0 g = ([], g)"
| "random_segments R (Suc n) g =
     (let (p, g1) = ro_rand_below R g 2;
          (off, g2) = (if p \<noteq> 0 then (None, g1)
                       else (let (v, g') = ro_rand_below R g1 (- 1)
                             in (Some (Const (LitInt32 v)), g')));
          (rest, g3) = random_segments R n g2
      in (\<lparr> sa_name = None, sa_data = map (\<lambda>c. of_nat (of_char c)) ''WeMustKnowWeWillKnow'',
            sa_passive = (p \<noteq> 0), sa_offset = off \<rparr> # rest, g3))"

definition wasm_set_memory ::
  "binaryen_env \<Rightarrow> 'g rand_ops \<Rightarrow> bool \<Rightarrow> bmodule \<Rightarrow> 'g \<Rightarrow> (bmodule \<times> 'g) option" where
  "wasm_set_memory B R add_seg m g =
     (let mem = (case m_memories m of [] \<Rightarrow> None | x # _ \<Rightarrow> Some x);
          args = (\<lambda>segs'.
            \<lparr> sm_initial = (case mem of Some x \<Rightarrow> mem_initial x | None \<Rightarrow> 1),
              sm_maximum = (case mem of
                              Some x \<Rightarrow> (case mem_max x of Some k \<Rightarrow> k | None \<Rightarrow> - 1)
                            | None \<Rightarrow> - 1),
              sm_segments = segs',
              sm_shared = (case mem of Some x \<Rightarrow> mem_shared x | None \<Rightarrow> False),
              sm_memory64 = (case mem of Some x \<Rightarrow> mem_is64 x | None \<Rightarrow> False),
              sm_name = ''0'' \<rparr>);
          n = length (m_segments m)
      in if n > 0 then
           (case copy_segments m False False [0..<n] of
              None \<Rightarrow> None
            | Some segs' \<Rightarrow> Some (be_set_memory B (args segs') m, g))
         else if add_seg then
           (let (k, g1) = ro_rand_below R g 5;
                (segs', g2) = random_segments R (unat k + 1) g1
            in Some (be_set_memory B (args segs') m, g2))
         else Some (be_set_memory B (args []) m, g))"

text \<open>Inserting the probe into a scored block, or in front of the body when there is none.\<close>

definition insert_probe ::
  "binaryen_env \<Rightarrow> 'd dbl_ops \<Rightarrow> 'g rand_ops \<Rightarrow> bool \<Rightarrow> bexpr \<Rightarrow> bexpr \<Rightarrow> 'g \<Rightarrow> bexpr \<times> 'g" where
  "insert_probe B D R reached body probe g =
     (let scored = swam_collect_scored_blocks D body [] [] (d_lit D 1) 0
      in if scored \<noteq> [] then
           (let blocks = (if reached then swam_apply_depth_boost D scored else scored);
                (sel, g1) = swam_weighted_block_select D R blocks g;
                path = sb_path (blocks ! sel)
            in case subexpr_at body path of
                 Some (Block nm es) \<Rightarrow>
                   (let n = length es;
                        insert_limit = (if be_type B (Block nm es) \<noteq> TypeNone \<and> n > 0 then n else n + 1);
                        (pos, g2) = ro_rand_below R g1 (of_nat insert_limit)
                    in (replace_at body path (Block nm (insert_at (unat pos) probe es)), g2))
               | _ \<Rightarrow> (body, g1))
         else (Block None [probe, body], g))"

text \<open>The attempts; the last failure's reason is kept.\<close>

fun instantiate_attempts ::
  "binaryen_env \<Rightarrow> 'd dbl_ops \<Rightarrow> 'g rand_ops \<Rightarrow> SwamScheduler option \<Rightarrow> SwamScenario \<Rightarrow>
   string \<Rightarrow> bool \<Rightarrow> nat \<Rightarrow> string \<Rightarrow> bmodule \<Rightarrow> 'g \<Rightarrow> (bool \<times> string) \<times> bmodule \<times> 'g" where
  "instantiate_attempts B D R sched sc mem is64 0 fail_reason m g = ((False, fail_reason), m, g)"
| "instantiate_attempts B D R sched sc mem is64 (Suc k) fail_reason m g =
     (case swam_choose_function_with_body R m g of
        (None, g1) \<Rightarrow> instantiate_attempts B D R sched sc mem is64 k ''choose_function'' m g1
      | (Some fi, g1) \<Rightarrow>
          (case f_body (m_funcs m ! fi) of
             None \<Rightarrow> instantiate_attempts B D R sched sc mem is64 k ''function_body'' m g1
           | Some body \<Rightarrow>
               (let (idx, func1) = add_var (m_funcs m ! fi) (if is64 then TypeInt64 else TypeInt32);
                    m1 = m\<lparr> m_funcs := (m_funcs m)[fi := func1] \<rparr>
                in case swam_build_probe (Some m1) (Some sc) idx mem is64 of
                     (Some probe, Some m2) \<Rightarrow>
                       (let reached = swam_scheduler_scenario_reached sched (sc_id sc) > 0;
                            (body', g2) = insert_probe B D R reached body probe g1;
                            m3 = m2\<lparr> m_funcs := (m_funcs m2)[fi := func1\<lparr> f_body := Some body' \<rparr>] \<rparr>
                        in if be_validate B m3 then ((True, ''unknown''), m3, g2)
                           else instantiate_attempts B D R sched sc mem is64 k
                                  ''binaryen_validate'' m3 g2)
                   | _ \<Rightarrow> instantiate_attempts B D R sched sc mem is64 k ''build_probe'' m1 g1)))"

definition enable_features :: "binaryen_env \<Rightarrow> SwamOpClass \<Rightarrow> bmodule \<Rightarrow> bmodule" where
  "enable_features B cl m =
     (let m1 = (if cl \<in> {SWAM_OPCLASS_SIMD_LOAD, SWAM_OPCLASS_SIMD_LOAD_LANE,
                        SWAM_OPCLASS_SIMD_STORE, SWAM_OPCLASS_SIMD_STORE_LANE}
                then m\<lparr> m_features := m_features m OR feature_simd B \<rparr> else m)
      in if cl \<in> {SWAM_OPCLASS_BULK_COPY, SWAM_OPCLASS_BULK_FILL, SWAM_OPCLASS_BULK_INIT}
         then m1\<lparr> m_features := m_features m1 OR feature_bulk B \<rparr> else m1)"

definition swam_instantiate_scenario ::
  "binaryen_env \<Rightarrow> 'd dbl_ops \<Rightarrow> 'g rand_ops \<Rightarrow> bool \<Rightarrow> SwamScheduler option \<Rightarrow>
   SwamScenario option \<Rightarrow> bmodule \<Rightarrow> 'g \<Rightarrow> ((bool \<times> string) \<times> bmodule \<times> 'g) option" where
  "swam_instantiate_scenario B D R alloc_ok sched scenario m g =
     (case scenario of
        None \<Rightarrow> Some ((False, ''invalid_args''), m, g)
      | Some sc \<Rightarrow>
          (case (if m_memories m = [] then wasm_set_memory B R False m g else Some (m, g)) of
             None \<Rightarrow> None
           | Some (m1, g1) \<Rightarrow>
               (case (if swam_opclass_atomic (sc_op_class sc)
                      then map_option (\<lambda>(ok, m'). (ok, m'\<lparr> m_features :=
                               if ok then m_features m' OR feature_atomics B else m_features m' \<rparr>))
                             (swam_ensure_shared_memory B alloc_ok m1)
                      else Some (True, m1)) of
                  None \<Rightarrow> None
                | Some (False, m2) \<Rightarrow> Some ((False, ''shared_memory''), m2, g1)
                | Some (True, m2) \<Rightarrow>
                    (let m3 = enable_features B (sc_op_class sc) m2
                     in case (if sc_op_class sc = SWAM_OPCLASS_BULK_INIT
                              then swam_ensure_passive_data_segment B alloc_ok
                                     (swam_get_memory_name m3) m3
                              else Some (True, m3)) of
                          None \<Rightarrow> None
                        | Some (False, m4) \<Rightarrow> Some ((False, ''passive_data_segment''), m4, g1)
                        | Some (True, m4) \<Rightarrow>
                            (let mem = swam_get_memory_name m4;
                                 is64 = (case mem of
                                           None \<Rightarrow> False
                                         | Some nm \<Rightarrow> (case find_memory m4 nm of
                                                        Some x \<Rightarrow> mem_is64 x | None \<Rightarrow> False))
                             in Some (instantiate_attempts B D R sched sc
                                  (case mem of Some nm \<Rightarrow> nm | None \<Rightarrow> []) is64
                                  SWAM_K_ATTEMPTS ''retry_exhausted''
                                  (swam_add_marker_globals m4) g1))))))"

section \<open>The collected blocks\<close>

text \<open>
  A position that no unconditional branch, return or unreachable in the same block cuts off:
  at every block on the way down, no earlier sibling ends the block.
\<close>

definition step_live :: "bexpr \<Rightarrow> nat \<Rightarrow> bool" where
  "step_live e i =
     (case e of
        Block nm es \<Rightarrow> list_all (\<lambda>x. swam_classify_terminator (Some x) \<noteq> 2) (take i es)
      | _ \<Rightarrow> True)"

fun path_live :: "bexpr \<Rightarrow> nat list \<Rightarrow> bool" where
  "path_live e [] = True"
| "path_live e (i # p) =
     (case child_at e i of None \<Rightarrow> False | Some c \<Rightarrow> step_live e i \<and> path_live c p)"

definition block_entry :: "bexpr \<Rightarrow> nat list \<Rightarrow> real SwamScoredBlock \<Rightarrow> bool" where
  "block_entry e path b \<longleftrightarrow>
     (\<exists>q nm es. sb_path b = path @ q \<and> subexpr_at e q = Some (Block nm es) \<and> path_live e q \<and>
        0 < sb_score b)"

lemma block_entry_child:
  assumes "child_at e i = Some c" and "step_live e i" and "block_entry c (path @ [i]) b"
  shows "block_entry e path b"
proof -
  obtain q nm es where q: "sb_path b = (path @ [i]) @ q" "subexpr_at c q = Some (Block nm es)"
    "path_live c q" "0 < sb_score b"
    using assms(3) unfolding block_entry_def by blast
  then have "subexpr_at e (i # q) = Some (Block nm es)" "path_live e (i # q)"
    using assms(1,2) by simp_all
  then show ?thesis
    unfolding block_entry_def using q(1,4) by (intro exI [of _ "i # q"]) auto
qed

text \<open>Entries found while scanning children from index \<open>i\<close> on.\<close>

definition child_entry ::
  "bool \<Rightarrow> bexpr list \<Rightarrow> nat \<Rightarrow> nat list \<Rightarrow> real SwamScoredBlock \<Rightarrow> bool" where
  "child_entry live es i path b \<longleftrightarrow>
     (\<exists>j < length es. block_entry (es ! j) (path @ [i + j]) b \<and>
        (live \<longrightarrow> list_all (\<lambda>x. swam_classify_terminator (Some x) \<noteq> 2) (take j es)))"

lemma child_entry_Cons:
  assumes "child_entry live es (Suc i) path b"
    and "live \<Longrightarrow> swam_classify_terminator (Some e) \<noteq> 2"
  shows "child_entry live (e # es) i path b"
proof -
  obtain j where "j < length es" "block_entry (es ! j) (path @ [Suc i + j]) b"
    "live \<longrightarrow> list_all (\<lambda>x. swam_classify_terminator (Some x) \<noteq> 2) (take j es)"
    using assms(1) unfolding child_entry_def by blast
  then show ?thesis
    unfolding child_entry_def using assms(2) by (intro exI [of _ "Suc j"]) auto
qed

lemma child_entry_head: "block_entry e (path @ [i]) b \<Longrightarrow> child_entry live (e # es) i path b"
  unfolding child_entry_def by (intro exI [of _ 0]) auto

lemma child_entry_block: "child_entry True es 0 path b \<Longrightarrow> block_entry (Block nm es) path b"
  unfolding child_entry_def
  by (auto intro!: block_entry_child [of "Block nm es"] simp: child_at_def step_live_def)

lemma child_entry_try:
  "child_entry False cs 1 path b \<Longrightarrow> block_entry (Try nm body tags cs) path b"
  unfolding child_entry_def
  by (auto intro!: block_entry_child [of "Try nm body tags cs"] simp: child_at_def step_live_def)

text \<open>The result of a collection that started from \<open>old\<close>: within the array, new entries satisfy \<open>P\<close>.\<close>

definition collected :: "real SwamScoredBlock list \<Rightarrow> (real SwamScoredBlock \<Rightarrow> bool) \<Rightarrow>
    real SwamScoredBlock list \<Rightarrow> bool" where
  "collected old P new \<longleftrightarrow> length new \<le> SWAM_MAX_BLOCKS \<and> (\<forall>b \<in> set new. b \<in> set old \<or> P b)"

lemma collected_len: "collected old P new \<Longrightarrow> length new \<le> SWAM_MAX_BLOCKS"
  by (simp add: collected_def)

lemma collected_refl: "length old \<le> SWAM_MAX_BLOCKS \<Longrightarrow> collected old P old"
  by (simp add: collected_def)

lemma collected_trans:
  assumes "collected old P mid" "collected mid Q new" "\<And>b. P b \<Longrightarrow> S b" "\<And>b. Q b \<Longrightarrow> S b"
  shows "collected old S new"
  using assms by (auto simp: collected_def)

lemma collected_mono: "collected old P new \<Longrightarrow> (\<And>b. P b \<Longrightarrow> Q b) \<Longrightarrow> collected old Q new"
  by (auto simp: collected_def)

lemma collect_spec:
  fixes D :: "real dbl_ops"
  shows
  "length blocks \<le> SWAM_MAX_BLOCKS \<Longrightarrow> D = real_dbl \<Longrightarrow>
     collected blocks (block_entry e path) (swam_collect_scored_blocks D e path blocks s d)"
  "length blocks \<le> SWAM_MAX_BLOCKS \<Longrightarrow> D = real_dbl \<Longrightarrow>
     collected blocks (child_entry True es i path) (collect_children D es i path blocks s d)"
  "length blocks \<le> SWAM_MAX_BLOCKS \<Longrightarrow> D = real_dbl \<Longrightarrow>
     collected blocks (child_entry False es i path) (collect_catches D es i path blocks s d)"
proof (induction D e path blocks s d and D es i path blocks s d and D es i path blocks s d
    rule: swam_collect_scored_blocks_collect_children_collect_catches.induct)
  case (1 D expr path blocks score depth)
  note D = 1(8) and len = 1(7)
  let ?r = "swam_collect_scored_blocks D expr path blocks score depth"
  show ?case
  proof (cases "length blocks \<ge> SWAM_MAX_BLOCKS \<or> d_le D score (d_lit D 0)")
    case True
    then have "?r = blocks" by (subst swam_collect_scored_blocks.simps) simp
    then show ?thesis using collected_refl [OF len] by simp
  next
    case False
    note IH = 1(1-6) [OF False]
    have eq: "?r = (case expr of
        Block nm es \<Rightarrow>
          collect_children D es 0 path
            (blocks @ [\<lparr> sb_path = path, sb_score = score, sb_depth = depth \<rparr>]) score (depth + 1)
      | If c t f \<Rightarrow>
          (let s = d_mul D score (d_lit D (1 / 2));
               b1 = swam_collect_scored_blocks D t (path @ [1]) blocks s (depth + 1)
           in case f of
                None \<Rightarrow> b1
              | Some e \<Rightarrow> swam_collect_scored_blocks D e (path @ [2]) b1 s (depth + 1))
      | Loop nm body \<Rightarrow>
          swam_collect_scored_blocks D body (path @ [0]) blocks (d_mul D score (d_lit D 2))
            (depth + 1)
      | Try nm body tags cs \<Rightarrow>
          collect_catches D cs 1 path
            (swam_collect_scored_blocks D body (path @ [0]) blocks score (depth + 1))
            (d_mul D score (d_lit D (1 / 10))) (depth + 1)
      | _ \<Rightarrow> blocks)"
      using False by (subst swam_collect_scored_blocks.simps) (simp only: if_False)
    have child: "block_entry c (path @ [i]) b \<Longrightarrow> child_at expr i = Some c \<Longrightarrow> step_live expr i
        \<Longrightarrow> block_entry expr path b" for c i b
      by (rule block_entry_child)
    show ?thesis
    proof (cases expr)
      case (Block nm es)
      let ?b = "\<lparr> sb_path = path, sb_score = score, sb_depth = depth \<rparr>"
      have self: "block_entry expr path ?b"
        using False by (auto simp: block_entry_def Block D intro!: exI [of _ "[]"])
      have req: "?r = collect_children D es 0 path (blocks @ [?b]) score (depth + 1)"
        unfolding eq by (simp add: Block)
      have "collected (blocks @ [?b]) (child_entry True es 0 path) ?r"
        unfolding req by (rule IH(1) [OF Block _ D]) (use False in simp)
      then show ?thesis
        using self child_entry_block [of es path _ nm] by (auto simp: collected_def Block)
    next
      case (If c t f)
      let ?s = "d_mul D score (d_lit D (1 / 2))"
      let ?b1 = "swam_collect_scored_blocks D t (path @ [1]) blocks ?s (depth + 1)"
      have b1: "collected blocks (block_entry t (path @ [1])) ?b1"
        using IH(2) [OF If refl len D] .
      have t: "block_entry t (path @ [1]) b \<Longrightarrow> block_entry expr path b" for b
        by (rule child) (auto simp: If child_at_def step_live_def)
      show ?thesis
      proof (cases f)
        case None
        then have "?r = ?b1" unfolding eq by (simp add: If Let_def)
        with collected_mono [OF b1 t] show ?thesis by simp
      next
        case (Some e)
        have e: "block_entry e (path @ [2]) b \<Longrightarrow> block_entry expr path b" for b
          by (rule child) (auto simp: If Some child_at_def step_live_def)
        have "?r = swam_collect_scored_blocks D e (path @ [2]) ?b1 ?s (depth + 1)"
          unfolding eq by (simp add: If Some Let_def)
        with collected_trans [OF b1 IH(3) [OF If refl refl Some collected_len [OF b1] D] t e]
        show ?thesis by simp
      qed
    next
      case (Loop nm body)
      have "block_entry body (path @ [0]) b \<Longrightarrow> block_entry expr path b" for b
        by (rule child) (auto simp: Loop child_at_def step_live_def)
      with collected_mono [OF IH(4) [OF Loop len D]] show ?thesis unfolding eq by (simp add: Loop)
    next
      case (Try nm body tags cs)
      note b1 = IH(5) [OF Try len D]
      have b: "block_entry body (path @ [0]) b \<Longrightarrow> block_entry expr path b" for b
        by (rule child) (auto simp: Try child_at_def step_live_def)
      have c: "child_entry False cs 1 path b \<Longrightarrow> block_entry expr path b" for b
        unfolding Try by (rule child_entry_try)
      from collected_trans [OF b1 IH(6) [OF Try collected_len [OF b1] D] b c]
      show ?thesis unfolding eq by (simp add: Try)
    qed (unfold eq, simp_all add: collected_refl [OF len])
  qed
next
  case (2 D i path blocks s d)
  then show ?case by (simp add: collected_refl)
next
  case (3 D e es i path blocks s d)
  show ?case
  proof (cases "length blocks \<ge> SWAM_MAX_BLOCKS")
    case True
    then show ?thesis using 3(3) by (simp add: collected_refl)
  next
    case False
    let ?b1 = "swam_collect_scored_blocks D e (path @ [i]) blocks s d"
    let ?k = "swam_classify_terminator (Some e)"
    let ?s = "if ?k = 2 then d_lit D 0 else if ?k = 1 then d_mul D s (d_lit D (1 / 2)) else s"
    note b1 = 3(1) [OF False 3(3,4)]
    have h: "block_entry e (path @ [i]) b \<Longrightarrow> child_entry True (e # es) i path b" for b
      by (rule child_entry_head)
    show ?thesis
    proof (cases "d_le D ?s (d_lit D 0)")
      case True
      then show ?thesis using collected_mono [OF b1 h] False by (simp add: Let_def)
    next
      case go: False
      have k: "?k \<noteq> 2" using go by (auto simp: 3(4))
      have t: "child_entry True es (Suc i) path b \<Longrightarrow> child_entry True (e # es) i path b" for b
        using k by (auto intro: child_entry_Cons)
      from collected_trans [OF b1 3(2) [OF False refl refl refl go collected_len [OF b1] 3(4)] h t] go False
      show ?thesis by (simp add: Let_def)
    qed
  qed
next
  case (4 D i path blocks s d)
  then show ?case by (simp add: collected_refl)
next
  case (5 D e es i path blocks s d)
  show ?case
  proof (cases "length blocks \<ge> SWAM_MAX_BLOCKS")
    case True
    then show ?thesis using 5(3) by (simp add: collected_refl)
  next
    case False
    note b1 = 5(1) [OF False 5(3,4)]
    have h: "block_entry e (path @ [i]) b \<Longrightarrow> child_entry False (e # es) i path b" for b
      by (rule child_entry_head)
    have t: "child_entry False es (Suc i) path b \<Longrightarrow> child_entry False (e # es) i path b" for b
      by (auto intro: child_entry_Cons)
    from collected_trans [OF b1 5(2) [OF False collected_len [OF b1] 5(4)] h t] False
    show ?thesis by simp
  qed
qed

lemma collect_body:
  assumes "b \<in> set (swam_collect_scored_blocks real_dbl body [] [] 1 0)"
  shows "\<exists>nm es. subexpr_at body (sb_path b) = Some (Block nm es) \<and> path_live body (sb_path b) \<and>
     0 < sb_score b"
  using collect_spec(1) [of "[]" real_dbl body "[]" 1 0] assms
  by (auto simp: collected_def block_entry_def)

lemma depth_boost_paths: "map sb_path (swam_apply_depth_boost D blocks) = map sb_path blocks"
  by (simp add: swam_apply_depth_boost_def)

lemma weighted_scan_less:
  "weighted_scan D r bs i c = Some k \<Longrightarrow> i \<le> k \<and> k < i + length bs"
  by (induction D r bs i c rule: weighted_scan.induct) (auto simp: Let_def split: if_splits)

lemma export_funcs_loop_spec:
  assumes "list_all (has_body m) acc" "length acc \<le> SWAM_MAX_EXPORT_FUNCS"
  shows "list_all (has_body m) (export_funcs_loop m xs acc) \<and>
    length (export_funcs_loop m xs acc) \<le> SWAM_MAX_EXPORT_FUNCS"
  using assms
  by (induction m xs acc rule: export_funcs_loop.induct) (auto split: option.splits)

lemma first_func_Some: "first_func_with_body m = Some i \<Longrightarrow> has_body m i"
proof -
  assume "first_func_with_body m = Some i"
  then obtain xs where eq: "filter (has_body m) [0..<length (m_funcs m)] = i # xs"
    by (auto simp: first_func_with_body_def split: list.splits)
  have "i \<in> set (filter (has_body m) [0..<length (m_funcs m)])" unfolding eq by simp
  then show ?thesis by simp
qed

lemma first_func_None: "first_func_with_body m = None \<Longrightarrow> \<not> has_body m i"
  by (auto simp: first_func_with_body_def filter_empty_conv has_body_def split: list.splits)

lemma random_func_Some: "fst (random_func_loop R m n g) = Some i \<Longrightarrow> has_body m i"
  by (induction n arbitrary: g) (auto simp: Let_def case_prod_unfold split: if_splits)

text \<open>The child counts of all blocks fit Binaryen's 32-bit index with room for one more.\<close>

definition blocks_short :: "bexpr \<Rightarrow> bool" where
  "blocks_short body \<longleftrightarrow>
     (\<forall>path nm es. subexpr_at body path = Some (Block nm es) \<longrightarrow> length es < 2 ^ 32 - 1)"

context bounded_rng
begin

lemma rand_index:
  assumes "0 < n" and "n < 2 ^ 32"
  shows "unat (fst (ro_rand_below R g (of_nat n))) < n"
proof -
  have n: "unat (of_nat n :: u32) = n" using assms(2) by (simp add: unat_of_nat)
  then have "0 < (of_nat n :: u32)" using assms(1) by (simp add: word_less_nat_alt)
  from rand_below_less [OF this, of g] show ?thesis by (simp add: word_less_nat_alt n)
qed

lemma weighted_select_less:
  assumes "blocks \<noteq> []" and "length blocks < 2 ^ 32"
  shows "fst (swam_weighted_block_select D R blocks g) < length blocks"
  using assms rand_index [of "length blocks" g] weighted_scan_less [of D _ blocks 0]
  by (auto simp: swam_weighted_block_select_def Let_def case_prod_unfold split: option.splits)

lemma choose_function_spec:
  "case fst (swam_choose_function_with_body R m g) of
     Some i \<Rightarrow> has_body m i | None \<Rightarrow> (\<forall>i. \<not> has_body m i)"
proof -
  let ?ex = "export_funcs_loop m (m_exports m) []"
  have ex: "list_all (has_body m) ?ex" "length ?ex < 2 ^ 32"
    using export_funcs_loop_spec [of m "[]" "m_exports m"] by (simp_all add: SWAM_MAX_EXPORT_FUNCS_def)
  show ?thesis
  proof (cases "?ex = []")
    case False
    then have "?ex ! unat (fst (ro_rand_below R g (of_nat (length ?ex)))) \<in> set ?ex"
      using rand_index [of "length ?ex" g] ex(2) by simp
    with False ex(1) show ?thesis
      by (simp add: swam_choose_function_with_body_def Let_def case_prod_unfold list_all_iff)
  next
    case True
    show ?thesis
      using True first_func_Some [of m] first_func_None [of m] random_func_Some [of R m 20 g]
      by (auto simp: swam_choose_function_with_body_def Let_def has_body_def
          split: option.splits prod.splits)
  qed
qed

lemma insert_probe_spec:
  assumes "blocks_short body"
  shows "(\<exists>path nm es pos. subexpr_at body path = Some (Block nm es) \<and> path_live body path \<and>
       pos \<le> length es \<and> (be_type B (Block nm es) = TypeNone \<or> es = [] \<or> pos < length es) \<and>
       fst (insert_probe B real_dbl R reached body probe g) =
         replace_at body path (Block nm (take pos es @ probe # drop pos es))) \<or>
     fst (insert_probe B real_dbl R reached body probe g) = Block None [probe, body]"
proof -
  let ?sc = "swam_collect_scored_blocks real_dbl body [] [] 1 0"
  let ?bl = "if reached then swam_apply_depth_boost real_dbl ?sc else ?sc"
  let ?sel = "swam_weighted_block_select real_dbl R ?bl g"
  show ?thesis
  proof (cases "?sc = []")
    case True
    then show ?thesis by (simp add: insert_probe_def)
  next
    case False
    have len: "length ?sc \<le> SWAM_MAX_BLOCKS"
      using collect_spec(1) [of "[]" real_dbl body "[]" 1 0] by (simp add: collected_def)
    have bl: "map sb_path ?bl = map sb_path ?sc" "length ?bl = length ?sc"
      by (simp_all add: depth_boost_paths) (simp add: swam_apply_depth_boost_def)
    have "fst ?sel < length ?bl"
      by (rule weighted_select_less) (use False bl(2) len in \<open>auto simp: SWAM_MAX_BLOCKS_def swam_apply_depth_boost_def\<close>)
    then have i: "fst ?sel < length ?sc" using bl(2) by simp
    then have path: "sb_path (?bl ! fst ?sel) = sb_path (?sc ! fst ?sel)"
      using bl by (metis nth_map)
    obtain nm es where b: "subexpr_at body (sb_path (?sc ! fst ?sel)) = Some (Block nm es)"
      "path_live body (sb_path (?sc ! fst ?sel))"
      using collect_body [OF nth_mem [OF i]] by blast
    let ?lim = "if be_type B (Block nm es) \<noteq> TypeNone \<and> length es > 0 then length es else length es + 1"
    let ?pos = "unat (fst (ro_rand_below R (snd ?sel) (of_nat ?lim)))"
    have short: "length es < 2 ^ 32 - 1"
      using assms b(1) unfolding blocks_short_def by blast
    have pos: "?pos < ?lim"
      by (rule rand_index) (use short in auto)
    have "fst (insert_probe B real_dbl R reached body probe g) =
        replace_at body (sb_path (?sc ! fst ?sel)) (Block nm (take ?pos es @ probe # drop ?pos es))"
      using False b(1) path
      by (simp add: insert_probe_def Let_def case_prod_unfold insert_at_def)
    with b pos show ?thesis
      by (intro disjI1 exI [of _ "sb_path (?sc ! fst ?sel)"] exI [of _ nm] exI [of _ es] exI [of _ ?pos])
        (auto split: if_splits)
  qed
qed

end

definition marker_exported :: "string \<Rightarrow> bmodule \<Rightarrow> bool" where
  "marker_exported marker m \<longleftrightarrow>
     list_ex (\<lambda>g. g_name g = marker) (m_globals m) \<and> list_ex (\<lambda>x. x_name x = marker) (m_exports m)"

lemma ensure_marker_exported:
  "marker_exported a (swam_ensure_marker_global b m) \<longleftrightarrow> a = b \<or> marker_exported a m"
  by (auto simp: marker_exported_def swam_ensure_marker_global_def Let_def list_ex_iff)

lemma add_marker_globals_exported:
  "marker_exported SWAM_MARKER_BEFORE (swam_add_marker_globals m)"
  "marker_exported SWAM_MARKER_AFTER (swam_add_marker_globals m)"
  by (simp_all add: swam_add_marker_globals_def ensure_marker_exported)

lemma marker_exported_funcs [simp]:
  "marker_exported a (m\<lparr> m_funcs := fs \<rparr>) = marker_exported a m"
  by (simp add: marker_exported_def)

definition instrumented :: "binaryen_env \<Rightarrow> bmodule \<Rightarrow> bool" where
  "instrumented B m \<longleftrightarrow> be_validate B m \<and>
     marker_exported SWAM_MARKER_BEFORE m \<and> marker_exported SWAM_MARKER_AFTER m"

lemma instantiate_attempts_valid:
  assumes "instantiate_attempts B D R sched sc mem is64 n fr m g = ((True, reason), m', g')"
  shows "instrumented B m'"
  using assms
proof (induction n arbitrary: fr m g)
  case (Suc n)
  obtain fo g1 where f: "swam_choose_function_with_body R m g = (fo, g1)" by (metis prod.exhaust)
  show ?case
  proof (cases fo)
    case None
    then show ?thesis using Suc f by simp
  next
    case (Some fi)
    show ?thesis
    proof (cases "f_body (m_funcs m ! fi)")
      case None
      then show ?thesis using Suc f Some by simp
    next
      case body: (Some body)
      then show ?thesis
        using Suc.prems Suc.IH f Some
        by (auto simp: Let_def case_prod_unfold swam_build_probe_def add_var_def instrumented_def
            add_marker_globals_exported split: if_splits)
    qed
  qed
qed simp

section \<open>Properties\<close>



definition demo_benv :: binaryen_env where
  "demo_benv = \<lparr> be_validate = (\<lambda>m. m_memories m \<noteq> []), be_type = (\<lambda>_. TypeNone),
     be_set_memory = (\<lambda>a m. m\<lparr> m_memories := [\<lparr> mem_name = sm_name a, mem_initial = sm_initial a,
       mem_max = Some (sm_maximum a), mem_shared = sm_shared a, mem_is64 = sm_memory64 a \<rparr>] \<rparr>),
     feature_atomics = 1, feature_simd = 2, feature_bulk = 4 \<rparr>"

definition demo_body :: bexpr where
  "demo_body = Block None [Nop, Return None]"

lemma leaf_paths: "subexpr_at Nop p \<noteq> Some (Block nm es)" "subexpr_at (Return None) p \<noteq> Some (Block nm es)"
  by (cases p; simp add: child_at_def)+

lemma demo_block_paths:
  assumes "subexpr_at demo_body path = Some (Block nm es)"
  shows "path = [] \<and> nm = None \<and> es = [Nop, Return None]"
proof (cases path)
  case Nil
  then show ?thesis using assms by (simp add: demo_body_def)
next
  case (Cons i p)
  then obtain c where "child_at demo_body i = Some c" "subexpr_at c p = Some (Block nm es)"
    using assms by (auto split: option.splits)
  then have "c = Nop \<or> c = Return None"
    by (auto simp: demo_body_def child_at_def less_Suc_eq numeral_2_eq_2 split: if_splits)
  then show ?thesis using leaf_paths \<open>subexpr_at c p = _\<close> by auto
qed



text \<open>
  The function for the probe: with the fuzzer's generator the choice is always a function
  with a body, and it fails only when no function of the module has one.
\<close>

theorem choose_function_complete:
  "case fst (swam_choose_function_with_body (afl_rand_ops libc_rand) m g) of
     Some i \<Rightarrow> i < length (m_funcs m) \<and> f_body (m_funcs m ! i) \<noteq> None
   | None \<Rightarrow> list_all (\<lambda>f. f_body f = None) (m_funcs m)"
  using afl_rng.choose_function_spec [where libc_rand = libc_rand and m = m and g = g]
  by (auto simp: has_body_def list_all_length split: option.splits)

definition demo_func_module :: bmodule where
  "demo_func_module = \<lparr> m_funcs = [\<lparr> f_name = ''f'', f_body = Some demo_body, f_params = [], f_results = [], f_vars = [] \<rparr>],
     m_tables = [], m_globals = [], m_exports = [], m_memories = [\<lparr> mem_name = ''0'', mem_initial = 1, mem_max = None,
       mem_shared = False, mem_is64 = False \<rparr>], m_segments = [], m_features = 0 \<rparr>"

lemma ensure_marker_keeps:
  "m_memories (swam_ensure_marker_global mk m) = m_memories m"
  "m_funcs (swam_ensure_marker_global mk m) = m_funcs m"
  by (simp_all add: swam_ensure_marker_global_def Let_def)

lemma add_markers_keeps [simp]:
  "m_memories (swam_add_marker_globals m) = m_memories m"
  "m_funcs (swam_add_marker_globals m) = m_funcs m"
  by (simp_all add: swam_add_marker_globals_def ensure_marker_keeps)

lemma demo_choose:
  "fst (swam_choose_function_with_body (afl_rand_ops (Pair 0)) (swam_add_marker_globals demo_func_module) g) =
    Some 0"
proof -
  let ?m = "swam_add_marker_globals demo_func_module"
  let ?c = "fst (swam_choose_function_with_body (afl_rand_ops (Pair 0)) ?m g)"
  note spec = afl_rng.choose_function_spec [where libc_rand = "Pair 0" and m = ?m and g = g]
  have body: "has_body ?m i \<longleftrightarrow> i = 0" for i
    by (auto simp: has_body_def demo_func_module_def)
  show ?thesis using spec by (cases ?c) (auto simp only: body option.case)
qed


end
