(* ===== verification/Afl_Hashmap.thy ===== *)
theory Afl_Hashmap
  imports Prelude "HOL-Library.Multiset"
begin

text \<open>
  The deduplication table of AFL++'s comparison tracing, \<^verbatim>\<open>src/hashmap.c\<close>: chained buckets of
  64-bit keys. The global \<^verbatim>\<open>_hashmap\<close> is \<open>None\<close> while it is NULL; an operation that
  dereferences it then, or that stores through an invalid pointer, has the result \<open>None\<close>.
  Allocation failures inside an operation are not checked by the code and not modelled.
\<close>

unbundle bit_operations_syntax

section \<open>The table\<close>

definition TABLE_SIZE :: nat where
  "TABLE_SIZE = 10007"

record HashMap =
  table :: "u64 list list"

definition hash :: "u64 \<Rightarrow> nat" where
  "hash key = unat key mod TABLE_SIZE"

definition hashmap_reset :: "HashMap option \<Rightarrow> HashMap" where
  "hashmap_reset h =
     (case h of
        None \<Rightarrow> \<lparr> table = replicate TABLE_SIZE [] \<rparr>
      | Some m \<Rightarrow> m\<lparr> table := map (\<lambda>_. []) (table m) \<rparr>)"

text \<open>The value stored for a key: bits 56 to 58 carry the type.\<close>

definition dedup_key :: "u8 \<Rightarrow> u64 \<Rightarrow> u64" where
  "dedup_key type key = (key AND 0xf8ffffffffffffff) + push_bit 56 (ucast type)"

text \<open>The walk along a bucket.\<close>

fun chain_search :: "u64 list \<Rightarrow> u64 \<Rightarrow> bool" where
  "chain_search [] key = False"
| "chain_search (k # ks) key = (if k = key then True else chain_search ks key)"

fun chain_delete :: "u64 list \<Rightarrow> u64 \<Rightarrow> u64 list" where
  "chain_delete [] key = []"
| "chain_delete (k # ks) key = (if k = key then ks else k # chain_delete ks key)"

definition hashmap_insert :: "u64 \<Rightarrow> HashMap \<Rightarrow> HashMap" where
  "hashmap_insert key m =
     m\<lparr> table := (table m)[hash key := key # table m ! hash key] \<rparr>"

definition hashmap_search :: "u64 \<Rightarrow> HashMap \<Rightarrow> bool" where
  "hashmap_search key m = chain_search (table m ! hash key) key"

definition hashmap_delete :: "u64 \<Rightarrow> HashMap \<Rightarrow> HashMap" where
  "hashmap_delete key m =
     m\<lparr> table := (table m)[hash key := chain_delete (table m ! hash key) key] \<rparr>"

definition hashmap_search_and_add :: "u8 \<Rightarrow> u64 \<Rightarrow> HashMap option \<Rightarrow> (bool \<times> HashMap option) option" where
  "hashmap_search_and_add type key h =
     (if type \<ge> 8 then Some (False, h)
      else case h of
        None \<Rightarrow> None
      | Some m \<Rightarrow>
          (let val = dedup_key type key;
               index = hash val
           in if chain_search (table m ! index) val then Some (True, Some m)
              else Some (False, Some (m\<lparr> table := (table m)[index := val # table m ! index] \<rparr>))))"

text \<open>
  \<^verbatim>\<open>hashmap_search_and_add_ptr\<close> copies \<^verbatim>\<open>type + 1\<close> bytes of the key to the address
  \<^verbatim>\<open>(char *)key_t + (7 - type)\<close>, where \<^verbatim>\<open>key_t\<close> is the integer 0: the destination is the
  address \<open>7 - type\<close> of the process. \<open>mapped\<close> says which addresses the process may write.
\<close>

definition hashmap_search_and_add_ptr ::
  "(nat \<Rightarrow> bool) \<Rightarrow> u8 \<Rightarrow> u8 list \<Rightarrow> HashMap option \<Rightarrow> (bool \<times> HashMap option) option" where
  "hashmap_search_and_add_ptr mapped type key h =
     (if type \<ge> 8 then Some (False, h)
      else if list_all mapped [7 - unat type..<8] then hashmap_search_and_add type 0 h
      else None)"

section \<open>A bag of keys\<close>

text \<open>
  The contract: the table is a bag of keys; a lookup sees exactly the keys in the bag.
\<close>

locale key_bag =
  fixes bag :: "'s \<Rightarrow> 'k multiset"
    and inv :: "'s \<Rightarrow> bool"
    and ins :: "'k \<Rightarrow> 's \<Rightarrow> 's"
    and mem :: "'k \<Rightarrow> 's \<Rightarrow> bool"
    and del :: "'k \<Rightarrow> 's \<Rightarrow> 's"
  assumes ins_inv: "inv s \<Longrightarrow> inv (ins k s)"
    and del_inv: "inv s \<Longrightarrow> inv (del k s)"
    and ins_bag: "inv s \<Longrightarrow> bag (ins k s) = add_mset k (bag s)"
    and del_bag: "inv s \<Longrightarrow> bag (del k s) = bag s - {#k#}"
    and mem_bag: "inv s \<Longrightarrow> mem k s \<longleftrightarrow> k \<in># bag s"
begin

text \<open>Search and add: the flag, and the state with the key added when it was absent.\<close>

definition visit :: "'k \<Rightarrow> 's \<Rightarrow> bool \<times> 's" where
  "visit k s = (if mem k s then (True, s) else (False, ins k s))"

fun visits :: "'k list \<Rightarrow> 's \<Rightarrow> bool list \<times> 's" where
  "visits [] s = ([], s)"
| "visits (k # ks) s = (let (b, s1) = visit k s; (bs, s2) = visits ks s1 in (b # bs, s2))"

lemma visit_set:
  assumes "inv s"
  shows "inv (snd (visit k s))" "fst (visit k s) \<longleftrightarrow> k \<in># bag s"
    "set_mset (bag (snd (visit k s))) = insert k (set_mset (bag s))"
  using assms by (auto simp: visit_def ins_inv ins_bag mem_bag)

lemma visit_distinct:
  assumes "inv s" and "\<And>x. count (bag s) x \<le> 1"
  shows "count (bag (snd (visit k s))) x \<le> 1"
  using assms by (auto simp: visit_def ins_bag mem_bag not_in_iff)

lemma visits_spec:
  assumes "inv s"
  shows "fst (visits ks s) = map (\<lambda>i. ks ! i \<in># bag s \<or> ks ! i \<in> set (take i ks)) [0..<length ks]
    \<and> inv (snd (visits ks s))
    \<and> set_mset (bag (snd (visits ks s))) = set_mset (bag s) \<union> set ks"
  using assms
proof (induction ks arbitrary: s)
  case (Cons k ks)
  note v = visit_set [OF Cons.prems, of k]
  have flags: "map (\<lambda>i. (k # ks) ! i \<in># bag s \<or> (k # ks) ! i \<in> set (take i (k # ks))) [0..<length (k # ks)]
    = (k \<in># bag s) # map (\<lambda>i. ks ! i \<in># bag (snd (visit k s)) \<or> ks ! i \<in> set (take i ks)) [0..<length ks]"
    unfolding length_Cons upt_conv_Cons [OF zero_less_Suc] map_Suc_upt [symmetric]
    by (auto simp: v(3))
  show ?case
    unfolding flags using Cons.IH [OF v(1)] v by (auto simp: case_prod_unfold Let_def)
qed simp

end

section \<open>The table is a bag of keys\<close>

definition keys :: "HashMap \<Rightarrow> u64 multiset" where
  "keys m = mset (concat (table m))"

text \<open>The invariant: the right number of buckets, every key in the bucket of its hash.\<close>

definition buckets_ok :: "HashMap \<Rightarrow> bool" where
  "buckets_ok m \<longleftrightarrow> length (table m) = TABLE_SIZE \<and>
     (\<forall>i < TABLE_SIZE. \<forall>k \<in> set (table m ! i). hash k = i)"

lemma hash_less [simp]: "hash k < TABLE_SIZE"
  by (simp add: hash_def TABLE_SIZE_def)

lemma chain_search_iff: "chain_search ks key \<longleftrightarrow> key \<in> set ks"
  by (induction ks) auto

lemma chain_delete_mset: "mset (chain_delete ks key) = mset ks - {#key#}"
  by (induction ks) (auto simp: diff_single_trivial)

lemma chain_delete_set: "set (chain_delete ks key) \<subseteq> set ks"
  by (induction ks) auto

lemma mset_concat_update:
  assumes "i < length xss"
  shows "mset (concat (xss[i := ys])) + mset (xss ! i) = mset (concat xss) + mset ys"
  using assms
proof (induction xss arbitrary: i)
  case (Cons xs xss)
  then show ?case by (cases i) (simp_all add: add.assoc)
qed simp

lemma mem_keys:
  assumes "buckets_ok m"
  shows "k \<in># keys m \<longleftrightarrow> k \<in> set (table m ! hash k)"
proof
  assume "k \<in># keys m"
  then obtain i where i: "i < length (table m)" "k \<in> set (table m ! i)"
    by (auto simp: keys_def in_set_conv_nth [of _ "table m"])
  with assms show "k \<in> set (table m ! hash k)" by (auto simp: buckets_ok_def)
next
  assume "k \<in> set (table m ! hash k)"
  moreover have "table m ! hash k \<in> set (table m)" using assms by (simp add: buckets_ok_def)
  ultimately show "k \<in># keys m" by (auto simp: keys_def)
qed

lemma buckets_ok_update:
  assumes "buckets_ok m" and "set ys \<subseteq> insert k (set (table m ! hash k))"
  shows "buckets_ok (m\<lparr> table := (table m)[hash k := ys] \<rparr>)"
  using assms by (auto simp: buckets_ok_def nth_list_update)

lemma keys_update:
  assumes "buckets_ok m"
  shows "keys (m\<lparr> table := (table m)[hash k := ys] \<rparr>) + mset (table m ! hash k) = keys m + mset ys"
  using assms mset_concat_update [of "hash k" "table m" ys] by (simp add: keys_def buckets_ok_def)

interpretation hm: key_bag keys buckets_ok hashmap_insert hashmap_search hashmap_delete
proof
  fix m k assume ok: "buckets_ok m"
  show "buckets_ok (hashmap_insert k m)"
    unfolding hashmap_insert_def by (rule buckets_ok_update [OF ok]) auto
  show "buckets_ok (hashmap_delete k m)"
    unfolding hashmap_delete_def by (rule buckets_ok_update [OF ok]) (use chain_delete_set in auto)
  show "keys (hashmap_insert k m) = add_mset k (keys m)"
    using keys_update [OF ok, of k "k # table m ! hash k"] by (simp add: hashmap_insert_def)
  show "hashmap_search k m \<longleftrightarrow> k \<in># keys m"
    by (simp add: hashmap_search_def chain_search_iff mem_keys [OF ok])
  show "keys (hashmap_delete k m) = keys m - {#k#}"
  proof (cases "k \<in> set (table m ! hash k)")
    case True
    then have "mset (table m ! hash k) = add_mset k (mset (chain_delete (table m ! hash k) k))"
      by (simp add: chain_delete_mset)
    then show ?thesis
      using keys_update [OF ok, of k "chain_delete (table m ! hash k) k"]
      by (simp add: hashmap_delete_def) (metis add_mset_remove_trivial)
  next
    case False
    then have "mset (chain_delete (table m ! hash k) k) = mset (table m ! hash k)"
      by (simp add: chain_delete_mset diff_single_trivial)
    then have "keys (hashmap_delete k m) = keys m"
      using keys_update [OF ok, of k "chain_delete (table m ! hash k) k"] by (simp add: hashmap_delete_def)
    moreover have "k \<notin># keys m" using False mem_keys [OF ok] by simp
    ultimately show ?thesis by (simp add: diff_single_trivial)
  qed
qed

lemma search_and_add_visit:
  assumes "type < 8"
  shows "hashmap_search_and_add type key (Some m) =
    Some (map_prod id Some (hm.visit (dedup_key type key) m))"
  using assms
  by (simp add: hashmap_search_and_add_def hm.visit_def hashmap_search_def hashmap_insert_def Let_def
      linorder_not_le)

lemma reset_ok: "buckets_ok (hashmap_reset None)" "keys (hashmap_reset None) = {#}"
  by (auto simp: hashmap_reset_def buckets_ok_def keys_def)

lemma reset_again:
  assumes "buckets_ok m"
  shows "hashmap_reset (Some m) = hashmap_reset None"
  using assms by (simp add: hashmap_reset_def buckets_ok_def map_replicate_const)

section \<open>Keys that the table cannot tell apart\<close>

definition key_mask :: u64 where
  "key_mask = 0xf8ffffffffffffff"

lemma bit_key_mask: "bit key_mask n \<longleftrightarrow> n < 64 \<and> \<not> (56 \<le> n \<and> n < 59)"
proof -
  have m: "key_mask = NOT (push_bit 56 (mask 3))" by (simp add: key_mask_def mask_eq_exp_minus_1)
  show ?thesis
    unfolding m by (simp only: bit_not_iff bit_push_bit_iff bit_mask_iff possible_bit_word) auto
qed

lemma bit_small_type:
  assumes "type < 8" and "bit (type :: u8) i"
  shows "i < 3"
proof -
  have "take_bit 3 type = type"
    using assms(1) by (simp add: take_bit_eq_mod word_unat_eq_iff unat_mod_distrib word_less_nat_alt)
  then show ?thesis using assms(2) by (metis bit_take_bit_iff)
qed

lemma bit_dedup_key:
  assumes "type < 8"
  shows "bit (dedup_key type key) n \<longleftrightarrow>
    (if 56 \<le> n \<and> n < 59 then bit type (n - 56) else bit key n)"
proof -
  have "bit (key AND key_mask) n \<Longrightarrow> bit (push_bit 56 (ucast type) :: u64) n \<Longrightarrow> False" for n
    using bit_small_type [OF assms, of "n - 56"]
    by (auto simp: bit_and_iff bit_key_mask bit_push_bit_iff bit_ucast_iff)
  then have "dedup_key type key = (key AND key_mask) OR push_bit 56 (ucast type)"
    unfolding dedup_key_def key_mask_def [symmetric] by (intro disjunctive_add) blast
  then show ?thesis
    using bit_small_type [OF assms, of "n - 56"] bit_imp_le_length [of key n]
    by (auto simp: bit_or_iff bit_and_iff bit_key_mask bit_push_bit_iff bit_ucast_iff
        dest: bit_imp_le_length)
qed

lemma dedup_key_eq_iff:
  assumes "t < 8" and "t' < 8"
  shows "dedup_key t k = dedup_key t' k' \<longleftrightarrow> t = t' \<and> k AND key_mask = k' AND key_mask"
proof
  assume eq: "dedup_key t k = dedup_key t' k'"
  have b: "(if 56 \<le> n \<and> n < 59 then bit t (n - 56) else bit k n) =
      (if 56 \<le> n \<and> n < 59 then bit t' (n - 56) else bit k' n)" for n
    using bit_dedup_key [OF assms(1), of k n] bit_dedup_key [OF assms(2), of k' n] eq by simp
  have "bit t n = bit t' n" for n
    using b [of "n + 56"] bit_small_type [OF assms(1), of n] bit_small_type [OF assms(2), of n]
    by (cases "n < 3") auto
  moreover have "bit (k AND key_mask) n = bit (k' AND key_mask) n" for n
    using b [of n] by (auto simp: bit_and_iff bit_key_mask split: if_splits)
  ultimately show "t = t' \<and> k AND key_mask = k' AND key_mask"
    by (simp add: bit_eq_iff)
qed (simp add: dedup_key_def key_mask_def)

text \<open>A sequence of calls of \<^verbatim>\<open>hashmap_search_and_add\<close>.\<close>

fun dedup_run :: "(u8 \<times> u64) list \<Rightarrow> HashMap option \<Rightarrow> (bool list \<times> HashMap option) option" where
  "dedup_run [] h = Some ([], h)"
| "dedup_run ((t, k) # calls) h =
     (case hashmap_search_and_add t k h of
        None \<Rightarrow> None
      | Some (b, h1) \<Rightarrow>
          (case dedup_run calls h1 of None \<Rightarrow> None | Some (bs, h2) \<Rightarrow> Some (b # bs, h2)))"

lemma dedup_run_visits:
  assumes "list_all (\<lambda>(t, k). t < 8) calls"
  shows "dedup_run calls (Some m) =
    Some (map_prod id Some (hm.visits (map (\<lambda>(t, k). dedup_key t k) calls) m))"
  using assms
  by (induction calls arbitrary: m)
    (auto simp: search_and_add_visit case_prod_unfold Let_def map_prod_def split: prod.splits)

definition seen_before :: "(u8 \<times> u64) list \<Rightarrow> nat \<Rightarrow> bool" where
  "seen_before calls i =
     list_ex (\<lambda>(t, k). t = fst (calls ! i) \<and> k AND key_mask = snd (calls ! i) AND key_mask)
       (take i calls)"

section \<open>Properties\<close>

text \<open>
  C26. The table is a bag of keys: on a table whose buckets are in order, every operation keeps
  them in order, an insertion adds the key once, a deletion removes it once, and a search
  finds a key exactly when it is in the bag.
\<close>

theorem hashmap_refines_bag:
  assumes "buckets_ok m"
  shows "buckets_ok (hashmap_insert k m) \<and> buckets_ok (hashmap_delete k m) \<and>
    keys (hashmap_insert k m) = add_mset k (keys m) \<and>
    keys (hashmap_delete k m) = keys m - {#k#} \<and>
    (hashmap_search k m \<longleftrightarrow> k \<in># keys m)"
  using assms hm.ins_inv hm.del_inv hm.ins_bag hm.del_bag hm.mem_bag by blast

theorem hashmap_refines_bag_witness:
  "hashmap_search 7 (hashmap_insert 7 (hashmap_reset None)) \<and>
   keys (hashmap_delete 7 (hashmap_insert 7 (hashmap_reset None))) = {#}"
  using hashmap_refines_bag [OF reset_ok(1), of 7]
    hashmap_refines_bag [of "hashmap_insert 7 (hashmap_reset None)" 7]
  by (simp add: reset_ok(2))

text \<open>
  Deduplication since the last reset: in any sequence of calls with types below 8, a call
  reports a duplicate exactly when an earlier call had the same type and a key that agrees
  with its own outside bits 56 to 58; no call fails.
\<close>

theorem hashmap_dedup_sequence:
  assumes "list_all (\<lambda>(t, k). t < 8) calls"
    and "case h of None \<Rightarrow> True | Some m \<Rightarrow> buckets_ok m"
  shows "map_option fst (dedup_run calls (Some (hashmap_reset h))) =
    Some (map (seen_before calls) [0..<length calls])"
proof -
  have r: "hashmap_reset h = hashmap_reset None"
    using assms(2) by (auto simp: reset_again split: option.splits)
  have ty: "fst (calls ! i) < 8" if "i < length calls" for i
    using assms(1) that by (auto simp: list_all_length case_prod_unfold)
  have "map (\<lambda>(t, k). dedup_key t k) calls ! i \<in> set (take i (map (\<lambda>(t, k). dedup_key t k) calls)) \<longleftrightarrow>
      seen_before calls i" if i: "i < length calls" for i
  proof -
    have eq: "dedup_key (fst p) (snd p) = dedup_key (fst (calls ! i)) (snd (calls ! i)) \<longleftrightarrow>
        fst p = fst (calls ! i) \<and> snd p AND key_mask = snd (calls ! i) AND key_mask"
      if "p \<in> set (take i calls)" for p
    proof (rule dedup_key_eq_iff)
      show "fst p < 8" using in_set_takeD [OF that] assms(1) by (auto simp: list_all_iff case_prod_unfold)
    qed (rule ty [OF i])
    have "map (\<lambda>(t, k). dedup_key t k) calls ! i \<in> set (take i (map (\<lambda>(t, k). dedup_key t k) calls)) \<longleftrightarrow>
        (\<exists>p \<in> set (take i calls). dedup_key (fst p) (snd p) = dedup_key (fst (calls ! i)) (snd (calls ! i)))"
      using i by (auto simp: take_map case_prod_unfold image_iff eq_commute)
    also have "\<dots> \<longleftrightarrow> seen_before calls i"
      unfolding seen_before_def list_ex_iff case_prod_unfold by (rule bex_cong [OF refl eq])
    finally show ?thesis .
  qed
  then show ?thesis
    unfolding r dedup_run_visits [OF assms(1)]
    using hm.visits_spec [OF reset_ok(1), of "map (\<lambda>(t, k). dedup_key t k) calls"]
    by (simp add: reset_ok(2) cong: map_cong)
qed

theorem hashmap_dedup_sequence_witness:
  "map_option fst (dedup_run [(0, 5), (1, 5), (0, 5)] (Some (hashmap_reset None))) =
    Some [False, False, True]"
  using hashmap_dedup_sequence [of "[(0, 5), (1, 5), (0, 5)]" None]
  by (simp add: seen_before_def upt_conv_Cons)



end
