(* ===== verification/Afl_Bitmap.thy ===== *)
theory Afl_Bitmap
  imports Prelude
begin

text \<open>
  AFL++'s coverage maps, \<^verbatim>\<open>src/afl-fuzz-bitmap.c\<close> with the 64-bit routines of
  \<^verbatim>\<open>include/coverage-64.h\<close> (the portable variant of \<^verbatim>\<open>skim\<close>). A map is the list of the words
  the routine walks over; byte \<open>i\<close> of a word is the one at offset \<open>i\<close> of its memory, the
  machine being little-endian. Sizes are the 32-bit counters of the source.
\<close>

unbundle bit_operations_syntax

section \<open>Bytes and halves of a word\<close>

definition get_byte :: "'a::len word \<Rightarrow> nat \<Rightarrow> u8" where
  "get_byte w i = ucast (drop_bit (8 * i) w)"

definition get_half :: "u64 \<Rightarrow> nat \<Rightarrow> u16" where
  "get_half w i = ucast (drop_bit (16 * i) w)"

definition of_halves :: "u16 \<Rightarrow> u16 \<Rightarrow> u16 \<Rightarrow> u16 \<Rightarrow> u64" where
  "of_halves a b c d =
     ucast a OR push_bit 16 (ucast b) OR push_bit 32 (ucast c) OR push_bit 48 (ucast d)"

definition of_bytes :: "u8 list \<Rightarrow> u64" where
  "of_bytes bs = foldr (\<lambda>b w. ucast b OR push_bit 8 w) bs 0"

section \<open>Lookup tables\<close>

definition simplify_lookup :: "u8 \<Rightarrow> u8" where
  "simplify_lookup b = (if b = 0 then 1 else 128)"

definition count_class_lookup8 :: "u8 \<Rightarrow> u8" where
  "count_class_lookup8 b =
     (if b = 0 then 0 else if b = 1 then 1 else if b = 2 then 2 else if b = 3 then 4
      else if b \<le> 7 then 8 else if b \<le> 15 then 16 else if b \<le> 31 then 32
      else if b \<le> 127 then 64 else 128)"

text \<open>The table \<^verbatim>\<open>count_class_lookup16\<close> is a function from the index to the entry.\<close>

definition init_count_class16 :: "(nat \<Rightarrow> u16) \<Rightarrow> nat \<Rightarrow> u16" where
  "init_count_class16 t =
     fold (\<lambda>b1. fold (\<lambda>b2 t. t(256 * b1 + b2 :=
            push_bit 8 (ucast (count_class_lookup8 (of_nat b1)))
              OR ucast (count_class_lookup8 (of_nat b2)))) [0..<256]) [0..<256] t"

section \<open>Classifying and simplifying a trace\<close>

definition classify_word :: "(nat \<Rightarrow> u16) \<Rightarrow> u64 \<Rightarrow> u64" where
  "classify_word t word =
     of_halves (t (unat (get_half word 0))) (t (unat (get_half word 1)))
       (t (unat (get_half word 2))) (t (unat (get_half word 3)))"

definition simplify_trace :: "u32 \<Rightarrow> u64 list \<Rightarrow> u64 list" where
  "simplify_trace map_size mem =
     (let i = unat (drop_bit 3 map_size)
      in map (\<lambda>w. if w \<noteq> 0 then of_bytes (map (\<lambda>j. simplify_lookup (get_byte w j)) [0..<8])
                  else 0x0101010101010101) (take i mem) @ drop i mem)"

definition classify_counts :: "(nat \<Rightarrow> u16) \<Rightarrow> u32 \<Rightarrow> u64 list \<Rightarrow> u64 list" where
  "classify_counts t map_size mem =
     (let i = unat (drop_bit 3 map_size)
      in map (\<lambda>w. if w \<noteq> 0 then classify_word t w else w) (take i mem) @ drop i mem)"

section \<open>New coverage\<close>

text \<open>Some non-zero byte of the trace is pristine in the virgin map.\<close>

definition pristine_hit :: "u64 \<Rightarrow> u64 \<Rightarrow> bool" where
  "pristine_hit current virgin =
     list_ex (\<lambda>i. get_byte current i \<noteq> 0 \<and> get_byte virgin i = 0xff) [0..<8]"

definition discover_word :: "u8 \<Rightarrow> u64 \<Rightarrow> u64 \<Rightarrow> u8 \<times> u64" where
  "discover_word ret current virgin =
     (if current AND virgin \<noteq> 0 then
        (if ret < 2 then (if pristine_hit current virgin then 2 else 1) else ret,
         virgin AND NOT current)
      else (ret, virgin))"

text \<open>The loop of \<^verbatim>\<open>has_new_bits\<close> over \<open>i\<close> words.\<close>

fun new_bits_loop :: "nat \<Rightarrow> u8 \<Rightarrow> u64 list \<Rightarrow> u64 list \<Rightarrow> u8 \<times> u64 list" where
  "new_bits_loop (Suc i) ret (c # cs) (v # vs) =
     (let (ret1, v1) = (if c \<noteq> 0 then discover_word ret c v else (ret, v));
          (ret2, vs2) = new_bits_loop i ret1 cs vs
      in (ret2, v1 # vs2))"
| "new_bits_loop i ret cs vs = (ret, vs)"

text \<open>
  The state \<^verbatim>\<open>has_new_bits\<close> works on; \<open>is_virgin_bits\<close> is the test whether the map it was
  given is \<^verbatim>\<open>afl->virgin_bits\<close>.
\<close>

record cov_state =
  trace_bits :: "u64 list"
  virgin_map :: "u64 list"
  bitmap_changed :: bool

definition has_new_bits :: "u32 \<Rightarrow> bool \<Rightarrow> cov_state \<Rightarrow> u8 \<times> cov_state" where
  "has_new_bits real_map_size is_virgin_bits s =
     (let i = drop_bit 3 (real_map_size + 7);
          (ret, v) = new_bits_loop (unat i) 0 (trace_bits s) (virgin_map s)
      in (ret, s\<lparr> virgin_map := v,
                  bitmap_changed := (if ret \<noteq> 0 \<and> is_virgin_bits then True else bitmap_changed s) \<rparr>))"

text \<open>The scan for new coverage, four words at a time, over \<open>n\<close> words from \<open>i\<close> on.\<close>

function skim :: "(nat \<Rightarrow> u16) \<Rightarrow> u64 list \<Rightarrow> u64 list \<Rightarrow> nat \<Rightarrow> nat \<Rightarrow> bool" where
  "skim t virgin current n i =
     (if i < n then
        if current ! i \<noteq> 0 \<and> classify_word t (current ! i) AND virgin ! i \<noteq> 0 then True
        else if current ! (i + 1) \<noteq> 0 \<and> classify_word t (current ! (i + 1)) AND virgin ! (i + 1) \<noteq> 0
        then True
        else if current ! (i + 2) \<noteq> 0 \<and> classify_word t (current ! (i + 2)) AND virgin ! (i + 2) \<noteq> 0
        then True
        else if current ! (i + 3) \<noteq> 0 \<and> classify_word t (current ! (i + 3)) AND virgin ! (i + 3) \<noteq> 0
        then True
        else skim t virgin current n (i + 4)
      else False)"
  by pat_completeness auto
termination
  by (relation "measure (\<lambda>(t, virgin, current, n, i). n - i)") auto

declare skim.simps [simp del]

definition has_new_bits_unclassified ::
  "(nat \<Rightarrow> u16) \<Rightarrow> u32 \<Rightarrow> u32 \<Rightarrow> bool \<Rightarrow> bool \<Rightarrow> cov_state \<Rightarrow> u8 \<times> bool \<times> cov_state" where
  "has_new_bits_unclassified t map_size real_map_size is_virgin_bits classified s =
     (if \<not> skim t (virgin_map s) (trace_bits s) (unat (drop_bit 3 map_size)) 0
      then (0, classified, s)
      else
        (let (ret, s') = has_new_bits real_map_size is_virgin_bits
               (s\<lparr> trace_bits := classify_counts t map_size (trace_bits s) \<rparr>)
         in (ret, True, s')))"

definition classify_if_necessary ::
  "(nat \<Rightarrow> u16) \<Rightarrow> u32 \<Rightarrow> bool \<Rightarrow> cov_state \<Rightarrow> bool \<times> cov_state" where
  "classify_if_necessary t map_size classified s =
     (if classified then (classified, s)
      else (True, s\<lparr> trace_bits := classify_counts t map_size (trace_bits s) \<rparr>))"

text \<open>The flags \<^verbatim>\<open>new_bits\<close>, \<^verbatim>\<open>bits_counted\<close> and \<^verbatim>\<open>classified\<close> of the caller are passed through.\<close>

definition calculate_new_bits_if_necessary ::
  "(nat \<Rightarrow> u16) \<Rightarrow> u32 \<Rightarrow> u32 \<Rightarrow> u8 \<Rightarrow> bool \<Rightarrow> bool \<Rightarrow> cov_state \<Rightarrow> u8 \<times> bool \<times> bool \<times> cov_state" where
  "calculate_new_bits_if_necessary t map_size real_map_size new_bits bits_counted classified s =
     (if bits_counted then (new_bits, bits_counted, classified, s)
      else if classified then
        (let (ret, s') = has_new_bits real_map_size True s in (ret, True, classified, s'))
      else
        (let (ret, c, s') = has_new_bits_unclassified t map_size real_map_size True classified s
         in (ret, True, c, s')))"

section \<open>Counting\<close>

definition popcount :: "u32 \<Rightarrow> nat" where
  "popcount v = length (filter (bit v) [0..<32])"

text \<open>The number of 32-bit words the counting loops visit.\<close>

definition count_words :: "u32 \<Rightarrow> nat" where
  "count_words real_map_size = unat (drop_bit 2 (real_map_size + 3))"

definition count_bits :: "u32 \<Rightarrow> u32 list \<Rightarrow> u32" where
  "count_bits real_map_size mem =
     foldl (\<lambda>ret v. if v = 0xffffffff then ret + 32 else ret + of_nat (popcount v)) 0
       (take (count_words real_map_size) mem)"

definition count_bytes :: "u32 \<Rightarrow> u32 list \<Rightarrow> u32" where
  "count_bytes real_map_size mem =
     foldl (\<lambda>ret v.
        if v = 0 then ret
        else (let r1 = (if v AND 0x000000ff \<noteq> 0 then ret + 1 else ret);
                  r2 = (if v AND 0x0000ff00 \<noteq> 0 then r1 + 1 else r1);
                  r3 = (if v AND 0x00ff0000 \<noteq> 0 then r2 + 1 else r2)
              in if v AND 0xff000000 \<noteq> 0 then r3 + 1 else r3)) 0
       (take (count_words real_map_size) mem)"

definition count_non_255_bytes :: "u32 \<Rightarrow> u32 list \<Rightarrow> u32" where
  "count_non_255_bytes real_map_size mem =
     foldl (\<lambda>ret v.
        if v = 0xffffffff then ret
        else (let r1 = (if v AND 0x000000ff \<noteq> 0x000000ff then ret + 1 else ret);
                  r2 = (if v AND 0x0000ff00 \<noteq> 0x0000ff00 then r1 + 1 else r1);
                  r3 = (if v AND 0x00ff0000 \<noteq> 0x00ff0000 then r2 + 1 else r2)
              in if v AND 0xff000000 \<noteq> 0xff000000 then r3 + 1 else r3)) 0
       (take (count_words real_map_size) mem)"

text \<open>\<^verbatim>\<open>minimize_bits\<close> works on bytes: bit \<open>i\<close> of the result marks a non-zero byte \<open>i\<close>.\<close>

definition minimize_bits :: "u32 \<Rightarrow> u8 list \<Rightarrow> u8 list \<Rightarrow> u8 list" where
  "minimize_bits map_size dst src =
     fold (\<lambda>i d. if src ! i \<noteq> 0 then d[i div 8 := d ! (i div 8) OR push_bit (i mod 8) 1] else d)
       [0..<unat map_size] dst"

section \<open>Bytes\<close>

lemma bit_get_byte: "bit (get_byte (w :: 'a::len word) i) n \<longleftrightarrow> n < 8 \<and> bit w (8 * i + n)"
  by (auto simp: get_byte_def bit_ucast_iff bit_drop_bit_eq)

lemma get_byte_and: "get_byte (a AND b) i = get_byte a i AND get_byte b i"
  by (simp add: bit_eq_iff bit_get_byte bit_and_iff)

lemma get_byte_or: "get_byte (a OR b) i = get_byte a i OR get_byte b i"
  by (auto simp: bit_eq_iff bit_get_byte bit_or_iff)

lemma get_byte_0 [simp]: "get_byte 0 i = 0"
  by (simp add: get_byte_def)

lemma get_byte_lt:
  fixes w :: u64
  shows "w \<noteq> 0 \<longleftrightarrow> (\<exists>i < 8. get_byte w i \<noteq> 0)"
proof
  assume "w \<noteq> 0"
  then obtain n where n: "bit w n" by (auto simp: bit_eq_iff)
  then have "n < 64" by (auto dest: bit_imp_le_length)
  moreover have "bit (get_byte w (n div 8)) (n mod 8)" using n by (simp add: bit_get_byte)
  ultimately show "\<exists>i < 8. get_byte w i \<noteq> 0"
    by (intro exI [of _ "n div 8"]) (auto intro!: less_mult_imp_div_less)
qed auto

lemma pristine_overlap: "pristine_hit c v \<Longrightarrow> c AND v \<noteq> 0"
proof -
  assume "pristine_hit c v"
  then obtain i where i: "i < 8" "get_byte c i \<noteq> 0" "get_byte v i = 0xff"
    by (auto simp: pristine_hit_def list_ex_iff)
  have m: "(0xff :: u8) = - 1" by simp
  have "get_byte c i AND 0xff = get_byte c i" unfolding m by simp
  then have "get_byte (c AND v) i \<noteq> 0" using i by (simp add: get_byte_and)
  then show ?thesis using i(1) get_byte_lt by blast
qed

section \<open>The classification table\<close>

lemma fold_fun_upd_other: "x \<notin> f ` set xs \<Longrightarrow> fold (\<lambda>i t. t(f i := g i)) xs t x = t x"
  by (induction xs arbitrary: t) auto

lemma fold_fun_upd:
  assumes "inj_on f (set xs)" and "i \<in> set xs"
  shows "fold (\<lambda>i t. t(f i := g i)) xs t (f i) = g i"
  using assms
proof (induction xs arbitrary: t)
  case (Cons y ys)
  show ?case
  proof (cases "i \<in> set ys")
    case True
    then show ?thesis using Cons by (simp add: inj_on_def)
  next
    case False
    then have "i = y" "f i \<notin> f ` set ys" using Cons.prems by (auto simp: inj_on_def)
    then show ?thesis
      using fold_fun_upd_other [of "f i" f ys g] by (simp del: fun_upd_apply add: fun_upd_same)
  qed
qed simp

lemma init_class_row:
  "fold (\<lambda>b1. fold (\<lambda>b2 t. t(256 * b1 + b2 := h b1 b2)) [0..<256]) [0..<n] t (256 * a + b) =
    (if a < n then h a b else t (256 * a + b))" if "b < 256"
proof (induction n)
  case (Suc n)
  have inj: "inj_on (\<lambda>b2. 256 * n + b2) (set [0..<256])" by (simp add: inj_on_def)
  show ?case
  proof (cases "a = n")
    case True
    then show ?thesis
      using that fold_fun_upd [OF inj, of b] by (simp del: fun_upd_apply)
  next
    case False
    then have "256 * a + b \<notin> (\<lambda>b2. 256 * n + b2) ` set [0..<256]"
      using that by auto
    from fold_fun_upd_other [OF this, of "h n"] show ?thesis
      using Suc False by (simp del: fun_upd_apply add: less_Suc_eq)
  qed
qed simp

lemma init_class16:
  assumes "a < 256" and "b < 256"
  shows "init_count_class16 t (256 * a + b) =
    push_bit 8 (ucast (count_class_lookup8 (of_nat a))) OR ucast (count_class_lookup8 (of_nat b))"
  using init_class_row [OF assms(2), of "\<lambda>b1 b2. push_bit 8 (ucast (count_class_lookup8 (of_nat b1)))
      OR ucast (count_class_lookup8 (of_nat b2))" 256 t a] assms(1)
  by (simp add: init_count_class16_def)

lemma unat_get_byte: "unat (get_byte (w :: u64) i) = unat w div 2 ^ (8 * i) mod 256"
  unfolding get_byte_def unsigned_ucast_eq unsigned_drop_bit_eq
  using unsigned_less [of w, where ?'a = nat] by (simp add: take_bit_eq_mod drop_bit_eq_div)

lemma unat_get_half: "unat (get_half w i) = unat w div 2 ^ (16 * i) mod 65536"
  unfolding get_half_def unsigned_ucast_eq unsigned_drop_bit_eq
  using unsigned_less [of w, where ?'a = nat] by (simp add: take_bit_eq_mod drop_bit_eq_div)

lemma half_bytes: "unat (get_half w j) = 256 * unat (get_byte w (2 * j + 1)) + unat (get_byte w (2 * j))"
proof -
  let ?x = "unat w div 2 ^ (16 * j)"
  have "unat w div 2 ^ (8 * (2 * j + 1)) = ?x div 256"
    by (simp add: power_add div_mult2_eq [symmetric] mult.commute)
  then show ?thesis
    using mod_mult2_eq [of ?x 256 256] by (simp add: unat_get_byte unat_get_half)
qed

abbreviation class_table :: "nat \<Rightarrow> u16" where
  "class_table \<equiv> init_count_class16 (\<lambda>_. 0)"

lemma class_table_half:
  "class_table (unat (get_half w j)) =
     push_bit 8 (ucast (count_class_lookup8 (get_byte w (2 * j + 1))))
       OR ucast (count_class_lookup8 (get_byte w (2 * j)))"
proof -
  have b: "unat (get_byte w i) < 256" for i
    using unsigned_less [of "get_byte w i", where ?'a = nat] by simp
  show ?thesis unfolding half_bytes init_class16 [OF b b] by simp
qed

lemma class_half_byte:
  "k < 2 \<Longrightarrow> get_byte (class_table (unat (get_half w j))) k = count_class_lookup8 (get_byte w (2 * j + k))"
  unfolding class_table_half less_2_cases_iff
  by (elim disjE; simp, rule bit_word_eqI)
    (auto simp: bit_get_byte bit_or_iff bit_push_bit_iff bit_ucast_iff dest: bit_imp_le_length)

lemma bit_of_halves:
  "bit (of_halves a b c d) n \<longleftrightarrow>
     (if n < 16 then bit a n else if n < 32 then bit b (n - 16)
      else if n < 48 then bit c (n - 32) else bit d (n - 48))"
  by (auto simp: of_halves_def bit_or_iff bit_push_bit_iff bit_ucast_iff dest: bit_imp_le_length)

lemma get_byte_of_halves:
  assumes "j < 4" and "k < 2"
  shows "get_byte (of_halves a b c d) (2 * j + k) = get_byte ([a, b, c, d] ! j) k"
proof -
  have "j = 0 \<or> j = 1 \<or> j = 2 \<or> j = 3" "k = 0 \<or> k = 1" using assms by auto
  then show ?thesis
    by (elim disjE; simp; intro bit_word_eqI)
      (simp_all add: bit_get_byte bit_of_halves)
qed

lemma classify_word_byte:
  assumes "i < 8"
  shows "get_byte (classify_word class_table w) i = count_class_lookup8 (get_byte w i)"
proof -
  obtain j k where i: "i = 2 * j + k" "j < 4" "k < 2"
  proof
    show "i = 2 * (i div 2) + i mod 2" by simp
  qed (use assms in auto)
  have "j = 0 \<or> j = 1 \<or> j = 2 \<or> j = 3" using i(2) by auto
  then have "[class_table (unat (get_half w 0)), class_table (unat (get_half w 1)),
      class_table (unat (get_half w 2)), class_table (unat (get_half w 3))] ! j =
    class_table (unat (get_half w j))" by auto
  then show ?thesis
    unfolding i(1) classify_word_def get_byte_of_halves [OF i(2,3)] by (simp only: class_half_byte [OF i(3)])
qed

lemma get_byte_ext: "(\<And>i. i < 8 \<Longrightarrow> get_byte (a :: u64) i = get_byte b i) \<Longrightarrow> a = b"
proof (rule bit_word_eqI)
  fix n assume eq: "\<And>i. i < 8 \<Longrightarrow> get_byte a i = get_byte b i" and "n < LENGTH(64)"
  then have "n div 8 < 8" by (auto intro: less_mult_imp_div_less)
  from eq [OF this] have "bit (get_byte a (n div 8)) (n mod 8) = bit (get_byte b (n div 8)) (n mod 8)" by simp
  then show "bit a n = bit b n" by (simp add: bit_get_byte)
qed

lemma classify_word_0 [simp]: "classify_word class_table 0 = 0"
  by (rule get_byte_ext) (simp add: classify_word_byte count_class_lookup8_def)

lemma classify_counts_eq:
  "classify_counts class_table map_size mem =
     map (classify_word class_table) (take (unat (drop_bit 3 map_size)) mem) @
     drop (unat (drop_bit 3 map_size)) mem"
  by (auto simp: classify_counts_def Let_def)

section \<open>The discovery loop\<close>

definition new_class :: "u64 list \<Rightarrow> u64 list \<Rightarrow> u8" where
  "new_class cs vs =
     (if list_ex (\<lambda>(c, v). pristine_hit c v) (zip cs vs) then 2
      else if list_ex (\<lambda>(c, v). c AND v \<noteq> 0) (zip cs vs) then 1 else 0)"

lemma pristine_0 [simp]: "\<not> pristine_hit 0 v"
  by (simp add: pristine_hit_def list_ex_iff)

lemma discover_skip_zero:
  "(if c \<noteq> 0 then discover_word ret c v else (ret, v)) = discover_word ret c v"
  by (simp add: discover_word_def)

lemma discover_word_spec:
  assumes "ret \<in> {0, 1, 2}"
  shows "discover_word ret c v = (max ret (new_class [c] [v]), v AND NOT c)"
proof (cases "c AND v = 0")
  case True
  have "v AND NOT c = v"
    using True by (auto simp: bit_eq_iff bit_and_iff bit_not_iff dest: bit_imp_le_length)
  then show ?thesis
    using True pristine_overlap [of c v] by (auto simp: discover_word_def new_class_def)
next
  case False
  then show ?thesis
    using assms pristine_overlap [of c v] by (auto simp: discover_word_def new_class_def max_def word_le_nat_alt word_less_nat_alt)
qed

lemma new_class_in: "new_class cs vs \<in> {0, 1, 2}"
  by (simp add: new_class_def)

lemma new_class_Cons: "new_class (c # cs) (v # vs) = max (new_class [c] [v]) (new_class cs vs)"
  by (auto simp: new_class_def max_def word_le_nat_alt)

lemma new_bits_loop_spec:
  assumes "ret \<in> {0, 1, 2}" and "n \<le> length cs" and "n \<le> length vs"
  shows "new_bits_loop n ret cs vs =
    (max ret (new_class (take n cs) (take n vs)),
     map2 (\<lambda>c v. v AND NOT c) (take n cs) (take n vs) @ drop n vs)"
  using assms
proof (induction n arbitrary: ret cs vs)
  case (Suc i)
  then obtain c cs' v vs' where l: "cs = c # cs'" "vs = v # vs'"
    by (metis Suc_le_length_iff)
  have m: "max ret (new_class [c] [v]) \<in> {0, 1, 2}"
    using Suc.prems(1) new_class_in [of "[c]" "[v]"] by (auto simp: max_def)
  have "i \<le> length cs'" "i \<le> length vs'" using Suc.prems l by simp_all
  from Suc.IH [OF m this] show ?case
    unfolding l new_bits_loop.simps discover_skip_zero
    unfolding discover_word_spec [OF Suc.prems(1)]
    by (simp add: Let_def new_class_Cons [of c "take i cs'"] max.assoc)
qed (simp add: new_class_def)

section \<open>The byte view of a map\<close>

definition map_byte :: "u64 list \<Rightarrow> nat \<Rightarrow> u8" where
  "map_byte ws p = get_byte (ws ! (p div 8)) (p mod 8)"

lemma ex_words_bytes:
  "(\<exists>k < n. \<exists>i < 8. P k i) \<longleftrightarrow> (\<exists>p < 8 * n. P (p div 8) (p mod 8))" for P :: "nat \<Rightarrow> nat \<Rightarrow> bool"
proof
  assume "\<exists>k < n. \<exists>i < 8. P k i"
  then obtain k i where "k < n" "i < 8" "P k i" by blast
  then show "\<exists>p < 8 * n. P (p div 8) (p mod 8)"
    by (intro exI [of _ "8 * k + i"]) simp
next
  assume "\<exists>p < 8 * n. P (p div 8) (p mod 8)"
  then obtain p where "p < 8 * n" "P (p div 8) (p mod 8)" by blast
  then show "\<exists>k < n. \<exists>i < 8. P k i"
    by (intro exI [of _ "p div 8"] conjI exI [of _ "p mod 8"]) auto
qed

lemma list_ex_zip_take:
  assumes "n \<le> length cs" and "n \<le> length vs"
  shows "list_ex (\<lambda>(c, v). P c v) (zip (take n cs) (take n vs)) \<longleftrightarrow> (\<exists>k < n. P (cs ! k) (vs ! k))"
  using assms by (auto simp: list_ex_length)

lemma pristine_iff: "pristine_hit c v \<longleftrightarrow> (\<exists>i < 8. get_byte c i \<noteq> 0 \<and> get_byte v i = 0xff)"
  by (auto simp: pristine_hit_def list_ex_iff)

lemma pristine_bytes:
  assumes "n \<le> length cs" and "n \<le> length vs"
  shows "list_ex (\<lambda>(c, v). pristine_hit c v) (zip (take n cs) (take n vs)) \<longleftrightarrow>
    (\<exists>p < 8 * n. map_byte cs p \<noteq> 0 \<and> map_byte vs p = 0xff)"
  unfolding list_ex_zip_take [OF assms] map_byte_def pristine_iff
  by (rule ex_words_bytes)

lemma overlap_bytes:
  assumes "n \<le> length cs" and "n \<le> length vs"
  shows "list_ex (\<lambda>(c, v). c AND v \<noteq> 0) (zip (take n cs) (take n vs)) \<longleftrightarrow>
    (\<exists>p < 8 * n. map_byte cs p AND map_byte vs p \<noteq> 0)"
  unfolding list_ex_zip_take [OF assms] map_byte_def get_byte_lt get_byte_and
  by (rule ex_words_bytes)

lemma get_byte_and_not: "i < 8 \<Longrightarrow> get_byte (v AND NOT c :: u64) i = get_byte v i AND NOT (get_byte c i)"
  by (rule bit_word_eqI) (auto simp: bit_get_byte bit_and_iff bit_not_iff)

lemma cleared_bytes:
  assumes "n \<le> length cs" and "n \<le> length vs" and "p < 8 * length vs"
  shows "map_byte (map2 (\<lambda>c v. v AND NOT c) (take n cs) (take n vs) @ drop n vs) p =
    (if p < 8 * n then map_byte vs p AND NOT (map_byte cs p) else map_byte vs p)"
proof -
  have "p < 8 * n \<longleftrightarrow> p div 8 < n" by auto
  then show ?thesis using assms by (auto simp: map_byte_def nth_append get_byte_and_not)
qed

text \<open>The number of words \<^verbatim>\<open>has_new_bits\<close> looks at.\<close>

definition cov_words :: "u32 \<Rightarrow> nat" where
  "cov_words real_map_size = unat (drop_bit 3 (real_map_size + 7))"

definition maps_cover :: "nat \<Rightarrow> cov_state \<Rightarrow> bool" where
  "maps_cover n s \<longleftrightarrow> n \<le> length (trace_bits s) \<and> n \<le> length (virgin_map s)"

lemma has_new_bits_eq:
  assumes "maps_cover (cov_words r) s"
  shows "has_new_bits r main s =
    (let n = cov_words r; ret = new_class (take n (trace_bits s)) (take n (virgin_map s))
     in (ret, s\<lparr> virgin_map := map2 (\<lambda>c v. v AND NOT c) (take n (trace_bits s)) (take n (virgin_map s)) @
                  drop n (virgin_map s),
                 bitmap_changed := (if ret \<noteq> 0 \<and> main then True else bitmap_changed s) \<rparr>))"
  using assms new_bits_loop_spec [of 0 "cov_words r" "trace_bits s" "virgin_map s"]
  by (simp add: has_new_bits_def maps_cover_def cov_words_def Let_def max_def)

lemma ex_four:
  fixes i n :: nat
  assumes "i + 4 \<le> n"
  shows "(\<exists>k. i \<le> k \<and> k < n \<and> P k) \<longleftrightarrow>
    P i \<or> P (i + 1) \<or> P (i + 2) \<or> P (i + 3) \<or> (\<exists>k. i + 4 \<le> k \<and> k < n \<and> P k)"
proof -
  have "i \<le> k \<longleftrightarrow> k = i \<or> k = i + 1 \<or> k = i + 2 \<or> k = i + 3 \<or> i + 4 \<le> k" for k by auto
  then have "(\<exists>k. i \<le> k \<and> k < n \<and> P k) \<longleftrightarrow>
      (\<exists>k. (k = i \<or> k = i + 1 \<or> k = i + 2 \<or> k = i + 3 \<or> i + 4 \<le> k) \<and> k < n \<and> P k)" by simp
  also have "\<dots> \<longleftrightarrow> (i < n \<and> P i) \<or> (i + 1 < n \<and> P (i + 1)) \<or> (i + 2 < n \<and> P (i + 2)) \<or>
      (i + 3 < n \<and> P (i + 3)) \<or> (\<exists>k. i + 4 \<le> k \<and> k < n \<and> P k)" by blast
  finally show ?thesis using assms by simp
qed

lemma skim_iff:
  assumes "4 dvd n" and "4 dvd i"
  shows "skim t v c n i \<longleftrightarrow>
    (\<exists>k. i \<le> k \<and> k < n \<and> c ! k \<noteq> 0 \<and> classify_word t (c ! k) AND v ! k \<noteq> 0)"
  using assms(2)
proof (induction "n - i" arbitrary: i rule: less_induct)
  case less
  let ?P = "\<lambda>k. c ! k \<noteq> 0 \<and> classify_word t (c ! k) AND v ! k \<noteq> 0"
  show ?case
  proof (cases "i < n")
    case True
    then have le: "i + 4 \<le> n" using assms(1) less.prems by (auto elim!: dvdE)
    have ih: "skim t v c n (i + 4) \<longleftrightarrow> (\<exists>k. i + 4 \<le> k \<and> k < n \<and> ?P k)"
      using less.prems True by (intro less.hyps) auto
    have "(\<exists>k. i \<le> k \<and> k < n \<and> ?P k) \<longleftrightarrow>
        ?P i \<or> ?P (i + 1) \<or> ?P (i + 2) \<or> ?P (i + 3) \<or> (\<exists>k. i + 4 \<le> k \<and> k < n \<and> ?P k)"
      by (rule ex_four [OF le])
    also have "\<dots> \<longleftrightarrow> skim t v c n i"
      unfolding skim.simps [of t v c n i] ih [symmetric] using True by (simp only: if_True) argo
    finally show ?thesis by (rule sym)
  qed (subst skim.simps, auto)
qed

lemma new_class_cleared: "new_class cs (map2 (\<lambda>c v. v AND NOT c) cs vs) = 0"
proof -
  have z: "c AND (v AND NOT c) = 0" for c v :: u64
    by (auto simp: bit_eq_iff bit_and_iff bit_not_iff)
  have "\<not> pristine_hit c (v AND NOT c)" for c v using pristine_overlap [of c "v AND NOT c"] z by blast
  then show ?thesis
    by (induction cs vs rule: list_induct2') (auto simp: new_class_def z split: if_splits)
qed

lemma cleared_twice:
  "map2 (\<lambda>c v. v AND NOT c) cs (map2 (\<lambda>c v. v AND NOT c) cs vs) = map2 (\<lambda>c v. v AND NOT c) cs vs"
  by (induction cs vs rule: list_induct2') (simp_all add: and.assoc)

section \<open>Properties\<close>

text \<open>
  C24. What \<^verbatim>\<open>has_new_bits\<close> reports, in terms of bytes: 2 exactly when some hit byte of the
  trace was pristine in the virgin map, at least 1 exactly when some bit of the trace was still
  set in the virgin map. It clears exactly the bits of the trace from the virgin map, and a
  second call on the same trace reports nothing and changes nothing in the virgin map.
\<close>

theorem has_new_bits_correct:
  assumes "maps_cover (cov_words r) s" and "has_new_bits r main s = (ret, s')"
  shows "(ret = 2 \<longleftrightarrow> (\<exists>p < 8 * cov_words r. map_byte (trace_bits s) p \<noteq> 0 \<and> map_byte (virgin_map s) p = 0xff)) \<and>
    (ret \<noteq> 0 \<longleftrightarrow> (\<exists>p < 8 * cov_words r. map_byte (trace_bits s) p AND map_byte (virgin_map s) p \<noteq> 0)) \<and>
    (\<forall>p. p < 8 * length (virgin_map s) \<longrightarrow> map_byte (virgin_map s') p =
        (if p < 8 * cov_words r then map_byte (virgin_map s) p AND NOT (map_byte (trace_bits s) p)
         else map_byte (virgin_map s) p)) \<and>
    has_new_bits r main s' = (0, s')"
proof -
  let ?n = "cov_words r" and ?c = "trace_bits s" and ?v = "virgin_map s"
  have n: "?n \<le> length ?c" "?n \<le> length ?v" using assms(1) by (auto simp: maps_cover_def)
  have ret: "ret = new_class (take ?n ?c) (take ?n ?v)"
    and s': "trace_bits s' = ?c" "virgin_map s' = map2 (\<lambda>c v. v AND NOT c) (take ?n ?c) (take ?n ?v) @ drop ?n ?v"
    using assms(2) unfolding has_new_bits_eq [OF assms(1)] by (auto simp: Let_def)
  have two: "ret = 2 \<longleftrightarrow> (\<exists>p < 8 * ?n. map_byte ?c p \<noteq> 0 \<and> map_byte ?v p = 0xff)"
    unfolding ret new_class_def pristine_bytes [OF n] by auto
  have some: "ret \<noteq> 0 \<longleftrightarrow> (\<exists>p < 8 * ?n. map_byte ?c p AND map_byte ?v p \<noteq> 0)"
  proof -
    have "list_ex (\<lambda>(c, v). c AND v \<noteq> 0) (zip (take ?n ?c) (take ?n ?v))"
      if "list_ex (\<lambda>(c, v). pristine_hit c v) (zip (take ?n ?c) (take ?n ?v))"
      using that pristine_overlap by (auto simp: list_ex_iff)
    then show ?thesis unfolding ret new_class_def overlap_bytes [OF n, symmetric] by auto
  qed
  have cleared: "map_byte (virgin_map s') p = (if p < 8 * ?n then map_byte ?v p AND NOT (map_byte ?c p)
      else map_byte ?v p)" if "p < 8 * length ?v" for p
    unfolding s' using cleared_bytes [OF n that] .
  have cover': "maps_cover ?n s'" using n s' by (simp add: maps_cover_def)
  have again: "new_class (take ?n ?c) (take ?n (virgin_map s')) = 0"
    using new_class_cleared [of "take ?n ?c" "take ?n ?v"] n unfolding s' by simp
  have "has_new_bits r main s' = (0, s')"
    unfolding has_new_bits_eq [OF cover'] s'(1) Let_def again
    using cleared_twice [of "take ?n ?c" "take ?n ?v"] n s' by simp
  then show ?thesis using two some cleared by blast
qed

definition demo_cov :: cov_state where
  "demo_cov = \<lparr> trace_bits = [0x0100], virgin_map = [0xffffffffffffffff], bitmap_changed = False \<rparr>"

theorem has_new_bits_correct_witness:
  "fst (has_new_bits 8 True demo_cov) = 2 \<and>
   fst (has_new_bits 8 True (snd (has_new_bits 8 True demo_cov))) = 0"
proof -
  have c: "cov_words 8 = 1" by (simp add: cov_words_def)
  have "maps_cover (cov_words 8) demo_cov" by (simp add: c maps_cover_def demo_cov_def)
  from has_new_bits_correct [OF this prod.collapse [symmetric], of True]
  have "fst (has_new_bits 8 True demo_cov) = 2 \<longleftrightarrow>
      (\<exists>p < 8. map_byte [0x0100] p \<noteq> 0 \<and> map_byte [0xffffffffffffffff] p = 0xff)"
    and "has_new_bits 8 True (snd (has_new_bits 8 True demo_cov)) = (0, snd (has_new_bits 8 True demo_cov))"
    by (simp_all add: c demo_cov_def)
  moreover have "map_byte [0x0100] 1 \<noteq> 0 \<and> map_byte [0xffffffffffffffff] 1 = 0xff"
    by (simp add: map_byte_def get_byte_def)
  then have "\<exists>p < 8. map_byte [0x0100] p \<noteq> 0 \<and> map_byte [0xffffffffffffffff] p = 0xff"
    by (intro exI [of _ 1]) simp
  ultimately show ?thesis by simp
qed

text \<open>
  C25. The fast path agrees with the slow one: when the trace is zero past the words that
  \<^verbatim>\<open>has_new_bits\<close> looks at, \<^verbatim>\<open>has_new_bits_unclassified\<close> reports what classifying first and
  then calling \<^verbatim>\<open>has_new_bits\<close> reports and leaves the same virgin map; it keeps the trace as it
  is when it reports nothing and classifies it otherwise.
\<close>

theorem has_new_bits_unclassified_equiv:
  assumes "N = unat (drop_bit 3 map_size)" and "4 dvd N" and "cov_words r \<le> N"
    and "maps_cover N s"
    and "list_all (\<lambda>w. w = 0) (drop (cov_words r) (take N (trace_bits s)))"
    and "has_new_bits r main (s\<lparr> trace_bits := classify_counts class_table map_size (trace_bits s) \<rparr>) = (ret, s1)"
  shows "has_new_bits_unclassified class_table map_size r main classified s =
    (if ret = 0 then (0, classified, s) else (ret, True, s1))"
proof -
  let ?c = "trace_bits s" and ?v = "virgin_map s" and ?n = "cov_words r"
  let ?s = "s\<lparr> trace_bits := classify_counts class_table map_size ?c \<rparr>"
  have len: "N \<le> length ?c" "N \<le> length ?v" using assms(4) by (auto simp: maps_cover_def)
  have tr: "classify_counts class_table map_size ?c = map (classify_word class_table) (take N ?c) @ drop N ?c"
    by (simp add: classify_counts_eq assms(1))
  have cover: "maps_cover ?n ?s" using assms(3) len by (simp add: maps_cover_def tr)
  have at: "classify_counts class_table map_size ?c ! k = classify_word class_table (?c ! k)" if "k < N" for k
    using that len by (simp add: tr nth_append)
  have zero: "?c ! k = 0" if "?n \<le> k" "k < N" for k
  proof -
    have "\<forall>j < N - ?n. ?c ! (?n + j) = 0" using assms(5) len by (simp add: list_all_length)
    then show ?thesis using that by (auto dest: spec [of _ "k - ?n"])
  qed
  have ret: "ret = new_class (take ?n (trace_bits ?s)) (take ?n ?v)"
    using assms(6) unfolding has_new_bits_eq [OF cover] by (simp add: Let_def)
  have "ret \<noteq> 0 \<longleftrightarrow> list_ex (\<lambda>(c, v). c AND v \<noteq> 0) (zip (take ?n (trace_bits ?s)) (take ?n ?v))"
    using pristine_overlap by (force simp: ret new_class_def list_ex_iff)
  also have "\<dots> \<longleftrightarrow> (\<exists>k < ?n. trace_bits ?s ! k AND ?v ! k \<noteq> 0)"
    using cover by (intro list_ex_zip_take) (auto simp: maps_cover_def)
  also have "\<dots> \<longleftrightarrow> (\<exists>k < N. ?c ! k \<noteq> 0 \<and> classify_word class_table (?c ! k) AND ?v ! k \<noteq> 0)"
  proof
    assume "\<exists>k < ?n. trace_bits ?s ! k AND ?v ! k \<noteq> 0"
    then obtain k where k: "k < ?n" "trace_bits ?s ! k AND ?v ! k \<noteq> 0" by blast
    then have c: "classify_word class_table (?c ! k) AND ?v ! k \<noteq> 0" using at [of k] assms(3) by simp
    then have "?c ! k \<noteq> 0" by (metis classify_word_0 zero_and_eq)
    then show "\<exists>k < N. ?c ! k \<noteq> 0 \<and> classify_word class_table (?c ! k) AND ?v ! k \<noteq> 0"
      using c k(1) assms(3) by (intro exI [of _ k]) simp
  next
    assume "\<exists>k < N. ?c ! k \<noteq> 0 \<and> classify_word class_table (?c ! k) AND ?v ! k \<noteq> 0"
    then obtain k where k: "k < N" "?c ! k \<noteq> 0" "classify_word class_table (?c ! k) AND ?v ! k \<noteq> 0" by blast
    then have "k < ?n" using zero [of k] by force
    then show "\<exists>k < ?n. trace_bits ?s ! k AND ?v ! k \<noteq> 0"
      using k at [OF k(1)] by (intro exI [of _ k]) simp
  qed
  finally have sk: "skim class_table ?v ?c N 0 \<longleftrightarrow> ret \<noteq> 0"
    using skim_iff [OF assms(2), of 0] by simp
  show ?thesis
    using sk assms(6) by (simp add: has_new_bits_unclassified_def assms(1) [symmetric])
qed

theorem has_new_bits_unclassified_equiv_witness:
  "has_new_bits_unclassified class_table 32 32 True False
     \<lparr> trace_bits = [0, 0, 0, 0], virgin_map = [1, 2, 3, 4], bitmap_changed = False \<rparr> =
   (0, False, \<lparr> trace_bits = [0, 0, 0, 0], virgin_map = [1, 2, 3, 4], bitmap_changed = False \<rparr>)"
proof -
  let ?s = "\<lparr> trace_bits = [0, 0, 0, 0], virgin_map = [1, 2, 3, 4], bitmap_changed = False \<rparr>"
  have c: "cov_words 32 = 4" by (simp add: cov_words_def)
  have t: "classify_counts class_table 32 [0, 0, 0, 0] = [0, 0, 0, 0]"
    by (simp add: classify_counts_eq)
  obtain s1 where h: "has_new_bits 32 True ?s = (0, s1)"
    by (simp add: has_new_bits_eq c maps_cover_def Let_def new_class_def pristine_0)
  show ?thesis
    using has_new_bits_unclassified_equiv [of 4 32 32 ?s True 0 s1 False] h
    by (simp add: c t maps_cover_def)
qed

lemma bit_of_bytes_nat:
  "get_byte (foldr (\<lambda>b w. ucast b OR push_bit 8 w) bs (0 :: u64)) i = (if i < length bs then bs ! i else 0)"
  if "i < 8"
  using that
proof (induction bs arbitrary: i)
  case (Cons b bs)
  show ?case
  proof (cases i)
    case 0
    have "get_byte (ucast b OR push_bit 8 (w :: u64)) 0 = b" for w
      by (rule bit_word_eqI) (auto simp: bit_get_byte bit_or_iff bit_push_bit_iff bit_ucast_iff)
    then show ?thesis using 0 by simp
  next
    case (Suc k)
    have "get_byte (ucast b OR push_bit 8 (w :: u64)) (Suc k) = get_byte w k" for w
      using Cons.prems Suc
      by (intro bit_word_eqI) (auto simp: bit_get_byte bit_or_iff bit_push_bit_iff bit_ucast_iff
          dest: bit_imp_le_length)
    then show ?thesis using Cons Suc by simp
  qed
qed simp

lemma simplify_word_byte:
  assumes "i < 8"
  shows "get_byte (if w \<noteq> 0 then of_bytes (map (\<lambda>j. simplify_lookup (get_byte w j)) [0..<8])
      else 0x0101010101010101) i = simplify_lookup (get_byte w i)"
proof (cases "w = 0")
  case True
  have "i = 0 \<or> i = 1 \<or> i = 2 \<or> i = 3 \<or> i = 4 \<or> i = 5 \<or> i = 6 \<or> i = 7" using assms by auto
  then have "get_byte (0x0101010101010101 :: u64) i = 1" by (auto simp: get_byte_def)
  then show ?thesis using True by (simp add: simplify_lookup_def)
next
  case False
  then show ?thesis using bit_of_bytes_nat [OF assms, of "map (\<lambda>j. simplify_lookup (get_byte w j)) [0..<8]"] assms
    by (simp add: of_bytes_def del: upt_Suc)
qed

lemma map_byte_take_map:
  assumes "\<And>w i. i < 8 \<Longrightarrow> get_byte (f w) i = g (get_byte w i)" and "p < 8 * length ws"
  shows "map_byte (map f (take n ws) @ drop n ws) p = (if p div 8 < n then g (map_byte ws p) else map_byte ws p)"
  using assms by (auto simp: map_byte_def nth_append less_mult_imp_div_less mult.commute)

text \<open>
  Hit counts are put into buckets byte by byte: the 16-bit table that
  \<^verbatim>\<open>init_count_class16\<close> builds makes \<^verbatim>\<open>classify_counts\<close> replace every byte of the trace by its
  8-bit class, and \<^verbatim>\<open>simplify_trace\<close> replaces every byte by 1 or 128; bytes past the map size
  are left alone.
\<close>

theorem trace_bytes_classified:
  assumes "p < 8 * length mem"
  shows "map_byte (classify_counts class_table map_size mem) p =
      (if p div 8 < unat map_size div 8 then count_class_lookup8 (map_byte mem p) else map_byte mem p) \<and>
    map_byte (simplify_trace map_size mem) p =
      (if p div 8 < unat map_size div 8 then simplify_lookup (map_byte mem p) else map_byte mem p)"
proof -
  have d: "unat (drop_bit 3 map_size) = unat map_size div 8"
    by (simp add: drop_bit_eq_div unat_div_distrib)
  show ?thesis
    unfolding classify_counts_eq simplify_trace_def Let_def d
    by (intro conjI map_byte_take_map assms) (rule classify_word_byte simplify_word_byte; assumption)+
qed

theorem trace_bytes_classified_witness:
  "map_byte (classify_counts class_table 8 [0x05]) 0 = 8 \<and> map_byte (simplify_trace 8 [0x05]) 0 = 128"
  using trace_bytes_classified [of 0 "[0x05]" 8]
  by (simp add: map_byte_def get_byte_def count_class_lookup8_def simplify_lookup_def)

section \<open>Counting\<close>

definition word_bytes :: "u32 \<Rightarrow> u8 list" where
  "word_bytes v = [get_byte v 0, get_byte v 1, get_byte v 2, get_byte v 3]"

definition count_if :: "('a \<Rightarrow> bool) \<Rightarrow> 'a list \<Rightarrow> nat" where
  "count_if P xs = length (filter P xs)"

lemma count_if_append: "count_if P (xs @ ys) = count_if P xs + count_if P ys"
  by (simp add: count_if_def)

lemma foldl_count:
  assumes "\<And>ret v. f ret v = ret + of_nat (g v)"
  shows "foldl f r vs = r + (of_nat (sum_list (map g vs)) :: u32)"
  using assms by (induction vs arbitrary: r) (simp_all add: algebra_simps)

lemma sum_count_concat: "sum_list (map (\<lambda>v. count_if P (f v)) vs) = count_if P (concat (map f vs))"
  by (induction vs) (simp_all add: count_if_append, simp add: count_if_def)

lemma and_mask_byte:
  fixes v :: u32
  assumes "i < 4"
  shows "v AND push_bit (8 * i) 0xff = push_bit (8 * i) (ucast (get_byte v i))"
proof (rule bit_word_eqI)
  have m: "(0xff :: u32) = mask 8" by (simp add: mask_eq_exp_minus_1)
  fix n assume "n < LENGTH(32)"
  then show "bit (v AND push_bit (8 * i) 0xff) n = bit (push_bit (8 * i) (ucast (get_byte v i) :: u32)) n"
    unfolding m
    by (auto simp: bit_and_iff bit_push_bit_iff bit_mask_iff bit_ucast_iff bit_get_byte)
qed

lemma push_byte_eq:
  assumes "i < 4"
  shows "push_bit (8 * i) (ucast (b :: u8)) = (push_bit (8 * i) (ucast (c :: u8)) :: u32) \<longleftrightarrow> b = c"
proof
  assume eq: "push_bit (8 * i) (ucast b) = (push_bit (8 * i) (ucast c) :: u32)"
  show "b = c"
  proof (rule bit_word_eqI)
    fix n assume "n < LENGTH(8)"
    with assms arg_cong [OF eq, of "\<lambda>w. bit w (8 * i + n)"] show "bit b n = bit c n"
      by (auto simp: bit_push_bit_iff bit_ucast_iff)
  qed
qed simp

lemma byte_tests:
  fixes v :: u32
  shows "v AND 0x000000ff = 0 \<longleftrightarrow> get_byte v 0 = 0" "v AND 0x0000ff00 = 0 \<longleftrightarrow> get_byte v 1 = 0"
    "v AND 0x00ff0000 = 0 \<longleftrightarrow> get_byte v 2 = 0" "v AND 0xff000000 = 0 \<longleftrightarrow> get_byte v 3 = 0"
    "v AND 0x000000ff = 0x000000ff \<longleftrightarrow> get_byte v 0 = 255" "v AND 0x0000ff00 = 0x0000ff00 \<longleftrightarrow> get_byte v 1 = 255"
    "v AND 0x00ff0000 = 0x00ff0000 \<longleftrightarrow> get_byte v 2 = 255" "v AND 0xff000000 = 0xff000000 \<longleftrightarrow> get_byte v 3 = 255"
  using and_mask_byte [of 0 v] and_mask_byte [of 1 v] and_mask_byte [of 2 v] and_mask_byte [of 3 v]
    push_byte_eq [of 0 "get_byte v 0" 0] push_byte_eq [of 1 "get_byte v 1" 0]
    push_byte_eq [of 2 "get_byte v 2" 0] push_byte_eq [of 3 "get_byte v 3" 0]
    push_byte_eq [of 0 "get_byte v 0" 255] push_byte_eq [of 1 "get_byte v 1" 255]
    push_byte_eq [of 2 "get_byte v 2" 255] push_byte_eq [of 3 "get_byte v 3" 255]
  by simp_all

lemma nonzero_bytes:
  "count_if (\<lambda>b. b \<noteq> 0) (word_bytes v) =
     of_bool (get_byte v 0 \<noteq> 0) + of_bool (get_byte v 1 \<noteq> 0) + of_bool (get_byte v 2 \<noteq> 0) +
     of_bool (get_byte v 3 \<noteq> 0)"
  by (simp add: count_if_def word_bytes_def)

lemma non_255_bytes:
  "count_if (\<lambda>b. b \<noteq> 255) (word_bytes v) =
     of_bool (get_byte v 0 \<noteq> 255) + of_bool (get_byte v 1 \<noteq> 255) + of_bool (get_byte v 2 \<noteq> 255) +
     of_bool (get_byte v 3 \<noteq> 255)"
  by (simp add: count_if_def word_bytes_def)

lemma get_byte_full: "i < 4 \<Longrightarrow> get_byte (0xffffffff :: u32) i = 255"
proof -
  assume "i < 4"
  then have "i = 0 \<or> i = 1 \<or> i = 2 \<or> i = 3" by auto
  then show ?thesis by (auto simp: get_byte_def)
qed

lemma popcount_full: "popcount 0xffffffff = 32"
proof -
  have "(0xffffffff :: u32) = - 1" by simp
  then have "popcount 0xffffffff = length (filter (bit (- 1 :: u32)) [0..<32])" by (simp only: popcount_def)
  also have "filter (bit (- 1 :: u32)) [0..<32] = [0..<32]" by (rule filter_True) simp
  finally show ?thesis by simp
qed

text \<open>
  The three counters count: the loops over 32-bit words return, modulo the width of the
  counter, the number of set bits, of non-zero bytes and of bytes other than 255 of the words
  they visit, the shortcuts for the common word values included.
\<close>

theorem bitmap_counters:
  "count_bits r mem = of_nat (sum_list (map popcount (take (count_words r) mem))) \<and>
   count_bytes r mem = of_nat (count_if (\<lambda>b. b \<noteq> 0) (concat (map word_bytes (take (count_words r) mem)))) \<and>
   count_non_255_bytes r mem =
     of_nat (count_if (\<lambda>b. b \<noteq> 255) (concat (map word_bytes (take (count_words r) mem))))"
proof (intro conjI)
  show "count_bits r mem = of_nat (sum_list (map popcount (take (count_words r) mem)))"
    unfolding count_bits_def by (subst foldl_count [where g = popcount]) (simp_all add: popcount_full)
  show "count_bytes r mem = of_nat (count_if (\<lambda>b. b \<noteq> 0) (concat (map word_bytes (take (count_words r) mem))))"
    unfolding count_bytes_def sum_count_concat [symmetric]
    by (subst foldl_count [where g = "\<lambda>v. count_if (\<lambda>b. b \<noteq> 0) (word_bytes v)"])
      (auto simp: byte_tests nonzero_bytes Let_def)
  show "count_non_255_bytes r mem =
      of_nat (count_if (\<lambda>b. b \<noteq> 255) (concat (map word_bytes (take (count_words r) mem))))"
    unfolding count_non_255_bytes_def sum_count_concat [symmetric]
    by (subst foldl_count [where g = "\<lambda>v. count_if (\<lambda>b. b \<noteq> 255) (word_bytes v)"])
      (auto simp: byte_tests non_255_bytes Let_def get_byte_full)
qed

lemma bit_or_exp: "k < 8 \<Longrightarrow> bit (b OR 2 ^ k :: u8) j \<longleftrightarrow> bit b j \<or> j = k"
  by (auto simp: bit_or_iff bit_exp_iff)

definition minimize_step :: "u8 list \<Rightarrow> nat \<Rightarrow> u8 list \<Rightarrow> u8 list" where
  "minimize_step src i d =
     (if src ! i \<noteq> 0 then d[i div 8 := d ! (i div 8) OR push_bit (i mod 8) 1] else d)"

lemma minimize_loop:
  assumes "n \<le> 8 * length dst" and "i < 8 * length dst"
  shows "length (fold (minimize_step src) [0..<n] dst) = length dst \<and>
    (bit (fold (minimize_step src) [0..<n] dst ! (i div 8)) (i mod 8) \<longleftrightarrow>
      bit (dst ! (i div 8)) (i mod 8) \<or> i < n \<and> src ! i \<noteq> 0)"
  using assms(1)
proof (induction n)
  case (Suc n)
  have n: "n div 8 < length dst" using Suc.prems by auto
  have e: "i div 8 = n div 8 \<and> i mod 8 = n mod 8 \<longleftrightarrow> i = n"
    by (metis mult_div_mod_eq)
  show ?case
    using Suc n e
    by (auto simp: minimize_step_def nth_list_update bit_or_exp less_Suc_eq)
qed simp

text \<open>
  \<^verbatim>\<open>minimize_bits\<close> packs the trace: bit \<open>i\<close> of the result is set exactly when it was set
  before or byte \<open>i\<close> of the trace is non-zero.
\<close>

theorem minimize_bits_correct:
  assumes "unat map_size \<le> 8 * length dst" and "i < 8 * length dst"
  shows "bit (minimize_bits map_size dst src ! (i div 8)) (i mod 8) \<longleftrightarrow>
    bit (dst ! (i div 8)) (i mod 8) \<or> i < unat map_size \<and> src ! i \<noteq> 0"
  using minimize_loop [OF assms] by (simp add: minimize_bits_def minimize_step_def [abs_def])

theorem minimize_bits_correct_witness:
  "bit (minimize_bits 2 [0] [0, 3] ! 0) 1 \<and> \<not> bit (minimize_bits 2 [0] [0, 3] ! 0) 0"
  using minimize_bits_correct [of 2 "[0]" 1 "[0, 3]"] minimize_bits_correct [of 2 "[0]" 0 "[0, 3]"]
  by simp

end
