(* ===== verification/Afl_Queue.thy ===== *)
theory Afl_Queue
  imports Afl_Bitmap "HOL-Library.Multiset"
begin

text \<open>
  The entries of the queue and the best one for every byte of the map: \<^verbatim>\<open>update_bitmap_score\<close>,
  \<^verbatim>\<open>update_bitmap_rescore\<close>, \<^verbatim>\<open>recalculate_all_scores\<close> and \<^verbatim>\<open>cull_queue\<close> of \<^verbatim>\<open>aflpp/src/afl-fuzz-queue.c\<close>. An
  entry is its index in \<^verbatim>\<open>queue_buf\<close>, and the slots of \<^verbatim>\<open>top_rated\<close> hold such indices where the code has
  pointers, so that two slots can share an entry and the updates through one are seen through the
  other. The records have the fields these functions use, integers have their widths, and a trace that
  was freed is \<^term>\<open>None\<close>. The theory proves what scoring keeps true: reference counters count slots,
  traces are kept exactly for winners, and no contender is better than a winner. \<open>Afl_Cull\<close> has the
  favored entries.
\<close>

section \<open>State\<close>

record 'd queue_entry =
  q_len :: u32
  q_id :: u32
  was_fuzzed :: bool
  favored :: bool
  fs_redundant :: bool
  disabled :: bool
  bitmap_size :: u32
  fuzz_level :: u32
  n_fuzz_entry :: u32
  exec_us :: u64
  handicap :: u64
  depth :: u64
  tc_ref :: u32
  perf_score :: 'd
  weight :: 'd
  trace_mini :: "u8 list option"

datatype power_schedule = EXPLORE | MMOPT | EXPLOIT | FAST | COE | LIN | QUAD | RARE | SEEK

record 'd queue_state =
  queue_buf :: "'d queue_entry list"
  top_rated :: "nat option list"
  top_rated_candidates :: "u32 list option list"
  last_scored_idx :: int
  n_fuzz :: "u32 list"
  schedule :: power_schedule
  fixed_seed :: bool
  non_instrumented_mode :: bool
  disable_redundant :: bool
  map_size :: u32
  map_tmp_buf :: "u8 list"
  score_changed :: bool
  queued_favored :: u32
  pending_favored :: u32
  smallest_favored :: int
  queued_discovered :: u32
  max_depth :: u32
  total_cal_us :: u64
  total_cal_cycles :: u64
  total_bitmap_size :: u64
  total_bitmap_entries :: u64
  total_execs :: u64
  limit_time_sig :: int
  havoc_max_mult :: u8
  alias_probability :: "'d list"
  alias_table :: "u32 list"
  reinit_table :: bool

definition upd_entry :: "nat \<Rightarrow> ('d queue_entry \<Rightarrow> 'd queue_entry) \<Rightarrow> 'd queue_state \<Rightarrow> 'd queue_state" where
  "upd_entry j f s = s\<lparr> queue_buf := (queue_buf s)[j := f (queue_buf s ! j)] \<rparr>"

section \<open>Ranking\<close>

definition next_pow2 :: "u64 \<Rightarrow> u64" where
  "next_pow2 n =
     (let out = n - 1; out = out OR drop_bit 1 out; out = out OR drop_bit 2 out; out = out OR drop_bit 4 out;
          out = out OR drop_bit 8 out; out = out OR drop_bit 16 out
      in out + 1)"

definition fuzz_p2 :: "'d queue_state \<Rightarrow> 'd queue_entry \<Rightarrow> u64" where
  "fuzz_p2 s q =
     (if schedule s \<in> set [FAST, COE, LIN, QUAD] then 0
      else if schedule s = RARE then next_pow2 (ucast (n_fuzz s ! unat (n_fuzz_entry q)))
      else ucast (fuzz_level q))"

definition fav_factor :: "'d queue_state \<Rightarrow> 'd queue_entry \<Rightarrow> u64" where
  "fav_factor s q =
     (if schedule s \<in> set [RARE, SEEK] \<or> fixed_seed s then ucast (push_bit 2 (q_len q))
      else exec_us q * ucast (q_len q))"

text \<open>Whether entry \<open>j\<close> takes slot \<open>i\<close>: there is no winner yet, or it is not better in either respect.\<close>

definition beats :: "'d queue_state \<Rightarrow> nat \<Rightarrow> nat \<Rightarrow> bool" where
  "beats s j i =
     (case top_rated s ! i of
        None \<Rightarrow> True
      | Some t \<Rightarrow> \<not> fuzz_p2 s (queue_buf s ! j) > fuzz_p2 s (queue_buf s ! t) \<and>
                  \<not> fav_factor s (queue_buf s ! j) > fav_factor s (queue_buf s ! t))"

section \<open>Slots\<close>

text \<open>The previous winner loses a reference, and its trace with the last one.\<close>

definition drop_ref :: "'d queue_entry \<Rightarrow> 'd queue_entry" where
  "drop_ref q =
     (let q1 = q\<lparr> tc_ref := tc_ref q - 1 \<rparr> in if tc_ref q1 = 0 then q1\<lparr> trace_mini := None \<rparr> else q1)"

definition take_ref :: "u32 \<Rightarrow> nat \<Rightarrow> u8 list \<Rightarrow> 'd queue_entry \<Rightarrow> 'd queue_entry" where
  "take_ref msize len trace q =
     (let q1 = q\<lparr> tc_ref := tc_ref q + 1 \<rparr>
      in if trace_mini q1 = None then q1\<lparr> trace_mini := Some (minimize_bits msize (replicate len 0) trace) \<rparr> else q1)"

definition take_slot :: "nat \<Rightarrow> u8 list \<Rightarrow> nat \<Rightarrow> nat \<Rightarrow> 'd queue_state \<Rightarrow> 'd queue_state" where
  "take_slot len trace j i s =
     (let s1 = (case top_rated s ! i of None \<Rightarrow> s | Some t \<Rightarrow> upd_entry t drop_ref s)
      in (upd_entry j (take_ref (map_size s) len trace) s1)\<lparr> top_rated := (top_rated s)[i := Some j], score_changed := True \<rparr>)"

definition update_bitmap_score :: "nat \<Rightarrow> bool \<Rightarrow> u8 list \<Rightarrow> 'd queue_state \<Rightarrow> 'd queue_state" where
  "update_bitmap_score j have_trace trace s =
     (if disabled (queue_buf s ! j) \<or> \<not> have_trace then s
      else
        fold (\<lambda>i s. if trace ! i \<noteq> 0 \<and> beats s j i
                    then take_slot (unat (drop_bit 3 (map_size s + 7))) trace j i s else s)
          [0..<unat (map_size s)] s)"

definition update_bitmap_rescore :: "nat \<Rightarrow> nat \<Rightarrow> u8 list \<Rightarrow> 'd queue_state \<Rightarrow> 'd queue_state" where
  "update_bitmap_rescore j i trace s =
     (if disabled (queue_buf s ! j) then s
      else if beats s j i then take_slot (unat (drop_bit 3 (map_size s))) trace j i s
      else s)"

section \<open>Scoring the whole queue again\<close>

text \<open>
  The candidates of a byte are an array that starts with their number. The target is a parameter: \<open>run i\<close>
  is the map an execution of entry \<open>i\<close> leaves in \<^verbatim>\<open>trace_bits\<close>, which is shared and passed along.
\<close>

definition enroll :: "u32 \<Rightarrow> u8 list \<Rightarrow> nat \<Rightarrow> 'd queue_state \<Rightarrow> 'd queue_state" where
  "enroll qid trace j s =
     (if trace ! j = 0 then s
      else
        s\<lparr> top_rated_candidates := (top_rated_candidates s)[j := Some
             (case top_rated_candidates s ! j of
                None \<Rightarrow> [1, qid]
              | Some c \<Rightarrow> (let count = c ! 0 in (c @ [0])[0 := count + 1, unat (count + 1) := qid]))] \<rparr>)"

definition rerun :: "(nat \<Rightarrow> u8 list) \<Rightarrow> nat \<Rightarrow> u8 list \<times> 'd queue_state \<Rightarrow> u8 list \<times> 'd queue_state" where
  "rerun run i ts =
     (case ts of (trace, s) \<Rightarrow>
        (let (trace', s') =
               (if disabled (queue_buf s ! i) then (trace, s)
                else (run i, fold (enroll (q_id (queue_buf s ! i)) (run i)) [0..<unat (map_size s)] s))
         in (trace', s'\<lparr> last_scored_idx := int i \<rparr>)))"

definition rescore_slot :: "u8 list \<Rightarrow> nat \<Rightarrow> 'd queue_state \<Rightarrow> 'd queue_state" where
  "rescore_slot trace i s =
     (case top_rated_candidates s ! i of
        None \<Rightarrow> s
      | Some c \<Rightarrow> fold (\<lambda>k. update_bitmap_rescore (unat (c ! (k + 1))) i trace) [0..<unat (c ! 0)] s)"

definition recalculate_all_scores :: "(nat \<Rightarrow> u8 list) \<Rightarrow> u8 list \<Rightarrow> 'd queue_state \<Rightarrow> 'd queue_state" where
  "recalculate_all_scores run trace s =
     (let (trace', s') = fold (rerun run) [nat (last_scored_idx s + 1)..<length (queue_buf s)] (trace, s)
      in fold (rescore_slot trace') [0..<unat (map_size s)] s')"

section \<open>Culling\<close>

definition mark_as_redundant :: "bool \<Rightarrow> bool \<Rightarrow> 'd queue_entry \<Rightarrow> 'd queue_entry" where
  "mark_as_redundant disable state q =
     (if state = fs_redundant q then q
      else
        (let q1 = q\<lparr> fs_redundant := state \<rparr>;
             q2 = (if fs_redundant q1 then q1\<lparr> trace_mini := None \<rparr> else q1)
         in if state \<and> disable then q2\<lparr> disabled := True \<rparr> else q2))"

text \<open>The bits of \<open>mini\<close> leave the first \<open>len\<close> bytes of \<^verbatim>\<open>temp_v\<close>.\<close>

definition remove_bits :: "nat \<Rightarrow> u8 list \<Rightarrow> u8 list \<Rightarrow> u8 list" where
  "remove_bits len mini temp_v =
     fold (\<lambda>j v. if mini ! j \<noteq> 0 then v[j := v ! j AND NOT (mini ! j)] else v) (rev [0..<len]) temp_v"

definition favor :: "nat \<Rightarrow> 'd queue_state \<Rightarrow> 'd queue_state" where
  "favor t s =
     (let q = queue_buf s ! t
      in if favored q \<or> disabled q then s
         else
           (let s1 = (upd_entry t (\<lambda>q. q\<lparr> favored := True \<rparr>) s)\<lparr> queued_favored := queued_favored s + 1 \<rparr>
            in if was_fuzzed q then s1
               else s1\<lparr> pending_favored := pending_favored s + 1,
                        smallest_favored := (if smallest_favored s < 0 \<or> smallest_favored s > uint (q_id q)
                                             then uint (q_id q) else smallest_favored s) \<rparr>))"

definition cull_step :: "nat \<Rightarrow> nat \<Rightarrow> u8 list \<times> 'd queue_state \<Rightarrow> u8 list \<times> 'd queue_state" where
  "cull_step len i vs =
     (case vs of (temp_v, s) \<Rightarrow>
        (case top_rated s ! i of
           None \<Rightarrow> (temp_v, s)
         | Some t \<Rightarrow>
             if bit (temp_v ! (i div 8)) (i mod 8) then
               (case trace_mini (queue_buf s ! t) of
                  None \<Rightarrow> (temp_v, s)
                | Some mini \<Rightarrow> (remove_bits len mini temp_v, favor t s))
             else (temp_v, s)))"

definition cull_queue :: "'d queue_state \<Rightarrow> 'd queue_state" where
  "cull_queue s =
     (if \<not> score_changed s \<or> non_instrumented_mode s then s
      else
        (let len = unat (drop_bit 3 (map_size s));
             s1 = s\<lparr> score_changed := False, queued_favored := 0, pending_favored := 0, smallest_favored := - 1,
                     queue_buf := map (\<lambda>q. q\<lparr> favored := False \<rparr>) (queue_buf s) \<rparr>;
             (temp_v, s2) = fold (cull_step len) [0..<unat (map_size s)] (replicate len 255 @ drop len (map_tmp_buf s), s1)
         in s2\<lparr> map_tmp_buf := temp_v,
                queue_buf := map (\<lambda>q. if disabled q then q
                                      else mark_as_redundant (disable_redundant s) (\<not> favored q) q) (queue_buf s2),
                reinit_table := True \<rparr>))"

section \<open>References and traces\<close>

text \<open>
  What scoring keeps true when every entry \<open>t\<close> has one trace \<open>T t\<close>: the slots hold entries that hit
  them, the reference counters count slots, and exactly the traces that are needed are kept.
\<close>

definition mini :: "u32 \<Rightarrow> u8 list \<Rightarrow> u8 list" where
  "mini msize trace = minimize_bits msize (replicate (unat (drop_bit 3 (msize + 7))) 0) trace"

definition slots :: "'d queue_state \<Rightarrow> nat \<Rightarrow> nat" where
  "slots s t = count (mset (top_rated s)) (Some t)"

definition refs_inv :: "(nat \<Rightarrow> u8 list) \<Rightarrow> 'd queue_state \<Rightarrow> bool" where
  "refs_inv T s \<longleftrightarrow> length (top_rated s) = unat (map_size s) \<and>
     (\<forall>i < unat (map_size s). \<forall>t. top_rated s ! i = Some t \<longrightarrow> t < length (queue_buf s) \<and> T t ! i \<noteq> 0) \<and>
     (\<forall>t < length (queue_buf s). tc_ref (queue_buf s ! t) = of_nat (slots s t) \<and>
        trace_mini (queue_buf s ! t) = (if slots s t = 0 then None else Some (mini (map_size s) (T t))))"

lemma slots_le: "slots s t \<le> length (top_rated s)"
proof -
  have "count (mset (top_rated s)) (Some t) \<le> size (mset (top_rated s))" by (rule count_le_size)
  then show ?thesis by (simp add: slots_def)
qed

lemma slots_pos:
  assumes "i < length (top_rated s)" and "top_rated s ! i = Some t"
  shows "0 < slots s t"
  using assms nth_mem [OF assms(1)] by (simp add: slots_def)

lemma slots_update:
  assumes "i < length (top_rated s)"
  shows "count (mset ((top_rated s)[i := Some j])) (Some t) + (if top_rated s ! i = Some t then 1 else 0)
       = slots s t + (if t = j then 1 else 0)"
proof -
  have "top_rated s ! i = Some t \<Longrightarrow> 0 < count (mset (top_rated s)) (Some t)"
    using slots_pos [OF assms] by (simp add: slots_def)
  then show ?thesis
    using assms by (auto simp: slots_def mset_update simp del: count_greater_zero_iff)
qed

text \<open>An entry and its counter.\<close>

definition entry_ok :: "u8 list \<Rightarrow> nat \<Rightarrow> 'd queue_entry \<Rightarrow> bool" where
  "entry_ok m n q \<longleftrightarrow> tc_ref q = of_nat n \<and> trace_mini q = (if n = 0 then None else Some m)"

lemma entry_ok_drop:
  assumes "entry_ok m (Suc n) q" and "Suc n < 2 ^ 32"
  shows "entry_ok m n (drop_ref q)"
proof -
  have "(of_nat n :: u32) = 0 \<longleftrightarrow> n = 0"
    using assms(2) by (simp add: word_unat_eq_iff unat_of_nat)
  then show ?thesis using assms(1) by (auto simp: entry_ok_def drop_ref_def Let_def)
qed

lemma entry_ok_take:
  assumes "entry_ok (minimize_bits msize (replicate len 0) trace) n q"
  shows "entry_ok (minimize_bits msize (replicate len 0) trace) (Suc n) (take_ref msize len trace q)"
  using assms by (auto simp: entry_ok_def take_ref_def Let_def add.commute)

lemma refs_inv_entry:
  "refs_inv T s \<Longrightarrow> t < length (queue_buf s) \<Longrightarrow> entry_ok (mini (map_size s) (T t)) (slots s t) (queue_buf s ! t)"
  by (simp add: refs_inv_def entry_ok_def)

lemma take_slot_simps [simp]:
  "top_rated (take_slot len trace j i s) = (top_rated s)[i := Some j]" "map_size (take_slot len trace j i s) = map_size s"
  "length (queue_buf (take_slot len trace j i s)) = length (queue_buf s)" "score_changed (take_slot len trace j i s)"
  "schedule (take_slot len trace j i s) = schedule s" "fixed_seed (take_slot len trace j i s) = fixed_seed s"
  "n_fuzz (take_slot len trace j i s) = n_fuzz s" "map_tmp_buf (take_slot len trace j i s) = map_tmp_buf s"
  "non_instrumented_mode (take_slot len trace j i s) = non_instrumented_mode s"
  "disable_redundant (take_slot len trace j i s) = disable_redundant s"
  by (auto simp: take_slot_def upd_entry_def Let_def split: option.splits)

lemma take_slot_entry:
  assumes "t < length (queue_buf s)"
  shows "queue_buf (take_slot len trace j i s) ! t =
    (let q = (if top_rated s ! i = Some t then drop_ref (queue_buf s ! t) else queue_buf s ! t)
     in if t = j then take_ref (map_size s) len trace q else q)"
  using assms by (auto simp: take_slot_def upd_entry_def Let_def nth_list_update split: option.splits)

lemma refs_inv_take:
  assumes inv: "refs_inv T s" and i: "i < unat (map_size s)" and j: "j < length (queue_buf s)" "T j ! i \<noteq> 0"
  shows "refs_inv T (take_slot (unat (drop_bit 3 (map_size s + 7))) (T j) j i s)"
proof -
  let ?s = "take_slot (unat (drop_bit 3 (map_size s + 7))) (T j) j i s"
  have len: "length (top_rated s) = unat (map_size s)" using inv by (simp add: refs_inv_def)
  have bound: "slots s t < 2 ^ 32" for t
    using slots_le [of s t] unsigned_less [of "map_size s", where ?'a = nat] len by simp
  have ent: "entry_ok (mini (map_size s) (T t)) (slots ?s t) (queue_buf ?s ! t)" if t: "t < length (queue_buf s)" for t
  proof -
    let ?q = "if top_rated s ! i = Some t then drop_ref (queue_buf s ! t) else queue_buf s ! t"
    let ?n = "if top_rated s ! i = Some t then slots s t - 1 else slots s t"
    have pos: "0 < slots s t" if "top_rated s ! i = Some t" using slots_pos [of i s t] that i len by simp
    have old: "entry_ok (mini (map_size s) (T t)) ?n ?q"
      using refs_inv_entry [OF inv t] entry_ok_drop [of "mini (map_size s) (T t)" "slots s t - 1" "queue_buf s ! t"] pos bound [of t] by auto
    have n: "slots ?s t = ?n + (if t = j then 1 else 0)"
      using slots_update [of i s j t] i len pos by (auto simp: slots_def split: if_splits)
    have "entry_ok (mini (map_size s) (T t)) (Suc ?n) (take_ref (map_size s) (unat (drop_bit 3 (map_size s + 7))) (T t) ?q)"
      using entry_ok_take [of "map_size s" "unat (drop_bit 3 (map_size s + 7))" "T t" ?n ?q] old unfolding mini_def by blast
    then show ?thesis
      using old unfolding n take_slot_entry [OF t] Let_def by (cases "t = j") (simp_all only: if_True if_False refl add_0_right Suc_eq_plus1)
  qed
  have "\<forall>i' < unat (map_size s). \<forall>t. (top_rated s)[i := Some j] ! i' = Some t \<longrightarrow> t < length (queue_buf s) \<and> T t ! i' \<noteq> 0"
    using inv i j len by (auto simp: refs_inv_def nth_list_update)
  then show ?thesis
    using ent len unfolding refs_inv_def by (simp add: entry_ok_def)
qed

section \<open>The winners\<close>

lemma fold_upt_inv:
  assumes "P 0 s" and "\<And>k s. k < n \<Longrightarrow> P k s \<Longrightarrow> P (Suc k) (f k s)"
  shows "P n (fold f [0..<n] s)"
  using assms by (induction n) simp_all

text \<open>Everything about an entry but its references; scoring changes nothing else.\<close>

definition static :: "'d queue_entry \<Rightarrow> 'd queue_entry" where
  "static q = q\<lparr> tc_ref := 0, trace_mini := None \<rparr>"

definition same_static :: "'d queue_state \<Rightarrow> 'd queue_state \<Rightarrow> bool" where
  "same_static s s' \<longleftrightarrow> map static (queue_buf s') = map static (queue_buf s) \<and> map_size s' = map_size s \<and>
     schedule s' = schedule s \<and> fixed_seed s' = fixed_seed s \<and> n_fuzz s' = n_fuzz s \<and> map_tmp_buf s' = map_tmp_buf s \<and>
     non_instrumented_mode s' = non_instrumented_mode s \<and> disable_redundant s' = disable_redundant s"

lemma static_refs [simp]: "static (drop_ref q) = static q" "static (take_ref msize len trace q) = static q"
  by (simp_all add: static_def drop_ref_def take_ref_def Let_def)

lemma take_slot_static: "j < length (queue_buf s) \<Longrightarrow> same_static s (take_slot len trace j i s)"
  unfolding same_static_def
  by (auto intro!: nth_equalityI simp: take_slot_entry Let_def)

lemma same_static_trans: "same_static s s' \<Longrightarrow> same_static s' s'' \<Longrightarrow> same_static s s''"
  by (simp add: same_static_def)

lemma same_static_refl [simp]: "same_static s s"
  by (simp add: same_static_def)

lemma same_static_length: "same_static s s' \<Longrightarrow> length (queue_buf s') = length (queue_buf s)"
  unfolding same_static_def by (metis length_map)

lemma static_fields:
  assumes "static q = static q'"
  shows "fuzz_level q = fuzz_level q'" "n_fuzz_entry q = n_fuzz_entry q'" "q_len q = q_len q'" "exec_us q = exec_us q'"
    "disabled q = disabled q'" "was_fuzzed q = was_fuzzed q'" "q_id q = q_id q'" "favored q = favored q'"
  using assms by (cases q; cases q'; simp add: static_def)+

lemma same_static_entry:
  assumes "same_static s s'" and "t < length (queue_buf s)"
  shows "static (queue_buf s' ! t) = static (queue_buf s ! t)"
  using assms same_static_length [OF assms(1)] unfolding same_static_def by (metis nth_map)

definition rank :: "'d queue_state \<Rightarrow> nat \<Rightarrow> u64 \<times> u64" where
  "rank s t = (fuzz_p2 s (queue_buf s ! t), fav_factor s (queue_buf s ! t))"

lemma rank_static:
  assumes "same_static s s'" and "t < length (queue_buf s)"
  shows "rank s' t = rank s t" "disabled (queue_buf s' ! t) = disabled (queue_buf s ! t)"
  using static_fields [OF same_static_entry [OF assms]] assms(1)
  by (simp_all add: rank_def fuzz_p2_def fav_factor_def same_static_def)

text \<open>One entry is better than another: not worse in either respect, and better in one.\<close>

definition dominates :: "u64 \<times> u64 \<Rightarrow> u64 \<times> u64 \<Rightarrow> bool" where
  "dominates a b \<longleftrightarrow> fst a \<le> fst b \<and> snd a \<le> snd b \<and> a \<noteq> b"

definition slot_best :: "nat set \<Rightarrow> (nat \<Rightarrow> u8 list) \<Rightarrow> 'd queue_state \<Rightarrow> nat \<Rightarrow> bool" where
  "slot_best J T s i \<longleftrightarrow>
     (case top_rated s ! i of
        None \<Rightarrow> \<forall>j \<in> J. T j ! i = 0
      | Some w \<Rightarrow> w \<in> J \<and> T w ! i \<noteq> 0 \<and> (\<forall>j \<in> J. T j ! i \<noteq> 0 \<longrightarrow> \<not> dominates (rank s j) (rank s w)))"

lemma slot_best_cong:
  assumes "top_rated s' ! i = top_rated s ! i" and "\<And>t. t \<in> J \<Longrightarrow> rank s' t = rank s t"
  shows "slot_best J T s' i = slot_best J T s i"
proof (cases "top_rated s ! i")
  case (Some w)
  then show ?thesis using assms by (cases "w \<in> J") (simp_all add: slot_best_def)
qed (use assms in \<open>simp add: slot_best_def\<close>)

lemma slot_best_win:
  assumes "slot_best J T s i" and "T j ! i \<noteq> 0" and "beats s j i" and "w \<in> insert j J" and "T w ! i \<noteq> 0"
  shows "\<not> dominates (rank s w) (rank s j)"
proof (cases "top_rated s ! i")
  case None
  then have "w = j" using assms by (auto simp: slot_best_def)
  then show ?thesis by (simp add: dominates_def)
next
  case (Some t)
  then have le: "fst (rank s j) \<le> fst (rank s t)" "snd (rank s j) \<le> snd (rank s t)"
    using assms(3) by (auto simp: beats_def rank_def)
  show ?thesis
  proof (cases "w = j")
    case False
    then have "\<not> dominates (rank s w) (rank s t)" using assms(1,4,5) Some by (auto simp: slot_best_def)
    then show ?thesis using le by (auto simp: dominates_def prod_eq_iff)
  qed (simp add: dominates_def)
qed

lemma slot_best_lose:
  assumes "slot_best J T s i" and "\<not> beats s j i"
  shows "slot_best (insert j J) T s i"
  using assms by (auto simp: slot_best_def beats_def dominates_def rank_def not_le not_less split: option.splits)

text \<open>The invariant of scoring; \<open>J\<close> are the entries scored so far.\<close>

definition score_inv :: "nat set \<Rightarrow> (nat \<Rightarrow> u8 list) \<Rightarrow> 'd queue_state \<Rightarrow> 'd queue_state \<Rightarrow> bool" where
  "score_inv J T s0 s \<longleftrightarrow> refs_inv T s \<and> same_static s0 s \<and> J \<subseteq> {0..<length (queue_buf s0)} \<and>
     (\<forall>i < unat (map_size s0). slot_best J T s i) \<and>
     ((\<exists>i < unat (map_size s0). top_rated s ! i \<noteq> None) \<longrightarrow> score_changed s)"

text \<open>Inside the loop of one entry the slots below \<open>k\<close> have seen it.\<close>

definition score_part :: "nat \<Rightarrow> nat set \<Rightarrow> (nat \<Rightarrow> u8 list) \<Rightarrow> nat \<Rightarrow> 'd queue_state \<Rightarrow> 'd queue_state \<Rightarrow> bool" where
  "score_part k J T j s0 s \<longleftrightarrow> refs_inv T s \<and> same_static s0 s \<and> J \<subseteq> {0..<length (queue_buf s0)} \<and> j < length (queue_buf s0) \<and>
     (\<forall>i < unat (map_size s0). slot_best (if i < k then insert j J else J) T s i) \<and>
     ((\<exists>i < unat (map_size s0). top_rated s ! i \<noteq> None) \<longrightarrow> score_changed s)"

lemma slot_best_skip: "T j ! i = 0 \<Longrightarrow> slot_best J T s i \<Longrightarrow> slot_best (insert j J) T s i"
  by (auto simp: slot_best_def split: option.splits)

lemma score_part_step:
  assumes inv: "score_part k J T j s0 s" and k: "k < unat (map_size s0)"
  shows "score_part (Suc k) J T j s0
     (if T j ! k \<noteq> 0 \<and> beats s j k then take_slot (unat (drop_bit 3 (map_size s + 7))) (T j) j k s else s)"
proof -
  have st: "same_static s0 s" and refs: "refs_inv T s" and j: "j < length (queue_buf s)" and J: "J \<subseteq> {0..<length (queue_buf s)}"
    using inv same_static_length [of s0 s] by (auto simp: score_part_def)
  have ms: "map_size s = map_size s0" using st by (simp add: same_static_def)
  have len: "length (top_rated s) = unat (map_size s0)" using refs ms by (simp add: refs_inv_def)
  have best: "slot_best (if i < k then insert j J else J) T s i" if "i < unat (map_size s0)" for i
    using inv that by (simp add: score_part_def)
  show ?thesis
  proof (cases "T j ! k \<noteq> 0 \<and> beats s j k")
    case True
    let ?s = "take_slot (unat (drop_bit 3 (map_size s + 7))) (T j) j k s"
    have st': "same_static s ?s" using take_slot_static [OF j] .
    have rank: "rank ?s t = rank s t" if "t < length (queue_buf s)" for t using rank_static(1) [OF st' that] .
    have new: "slot_best (if i < Suc k then insert j J else J) T ?s i" if i: "i < unat (map_size s0)" for i
    proof (cases "i = k")
      case True
      have "slot_best J T s k" using best [OF k] by simp
      then have "\<not> dominates (rank s w) (rank s j)" if "w \<in> insert j J" "T w ! k \<noteq> 0" for w
        using slot_best_win \<open>T j ! k \<noteq> 0 \<and> beats s j k\<close> that by blast
      then show ?thesis
        using True k len rank j J \<open>T j ! k \<noteq> 0 \<and> beats s j k\<close> by (auto simp: slot_best_def subset_iff)
    next
      case False
      have "slot_best (if i < k then insert j J else J) T ?s i"
        using best [OF i] False j J by (subst slot_best_cong [where s = s]) (auto simp: rank subset_iff split: if_splits)
      then show ?thesis using False by (simp add: less_Suc_eq)
    qed
    have "refs_inv T ?s" using refs_inv_take [OF refs _ j] True k ms by simp
    then show ?thesis
      using True new inv same_static_trans [OF st st'] by (simp add: score_part_def)
  next
    case False
    have "slot_best (insert j J) T s k"
      using best [OF k] False slot_best_lose [of J T s k j] slot_best_skip [of T j k J s] by auto
    then have "slot_best (if i < Suc k then insert j J else J) T s i" if "i < unat (map_size s0)" for i
      using best [OF that] by (cases "i = k") (auto simp: less_Suc_eq)
    then show ?thesis using inv unfolding if_not_P [OF False] score_part_def by blast
  qed
qed

lemma score_inv_update:
  assumes inv: "score_inv J T s0 s" and j: "j < length (queue_buf s0)" and en: "\<not> disabled (queue_buf s0 ! j)"
  shows "score_inv (insert j J) T s0 (update_bitmap_score j True (T j) s)"
proof -
  let ?f = "\<lambda>i s. if T j ! i \<noteq> 0 \<and> beats s j i then take_slot (unat (drop_bit 3 (map_size s + 7))) (T j) j i s else s"
  have ms: "map_size s = map_size s0" and st: "same_static s0 s" using inv by (simp_all add: score_inv_def same_static_def)
  have "score_part 0 J T j s0 s" using inv j by (simp add: score_part_def score_inv_def)
  then have "score_part (unat (map_size s0)) J T j s0 (fold ?f [0..<unat (map_size s0)] s)"
    by (rule fold_upt_inv [where P = "\<lambda>k. score_part k J T j s0"]) (rule score_part_step)
  moreover have "update_bitmap_score j True (T j) s = fold ?f [0..<unat (map_size s0)] s"
    using rank_static(2) [OF st j] en ms by (simp add: update_bitmap_score_def)
  ultimately show ?thesis using j by (simp add: score_part_def score_inv_def)
qed

lemma score_inv_disabled:
  assumes "score_inv J T s0 s" and "j < length (queue_buf s0)" and "disabled (queue_buf s0 ! j)"
  shows "update_bitmap_score j h trace s = s"
  using rank_static(2) [of s0 s j] assms by (simp add: update_bitmap_score_def score_inv_def)

text \<open>A queue in which nothing was scored yet.\<close>

definition unscored :: "'d queue_state \<Rightarrow> bool" where
  "unscored s \<longleftrightarrow> top_rated s = replicate (unat (map_size s)) None \<and>
     list_all (\<lambda>q. tc_ref q = 0 \<and> trace_mini q = None) (queue_buf s)"

lemma score_inv_init: "unscored s \<Longrightarrow> score_inv {} T s s"
  by (auto simp: unscored_def score_inv_def refs_inv_def slot_best_def slots_def list_all_length)

definition score_all :: "(nat \<Rightarrow> u8 list) \<Rightarrow> nat list \<Rightarrow> 'd queue_state \<Rightarrow> 'd queue_state" where
  "score_all T js = fold (\<lambda>j. update_bitmap_score j True (T j)) js"

definition enabled :: "'d queue_state \<Rightarrow> nat list \<Rightarrow> nat set" where
  "enabled s js = {j \<in> set js. \<not> disabled (queue_buf s ! j)}"

lemma score_all_inv:
  assumes "unscored s" and "set js \<subseteq> {0..<length (queue_buf s)}"
  shows "score_inv (enabled s js) T s (score_all T js s)"
  using assms(2)
proof (induction js rule: rev_induct)
  case Nil
  then show ?case using score_inv_init [OF assms(1)] by (simp add: score_all_def enabled_def)
next
  case (snoc j js)
  then have inv: "score_inv (enabled s js) T s (score_all T js s)" and j: "j < length (queue_buf s)" by auto
  have s': "score_all T (js @ [j]) s = update_bitmap_score j True (T j) (score_all T js s)" by (simp add: score_all_def)
  show ?case
  proof (cases "disabled (queue_buf s ! j)")
    case True
    then have "enabled s (js @ [j]) = enabled s js" by (auto simp: enabled_def)
    then show ?thesis using inv score_inv_disabled [OF inv j True] s' by simp
  next
    case False
    then have "enabled s (js @ [j]) = insert j (enabled s js)" by (auto simp: enabled_def)
    then show ?thesis using score_inv_update [OF inv j False] s' by simp
  qed
qed

lemma take_slot_cand [simp]: "top_rated_candidates (take_slot len trace j i s) = top_rated_candidates s"
  by (auto simp: take_slot_def upd_entry_def Let_def split: option.splits)

section \<open>Scoring again\<close>

text \<open>The array of a byte's candidates.\<close>

definition cand :: "u32 list \<Rightarrow> u32 list option" where
  "cand ids = (if ids = [] then None else Some (of_nat (length ids) # ids))"

lemma enroll_cand:
  assumes "j < length (top_rated_candidates s)" and "top_rated_candidates s ! j = cand ids" and "Suc (length ids) < 2 ^ 32"
  shows "enroll qid trace j s =
    s\<lparr> top_rated_candidates := (top_rated_candidates s)[j := cand (if trace ! j = 0 then ids else ids @ [qid])] \<rparr>"
proof (cases "trace ! j = 0")
  case True
  then show ?thesis using list_update_id [of "top_rated_candidates s" j] assms(2) by (simp add: enroll_def)
next
  case False
  have "unat (of_nat (Suc (length ids)) :: u32) = Suc (length ids)"
    using assms(3) by (subst unat_of_nat) simp
  then have "(\<lambda>c. (c @ [0])[0 := c ! 0 + 1, unat (c ! 0 + 1) := qid]) (of_nat (length ids) # ids) =
      (of_nat (length (ids @ [qid])) :: u32) # ids @ [qid]"
    by (simp add: list_update_append add.commute)
  then show ?thesis using False assms(1,2) by (cases "ids = []") (simp_all add: enroll_def cand_def Let_def)
qed

lemma enroll_all:
  assumes "length (top_rated_candidates s) = n" and "\<And>j. j < n \<Longrightarrow> top_rated_candidates s ! j = cand (f j)"
    and "\<And>j. j < n \<Longrightarrow> Suc (length (f j)) < 2 ^ 32"
  shows "\<exists>cs. fold (enroll qid trace) [0..<n] s = s\<lparr> top_rated_candidates := cs \<rparr> \<and> length cs = n \<and>
    (\<forall>j < n. cs ! j = cand (if trace ! j = 0 then f j else f j @ [qid]))"
proof -
  let ?g = "\<lambda>j. if trace ! j = 0 then f j else f j @ [qid]"
  let ?P = "\<lambda>k s'. \<exists>cs. s' = s\<lparr> top_rated_candidates := cs \<rparr> \<and> length cs = n \<and> (\<forall>j < n. cs ! j = cand (if j < k then ?g j else f j))"
  have "?P n (fold (enroll qid trace) [0..<n] s)"
  proof (rule fold_upt_inv [where P = ?P])
    show "?P 0 s" using assms by (intro exI [of _ "top_rated_candidates s"]) simp
  next
    fix k s' assume k: "k < n" and "?P k s'"
    then obtain cs where s': "s' = s\<lparr> top_rated_candidates := cs \<rparr>" and l: "length cs = n"
      and c: "\<forall>j < n. cs ! j = cand (if j < k then ?g j else f j)" by blast
    have "enroll qid trace k s' = s\<lparr> top_rated_candidates := cs[k := cand (?g k)] \<rparr>"
      using enroll_cand [of k s' "f k"] k l c assms(3) s' by simp
    moreover have "\<forall>j < n. cs[k := cand (?g k)] ! j = cand (if j < Suc k then ?g j else f j)"
      using k l c by (auto simp: nth_list_update less_Suc_eq)
    ultimately show "?P (Suc k) (enroll qid trace k s')" using l by (intro exI [of _ "cs[k := cand (?g k)]"]) simp
  qed
  then show ?thesis by simp
qed

text \<open>The enabled ones of the first \<open>m\<close> entries whose runs hit byte \<open>j\<close>.\<close>

definition hitting :: "(nat \<Rightarrow> u8 list) \<Rightarrow> 'd queue_state \<Rightarrow> nat \<Rightarrow> nat \<Rightarrow> nat list" where
  "hitting run s m j = filter (\<lambda>t. \<not> disabled (queue_buf s ! t) \<and> run t ! j \<noteq> 0) [0..<m]"

text \<open>No run has been recorded, and entries are numbered by their place in the queue.\<close>

definition unenrolled :: "'d queue_state \<Rightarrow> bool" where
  "unenrolled s \<longleftrightarrow> top_rated_candidates s = replicate (unat (map_size s)) None \<and> last_scored_idx s = - 1 \<and>
     length (queue_buf s) < 2 ^ 32 \<and> map q_id (queue_buf s) = map of_nat [0..<length (queue_buf s)]"

lemma rerun_all:
  fixes s :: "'d queue_state"
  assumes un: "unenrolled s"
  shows "\<exists>trace' cs l. fold (rerun run) [nat (last_scored_idx s + 1)..<length (queue_buf s)] (trace, s) =
      (trace', s\<lparr> top_rated_candidates := cs, last_scored_idx := l \<rparr>) \<and> length cs = unat (map_size s) \<and>
    (\<forall>j < unat (map_size s). cs ! j = cand (map of_nat (hitting run s (length (queue_buf s)) j)))"
proof -
  let ?n = "unat (map_size s)" and ?N = "length (queue_buf s)"
  let ?P = "\<lambda>k (ts :: u8 list \<times> 'd queue_state). \<exists>trace' cs l. ts = (trace', s\<lparr> top_rated_candidates := cs, last_scored_idx := l \<rparr>) \<and> length cs = ?n \<and>
    (\<forall>j < ?n. cs ! j = cand (map of_nat (hitting run s k j)))"
  have "?P ?N (fold (rerun run) [0..<?N] (trace, s))"
  proof (rule fold_upt_inv [where P = ?P])
    show "?P 0 (trace, s)"
      using un by (intro exI [of _ trace] exI [of _ "top_rated_candidates s"] exI [of _ "last_scored_idx s"])
        (simp add: hitting_def cand_def unenrolled_def)
  next
    fix k ts assume k: "k < ?N" and "?P k ts"
    then obtain trace' cs l where ts: "ts = (trace', s\<lparr> top_rated_candidates := cs, last_scored_idx := l \<rparr>)" and l: "length cs = ?n"
      and c: "\<forall>j < ?n. cs ! j = cand (map of_nat (hitting run s k j))" by blast
    have bound: "Suc (length (hitting run s k j)) < 2 ^ 32" for j
    proof -
      have "length (hitting run s k j) \<le> k" unfolding hitting_def using length_filter_le [of _ "[0..<k]"] by simp
      then show ?thesis using k un by (simp add: unenrolled_def)
    qed
    have qid: "q_id (queue_buf s ! k) = of_nat k"
      using un k by (simp add: unenrolled_def) (metis add_0 diff_zero length_upt nth_map nth_upt)
    show "?P (Suc k) (rerun run k ts)"
    proof (cases "disabled (queue_buf s ! k)")
      case True
      then have "hitting run s (Suc k) j = hitting run s k j" for j by (simp add: hitting_def)
      then show ?thesis using True ts l c by (auto simp: rerun_def)
    next
      case False
      have h: "map of_nat (hitting run s (Suc k) j) = (if run k ! j = 0 then map of_nat (hitting run s k j)
        else map of_nat (hitting run s k j) @ [q_id (queue_buf s ! k)])" for j
        using False qid by (simp add: hitting_def)
      obtain cs' where "fold (enroll (q_id (queue_buf s ! k)) (run k)) [0..<?n] (s\<lparr> top_rated_candidates := cs, last_scored_idx := l \<rparr>)
          = s\<lparr> last_scored_idx := l, top_rated_candidates := cs' \<rparr>" "length cs' = ?n"
        "\<forall>j < ?n. cs' ! j = cand (map of_nat (hitting run s (Suc k) j))"
        using enroll_all [of "s\<lparr> top_rated_candidates := cs, last_scored_idx := l \<rparr>" ?n
            "\<lambda>j. map of_nat (hitting run s k j)" "q_id (queue_buf s ! k)" "run k"] l c bound h by auto
      then show ?thesis
        using False ts by (intro exI [of _ "run k"] exI [of _ cs'] exI [of _ "int k"]) (simp add: rerun_def)
    qed
  qed
  then show ?thesis using un by (simp add: unenrolled_def)
qed

text \<open>
  The winner of one slot against its candidates. \<open>everywhere\<close> stands for the traces, which this pass does not
  look at.
\<close>

definition everywhere :: "nat \<Rightarrow> nat \<Rightarrow> u8 list" where
  "everywhere n t = replicate n 1"

lemma rescore_fold:
  fixes trace
  assumes "set js \<subseteq> {0..<length (queue_buf s)}" and "J \<subseteq> {0..<length (queue_buf s)}" and "i < length (top_rated s)"
    and "\<And>t. t \<in> set js \<Longrightarrow> \<not> disabled (queue_buf s ! t)" and "slot_best J (everywhere (length (top_rated s))) s i"
  defines "s' \<equiv> fold (\<lambda>j. update_bitmap_rescore j i trace) js s"
  shows "same_static s s' \<and> top_rated_candidates s' = top_rated_candidates s \<and> length (top_rated s') = length (top_rated s) \<and>
    (\<forall>i'. i' \<noteq> i \<longrightarrow> top_rated s' ! i' = top_rated s ! i') \<and> slot_best (J \<union> set js) (everywhere (length (top_rated s))) s' i"
  using assms(1-5) unfolding s'_def
proof (induction js arbitrary: J s)
  case (Cons j js)
  let ?s = "update_bitmap_rescore j i trace s" and ?T = "everywhere (length (top_rated s))"
  have j: "j < length (queue_buf s)" "\<not> disabled (queue_buf s ! j)" and hit: "\<And>t. ?T t ! i \<noteq> 0"
    using Cons.prems by (auto simp: everywhere_def)
  have step: "same_static s ?s \<and> top_rated_candidates ?s = top_rated_candidates s \<and> length (top_rated ?s) = length (top_rated s) \<and>
    (\<forall>i'. i' \<noteq> i \<longrightarrow> top_rated ?s ! i' = top_rated s ! i') \<and> slot_best (insert j J) ?T ?s i"
  proof (cases "beats s j i")
    case True
    let ?t = "take_slot (unat (drop_bit 3 (map_size s))) trace j i s"
    have r: "rank ?t t = rank s t" if "t < length (queue_buf s)" for t
      using rank_static(1) [OF take_slot_static [OF j(1)] that] .
    have "\<not> dominates (rank s w) (rank s j)" if "w \<in> insert j J" for w
      using slot_best_win [OF Cons.prems(5) hit True that hit] .
    then have "slot_best (insert j J) ?T ?t i"
      using Cons.prems(2,3) hit r j by (auto simp: slot_best_def subset_iff)
    then show ?thesis using True j take_slot_static [OF j(1)] by (simp add: update_bitmap_rescore_def)
  next
    case False
    then show ?thesis using j slot_best_lose [OF Cons.prems(5) False] by (simp add: update_bitmap_rescore_def)
  qed
  then have len: "length (queue_buf ?s) = length (queue_buf s)" and dis: "\<And>t. t < length (queue_buf s) \<Longrightarrow> disabled (queue_buf ?s ! t) = disabled (queue_buf s ! t)"
    using same_static_length [of s ?s] rank_static(2) [of s ?s] by auto
  have "same_static ?s (fold (\<lambda>j. update_bitmap_rescore j i trace) js ?s) \<and>
      top_rated_candidates (fold (\<lambda>j. update_bitmap_rescore j i trace) js ?s) = top_rated_candidates ?s \<and>
      length (top_rated (fold (\<lambda>j. update_bitmap_rescore j i trace) js ?s)) = length (top_rated ?s) \<and>
      (\<forall>i'. i' \<noteq> i \<longrightarrow> top_rated (fold (\<lambda>j. update_bitmap_rescore j i trace) js ?s) ! i' = top_rated ?s ! i') \<and>
      slot_best (insert j J \<union> set js) (everywhere (length (top_rated ?s))) (fold (\<lambda>j. update_bitmap_rescore j i trace) js ?s) i"
    by (rule Cons.IH) (use Cons.prems step len dis in \<open>auto simp: subset_iff\<close>)
  then show ?case using step by (auto intro: same_static_trans)
qed (simp add: same_static_def)

lemma fold_nth: "fold (\<lambda>k. f (xs ! k)) [0..<length xs] s = fold f xs s"
proof -
  have "fold f (map ((!) xs) [0..<length xs]) s = fold f xs s" by (simp add: map_nth)
  then show ?thesis by (simp only: fold_map comp_def)
qed

lemma rescore_slot_cand:
  assumes "top_rated_candidates s ! i = cand (map of_nat js)" and "length js < 2 ^ 32" and "\<And>t. t \<in> set js \<Longrightarrow> t < 2 ^ 32"
  shows "rescore_slot trace i s = fold (\<lambda>j. update_bitmap_rescore j i trace) js s"
proof (cases "js = []")
  case False
  have n: "unat (of_nat (length js) :: u32) = length js" using assms(2) by (subst unat_of_nat) simp
  have "unat (of_nat (js ! k) :: u32) = js ! k" if "k < length js" for k
    using assms(3) [OF nth_mem [OF that]] by (subst unat_of_nat) simp
  then have "fold (\<lambda>k. update_bitmap_rescore (unat (map of_nat js ! k :: u32)) i trace) [0..<length js] s =
      fold (\<lambda>k. update_bitmap_rescore (js ! k) i trace) [0..<length js] s"
    by (intro fold_cong) simp_all
  then show ?thesis
    using False assms(1) n fold_nth [of "\<lambda>j. update_bitmap_rescore j i trace" js s] by (simp add: rescore_slot_def cand_def)
qed (use assms(1) in \<open>simp add: rescore_slot_def cand_def\<close>)

text \<open>The slots hold entries of the queue.\<close>

definition slots_in_queue :: "'d queue_state \<Rightarrow> bool" where
  "slots_in_queue s \<longleftrightarrow> length (top_rated s) = unat (map_size s) \<and>
     list_all (\<lambda>w. case w of None \<Rightarrow> True | Some t \<Rightarrow> t < length (queue_buf s)) (top_rated s)"

lemma rescore_all:
  fixes trace
  assumes in_queue: "slots_in_queue s" and c: "\<And>i. i < n \<Longrightarrow> top_rated_candidates s ! i = cand (map of_nat (H i))"
    and H: "\<And>i. set (H i) \<subseteq> {t. t < length (queue_buf s) \<and> \<not> disabled (queue_buf s ! t)}" "\<And>i. length (H i) < 2 ^ 32"
    and N: "length (queue_buf s) < 2 ^ 32" and n: "n = unat (map_size s)" and i: "i < n"
  defines "s' \<equiv> fold (rescore_slot trace) [0..<n] s"
  shows "slot_best (set_option (top_rated s ! i) \<union> set (H i)) (everywhere n) s' i \<and> same_static s s'"
proof -
  let ?J = "\<lambda>k i. set_option (top_rated s ! i) \<union> (if i < k then set (H i) else {})"
  let ?P = "\<lambda>k s'. same_static s s' \<and> top_rated_candidates s' = top_rated_candidates s \<and> length (top_rated s') = n \<and>
    (\<forall>i < n. slot_best (?J k i) (everywhere n) s' i)"
  have w0: "set_option (top_rated s ! i) \<subseteq> {0..<length (queue_buf s)}" if "i < n" for i
    using in_queue that n by (cases "top_rated s ! i") (auto simp: slots_in_queue_def list_all_length dest!: spec [of _ i])
  have J: "?J k i \<subseteq> {0..<length (queue_buf s)}" if "i < n" for k i using w0 [OF that] H(1) [of i] by auto
  have "?P n (fold (rescore_slot trace) [0..<n] s)"
  proof (rule fold_upt_inv [where P = ?P])
    show "?P 0 s"
      using in_queue n by (auto simp: slots_in_queue_def slot_best_def everywhere_def dominates_def split: option.splits)
  next
    fix k s' assume k: "k < n" and P: "?P k s'"
    have len: "length (queue_buf s') = length (queue_buf s)" using P same_static_length by blast
    have dis: "\<not> disabled (queue_buf s' ! t)" if "t \<in> set (H k)" for t using P H(1) [of k] that rank_static(2) [of s s' t] by auto
    let ?s = "fold (\<lambda>j. update_bitmap_rescore j k trace) (H k) s'"
    have r: "rescore_slot trace k s' = ?s"
      using P c [OF k] H(1) [of k] H(2) [of k] N by (intro rescore_slot_cand) (auto simp: subset_iff)
    have f: "same_static s' ?s \<and> top_rated_candidates ?s = top_rated_candidates s' \<and> length (top_rated ?s) = length (top_rated s') \<and>
        (\<forall>i'. i' \<noteq> k \<longrightarrow> top_rated ?s ! i' = top_rated s' ! i') \<and>
        slot_best (?J k k \<union> set (H k)) (everywhere (length (top_rated s'))) ?s k"
      by (rule rescore_fold) (use P H(1) [of k] J [OF k, of k] len dis k in \<open>auto simp: subset_iff\<close>)
    have "slot_best (?J (Suc k) i) (everywhere n) ?s i" if i: "i < n" for i
    proof (cases "i = k")
      case False
      have "slot_best (?J k i) (everywhere n) ?s i"
      proof (subst slot_best_cong [where s = s'])
        show "top_rated ?s ! i = top_rated s' ! i" using f False by blast
        show "rank ?s t = rank s' t" if "t \<in> ?J k i" for t using rank_static(1) [of s' ?s t] f that J [OF i, of k] len by auto
        show "slot_best (?J k i) (everywhere n) s' i" using P i by blast
      qed
      then show ?thesis using False by (simp add: less_Suc_eq)
    qed (use f P in simp)
    then show "?P (Suc k) (rescore_slot trace k s')"
      unfolding r using f P by (auto intro: same_static_trans)
  qed
  then show ?thesis using i unfolding s'_def by simp
qed

section \<open>Examples\<close>

definition entry_of :: "u32 \<Rightarrow> u64 \<Rightarrow> ('d :: zero) queue_entry" where
  "entry_of i us = \<lparr> q_len = 10, q_id = i, was_fuzzed = False, favored = False, fs_redundant = False, disabled = False,
     bitmap_size = 3, fuzz_level = 0, n_fuzz_entry = 0, exec_us = us, handicap = 0, depth = 1, tc_ref = 0, perf_score = 0,
     weight = 0, trace_mini = None \<rparr>"

definition queue_of :: "'d queue_entry list \<Rightarrow> 'd queue_state" where
  "queue_of qs = \<lparr> queue_buf = qs, top_rated = replicate 8 None, top_rated_candidates = replicate 8 None, last_scored_idx = - 1,
     n_fuzz = [], schedule = EXPLORE, fixed_seed = False, non_instrumented_mode = False, disable_redundant = False,
     map_size = 8, map_tmp_buf = [0], score_changed = False, queued_favored = 0, pending_favored = 0, smallest_favored = - 1,
     queued_discovered = 0, max_depth = 1, total_cal_us = 10, total_cal_cycles = 1, total_bitmap_size = 3, total_bitmap_entries = 1,
     total_execs = 1, limit_time_sig = 0, havoc_max_mult = 64, alias_probability = [], alias_table = [], reinit_table = False \<rparr>"

definition hits :: "nat list \<Rightarrow> u8 list" where
  "hits js = map (\<lambda>i. if i \<in> set js then 1 else 0) [0..<8]"

definition demo :: "rat queue_state" where
  "demo = queue_of [entry_of 0 5, entry_of 1 3, entry_of 2 2]"


text \<open>The entries' traces: one hits bytes 0 and 1, one byte 1 and one byte 0.\<close>

definition demo_trace :: "nat \<Rightarrow> u8 list" where
  "demo_trace j = hits ([[0, 1], [1], [0]] ! j)"

section \<open>Properties\<close>

text \<open>
  C21. The winner of a slot is never beaten by another contender. Start from a queue in which nothing
  was scored and score any entries in any order, each with its trace. A byte of the map has a winner
  exactly when an enabled scored entry hits it; the winner is one of these, and no other one is at
  least as good in both respects, the number of times it was fuzzed and the product of time and length,
  and better in one.
\<close>

theorem winners_undominated:
  assumes "unscored s" and "set js \<subseteq> {0..<length (queue_buf s)}" and "i < unat (map_size s)"
  shows "case top_rated (score_all T js s) ! i of
      None \<Rightarrow> \<forall>j \<in> enabled s js. T j ! i = 0
    | Some w \<Rightarrow> w \<in> enabled s js \<and> T w ! i \<noteq> 0 \<and> (\<forall>j \<in> enabled s js. T j ! i \<noteq> 0 \<longrightarrow> \<not> dominates (rank s j) (rank s w))"
proof -
  let ?s = "score_all T js s"
  have inv: "score_inv (enabled s js) T s ?s" using score_all_inv [OF assms(1,2)] .
  have "rank ?s t = rank s t" if "t \<in> enabled s js" for t
    using rank_static(1) [of s ?s t] inv that by (auto simp: score_inv_def)
  moreover have "slot_best (enabled s js) T ?s i" using inv assms(3) by (simp add: score_inv_def)
  ultimately show ?thesis by (auto simp: slot_best_def split: option.splits)
qed

theorem winners_undominated_witness:
  "unscored demo \<and> 1 \<in> enabled demo [0, 1, 2] \<and> \<not> dominates (rank demo 0) (rank demo 1)"
proof -
  have h: "unscored demo" "set [0, 1, 2] \<subseteq> {0..<length (queue_buf demo)}" "1 < unat (map_size demo)" by code_simp+
  have w: "top_rated (score_all demo_trace [0, 1, 2] demo) ! 1 = Some 1" "0 \<in> enabled demo [0, 1, 2]" "demo_trace 0 ! 1 \<noteq> 0"
    by code_simp+
  show ?thesis using winners_undominated [OF h, of demo_trace] h(1) w by simp
qed

text \<open>
  C27. Scoring the whole queue again, as the fuzzer does when it moves to the next power schedule,
  leaves no stale winner. Whatever the winners were, afterwards no enabled entry whose run hits the
  byte is better than the winner under the schedule in force, every byte that such an entry hits has a
  winner, and a winner is one of these entries or was the winner before. It is the first such pass:
  no run was recorded before, and entries are numbered by their place in the queue.
\<close>

theorem recalculate_undominated:
  assumes "unenrolled s" and "slots_in_queue s" and "i < unat (map_size s)"
  shows "case top_rated (recalculate_all_scores run trace s) ! i of
      None \<Rightarrow> hitting run s (length (queue_buf s)) i = []
    | Some w \<Rightarrow> (w \<in> set (hitting run s (length (queue_buf s)) i) \<or> top_rated s ! i = Some w) \<and>
        list_all (\<lambda>j. \<not> dominates (rank s j) (rank s w)) (hitting run s (length (queue_buf s)) i)"
proof -
  let ?N = "length (queue_buf s)" and ?n = "unat (map_size s)"
  obtain trace' cs l where r: "fold (rerun run) [nat (last_scored_idx s + 1)..<?N] (trace, s) =
      (trace', s\<lparr> top_rated_candidates := cs, last_scored_idx := l \<rparr>)"
    and c: "\<forall>j < ?n. cs ! j = cand (map of_nat (hitting run s ?N j))"
    using rerun_all [OF assms(1)] by blast
  let ?s = "s\<lparr> top_rated_candidates := cs, last_scored_idx := l \<rparr>" and ?H = "hitting run s ?N"
  let ?s' = "fold (rescore_slot trace') [0..<?n] ?s"
  have N: "?N < 2 ^ 32" using assms(1) by (simp add: unenrolled_def)
  have hl: "length (?H j) < 2 ^ 32" for j
    unfolding hitting_def by (rule le_less_trans [OF length_filter_le]) (use N in simp)
  have "slot_best (set_option (top_rated ?s ! i) \<union> set (?H i)) (everywhere ?n) ?s' i \<and> same_static ?s ?s'"
    by (rule rescore_all) (use assms c N hl in \<open>auto simp: slots_in_queue_def hitting_def\<close>)
  moreover have "rank ?s t = rank s t" for t by (simp add: rank_def fuzz_p2_def fav_factor_def)
  moreover have in_queue: "t < ?N" if "t \<in> set_option (top_rated s ! i) \<union> set (?H i)" for t
    using that assms(2,3) by (cases "top_rated s ! i") (auto simp: slots_in_queue_def list_all_length hitting_def dest!: spec [of _ i])
  ultimately have best: "slot_best (set_option (top_rated s ! i) \<union> set (?H i)) (everywhere ?n) ?s' i"
    and rank: "\<And>t. t \<in> set_option (top_rated s ! i) \<union> set (?H i) \<Longrightarrow> rank ?s' t = rank s t"
    using rank_static(1) [of ?s ?s'] by auto
  have res: "recalculate_all_scores run trace s = ?s'" by (simp add: recalculate_all_scores_def r)
  have e: "everywhere ?n t ! i = 1" for t using assms(3) by (simp add: everywhere_def)
  show ?thesis
  proof (cases "top_rated ?s' ! i")
    case None
    then have "t \<notin> set (?H i)" for t using best unfolding slot_best_def e by auto
    then have "?H i = []" by (metis list.set_intros(1) neq_Nil_conv)
    then show ?thesis using None by (simp add: res)
  next
    case (Some w)
    then show ?thesis using best rank unfolding res slot_best_def e by (auto simp: list_all_iff)
  qed
qed

theorem recalculate_undominated_witness:
  "unenrolled demo \<and> slots_in_queue demo \<and> \<not> dominates (rank demo 0) (rank demo 1)"
proof -
  have u: "unenrolled demo" by (simp add: unenrolled_def demo_def queue_of_def entry_of_def upt_rec)
  have h: "slots_in_queue demo" "1 < unat (map_size demo)" by code_simp+
  have w: "top_rated (recalculate_all_scores demo_trace (hits []) demo) ! 1 = Some 1" "hitting demo_trace demo (length (queue_buf demo)) 1 = [0, 1]"
    by code_simp+
  show ?thesis using recalculate_undominated [OF u h, of demo_trace "hits []"] u h(1) w by simp
qed

end
