(* ===== verification/Afl_Cull.thy ===== *)
theory Afl_Cull
  imports Afl_Queue
begin

text \<open>
  The favored entries, \<^verbatim>\<open>cull_queue\<close> of \<^verbatim>\<open>aflpp/src/afl-fuzz-queue.c\<close>: they cover every byte the scored
  entries hit, and the counters are exact. The loop is described by an invariant over the bits that are
  left in \<^verbatim>\<open>temp_v\<close>; it needs that every winner has its trace, which scoring guarantees and culling
  does not.
\<close>

section \<open>The cover\<close>

text \<open>A bit of a packed map.\<close>

definition mbit :: "u8 list \<Rightarrow> nat \<Rightarrow> bool" where
  "mbit m i \<longleftrightarrow> bit (m ! (i div 8)) (i mod 8)"

lemma remove_bits_fold:
  assumes "set js \<subseteq> {0..<length v}" and "distinct js"
  shows "length (fold (\<lambda>j v. if m ! j \<noteq> 0 then v[j := v ! j AND NOT (m ! j)] else v) js v) = length v \<and>
    (\<forall>k < length v. fold (\<lambda>j v. if m ! j \<noteq> 0 then v[j := v ! j AND NOT (m ! j)] else v) js v ! k =
       (if k \<in> set js then v ! k AND NOT (m ! k) else (v ! k :: u8)))"
  using assms
proof (induction js arbitrary: v)
  case (Cons j js)
  let ?v = "if m ! j \<noteq> 0 then v[j := v ! j AND NOT (m ! j)] else v"
  have "length ?v = length v" by simp
  moreover have "\<forall>k < length v. ?v ! k = (if k = j then v ! k AND NOT (m ! k) else v ! k)"
    using Cons.prems by (auto simp: nth_list_update)
  ultimately show ?case using Cons.IH [of ?v] Cons.prems by auto
qed simp

lemma remove_bits_mbit:
  assumes "len \<le> length v" and "i < 8 * len"
  shows "length (remove_bits len m v) = length v" "mbit (remove_bits len m v) i \<longleftrightarrow> mbit v i \<and> \<not> mbit m i"
proof -
  have i: "i div 8 < len" using assms(2) by (simp add: div_less_iff_less_mult mult.commute)
  note r = remove_bits_fold [of "rev [0..<len]" v m] 
  show "length (remove_bits len m v) = length v" using r assms(1) by (simp add: remove_bits_def)
  show "mbit (remove_bits len m v) i \<longleftrightarrow> mbit v i \<and> \<not> mbit m i"
    using r assms(1) i by (auto simp: mbit_def remove_bits_def bit_and_iff bit_not_iff)
qed

lemma favor_simps [simp]:
  "top_rated (favor t s) = top_rated s" "map_size (favor t s) = map_size s" "length (queue_buf (favor t s)) = length (queue_buf s)"
  "disable_redundant (favor t s) = disable_redundant s"
  by (simp_all add: favor_def upd_entry_def Let_def)

lemma favor_entry:
  assumes "u < length (queue_buf s)"
  shows "queue_buf (favor t s) ! u =
    (if u = t \<and> \<not> disabled (queue_buf s ! t) then (queue_buf s ! t)\<lparr> favored := True \<rparr> else queue_buf s ! u)"
  using assms by (cases "queue_buf s ! t") (auto simp: favor_def upd_entry_def Let_def nth_list_update)

text \<open>
  The invariant of the loop: flags apart the entries are those of \<open>s0\<close>, a bit that has left \<^verbatim>\<open>temp_v\<close>
  belongs to a favored entry, and every slot below \<open>k\<close> is taken care of.
\<close>

definition kept :: "'d queue_state \<Rightarrow> nat \<Rightarrow> bool" where
  "kept s t \<longleftrightarrow> t < length (queue_buf s) \<and> (favored (queue_buf s ! t) \<or> disabled (queue_buf s ! t))"

definition covered :: "'d queue_state \<Rightarrow> 'd queue_state \<Rightarrow> nat \<Rightarrow> bool" where
  "covered s0 s i \<longleftrightarrow> (\<exists>f m. kept s f \<and> trace_mini (queue_buf s0 ! f) = Some m \<and> mbit m i)"

definition same_but_favored :: "'d queue_state \<Rightarrow> 'd queue_state \<Rightarrow> bool" where
  "same_but_favored s0 s \<longleftrightarrow> top_rated s = top_rated s0 \<and> map_size s = map_size s0 \<and> disable_redundant s = disable_redundant s0 \<and>
     map (\<lambda>q. q\<lparr> favored := False \<rparr>) (queue_buf s) = map (\<lambda>q. q\<lparr> favored := False \<rparr>) (queue_buf s0)"

definition cover_inv :: "nat \<Rightarrow> 'd queue_state \<Rightarrow> u8 list \<times> 'd queue_state \<Rightarrow> bool" where
  "cover_inv k s0 vs \<longleftrightarrow> (case vs of (v, s) \<Rightarrow>
     same_but_favored s0 s \<and> unat (map_size s0) \<le> 8 * length v \<and>
     (\<forall>i < unat (map_size s0). mbit v i \<or> covered s0 s i) \<and>
     (\<forall>i < k. \<forall>t. top_rated s0 ! i = Some t \<longrightarrow> kept s t \<or> covered s0 s i) \<and>
     (\<forall>t < length (queue_buf s0). favored (queue_buf s ! t) \<longrightarrow> Some t \<in> set (top_rated s0)))"

lemma same_but_favored_entry:
  assumes "same_but_favored s0 s" and "t < length (queue_buf s0)"
  shows "(queue_buf s ! t)\<lparr> favored := False \<rparr> = (queue_buf s0 ! t)\<lparr> favored := False \<rparr>" "t < length (queue_buf s)"
proof -
  have l: "length (queue_buf s) = length (queue_buf s0)" using assms(1) unfolding same_but_favored_def by (metis length_map)
  then show "t < length (queue_buf s)" using assms(2) by simp
  then show "(queue_buf s ! t)\<lparr> favored := False \<rparr> = (queue_buf s0 ! t)\<lparr> favored := False \<rparr>"
    using assms unfolding same_but_favored_def by (metis nth_map)
qed

lemma favored_fields:
  assumes "q\<lparr> favored := False \<rparr> = q'\<lparr> favored := False \<rparr>"
  shows "trace_mini q = trace_mini q'" "disabled q = disabled q'" "was_fuzzed q = was_fuzzed q'" "q_id q = q_id q'"
    "fs_redundant q = fs_redundant q'"
  using assms by (cases q; cases q'; simp)+

lemma kept_favor: "kept s t \<Longrightarrow> kept (favor u s) t"
  by (auto simp: kept_def favor_entry)

lemma kept_favor_self: "t < length (queue_buf s) \<Longrightarrow> kept (favor t s) t"
  by (auto simp: kept_def favor_entry)

lemma covered_favor: "covered s0 s i \<Longrightarrow> covered s0 (favor u s) i"
  by (auto simp: covered_def intro: kept_favor)

lemma same_but_favored_favor:
  assumes "same_but_favored s0 s"
  shows "same_but_favored s0 (favor t s)"
proof -
  have "map (\<lambda>q. q\<lparr> favored := False \<rparr>) (queue_buf (favor t s)) = map (\<lambda>q. q\<lparr> favored := False \<rparr>) (queue_buf s)"
    by (rule nth_equalityI) (auto simp: favor_entry)
  then show ?thesis using assms by (simp add: same_but_favored_def)
qed

text \<open>Every winner has its trace, and the slots hold entries of the queue.\<close>

definition winners_traced :: "'d queue_state \<Rightarrow> bool" where
  "winners_traced s \<longleftrightarrow> length (top_rated s) = unat (map_size s) \<and>
     (\<forall>t. Some t \<in> set (top_rated s) \<longrightarrow> t < length (queue_buf s) \<and> trace_mini (queue_buf s ! t) \<noteq> None)"

lemma cover_step:
  assumes inv: "cover_inv k s0 vs" and w: "winners_traced s0" and k: "k < unat (map_size s0)"
    and len: "unat (map_size s0) = 8 * len" "len \<le> length (fst vs)"
  shows "cover_inv (Suc k) s0 (cull_step len k vs) \<and> len \<le> length (fst (cull_step len k vs))"
proof -
  obtain v s where vs: "vs = (v, s)" by (cases vs)
  have same: "same_but_favored s0 s" and bits: "\<forall>i < unat (map_size s0). mbit v i \<or> covered s0 s i"
    using inv vs by (auto simp: cover_inv_def)
  have top: "top_rated s = top_rated s0" using same by (simp add: same_but_favored_def)
  show ?thesis
  proof (cases "top_rated s0 ! k")
    case None
    then show ?thesis using inv len top vs by (auto simp: cull_step_def cover_inv_def less_Suc_eq)
  next
    case (Some t)
    then have t: "t < length (queue_buf s0)" "trace_mini (queue_buf s0 ! t) \<noteq> None" and mem: "Some t \<in> set (top_rated s0)"
      using w k nth_mem [of k "top_rated s0"] by (auto simp: winners_traced_def)
    then obtain m where m: "trace_mini (queue_buf s0 ! t) = Some m" by auto
    have m': "trace_mini (queue_buf s ! t) = Some m" and t': "t < length (queue_buf s)"
      using favored_fields(1) [OF same_but_favored_entry(1) [OF same t(1)]] same_but_favored_entry(2) [OF same t(1)] m by auto
    show ?thesis
    proof (cases "mbit v k")
      case False
      then have "covered s0 s k" using bits k by auto
      then show ?thesis using False inv len top vs Some by (auto simp: cull_step_def cover_inv_def less_Suc_eq mbit_def)
    next
      case True
      then have r: "cull_step len k vs = (remove_bits len m v, favor t s)"
        using vs top Some m' by (simp add: cull_step_def mbit_def)
      have lv: "len \<le> length v" using len(2) vs by simp
      have "mbit (remove_bits len m v) i \<or> covered s0 (favor t s) i" if "i < unat (map_size s0)" for i
      proof (cases "mbit m i")
        case True
        then show ?thesis using kept_favor_self [OF t'] m by (auto simp: covered_def)
      next
        case False
        then show ?thesis
          using bits that remove_bits_mbit(2) [OF lv, of i m] len(1) covered_favor [of s0 s i t] by auto
      qed
      moreover have "length (remove_bits len m v) = length v"
        using remove_bits_mbit(1) [OF lv, of k m] k len(1) by simp
      moreover have "favored (queue_buf (favor t s) ! u) \<longrightarrow> Some u \<in> set (top_rated s0)" if "u < length (queue_buf s0)" for u
        using inv vs that mem same_but_favored_entry(2) [OF same that] by (auto simp: cover_inv_def favor_entry)
      moreover have "\<forall>i < k. \<forall>u. top_rated s0 ! i = Some u \<longrightarrow> kept s u \<or> covered s0 s i" using inv vs by (simp add: cover_inv_def)
      then have "\<forall>i < Suc k. \<forall>u. top_rated s0 ! i = Some u \<longrightarrow> kept (favor t s) u \<or> covered s0 (favor t s) i"
        using kept_favor_self [OF t'] Some by (metis covered_favor kept_favor less_Suc_eq option.inject)
      ultimately show ?thesis
        unfolding r using inv vs same_but_favored_favor [OF same] lv by (simp add: cover_inv_def)
    qed
  qed
qed

section \<open>The counters\<close>

lemma filter_flag:
  assumes "u < length xs" and "\<not> P (xs ! u)" and "P y"
  shows "mset (filter P (xs[u := y])) = add_mset y (mset (filter P xs))"
proof -
  have "filter P (xs[u := y]) = filter P (take u xs) @ y # filter P (drop (Suc u) xs)"
    using assms by (simp add: upd_conv_take_nth_drop)
  moreover have "filter P xs = filter P (take u xs) @ filter P (drop (Suc u) xs)"
    using assms by (subst id_take_nth_drop [OF assms(1)]) simp
  ultimately show ?thesis by simp
qed

lemma filter_no_flag:
  assumes "u < length xs" and "\<not> P (xs ! u)" and "\<not> P y"
  shows "filter P (xs[u := y]) = filter P xs"
proof -
  have "filter P (xs[u := y]) = filter P (take u xs) @ filter P (drop (Suc u) xs)"
    using assms by (simp add: upd_conv_take_nth_drop)
  also have "\<dots> = filter P xs"
    using assms by (subst (3) id_take_nth_drop [OF assms(1)]) simp
  finally show ?thesis .
qed

abbreviation pending :: "'d queue_entry \<Rightarrow> bool" where
  "pending q \<equiv> favored q \<and> \<not> was_fuzzed q"

definition smallest :: "'d queue_entry list \<Rightarrow> int" where
  "smallest qs = (if qs = [] then - 1 else Min ((\<lambda>q. uint (q_id q)) ` set qs))"

definition count_inv :: "'d queue_state \<Rightarrow> bool" where
  "count_inv s \<longleftrightarrow> queued_favored s = of_nat (length (filter favored (queue_buf s))) \<and>
     pending_favored s = of_nat (length (filter pending (queue_buf s))) \<and>
     smallest_favored s = smallest (filter pending (queue_buf s))"

lemma smallest_insert:
  assumes "mset qs' = add_mset q (mset qs)"
  shows "smallest qs' = (if smallest qs < 0 \<or> smallest qs > uint (q_id q) then uint (q_id q) else smallest qs)"
proof -
  have set: "set qs' = insert q (set qs)" using assms by (metis set_mset_add_mset_insert set_mset_mset)
  then have ne: "qs' \<noteq> []" by auto
  show ?thesis
  proof (cases "qs = []")
    case False
    have "0 \<le> smallest qs" using False by (simp add: smallest_def)
    moreover have "smallest qs' = min (uint (q_id q)) (smallest qs)"
      using False ne by (simp add: smallest_def set)
    ultimately show ?thesis by (simp add: min_def)
  qed (use ne set in \<open>simp add: smallest_def\<close>)
qed

lemma mset_add_length: "mset xs = add_mset y (mset ys) \<Longrightarrow> length xs = Suc (length ys)"
  by (drule arg_cong [where f = size]) simp

lemma count_inv_favor:
  assumes inv: "count_inv s" and t: "t < length (queue_buf s)"
  shows "count_inv (favor t s)"
proof (cases "favored (queue_buf s ! t) \<or> disabled (queue_buf s ! t)")
  case True
  then show ?thesis using inv by (simp add: favor_def Let_def)
next
  case False
  let ?q = "(queue_buf s ! t)\<lparr> favored := True \<rparr>"
  let ?b = "(queue_buf s)[t := ?q]"
  have fav: "mset (filter favored ?b) = add_mset ?q (mset (filter favored (queue_buf s)))"
    using False by (intro filter_flag [OF t]) auto
  then have "length (filter favored ?b) = Suc (length (filter favored (queue_buf s)))"
    by (rule mset_add_length)
  moreover have "filter pending ?b = filter pending (queue_buf s)" if "was_fuzzed (queue_buf s ! t)"
    using that by (intro filter_no_flag [OF t]) auto
  moreover have "mset (filter pending ?b) = add_mset ?q (mset (filter pending (queue_buf s)))" if "\<not> was_fuzzed (queue_buf s ! t)"
    using that False by (intro filter_flag [OF t]) auto
  moreover from this have "length (filter pending ?b) = Suc (length (filter pending (queue_buf s)))" if "\<not> was_fuzzed (queue_buf s ! t)"
    using that by (blast intro: mset_add_length)
  ultimately show ?thesis
    using False inv smallest_insert [of "filter pending ?b" ?q "filter pending (queue_buf s)"]
    by (cases "was_fuzzed (queue_buf s ! t)") (simp_all add: favor_def upd_entry_def count_inv_def Let_def)
qed

lemma cull_step_count:
  assumes "cover_inv k s0 vs" and "winners_traced s0" and "k < unat (map_size s0)" and "count_inv (snd vs)"
  shows "count_inv (snd (cull_step len k vs))"
proof -
  obtain v s where vs: "vs = (v, s)" by (cases vs)
  have same: "same_but_favored s0 s" using assms(1) vs by (simp add: cover_inv_def)
  have "t < length (queue_buf s)" if "top_rated s ! k = Some t" for t
    using assms(2,3) same that nth_mem [of k "top_rated s0"] same_but_favored_entry(2) [OF same]
    by (auto simp: winners_traced_def same_but_favored_def)
  then show ?thesis
    using assms(4) vs count_inv_favor by (auto simp: cull_step_def split: option.splits)
qed

section \<open>Culling a scored queue\<close>

definition cull_start :: "'d queue_state \<Rightarrow> 'd queue_state" where
  "cull_start s = s\<lparr> score_changed := False, queued_favored := 0, pending_favored := 0, smallest_favored := - 1,
     queue_buf := map (\<lambda>q. q\<lparr> favored := False \<rparr>) (queue_buf s) \<rparr>"

definition cull_loop :: "'d queue_state \<Rightarrow> u8 list \<times> 'd queue_state" where
  "cull_loop s = fold (cull_step (unat (drop_bit 3 (map_size s)))) [0..<unat (map_size s)]
     (replicate (unat (drop_bit 3 (map_size s))) 255 @ drop (unat (drop_bit 3 (map_size s))) (map_tmp_buf s), cull_start s)"

lemma unat_div8: "unat (drop_bit 3 (n :: u32)) = unat n div 8"
  unfolding unat_drop_bit_eq by (simp add: drop_bit_eq_div)

lemma full_byte: "k < 8 \<Longrightarrow> bit (255 :: u8) k"
proof -
  have e: "(255 :: u8) = - 1" by simp
  show "k < 8 \<Longrightarrow> bit (255 :: u8) k" unfolding e by simp
qed

lemma cull_loop_inv:
  assumes w: "winners_traced s" and d: "8 dvd unat (map_size s)"
  shows "cover_inv (unat (map_size s)) (cull_start s) (cull_loop s) \<and> count_inv (snd (cull_loop s))"
proof -
  let ?len = "unat (drop_bit 3 (map_size s))" and ?n = "unat (map_size s)"
  let ?v = "replicate ?len 255 @ drop ?len (map_tmp_buf s)" and ?s = "cull_start s"
  have n: "?n = 8 * ?len" using d by (simp add: unat_div8)
  have w': "winners_traced ?s" using w by (auto simp: winners_traced_def cull_start_def)
  have ms: "map_size ?s = map_size s" by (simp add: cull_start_def)
  have "mbit ?v i" if "i < ?n" for i
  proof -
    have "i div 8 < ?len" using that n by (simp add: div_less_iff_less_mult mult.commute)
    then have v: "?v ! (i div 8) = 255" by (simp add: nth_append)
    show ?thesis unfolding mbit_def v by (rule full_byte) simp
  qed
  then have start: "cover_inv 0 ?s (?v, ?s)"
    using n by (auto simp: cover_inv_def same_but_favored_def cull_start_def)
  have "filter favored (queue_buf ?s) = []" "filter pending (queue_buf ?s) = []"
    by (auto simp: cull_start_def filter_empty_conv)
  then have cnt: "count_inv ?s" by (simp add: count_inv_def smallest_def) (simp add: cull_start_def)
  have "(\<lambda>k vs. cover_inv k ?s vs \<and> ?len \<le> length (fst vs) \<and> count_inv (snd vs)) ?n (fold (cull_step ?len) [0..<?n] (?v, ?s))"
  proof (rule fold_upt_inv)
    show "cover_inv 0 ?s (?v, ?s) \<and> ?len \<le> length (fst (?v, ?s)) \<and> count_inv (snd (?v, ?s))" using start cnt by simp
  next
    fix k vs assume k: "k < ?n" and inv: "cover_inv k ?s vs \<and> ?len \<le> length (fst vs) \<and> count_inv (snd vs)"
    then show "cover_inv (Suc k) ?s (cull_step ?len k vs) \<and> ?len \<le> length (fst (cull_step ?len k vs)) \<and>
        count_inv (snd (cull_step ?len k vs))"
      using cover_step [of k ?s vs ?len] cull_step_count [of k ?s vs ?len] w' n ms by simp
  qed
  then show ?thesis by (simp add: cull_loop_def)
qed

lemma cull_queue_loop:
  assumes "score_changed s" and "\<not> non_instrumented_mode s"
  shows "queue_buf (cull_queue s) = map (\<lambda>q. if disabled q then q
      else mark_as_redundant (disable_redundant s) (\<not> favored q) q) (queue_buf (snd (cull_loop s)))"
    "queued_favored (cull_queue s) = queued_favored (snd (cull_loop s))"
    "pending_favored (cull_queue s) = pending_favored (snd (cull_loop s))"
    "smallest_favored (cull_queue s) = smallest_favored (snd (cull_loop s))"
  using assms by (simp_all add: cull_queue_def cull_loop_def cull_start_def case_prod_unfold Let_def)

lemma mark_fields [simp]:
  "favored (mark_as_redundant d r q) = favored q" "was_fuzzed (mark_as_redundant d r q) = was_fuzzed q"
  "q_id (mark_as_redundant d r q) = q_id q"
  by (simp_all add: mark_as_redundant_def Let_def)

lemma mini_bit:
  assumes "8 dvd unat msize" and "i < unat msize"
  shows "mbit (mini msize trace) i \<longleftrightarrow> trace ! i \<noteq> 0"
proof -
  have "unat msize < 2 ^ 32" using unsigned_less [of msize, where ?'a = nat] by simp
  then have "unat msize + 7 < 2 ^ 32" using assms(1) by (elim dvdE) simp
  then have "unat (msize + 7) = unat msize + 7" by (subst unat_add_lem [THEN iffD1]) simp_all
  then have len: "unat (drop_bit 3 (msize + 7)) = unat msize div 8" using assms(1) by (elim dvdE) (simp add: unat_div8)
  have i: "i div 8 < unat msize div 8" "8 * (unat msize div 8) = unat msize"
    using assms by (auto elim!: dvdE simp: div_less_iff_less_mult mult.commute)
  then show ?thesis
    using minimize_loop [of "unat msize" "replicate (unat msize div 8) 0" i trace] assms(2)
    by (simp add: mbit_def mini_def minimize_bits_def minimize_step_def [abs_def] len)
qed

lemma score_inv_traced:
  assumes inv: "score_inv J T s0 s"
  shows "winners_traced s"
    "\<And>t m. t < length (queue_buf s) \<Longrightarrow> trace_mini (queue_buf s ! t) = Some m \<Longrightarrow> t \<in> J \<and> m = mini (map_size s) (T t)"
proof -
  have refs: "refs_inv T s" and len: "length (top_rated s) = unat (map_size s)" and ms: "map_size s = map_size s0"
    using inv by (simp_all add: score_inv_def refs_inv_def same_static_def)
  have pos: "0 < slots s t" if "Some t \<in> set (top_rated s)" for t using that by (simp add: slots_def)
  show "winners_traced s"
    unfolding winners_traced_def
  proof (intro conjI allI impI)
    fix t assume t: "Some t \<in> set (top_rated s)"
    then show lt: "t < length (queue_buf s)" using refs len by (auto simp: refs_inv_def in_set_conv_nth)
    show "trace_mini (queue_buf s ! t) \<noteq> None" using refs lt pos [OF t] by (simp add: refs_inv_def)
  qed (rule len)
  fix t m assume t: "t < length (queue_buf s)" "trace_mini (queue_buf s ! t) = Some m"
  then have "slots s t \<noteq> 0" and m: "m = mini (map_size s) (T t)" using refs by (auto simp: refs_inv_def split: if_splits)
  then have "Some t \<in> set (top_rated s)" by (metis count_mset_0_iff slots_def)
  then obtain i where "i < unat (map_size s)" "top_rated s ! i = Some t" using len by (auto simp: in_set_conv_nth)
  then have "t \<in> J" using inv ms by (auto simp: score_inv_def slot_best_def split: option.splits dest!: spec [of _ i])
  then show "t \<in> J \<and> m = mini (map_size s) (T t)" using m by simp
qed

lemma kept_enabled:
  assumes inv: "score_inv J T s0 s" and J: "\<And>t. t \<in> J \<Longrightarrow> \<not> disabled (queue_buf s0 ! t)"
    and k: "kept s' t" and same: "same_but_favored (cull_start s) s'" and t: "t \<in> J"
  shows "favored (queue_buf s' ! t)"
proof -
  have lt: "t < length (queue_buf s0)" "length (queue_buf s) = length (queue_buf s0)"
    using inv t same_static_length [of s0 s] by (auto simp: score_inv_def)
  have "\<not> disabled (queue_buf s ! t)" using rank_static(2) [of s0 s t] inv lt J [OF t] by (simp add: score_inv_def)
  moreover have "disabled (queue_buf s' ! t) = disabled (queue_buf (cull_start s) ! t)"
    using favored_fields(2) [OF same_but_favored_entry(1) [OF same]] lt by (simp add: cull_start_def)
  ultimately show ?thesis using k lt by (auto simp: kept_def cull_start_def)
qed

lemma filter_mark:
  assumes "\<And>q. P (if disabled q then q else mark_as_redundant d (\<not> favored q) q) = P q"
    and "\<And>q. g (if disabled q then q else mark_as_redundant d (\<not> favored q) q) = g q"
  shows "map g (filter P (map (\<lambda>q. if disabled q then q else mark_as_redundant d (\<not> favored q) q) qs)) = map g (filter P qs)"
  by (induction qs) (simp_all add: assms)

lemma smallest_map: "map q_id qs = map q_id qs' \<Longrightarrow> smallest qs = smallest qs'"
proof -
  assume m: "map q_id qs = map q_id qs'"
  then have "q_id ` set qs = q_id ` set qs'" by (metis set_map)
  then have "(\<lambda>q. uint (q_id q)) ` set qs = (\<lambda>q. uint (q_id q)) ` set qs'" by (metis image_image)
  then show ?thesis using m by (auto simp: smallest_def)
qed

lemma same_but_favored_length: "same_but_favored s0 s \<Longrightarrow> length (queue_buf s) = length (queue_buf s0)"
  unfolding same_but_favored_def by (metis length_map)

lemma cull_scored:
  assumes inv: "score_inv J T s0 s" and J: "\<And>t. t \<in> J \<Longrightarrow> \<not> disabled (queue_buf s0 ! t)"
    and d: "8 dvd unat (map_size s0)" and go: "\<not> non_instrumented_mode s0"
    and hit: "i < unat (map_size s0)" "j \<in> J" "T j ! i \<noteq> 0"
  shows "(\<exists>f \<in> J. favored (queue_buf (cull_queue s) ! f) \<and> T f ! i \<noteq> 0) \<and> count_inv (cull_queue s)"
proof -
  let ?c = "snd (cull_loop s)" and ?f = "\<lambda>q. if disabled q then q else mark_as_redundant (disable_redundant s) (\<not> favored q) q"
  have ms: "map_size s = map_size s0" and go': "\<not> non_instrumented_mode s" using inv go by (simp_all add: score_inv_def same_static_def)
  have best: "slot_best J T s i" using inv hit(1) by (simp add: score_inv_def)
  then obtain w where w: "top_rated s ! i = Some w" "w \<in> J" "T w ! i \<noteq> 0"
    using hit(2,3) by (auto simp: slot_best_def split: option.splits)
  then have ch: "score_changed s" using inv hit(1) by (auto simp: score_inv_def)
  have loop: "cover_inv (unat (map_size s)) (cull_start s) (cull_loop s)" "count_inv ?c"
    using cull_loop_inv [OF score_inv_traced(1) [OF inv]] d ms by simp_all
  then have same: "same_but_favored (cull_start s) ?c" by (auto simp: cover_inv_def case_prod_unfold)
  have "kept ?c w \<or> covered (cull_start s) ?c i"
    using loop(1) w(1) hit(1) ms by (auto simp: cover_inv_def case_prod_unfold cull_start_def)
  then obtain f where f: "kept ?c f" "f \<in> J" "T f ! i \<noteq> 0"
  proof
    assume "covered (cull_start s) ?c i"
    then obtain f m where c: "kept ?c f" "trace_mini (queue_buf (cull_start s) ! f) = Some m" "mbit m i" by (auto simp: covered_def)
    have lt: "f < length (queue_buf s)"
      using c(1) same_but_favored_length [OF same] by (simp add: kept_def cull_start_def)
    then have m: "trace_mini (queue_buf s ! f) = Some m" using c(2) by (simp add: cull_start_def)
    show thesis
      using that c(1,3) score_inv_traced(2) [OF inv lt m] mini_bit [of "map_size s" i "T f"] d ms hit(1) by auto
  qed (use w in blast)
  have lt: "f < length (queue_buf ?c)" using f(1) by (simp add: kept_def)
  have "favored (queue_buf (cull_queue s) ! f)"
    using kept_enabled [OF inv J f(1) same f(2)] lt by (simp add: cull_queue_loop [OF ch go'])
  moreover have "count_inv (cull_queue s)"
  proof -
    have p: "map q_id (filter pending (map ?f (queue_buf ?c))) = map q_id (filter pending (queue_buf ?c))"
      and q: "map q_id (filter favored (map ?f (queue_buf ?c))) = map q_id (filter favored (queue_buf ?c))"
      by (rule filter_mark; simp)+
    then show ?thesis
      using loop(2) smallest_map [OF p] map_eq_imp_length_eq [OF p] map_eq_imp_length_eq [OF q]
      unfolding count_inv_def cull_queue_loop [OF ch go'] by simp
  qed
  ultimately show ?thesis using f by blast
qed

section \<open>Properties\<close>

text \<open>
  C19. The favored entries cover what the queue has reached. Start from a queue in which nothing was
  scored, score any entries in any order, each with its trace, and cull. For every byte of the map
  that a scored enabled entry hits there is a favored entry that hits it. The counters of
  favored and of pending entries are exact, and \<^verbatim>\<open>smallest_favored\<close> is the smallest number of a pending
  one, or -1.
\<close>

theorem favored_cover:
  assumes "unscored s" and "set js \<subseteq> {0..<length (queue_buf s)}" and "8 dvd unat (map_size s)" and "\<not> non_instrumented_mode s"
    and "i < unat (map_size s)" and "j \<in> enabled s js" and "T j ! i \<noteq> 0"
  defines "s' \<equiv> cull_queue (score_all T js s)"
  shows "(\<exists>f \<in> enabled s js. favored (queue_buf s' ! f) \<and> T f ! i \<noteq> 0) \<and>
    queued_favored s' = of_nat (length (filter favored (queue_buf s'))) \<and>
    pending_favored s' = of_nat (length (filter pending (queue_buf s'))) \<and>
    smallest_favored s' = smallest (filter pending (queue_buf s'))"
proof -
  note inv = score_all_inv [OF assms(1,2), of T]
  have en: "\<And>t. t \<in> enabled s js \<Longrightarrow> \<not> disabled (queue_buf s ! t)" by (simp add: enabled_def)
  show ?thesis
    using cull_scored [OF inv en assms(3,4,5,6,7)] unfolding s'_def count_inv_def by simp
qed

theorem favored_cover_witness:
  "demo_trace 0 ! 1 \<noteq> 0 \<and>
   (\<exists>f \<in> enabled demo [0, 1, 2]. favored (queue_buf (cull_queue (score_all demo_trace [0, 1, 2] demo)) ! f) \<and> demo_trace f ! 1 \<noteq> 0) \<and>
   queued_favored (cull_queue (score_all demo_trace [0, 1, 2] demo)) = 2"
proof -
  have h: "unscored demo" "set [0, 1, 2] \<subseteq> {0..<length (queue_buf demo)}" "8 dvd unat (map_size demo)"
    "\<not> non_instrumented_mode demo" "1 < unat (map_size demo)" "0 \<in> enabled demo [0, 1, 2]" "demo_trace 0 ! 1 \<noteq> 0"
    by code_simp+
  have "length (filter favored (queue_buf (cull_queue (score_all demo_trace [0, 1, 2] demo)))) = 2" by code_simp
  then show ?thesis using favored_cover [where T = demo_trace, OF h] h(7) by simp
qed


end
