(* ===== verification/Afl_Alias.thy ===== *)
theory Afl_Alias
  imports Afl_Cull Afl_Rand
begin

text \<open>
  Selection of the next entry: \<^verbatim>\<open>calculate_score\<close>, \<^verbatim>\<open>compute_weight\<close>, \<^verbatim>\<open>create_alias_table\<close> and
  \<^verbatim>\<open>select_next_queue_entry\<close> of \<^verbatim>\<open>aflpp/src/afl-fuzz-queue.c\<close> in the build with \<^verbatim>\<open>AFL_SWAM\<close>. Doubles are the
  interface of the prelude, and so is the long double of the \<^verbatim>\<open>COE\<close> schedule; integers have their
  widths. \<^verbatim>\<open>FATAL\<close> and a division by zero are \<^term>\<open>None\<close>. The two work stacks of the alias construction are
  arrays with counters, as in the code; the proofs relate them to lists. In exact arithmetic the table
  gives every enabled entry a share proportional to its weight and disabled ones none, and a faster entry
  never scores less.
\<close>

section \<open>The score of an entry\<close>

text \<open>A product of an unsigned integer with a double, stored in the integer.\<close>

definition mul_dbl :: "'d dbl_ops \<Rightarrow> u32 \<Rightarrow> 'd \<Rightarrow> u32" where
  "mul_dbl D x f = of_nat (d_trunc D (d_mul D (d_of_nat D (unat x)) f))"

definition MAX_FACTOR :: nat where
  "MAX_FACTOR = 32"

definition POWER_BETA :: nat where
  "POWER_BETA = 1"

definition avg_exec_us :: "'d queue_state \<Rightarrow> u32" where
  "avg_exec_us s =
     (let cal_cycles = (ucast (total_cal_cycles s) :: u32); cal_cycles = (if cal_cycles = 0 then 1 else cal_cycles)
      in ucast (total_cal_us s div ucast cal_cycles))"

definition avg_bitmap_size :: "'d queue_state \<Rightarrow> u32" where
  "avg_bitmap_size s =
     (let entries = (ucast (total_bitmap_entries s) :: u32); entries = (if entries = 0 then 1 else entries)
      in ucast (total_bitmap_size s div ucast entries))"

definition speed_score :: "'d dbl_ops \<Rightarrow> 'd queue_state \<Rightarrow> 'd queue_entry \<Rightarrow> u32" where
  "speed_score D s q =
     (let avg = avg_exec_us s;
          above = (\<lambda>c. d_less D (d_of_nat D (unat avg)) (d_mul D (d_of_nat D (unat (exec_us q))) (d_lit D c)))
      in if schedule s \<in> set [RARE, SEEK] \<or> queue_state.fixed_seed s then 100
         else if above (1 / 10) then 10
         else if above (1 / 4) then 25
         else if above (1 / 2) then 50
         else if above (3 / 4) then 75
         else if exec_us q * 4 < ucast avg then 300
         else if exec_us q * 3 < ucast avg then 200
         else if exec_us q * 2 < ucast avg then 150
         else 100)"

definition coverage_score :: "'d dbl_ops \<Rightarrow> 'd queue_state \<Rightarrow> 'd queue_entry \<Rightarrow> u32 \<Rightarrow> u32" where
  "coverage_score D s q score =
     (let avg = avg_bitmap_size s; size = (\<lambda>c. d_mul D (d_of_nat D (unat (bitmap_size q))) (d_lit D c));
          above = (\<lambda>c. d_less D (d_of_nat D (unat avg)) (size c))
      in if above (3 / 10) then score * 3
         else if above (1 / 2) then score * 2
         else if above (3 / 4) then mul_dbl D score (d_lit D (3 / 2))
         else if bitmap_size q * 3 < avg then mul_dbl D score (d_lit D (1 / 4))
         else if bitmap_size q * 2 < avg then mul_dbl D score (d_lit D (1 / 2))
         else if d_less D (size (3 / 2)) (d_of_nat D (unat avg)) then mul_dbl D score (d_lit D (3 / 4))
         else score)"

definition handicap_score :: "'d queue_entry \<Rightarrow> u32 \<Rightarrow> u32 \<times> 'd queue_entry" where
  "handicap_score q score =
     (if handicap q \<ge> 4 then (score * 4, q\<lparr> handicap := handicap q - 4 \<rparr>)
      else if handicap q \<noteq> 0 then (score * 2, q\<lparr> handicap := handicap q - 1 \<rparr>)
      else (score, q))"

definition depth_score :: "'d queue_entry \<Rightarrow> u32 \<Rightarrow> u32" where
  "depth_score q score =
     (if depth q \<le> 3 then score
      else if depth q \<le> 7 then score * 2
      else if depth q \<le> 13 then score * 3
      else if depth q \<le> 25 then score * 4
      else score * 5)"

abbreviation n_fuzz_of :: "'d queue_state \<Rightarrow> 'd queue_entry \<Rightarrow> u32" where
  "n_fuzz_of s q \<equiv> n_fuzz s ! unat (n_fuzz_entry q)"

definition fast_factor :: "'d dbl_ops \<Rightarrow> 'd queue_state \<Rightarrow> 'd queue_entry \<Rightarrow> 'd" where
  "fast_factor D s q =
     (if fuzz_level q = 0 then d_of_nat D 1
      else
        (let l = (of_nat (d_trunc D (d_log2 D (d_of_nat D (unat (n_fuzz_of s q))))) :: u32);
             factor =
               (if l \<le> 1 then d_of_nat D 4
                else if l \<le> 3 then d_of_nat D 3
                else if l = 4 then d_of_nat D 2
                else if l = 5 \<or> favored q then d_of_nat D 1
                else if l = 6 then d_lit D (4 / 5)
                else if l = 7 then d_lit D (3 / 5)
                else d_lit D (2 / 5))
         in if favored q then d_mul D factor (d_lit D (115 / 100)) else factor))"

text \<open>The mean of the logarithms over the enabled entries; without any the process ends.\<close>

definition fuzz_mu :: "'d dbl_ops \<Rightarrow> 'd queue_state \<Rightarrow> 'd option" where
  "fuzz_mu D s =
     (let (mu, n_items) = fold (\<lambda>q (mu, n). if disabled q then (mu, n)
                                  else (d_add D mu (d_log2 D (d_of_nat D (unat (n_fuzz_of s q)))), n + 1 :: u32))
                            (queue_buf s) (d_of_nat D 0, 0)
      in if n_items = 0 then None else Some (d_div D mu (d_of_nat D (unat n_items))))"

definition schedule_score :: "'d dbl_ops \<Rightarrow> 'd queue_state \<Rightarrow> 'd queue_entry \<Rightarrow> u32 \<Rightarrow> (u32 \<times> 'd) option" where
  "schedule_score D s q score =
     (case schedule s of
        EXPLORE \<Rightarrow> Some (score, d_of_nat D 1)
      | SEEK \<Rightarrow> Some (score, d_of_nat D 1)
      | EXPLOIT \<Rightarrow> Some (score, d_of_nat D MAX_FACTOR)
      | COE \<Rightarrow>
          if fuzz_level q = 0 then Some (score, d_of_nat D 1)
          else
            (case fuzz_mu D s of
               None \<Rightarrow> None
             | Some mu \<Rightarrow>
                 if d_less D mu (d_log2 D (d_of_nat D (unat (n_fuzz_of s q))))
                 then Some (score, if favored q then d_of_nat D 1 else d_of_nat D 0)
                 else Some (score, fast_factor D s q))
      | FAST \<Rightarrow> Some (score, fast_factor D s q)
      | LIN \<Rightarrow>
          if fuzz_level q = 0 then Some (score, d_of_nat D 1)
          else if n_fuzz_of s q + 1 = 0 then None
          else Some (score, d_of_nat D (unat (fuzz_level q div (n_fuzz_of s q + 1))))
      | QUAD \<Rightarrow>
          if fuzz_level q = 0 then Some (score, d_of_nat D 1)
          else if n_fuzz_of s q + 1 = 0 then None
          else Some (score, d_of_nat D (unat (fuzz_level q * fuzz_level q div (n_fuzz_of s q + 1))))
      | MMOPT \<Rightarrow> Some (if ucast (max_depth s) - depth q < 5 then score * 2 else score, d_of_nat D 1)
      | RARE \<Rightarrow>
          Some (mul_dbl D (score + tc_ref q * 10)
                  (d_sub D (d_of_nat D 1) (d_div D (d_of_nat D (unat (n_fuzz_of s q))) (d_of_nat D (unat (total_execs s))))),
                d_of_nat D 1))"

definition final_score :: "'d dbl_ops \<Rightarrow> 'd queue_state \<Rightarrow> 'd queue_entry \<Rightarrow> u32 \<Rightarrow> 'd \<Rightarrow> u32" where
  "final_score D s q score factor =
     (let capped = (if d_less D (d_of_nat D MAX_FACTOR) factor then d_of_nat D MAX_FACTOR else factor);
          score = (if schedule s \<in> set [EXPLOIT, FAST, COE, LIN, QUAD]
                   then mul_dbl D score (d_div D capped (d_of_nat D POWER_BETA)) else score);
          score = (if limit_time_sig s \<noteq> 0 \<and> ucast (max_depth s) - depth q < 3 then score * 2
                   else if schedule s \<noteq> COE \<and> score < 1 then 1
                   else score)
      in if score > ucast (havoc_max_mult s) * 100 then ucast (havoc_max_mult s) * 100 else score)"

definition calculate_score :: "'d dbl_ops \<Rightarrow> 'd queue_state \<Rightarrow> 'd queue_entry \<Rightarrow> (u32 \<times> 'd queue_entry) option" where
  "calculate_score D s q =
     (let score = speed_score D s q;
          score = coverage_score D s q score;
          (score, q') = handicap_score q score;
          score = depth_score q' score
      in map_option (\<lambda>(score, factor). (final_score D s q' score factor, q')) (schedule_score D s q' score))"

section \<open>Weights\<close>

definition compute_weight :: "'d dbl_ops \<Rightarrow> 'd queue_state \<Rightarrow> 'd queue_entry \<Rightarrow> 'd \<Rightarrow> 'd \<Rightarrow> 'd \<Rightarrow> 'd" where
  "compute_weight D s q avg_exec avg_bitmap avg_top =
     (let zero = d_of_nat D 0; one = d_of_nat D 1;
          hits = n_fuzz_of s q;
          weight = (if schedule s \<in> set [FAST, COE, LIN, QUAD, RARE] \<and> hits \<noteq> 0
                    then d_div D one (d_add D (d_log10 D (d_of_nat D (unat hits))) one) else one);
          weight = (if schedule s \<notin> set [RARE, SEEK] \<and> d_less D zero avg_exec \<and> d_less D zero (d_of_nat D (unat (exec_us q)))
                    then d_mul D weight (d_div D avg_exec (d_of_nat D (unat (exec_us q)))) else weight);
          weight = (if d_less D zero avg_bitmap \<and> bitmap_size q > 0
                    then d_mul D weight (d_div D (d_log D (d_of_nat D (unat (bitmap_size q)))) avg_bitmap) else weight);
          weight = (if d_less D zero avg_top
                    then d_mul D weight (d_add D one (d_div D (d_of_nat D (unat (tc_ref q))) avg_top)) else weight);
          weight = (if d_less D weight (d_lit D (1 / 10)) then d_lit D (1 / 10) else weight);
          weight = (if favored q then d_mul D weight (d_of_nat D 5) else weight);
          weight = (if \<not> was_fuzzed q then d_mul D weight (d_of_nat D 2) else weight)
      in if fs_redundant q then d_mul D weight (d_lit D (4 / 5)) else weight)"

text \<open>Sums over the enabled entries: times, logarithms of sizes, references, and their number.\<close>

definition avg_sums :: "'d dbl_ops \<Rightarrow> 'd queue_state \<Rightarrow> 'd \<times> 'd \<times> 'd \<times> u32" where
  "avg_sums D s =
     fold (\<lambda>q (e, b, t, active). if disabled q then (e, b, t, active)
             else (d_add D e (d_of_nat D (unat (exec_us q))),
                   if bitmap_size q > 0 then d_add D b (d_log D (d_of_nat D (unat (bitmap_size q)))) else b,
                   d_add D t (d_of_nat D (unat (tc_ref q))), active + 1))
       (queue_buf s) (d_of_nat D 0, d_of_nat D 0, d_of_nat D 0, 0)"

text \<open>
  The loops that score every enabled entry: \<open>set_w\<close> is what they store before the score, \<open>get_w\<close> what
  they add up.
\<close>

fun weigh_loop ::
  "'d dbl_ops \<Rightarrow> ('d queue_state \<Rightarrow> 'd queue_entry \<Rightarrow> 'd queue_entry) \<Rightarrow> ('d queue_entry \<Rightarrow> 'd) \<Rightarrow> nat list \<Rightarrow> 'd \<Rightarrow> 'd queue_state
   \<Rightarrow> ('d \<times> 'd queue_state) option" where
  "weigh_loop D set_w get_w [] sum_w s = Some (sum_w, s)"
| "weigh_loop D set_w get_w (i # is) sum_w s =
     (let q = queue_buf s ! i
      in if disabled q then weigh_loop D set_w get_w is sum_w s
         else
           (case calculate_score D s (set_w s q) of
              None \<Rightarrow> None
            | Some (score, q1) \<Rightarrow>
                (let q2 = q1\<lparr> perf_score := d_of_nat D (unat score) \<rparr>
                 in weigh_loop D set_w get_w is (d_add D sum_w (get_w q2)) (upd_entry i (\<lambda>_. q2) s))))"

definition swam_weights :: "'d dbl_ops \<Rightarrow> 'd queue_state \<Rightarrow> ('d \<times> 'd queue_state) option" where
  "swam_weights D s =
     (let (e, b, t, active) = avg_sums D s; n = length (queue_buf s)
      in if active > 0 then
           (let k = d_of_nat D (unat active);
                avg_exec = d_div D e k;
                avg_exec = (if d_le D avg_exec (d_of_nat D 0) then d_of_nat D 1 else avg_exec);
                avg_bitmap = d_div D b k;
                avg_top = d_div D t k
            in weigh_loop D (\<lambda>s q. q\<lparr> weight := compute_weight D s q avg_exec avg_bitmap avg_top \<rparr>) weight [0..<n] (d_of_nat D 0) s)
         else weigh_loop D (\<lambda>s q. q\<lparr> weight := d_of_nat D 1 \<rparr>) weight [0..<n] (d_of_nat D 0) s)"

definition mmopt_boost :: "'d dbl_ops \<Rightarrow> 'd queue_state \<Rightarrow> 'd queue_state" where
  "mmopt_boost D s =
     (if schedule s = MMOPT \<and> queued_discovered s \<noteq> 0 then
        (let n = length (queue_buf s); cnt = (if queued_discovered s \<ge> 5 then 5 else queued_discovered s)
         in fold (\<lambda>i. upd_entry i (\<lambda>q. if disabled q then q else q\<lparr> weight := d_mul D (weight q) (d_of_nat D 2) \<rparr>))
              [unat (of_nat n - cnt)..<n] s)
      else s)"

definition weightings :: "'d dbl_ops \<Rightarrow> 'd \<Rightarrow> ('d queue_entry \<Rightarrow> 'd) \<Rightarrow> 'd queue_state \<Rightarrow> 'd list" where
  "weightings D sum_w get_w s =
     map (\<lambda>q. if disabled q then d_of_nat D 0
              else d_div D (d_mul D (get_w q) (d_of_nat D (length (queue_buf s)))) sum_w) (queue_buf s)"

section \<open>The alias table\<close>

record 'd alias_work =
  al_P :: "'d list"
  al_Small :: "u32 list"
  nSmall :: u32
  al_Large :: "u32 list"
  nLarge :: u32
  al_prob :: "'d list"
  al_table :: "u32 list"

text \<open>\<^verbatim>\<open>Small\<close> is a stack that grows upwards from 0, \<^verbatim>\<open>Large\<close> one that grows downwards from \<^verbatim>\<open>n - 1\<close>.\<close>

definition classify :: "'d dbl_ops \<Rightarrow> u32 \<Rightarrow> 'd alias_work \<Rightarrow> 'd alias_work" where
  "classify D j w =
     (if d_less D (al_P w ! unat j) (d_of_nat D 1)
      then w\<lparr> al_Small := (al_Small w)[unat (nSmall w) := j], nSmall := nSmall w + 1 \<rparr>
      else w\<lparr> al_Large := (al_Large w)[unat (nLarge w) := j], nLarge := nLarge w - 1 \<rparr>)"

definition alias_step :: "'d dbl_ops \<Rightarrow> 'd alias_work \<Rightarrow> 'd alias_work" where
  "alias_step D w =
     (let w1 = w\<lparr> nSmall := nSmall w - 1, nLarge := nLarge w + 1 \<rparr>;
          small = al_Small w1 ! unat (nSmall w1);
          large = al_Large w1 ! unat (nLarge w1);
          p = al_P w1 ! unat small;
          w2 = w1\<lparr> al_prob := (al_prob w1)[unat small := p], al_table := (al_table w1)[unat small := large],
                   al_P := (al_P w1)[unat large := d_sub D (al_P w1 ! unat large) (d_sub D (d_of_nat D 1) p)] \<rparr>
      in classify D large w2)"

partial_function (option) alias_loop :: "'d dbl_ops \<Rightarrow> u32 \<Rightarrow> 'd alias_work \<Rightarrow> 'd alias_work option" where
  "alias_loop D n w =
     (if nSmall w \<noteq> 0 \<and> nLarge w \<noteq> n - 1 then alias_loop D n (alias_step D w) else Some w)"

definition alias_finish :: "'d dbl_ops \<Rightarrow> u32 \<Rightarrow> 'd alias_work \<Rightarrow> 'd list" where
  "alias_finish D n w =
     (let settle = (\<lambda>k prob. prob[unat k := d_of_nat D 1]);
          prob = fold settle (map ((!) (al_Small w)) (rev [0..<unat (nSmall w)])) (al_prob w)
      in fold settle (map (\<lambda>k. al_Large w ! unat (nLarge w + 1 + of_nat k)) [0..<unat (n - 1 - nLarge w)]) prob)"

definition alias_build :: "'d dbl_ops \<Rightarrow> 'd list \<Rightarrow> ('d list \<times> u32 list) option" where
  "alias_build D P =
     (let N = length P; n = of_nat N;
          w = \<lparr> al_P = P, al_Small = replicate N 0, nSmall = 0, al_Large = replicate N 0, nLarge = n - 1,
               al_prob = replicate N (d_of_nat D 0), al_table = replicate N 0 \<rparr>;
          w1 = fold (classify D) (map of_nat (rev [0..<nat (sint (n - 1) + 1)])) w
      in map_option (\<lambda>w2. (alias_finish D n w2, al_table w2)) (alias_loop D n w1))"

text \<open>\<open>alloc\<close> is the outcome of the five allocations; \<^verbatim>\<open>FATAL\<close> is \<^term>\<open>None\<close>.\<close>

definition create_alias_table :: "'d dbl_ops \<Rightarrow> bool \<Rightarrow> 'd queue_state \<Rightarrow> 'd queue_state option" where
  "create_alias_table D alloc s =
     (if \<not> alloc then None
      else
        (case (if schedule s \<notin> set [RARE, SEEK]
               then map_option (\<lambda>(sum_w, s). let s = mmopt_boost D s in (weightings D sum_w weight s, s)) (swam_weights D s)
               else map_option (\<lambda>(sum_w, s). (weightings D sum_w perf_score s, s))
                      (weigh_loop D (\<lambda>s q. q) perf_score [0..<length (queue_buf s)] (d_of_nat D 0) s)) of
           None \<Rightarrow> None
         | Some (P, s1) \<Rightarrow>
             map_option (\<lambda>(prob, tab). s1\<lparr> alias_probability := prob, alias_table := tab, reinit_table := False \<rparr>)
               (alias_build D P)))"

section \<open>Selection\<close>

definition rand_next_percent :: "'d dbl_ops \<Rightarrow> afl_rng \<Rightarrow> 'd \<times> afl_rng" where
  "rand_next_percent D g = (let (r, g') = rand_next g in (d_div D (d_of_nat D (unat r)) (d_of_nat D (2 ^ 64 - 1)), g'))"

definition alias_pick :: "'d dbl_ops \<Rightarrow> 'd queue_state \<Rightarrow> u32 \<Rightarrow> 'd \<Rightarrow> u32" where
  "alias_pick D s i p = (if d_less D p (alias_probability s ! unat i) then i else alias_table s ! unat i)"

definition select_next_queue_entry :: "'d dbl_ops \<Rightarrow> 'd queue_state \<Rightarrow> afl_rng \<Rightarrow> (u32 \<times> afl_rng) option" where
  "select_next_queue_entry D s g =
     (case rand_below g (of_nat (length (queue_buf s))) of
        None \<Rightarrow> None
      | Some (i, g1) \<Rightarrow> (let (p, g2) = rand_next_percent D g1 in Some (alias_pick D s i p, g2)))"

section \<open>The stacks\<close>

text \<open>The lists a work record stands for, their tops first.\<close>

definition stacks :: "nat \<Rightarrow> 'd alias_work \<Rightarrow> nat list \<Rightarrow> nat list \<Rightarrow> bool" where
  "stacks n w S L \<longleftrightarrow> length S + length L \<le> n \<and> n < 2 ^ 31 \<and> set (S @ L) \<subseteq> {0..<n} \<and>
     length (al_P w) = n \<and> length (al_Small w) = n \<and> length (al_Large w) = n \<and> length (al_prob w) = n \<and> length (al_table w) = n \<and>
     nSmall w = of_nat (length S) \<and> take (length S) (al_Small w) = map of_nat (rev S) \<and>
     nLarge w = of_nat n - 1 - of_nat (length L) \<and> drop (n - length L) (al_Large w) = map of_nat L"

lemma unat_small: "k < 2 ^ 32 \<Longrightarrow> unat (of_nat k :: u32) = k"
  by (subst unat_of_nat) simp

lemma stacks_word:
  assumes "stacks n w S L" and "a \<in> set (S @ L)"
  shows "unat (of_nat a :: u32) = a"
  using assms by (intro unat_small) (auto simp: stacks_def)

lemma stacks_nSmall: "stacks n w S L \<Longrightarrow> unat (nSmall w) = length S"
  by (auto simp: stacks_def intro!: unat_small)

lemma stacks_empty:
  assumes "stacks n w S L"
  shows "nSmall w = 0 \<longleftrightarrow> S = []" "nLarge w = of_nat n - 1 \<longleftrightarrow> L = []"
proof -
  show "nSmall w = 0 \<longleftrightarrow> S = []" using stacks_nSmall [OF assms] by (metis length_0_conv unat_eq_zero)
  have "unat (of_nat (length L) :: u32) = length L" using assms by (intro unat_small) (auto simp: stacks_def)
  then have "(of_nat (length L) :: u32) = 0 \<longleftrightarrow> L = []" by (metis length_0_conv unat_eq_zero)
  then show "nLarge w = of_nat n - 1 \<longleftrightarrow> L = []" using assms by (auto simp: stacks_def)
qed

lemma stacks_pop:
  assumes "stacks n w (a # S) (b # L)"
  shows "al_Small w ! unat (nSmall w - 1) = of_nat a" "al_Large w ! unat (nLarge w + 1) = of_nat b"
    "stacks n (w\<lparr> nSmall := nSmall w - 1, nLarge := nLarge w + 1 \<rparr>) S L"
proof -
  have n: "length S + length L + 2 \<le> n" "n < 2 ^ 31" using assms by (auto simp: stacks_def)
  have s: "nSmall w - 1 = of_nat (length S)" using assms by (simp add: stacks_def)
  have l: "nLarge w + 1 = of_nat (n - Suc (length L))"
    using assms n(1) by (simp add: stacks_def of_nat_diff algebra_simps)
  have us: "unat (nSmall w - 1) = length S" "unat (nLarge w + 1) = n - Suc (length L)"
    unfolding s l by (rule unat_small; use n in simp)+
  have small: "take (Suc (length S)) (al_Small w) = map of_nat (rev S) @ [of_nat a]" and len: "length (al_Small w) = n" "length (al_Large w) = n"
    and large: "drop (n - Suc (length L)) (al_Large w) = of_nat b # map of_nat L"
    using assms by (simp_all add: stacks_def)
  have "take (Suc (length S)) (al_Small w) ! length S = of_nat a" unfolding small by (simp add: nth_append)
  then show "al_Small w ! unat (nSmall w - 1) = of_nat a" by (simp add: us)
  have "drop (n - Suc (length L)) (al_Large w) ! 0 = of_nat b" unfolding large by simp
  then show "al_Large w ! unat (nLarge w + 1) = of_nat b" using n by (simp add: us len)
  have "take (length S) (take (Suc (length S)) (al_Small w)) = map of_nat (rev S)" unfolding small by simp
  then have t: "take (length S) (al_Small w) = map of_nat (rev S)" by (simp add: min_def)
  have "drop 1 (drop (n - Suc (length L)) (al_Large w)) = map of_nat L" unfolding large by simp
  then have d: "drop (n - length L) (al_Large w) = map of_nat L" using n by (simp add: Suc_diff_Suc)
  show "stacks n (w\<lparr> nSmall := nSmall w - 1, nLarge := nLarge w + 1 \<rparr>) S L"
    using assms t d by (auto simp: stacks_def)
qed

lemma stacks_classify:
  assumes st: "stacks n w S L" and room: "Suc (length S + length L) \<le> n" and j: "j < n"
  shows "stacks n (classify D (of_nat j) w) (if d_less D (al_P w ! j) (d_of_nat D 1) then j # S else S)
    (if d_less D (al_P w ! j) (d_of_nat D 1) then L else j # L)"
proof -
  have n: "n < 2 ^ 31" "length (al_Small w) = n" "length (al_Large w) = n" using st by (auto simp: stacks_def)
  have uj: "unat (of_nat j :: u32) = j" using n j by (intro unat_small) simp
  have us: "unat (nSmall w) = length S" using stacks_nSmall [OF st] .
  have "nLarge w = of_nat (n - Suc (length L))" using st room by (simp add: stacks_def of_nat_diff algebra_simps)
  then have ul: "unat (nLarge w) = n - Suc (length L)" using n by (simp add: unat_small)
  have t: "take (Suc (length S)) ((al_Small w)[length S := of_nat j]) = map of_nat (rev S) @ [of_nat j]"
    using st room n by (simp add: stacks_def take_Suc_conv_app_nth)
  have d: "drop (n - Suc (length L)) ((al_Large w)[n - Suc (length L) := of_nat j]) = of_nat j # map of_nat L"
  proof -
    have k: "n - Suc (length L) < length (al_Large w)" using room n by simp
    then show ?thesis
      using st room by (subst Cons_nth_drop_Suc [symmetric]) (simp_all add: stacks_def Suc_diff_Suc)
  qed
  have small: "al_Small (classify D (of_nat j) w) = (al_Small w)[length S := of_nat j]" if "d_less D (al_P w ! j) (d_of_nat D 1)"
    using that by (simp add: classify_def uj us)
  show ?thesis
    using st room j t d by (auto simp: stacks_def small) (auto simp: classify_def uj ul algebra_simps)
qed

section \<open>What the table distributes\<close>

text \<open>
  The share of entry \<open>i\<close>: its own column, and the rest of every column whose alias it is.
\<close>

definition alias_mass :: "real list \<Rightarrow> u32 list \<Rightarrow> nat \<Rightarrow> real" where
  "alias_mass prob tab i = prob ! i + (\<Sum>s < length prob. if unat (tab ! s) = i then 1 - prob ! s else 0)"

text \<open>The shares while the entries \<open>U\<close> still wait on the stacks.\<close>

definition given :: "nat set \<Rightarrow> real alias_work \<Rightarrow> nat \<Rightarrow> real" where
  "given U w i = (\<Sum>s < length (al_P w). if s \<in> U then 0 else if unat (al_table w ! s) = i then 1 - al_prob w ! s else 0)"

definition alias_inv :: "real list \<Rightarrow> real alias_work \<Rightarrow> nat list \<Rightarrow> nat list \<Rightarrow> bool" where
  "alias_inv P0 w S L \<longleftrightarrow> stacks (length P0) w S L \<and> distinct (S @ L) \<and>
     (\<forall>i \<in> set S. 0 \<le> al_P w ! i \<and> al_P w ! i < 1) \<and> (\<forall>i \<in> set L. 1 \<le> al_P w ! i) \<and>
     (\<forall>i < length P0. unat (al_table w ! i) < length P0) \<and>
     (\<forall>i < length P0. i \<notin> set (S @ L) \<longrightarrow> 0 \<le> al_prob w ! i \<and> al_prob w ! i < 1) \<and>
     (\<forall>i < length P0. (if i \<in> set (S @ L) then al_P w ! i else al_prob w ! i) + given (set (S @ L)) w i = P0 ! i) \<and>
     sum_list (map ((!) (al_P w)) (S @ L)) = length (S @ L)"

lemma sum_change:
  fixes f g :: "'a \<Rightarrow> real"
  assumes "finite A" and "a \<in> A" and "\<And>x. x \<in> A \<Longrightarrow> x \<noteq> a \<Longrightarrow> g x = f x"
  shows "sum g A = sum f A + (g a - f a)"
proof -
  have "sum g (A - {a}) = sum f (A - {a})" using assms(3) by (intro sum.cong) auto
  then show ?thesis using assms(1,2) by (simp add: sum.remove)
qed

definition settle :: "real alias_work \<Rightarrow> nat \<Rightarrow> nat \<Rightarrow> real alias_work" where
  "settle w a b = w\<lparr> nSmall := nSmall w - 1, nLarge := nLarge w + 1, al_prob := (al_prob w)[a := al_P w ! a],
     al_table := (al_table w)[a := of_nat b], al_P := (al_P w)[b := al_P w ! b - (1 - al_P w ! a)] \<rparr>"

lemma alias_step_settle:
  assumes "stacks n w (a # S) (b # L)"
  shows "alias_step real_dbl w = classify real_dbl (of_nat b) (settle w a b)" "stacks n (settle w a b) S L"
proof -
  have u: "unat (of_nat a :: u32) = a" "unat (of_nat b :: u32) = b" using stacks_word [OF assms] by simp_all
  show "alias_step real_dbl w = classify real_dbl (of_nat b) (settle w a b)"
    using stacks_pop(1,2) [OF assms] u by (simp add: alias_step_def settle_def Let_def)
  show "stacks n (settle w a b) S L" using stacks_pop(3) [OF assms] by (simp add: stacks_def settle_def)
qed

lemma given_settle:
  assumes "a \<in> U" and "a < length (al_P w)" "length (al_prob w) = length (al_P w)" "length (al_table w) = length (al_P w)"
    and "unat (of_nat b :: u32) = b"
  shows "given (U - {a}) (settle w a b) i = given U w i + (if i = b then 1 - al_P w ! a else 0)"
  unfolding given_def using assms
  by (subst sum_change [where a = a and f = "\<lambda>s. if s \<in> U then 0 else if unat (al_table w ! s) = i then 1 - al_prob w ! s else 0"])
     (auto simp: settle_def)

lemma sum_list_update_out:
  assumes "b \<notin> set xs"
  shows "map ((!) (ys[b := y])) xs = map ((!) ys) xs"
  using assms by (intro map_cong refl nth_list_update_neq) auto

lemma classify_fields [simp]:
  "al_P (classify D j w) = al_P w" "al_prob (classify D j w) = al_prob w" "al_table (classify D j w) = al_table w"
  by (simp_all add: classify_def)

lemma given_cong: "al_P w' = al_P w \<Longrightarrow> al_prob w' = al_prob w \<Longrightarrow> al_table w' = al_table w \<Longrightarrow> given U w' i = given U w i"
  unfolding given_def by (simp only:)

lemma alias_inv_step:
  assumes inv: "alias_inv P0 w (a # S) (b # L)"
  shows "\<exists>S' L'. alias_inv P0 (alias_step real_dbl w) S' L' \<and> length (S' @ L') < length ((a # S) @ (b # L))"
proof -
  let ?n = "length P0" and ?P = "al_P w" and ?w = "settle w a b"
  let ?less = "al_P ?w ! b < 1"
  let ?S = "if ?less then b # S else S" and ?L = "if ?less then L else b # L"
  have st: "stacks ?n w (a # S) (b # L)" and dist: "distinct ((a # S) @ (b # L))" using inv by (simp_all add: alias_inv_def)
  have lens: "length ?P = ?n" "length (al_prob w) = ?n" "length (al_table w) = ?n" and ab: "a < ?n" "b < ?n" "a \<noteq> b"
    and room: "Suc (length S + length L) \<le> ?n"
    using st dist by (auto simp: stacks_def)
  have ub: "unat (of_nat b :: u32) = b" using stacks_word [OF st] by simp
  have Pb: "al_P ?w ! b = ?P ! b - (1 - ?P ! a)" and P': "i \<noteq> b \<Longrightarrow> al_P ?w ! i = ?P ! i" for i using ab lens by (simp_all add: settle_def)
  have a1: "0 \<le> ?P ! a" "?P ! a < 1" and b1: "1 \<le> ?P ! b" using inv by (simp_all add: alias_inv_def)
  have set: "set (?S @ ?L) = set ((a # S) @ (b # L)) - {a}" using dist by auto
  have step: "alias_step real_dbl w = classify real_dbl (of_nat b) ?w" using alias_step_settle(1) [OF st] .
  have st': "stacks ?n (alias_step real_dbl w) ?S ?L"
    unfolding step using stacks_classify [OF alias_step_settle(2) [OF st] room ab(2), of real_dbl] by simp
  have mass: "(if i \<in> set (?S @ ?L) then al_P ?w ! i else al_prob ?w ! i) + given (set (?S @ ?L)) ?w i = P0 ! i" if i: "i < ?n" for i
  proof -
    have "(if i \<in> set ((a # S) @ (b # L)) then ?P ! i else al_prob w ! i) + given (set ((a # S) @ (b # L))) w i = P0 ! i"
      using inv i by (simp add: alias_inv_def)
    moreover have "given (set (?S @ ?L)) ?w i = given (set ((a # S) @ (b # L))) w i + (if i = b then 1 - ?P ! a else 0)"
      unfolding set using given_settle [of a "set ((a # S) @ (b # L))" w b i] ab lens ub by simp
    moreover have "(if i \<in> set (?S @ ?L) then al_P ?w ! i else al_prob ?w ! i) =
        (if i \<in> set ((a # S) @ (b # L)) then ?P ! i else al_prob w ! i) - (if i = b then 1 - ?P ! a else 0)"
      unfolding set using ab lens Pb P' by (cases "i = a"; cases "i = b") (auto simp: settle_def)
    ultimately show ?thesis by simp
  qed
  have "b \<notin> set (S @ L)" using dist by auto
  then have eq: "map ((!) (al_P ?w)) (S @ L) = map ((!) ?P) (S @ L)"
    using sum_list_update_out [of b "S @ L" ?P] by (simp add: settle_def)
  have P2: "al_P ?w ! i = ?P ! i" if "i \<in> set S \<or> i \<in> set L" for i
    using P' [of i] that \<open>b \<notin> set (S @ L)\<close> by (cases "i = b") auto
  have "sum_list (map ((!) (al_P ?w)) (?S @ ?L)) = al_P ?w ! b + sum_list (map ((!) (al_P ?w)) (S @ L))" by simp
  also have "\<dots> = length (?S @ ?L)"
    unfolding eq Pb using inv by (simp add: alias_inv_def)
  finally have sums: "sum_list (map ((!) (al_P ?w)) (?S @ ?L)) = length (?S @ ?L)" .
  have "alias_inv P0 (alias_step real_dbl w) ?S ?L"
    unfolding alias_inv_def
  proof (intro conjI)
    show "\<forall>i < ?n. (if i \<in> set (?S @ ?L) then al_P (alias_step real_dbl w) ! i else al_prob (alias_step real_dbl w) ! i) +
        given (set (?S @ ?L)) (alias_step real_dbl w) i = P0 ! i"
      using mass given_cong [of "alias_step real_dbl w" ?w] unfolding step classify_fields by (simp only: simp_thms) blast
    show "\<forall>i < ?n. unat (al_table (alias_step real_dbl w) ! i) < ?n"
      using inv ab lens ub by (simp add: step settle_def alias_inv_def nth_list_update)
    show "\<forall>i < ?n. i \<notin> set (?S @ ?L) \<longrightarrow> 0 \<le> al_prob (alias_step real_dbl w) ! i \<and> al_prob (alias_step real_dbl w) ! i < 1"
      unfolding set using inv a1 ab lens by (auto simp: step settle_def alias_inv_def nth_list_update)
    show "\<forall>i \<in> set ?S. 0 \<le> al_P (alias_step real_dbl w) ! i \<and> al_P (alias_step real_dbl w) ! i < 1"
      using inv P2 a1 b1 Pb by (auto simp: step alias_inv_def)
    show "\<forall>i \<in> set ?L. 1 \<le> al_P (alias_step real_dbl w) ! i"
      using inv P2 by (auto simp: step alias_inv_def)
  qed (use st' dist sums in \<open>auto simp: step\<close>)
  moreover have "length (?S @ ?L) < length ((a # S) @ (b # L))" by simp
  ultimately show ?thesis by blast
qed

lemma alias_loop_inv:
  assumes "alias_inv P0 w S L"
  shows "\<exists>w' S' L'. alias_loop real_dbl (of_nat (length P0)) w = Some w' \<and> alias_inv P0 w' S' L' \<and> (S' = [] \<or> L' = [])"
  using assms
proof (induction "length (S @ L)" arbitrary: w S L rule: less_induct)
  case less
  have st: "stacks (length P0) w S L" using less.prems by (simp add: alias_inv_def)
  show ?case
  proof (cases "S = [] \<or> L = []")
    case True
    then have "alias_loop real_dbl (of_nat (length P0)) w = Some w"
      using stacks_empty [OF st] by (subst alias_loop.simps) auto
    then show ?thesis using less.prems True by blast
  next
    case False
    then obtain a S1 b L1 where SL: "S = a # S1" "L = b # L1" by (metis list.exhaust)
    obtain S' L' where i: "alias_inv P0 (alias_step real_dbl w) S' L'" "length (S' @ L') < length (S @ L)"
      using alias_inv_step less.prems unfolding SL by blast
    have "alias_loop real_dbl (of_nat (length P0)) w = alias_loop real_dbl (of_nat (length P0)) (alias_step real_dbl w)"
      using False stacks_empty [OF st] by (subst alias_loop.simps) auto
    then show ?thesis using less.hyps [OF i(2,1)] by simp
  qed
qed

lemma sint_pred: "N < 2 ^ 31 \<Longrightarrow> nat (sint (of_nat N - 1 :: u32) + 1) = N"
proof -
  assume N: "N < 2 ^ 31"
  have e: "(of_nat N - 1 :: u32) = word_of_int (int N - 1)" by simp
  have "sint (word_of_int (int N - 1) :: u32) = signed_take_bit 31 (int N - 1)"
    using sint_sbintrunc' [of "int N - 1", where ?'a = 32] by (simp del: of_int_diff of_int_of_nat_eq)
  also have "\<dots> = int N - 1" using N by (intro signed_take_bit_int_eq_self) simp_all
  finally show ?thesis unfolding e by simp
qed

lemma classify_fold:
  assumes "stacks n w S L" and "length S + length L + length js \<le> n" and "set js \<subseteq> {0..<n}"
  shows "\<exists>S' L' w'. fold (classify real_dbl) (map of_nat js) w = w' \<and> stacks n w' S' L' \<and> mset (S' @ L') = mset (S @ L) + mset js \<and>
    (\<forall>i \<in> set S'. i \<in> set S \<or> al_P w ! i < 1) \<and> (\<forall>i \<in> set L'. i \<in> set L \<or> 1 \<le> al_P w ! i) \<and>
    al_P w' = al_P w \<and> al_prob w' = al_prob w \<and> al_table w' = al_table w"
  using assms
proof (induction js arbitrary: w S L)
  case (Cons j js)
  let ?w = "classify real_dbl (of_nat j) w" and ?b = "al_P w ! j < 1"
  let ?S = "if ?b then j # S else S" and ?L = "if ?b then L else j # L"
  have "stacks n ?w ?S ?L" using stacks_classify [OF Cons.prems(1), of j real_dbl] Cons.prems(2,3) by simp
  then obtain S' L' w' where "fold (classify real_dbl) (map of_nat js) ?w = w'" "stacks n w' S' L'"
    "mset (S' @ L') = mset (?S @ ?L) + mset js" "\<forall>i \<in> set S'. i \<in> set ?S \<or> al_P w ! i < 1"
    "\<forall>i \<in> set L'. i \<in> set ?L \<or> 1 \<le> al_P w ! i" "al_P w' = al_P w" "al_prob w' = al_prob w" "al_table w' = al_table w"
    using Cons.IH [of ?w ?S ?L] Cons.prems(2,3) by (auto split: if_splits)
  then show ?case by (intro exI [of _ S'] exI [of _ L'] exI [of _ w']) (auto split: if_splits)
qed auto

lemma alias_inv_start:
  fixes P0 :: "real list"
  assumes P0: "\<forall>i < length P0. 0 \<le> P0 ! i" "sum_list P0 = length P0" and n: "length P0 < 2 ^ 31"
  defines "w0 \<equiv> \<lparr> al_P = P0, al_Small = replicate (length P0) 0, nSmall = 0, al_Large = replicate (length P0) 0,
    nLarge = of_nat (length P0) - 1, al_prob = replicate (length P0) 0, al_table = replicate (length P0) 0 \<rparr>"
  shows "\<exists>S L. alias_inv P0 (fold (classify real_dbl) (map of_nat (rev [0..<length P0])) w0) S L"
proof -
  let ?N = "length P0"
  have "stacks ?N w0 [] []" using n by (simp add: stacks_def w0_def)
  then obtain S L w' where w': "fold (classify real_dbl) (map of_nat (rev [0..<?N])) w0 = w'" "stacks ?N w' S L"
    and m: "mset (S @ L) = mset [0..<?N]" and SL: "\<forall>i \<in> set S. P0 ! i < 1" "\<forall>i \<in> set L. 1 \<le> P0 ! i"
    and f: "al_P w' = P0" "al_prob w' = replicate ?N 0" "al_table w' = replicate ?N 0"
    using classify_fold [of ?N w0 "[]" "[]" "rev [0..<?N]"] by (auto simp: w0_def)
  have set: "set (S @ L) = {0..<?N}" using m by (metis atLeastLessThan_upt mset_eq_setD)
  have dist: "distinct (S @ L)" using m by (metis distinct_upt mset_eq_imp_distinct_iff)
  have "sum_list (map ((!) P0) (S @ L)) = sum_mset (mset (map ((!) P0) (S @ L)))" by (simp only: sum_mset_sum_list)
  also have "mset (map ((!) P0) (S @ L)) = mset P0" using m by (metis map_nth mset_map)
  also have "sum_mset (mset P0) = length (S @ L)"
    using P0(2) mset_eq_length [OF m] by (simp add: sum_mset_sum_list del: length_append)
  finally have sums: "sum_list (map ((!) P0) (S @ L)) = length (S @ L)" .
  have given: "given (set (S @ L)) w' i = 0" for i unfolding given_def set by (intro sum.neutral) (simp add: f)
  have "alias_inv P0 w' S L"
    unfolding alias_inv_def f given using w'(2) dist SL P0(1) sums set
    by (auto simp: set_eq_iff simp del: sum_list_append map_append)
  then show ?thesis using w'(1) by blast
qed

lemma sum_list_ge_length:
  fixes f :: "'a \<Rightarrow> real"
  shows "\<forall>x \<in> set xs. (1 :: real) \<le> f x \<Longrightarrow> length xs \<le> sum_list (map f xs)"
  by (induction xs) auto

lemma sum_list_all_one:
  fixes f :: "'a \<Rightarrow> real"
  assumes "\<forall>x \<in> set xs. (1 :: real) \<le> f x" and "sum_list (map f xs) = length xs" and "x \<in> set xs"
  shows "f x = 1"
  using assms
proof (induction xs)
  case (Cons y ys)
  have "length ys \<le> sum_list (map f ys)" using Cons.prems(1) by (intro sum_list_ge_length) simp
  then show ?case using Cons by auto
qed simp

lemma sum_list_lt_length:
  fixes f :: "'a \<Rightarrow> real"
  shows "xs \<noteq> [] \<Longrightarrow> \<forall>x \<in> set xs. f x < (1 :: real) \<Longrightarrow> sum_list (map f xs) < length xs"
proof (induction xs)
  case (Cons x xs)
  then show ?case by (cases "xs = []") auto
qed simp

lemma alias_inv_end:
  assumes "alias_inv P0 w S L" and "S = [] \<or> L = []"
  shows "\<forall>i \<in> set (S @ L). al_P w ! i = 1"
proof -
  have "S = []"
  proof (rule ccontr)
    assume "S \<noteq> []"
    then have "sum_list (map ((!) (al_P w)) S) < length S"
      using assms(1) by (intro sum_list_lt_length) (auto simp: alias_inv_def)
    then show False using assms \<open>S \<noteq> []\<close> by (auto simp: alias_inv_def)
  qed
  then show ?thesis using assms(1) sum_list_all_one [of L "(!) (al_P w)"] by (auto simp: alias_inv_def)
qed

lemma settle_fold:
  "length (fold (\<lambda>k prob. prob[unat k := c]) ks prob) = length prob"
  "i < length prob \<Longrightarrow> fold (\<lambda>k prob. prob[unat k := c]) ks prob ! i = (if i \<in> unat ` set ks then c else prob ! i)"
proof (induction ks arbitrary: prob)
  case (Cons k ks)
  { case 1 then show ?case using Cons by simp }
  { case 2 then show ?case using Cons(2) [of "prob[unat k := c]"] by (auto simp: nth_list_update) }
qed simp_all

lemma stacks_lists:
  assumes "stacks n w S L"
  shows "map ((!) (al_Small w)) (rev [0..<unat (nSmall w)]) = map of_nat S"
    "map (\<lambda>k. al_Large w ! unat (nLarge w + 1 + of_nat k)) [0..<unat (of_nat n - 1 - nLarge w)] = map of_nat L"
proof -
  have s: "take (length S) (al_Small w) = map of_nat (rev S)" and l: "drop (n - length L) (al_Large w) = map of_nat L"
    and n: "length (al_Large w) = n" "length (al_Small w) = n" "length S + length L \<le> n" "n < 2 ^ 31"
    and nl: "nLarge w = of_nat n - 1 - of_nat (length L)"
    using assms by (simp_all add: stacks_def)
  have "map ((!) (al_Small w)) [0..<length S] = map of_nat (rev S)"
    using n unfolding s [symmetric] by (intro nth_equalityI) simp_all
  then show "map ((!) (al_Small w)) (rev [0..<unat (nSmall w)]) = map of_nat S"
    using stacks_nSmall [OF assms] by (metis rev_map rev_rev_ident)
  have len: "unat (of_nat n - 1 - nLarge w) = length L" unfolding nl using n by (simp add: unat_small)
  have "unat (nLarge w + 1 + of_nat k) = n - length L + k" if "k < length L" for k
  proof -
    have "nLarge w + 1 + of_nat k = of_nat (n - length L + k)" unfolding nl using n by (simp add: of_nat_diff)
    then show ?thesis using n that by (simp only:) (rule unat_small, simp)
  qed
  then have "al_Large w ! unat (nLarge w + 1 + of_nat k) = map of_nat L ! k" if "k < length L" for k
    using that n unfolding l [symmetric] by simp
  then show "map (\<lambda>k. al_Large w ! unat (nLarge w + 1 + of_nat k)) [0..<unat (of_nat n - 1 - nLarge w)] = map of_nat L"
    unfolding len by (intro nth_equalityI) simp_all
qed

lemma alias_build_exact:
  fixes P0 :: "real list"
  assumes "\<forall>i < length P0. 0 \<le> P0 ! i" and "sum_list P0 = length P0" and n: "length P0 < 2 ^ 31"
  shows "\<exists>prob tab. alias_build real_dbl P0 = Some (prob, tab) \<and> length prob = length P0 \<and> length tab = length P0 \<and>
    (\<forall>i < length P0. 0 \<le> prob ! i \<and> prob ! i \<le> 1 \<and> unat (tab ! i) < length P0 \<and> alias_mass prob tab i = P0 ! i)"
proof -
  let ?N = "length P0"
  let ?w0 = "\<lparr> al_P = P0, al_Small = replicate ?N 0, nSmall = 0, al_Large = replicate ?N 0,
    nLarge = of_nat ?N - 1, al_prob = replicate ?N 0, al_table = replicate ?N 0 \<rparr>"
  let ?w1 = "fold (classify real_dbl) (map of_nat (rev [0..<?N])) ?w0"
  obtain w S L where loop: "alias_loop real_dbl (of_nat ?N) ?w1 = Some w" and inv: "alias_inv P0 w S L" and e: "S = [] \<or> L = []"
    using alias_inv_start [OF assms] alias_loop_inv by blast
  have st: "stacks ?N w S L" using inv by (simp add: alias_inv_def)
  have len: "length (al_P w) = ?N" "length (al_prob w) = ?N" "length (al_table w) = ?N" using st by (simp_all add: stacks_def)
  let ?prob = "alias_finish real_dbl (of_nat ?N) w"
  have words: "unat ` set (map of_nat xs :: u32 list) = set xs" if "set xs \<subseteq> set (S @ L)" for xs
    using stacks_word [OF st] that by (force simp: image_image subset_iff)
  have lp: "length ?prob = ?N" using len by (simp add: alias_finish_def settle_fold Let_def)
  have prob: "?prob ! i = (if i \<in> set (S @ L) then 1 else al_prob w ! i)" if "i < ?N" for i
    using that len words [of S] words [of L] unfolding alias_finish_def Let_def stacks_lists [OF st]
    by (simp add: settle_fold)
  have "alias_mass ?prob (al_table w) i = P0 ! i" if i: "i < ?N" for i
  proof -
    have "(\<Sum>s < ?N. if unat (al_table w ! s) = i then 1 - ?prob ! s else 0) = given (set (S @ L)) w i"
      unfolding given_def len(1) by (rule sum.cong) (auto simp: prob)
    moreover have "(if i \<in> set (S @ L) then al_P w ! i else al_prob w ! i) + given (set (S @ L)) w i = P0 ! i"
      using inv i by (simp add: alias_inv_def)
    ultimately show ?thesis using alias_inv_end [OF inv e] i by (cases "i \<in> set (S @ L)") (simp_all add: alias_mass_def lp prob)
  qed
  moreover have "alias_build real_dbl P0 = Some (?prob, al_table w)"
    using loop by (simp add: alias_build_def Let_def sint_pred [OF n])
  moreover have "0 \<le> ?prob ! i \<and> ?prob ! i \<le> 1 \<and> unat (al_table w ! i) < ?N" if "i < ?N" for i
    using inv that by (auto simp: prob alias_inv_def less_imp_le)
  ultimately show ?thesis using lp len by blast
qed

section \<open>The score is always defined\<close>

lemma fuzz_mu_count:
  "snd (fold (\<lambda>q (mu, n). if disabled q then (mu, n) else (f mu q, n + 1 :: u32)) qs (mu, k)) =
   k + of_nat (length (filter (\<lambda>q. \<not> disabled q) qs))"
  by (induction qs arbitrary: mu k) (auto simp: algebra_simps)

lemma fuzz_mu_defined:
  assumes "\<not> list_all disabled (queue_buf s)" and "length (queue_buf s) < 2 ^ 32"
  shows "fuzz_mu D s \<noteq> None"
proof -
  let ?l = "length (filter (\<lambda>q. \<not> disabled q) (queue_buf s))"
  have "?l < 2 ^ 32" using assms(2) by (rule le_less_trans [OF length_filter_le])
  then have "unat (of_nat ?l :: u32) = ?l" by (rule unat_small)
  moreover have "?l \<noteq> 0" using assms(1) by (simp add: filter_empty_conv list_all_iff)
  ultimately have "(of_nat ?l :: u32) \<noteq> 0" by (metis unat_0)
  then show ?thesis
    using fuzz_mu_count [of "\<lambda>mu q. d_add D mu (d_log2 D (d_of_nat D (unat (n_fuzz_of s q))))" "queue_buf s" "d_of_nat D 0" 0]
    by (simp add: fuzz_mu_def case_prod_unfold)
qed

lemma handicap_score_entry: "\<exists>h. snd (handicap_score q score) = q\<lparr> handicap := h \<rparr>"
  by (cases q) (auto simp: handicap_score_def)

lemma calculate_score_defined:
  assumes "\<not> list_all disabled (queue_buf s)" and "length (queue_buf s) < 2 ^ 32" and "n_fuzz_of s q \<noteq> - 1"
  shows "\<exists>score h. calculate_score D s q = Some (score, q\<lparr> handicap := h \<rparr>)"
proof -
  obtain score q' h where hs: "handicap_score q (coverage_score D s q (speed_score D s q)) = (score, q')" and q': "q' = q\<lparr> handicap := h \<rparr>"
    using handicap_score_entry by (metis prod.collapse)
  have nz: "n_fuzz_of s q' + 1 \<noteq> 0" using assms(3) q' by (simp add: eq_neg_iff_add_eq_0)
  have "schedule_score D s q' x \<noteq> None" for x
    using fuzz_mu_defined [OF assms(1,2), of D] nz by (auto simp: schedule_score_def split: power_schedule.splits option.splits)
  then show ?thesis using hs q' by (auto simp: calculate_score_def Let_def)
qed

section \<open>Weights are positive\<close>

lemma compute_weight_pos: "0 < compute_weight real_dbl s q e b t"
proof -
  have "0 < (if fs then (if f then (if g then w * 5 else w) * 2 else (if g then w * 5 else w)) * (4 / 5)
      else (if f then (if g then w * 5 else w) * 2 else (if g then w * 5 else w)))" if "0 < w" for w :: real and f g fs
    using that by simp
  moreover have "0 < (if w < 1 / 10 then 1 / 10 else w)" for w :: real by auto
  ultimately show ?thesis
    by (simp add: compute_weight_def Let_def of_rat_divide del: mult_eq_0_iff zero_less_mult_iff zero_less_divide_iff)
qed

section \<open>The weighing loop\<close>

text \<open>What the loop leaves alone.\<close>

definition same_frame :: "'d queue_state \<Rightarrow> 'd queue_state \<Rightarrow> bool" where
  "same_frame s s' \<longleftrightarrow> s' = s\<lparr> queue_buf := queue_buf s' \<rparr> \<and> map disabled (queue_buf s') = map disabled (queue_buf s) \<and>
     map n_fuzz_entry (queue_buf s') = map n_fuzz_entry (queue_buf s) \<and> map favored (queue_buf s') = map favored (queue_buf s)"

lemma same_frame_refl [simp]: "same_frame s s"
  by (simp add: same_frame_def)

lemma same_frame_trans: "same_frame s s' \<Longrightarrow> same_frame s' s'' \<Longrightarrow> same_frame s s''"
  unfolding same_frame_def by (metis queue_state.surjective queue_state.update_convs(1))

lemma same_frame_entry:
  assumes "same_frame s s'"
  shows "length (queue_buf s') = length (queue_buf s)"
    "i < length (queue_buf s) \<Longrightarrow> disabled (queue_buf s' ! i) = disabled (queue_buf s ! i)"
    "i < length (queue_buf s) \<Longrightarrow> n_fuzz_of s' (queue_buf s' ! i) = n_fuzz_of s (queue_buf s ! i)"
    "schedule s' = schedule s" "queued_discovered s' = queued_discovered s"
    "list_all disabled (queue_buf s') = list_all disabled (queue_buf s)"
proof -
  have m: "map disabled (queue_buf s') = map disabled (queue_buf s)" "map n_fuzz_entry (queue_buf s') = map n_fuzz_entry (queue_buf s)"
    and s': "s' = s\<lparr> queue_buf := queue_buf s' \<rparr>" using assms by (simp_all add: same_frame_def)
  show l: "length (queue_buf s') = length (queue_buf s)" using m by (metis length_map)
  show d: "i < length (queue_buf s) \<Longrightarrow> disabled (queue_buf s' ! i) = disabled (queue_buf s ! i)" for i using m l by (metis nth_map)
  have "n_fuzz s' = n_fuzz s" by (subst s') simp
  then show "i < length (queue_buf s) \<Longrightarrow> n_fuzz_of s' (queue_buf s' ! i) = n_fuzz_of s (queue_buf s ! i)" using m l by (metis nth_map)
  show "schedule s' = schedule s" "queued_discovered s' = queued_discovered s" by (subst s', simp)+
  show "list_all disabled (queue_buf s') = list_all disabled (queue_buf s)"
    using d l by (auto simp: list_all_length)
qed

definition scorable :: "'d queue_state \<Rightarrow> bool" where
  "scorable s \<longleftrightarrow> \<not> list_all disabled (queue_buf s) \<and> length (queue_buf s) < 2 ^ 31 \<and>
     list_all (\<lambda>q. n_fuzz_of s q \<noteq> - 1) (queue_buf s)"

lemma scorable_frame: "same_frame s s' \<Longrightarrow> scorable s \<Longrightarrow> scorable s'"
  using same_frame_entry [of s s'] by (simp add: scorable_def list_all_length)

lemma upd_frame:
  assumes "i < length (queue_buf s)" and "disabled q' = disabled (queue_buf s ! i)" and "n_fuzz_entry q' = n_fuzz_entry (queue_buf s ! i)"
    and "favored q' = favored (queue_buf s ! i)"
  shows "same_frame s (upd_entry i (\<lambda>_. q') s)"
  using assms by (auto simp: same_frame_def upd_entry_def map_update list_update_same_conv)

lemma weigh_loop_real:
  assumes "scorable s" and "distinct is" and "set is \<subseteq> {0..<length (queue_buf s)}" and "\<And>s q. 0 < f s q"
  shows "\<exists>s'. weigh_loop real_dbl (\<lambda>s q. q\<lparr> weight := f s q \<rparr>) weight is x s =
      Some (x + (\<Sum>i \<in> set is. if disabled (queue_buf s' ! i) then 0 else weight (queue_buf s' ! i)), s') \<and> same_frame s s' \<and>
    (\<forall>i. i \<notin> set is \<longrightarrow> queue_buf s' ! i = queue_buf s ! i) \<and>
    (\<forall>i \<in> set is. disabled (queue_buf s' ! i) \<or> 0 < weight (queue_buf s' ! i))"
  using assms(1-3)
proof (induction "is" arbitrary: x s)
  case (Cons i "is")
  let ?q = "queue_buf s ! i"
  have i: "i < length (queue_buf s)" using Cons.prems by simp
  show ?case
  proof (cases "disabled ?q")
    case True
    obtain s' where s': "weigh_loop real_dbl (\<lambda>s q. q\<lparr> weight := f s q \<rparr>) weight is x s =
        Some (x + (\<Sum>i \<in> set is. if disabled (queue_buf s' ! i) then 0 else weight (queue_buf s' ! i)), s')" "same_frame s s'"
      "\<forall>i. i \<notin> set is \<longrightarrow> queue_buf s' ! i = queue_buf s ! i"
      "\<forall>i \<in> set is. disabled (queue_buf s' ! i) \<or> 0 < weight (queue_buf s' ! i)"
      using Cons.IH [of s x] Cons.prems by auto
    have "disabled (queue_buf s' ! i)" using same_frame_entry(2) [OF s'(2) i] True by simp
    then show ?thesis using s' True Cons.prems(2) by (intro exI [of _ s']) (simp add: Let_def)
  next
    case False
    have "n_fuzz_of s (?q\<lparr> weight := f s ?q \<rparr>) \<noteq> - 1" using Cons.prems(1) i by (simp add: scorable_def list_all_length)
    then obtain score h where c: "calculate_score real_dbl s (?q\<lparr> weight := f s ?q \<rparr>) = Some (score, ?q\<lparr> weight := f s ?q, handicap := h \<rparr>)"
      using calculate_score_defined [of s "?q\<lparr> weight := f s ?q \<rparr>" real_dbl] Cons.prems(1) by (auto simp: scorable_def)
    let ?q2 = "?q\<lparr> weight := f s ?q, handicap := h, perf_score := real (unat score) \<rparr>"
    let ?s = "upd_entry i (\<lambda>_. ?q2) s"
    have fr: "same_frame s ?s" using i by (intro upd_frame) simp_all
    have w: "weight ?q2 = f s ?q" by simp
    obtain s' where s': "weigh_loop real_dbl (\<lambda>s q. q\<lparr> weight := f s q \<rparr>) weight is (x + f s ?q) ?s =
        Some (x + f s ?q + (\<Sum>i \<in> set is. if disabled (queue_buf s' ! i) then 0 else weight (queue_buf s' ! i)), s')" "same_frame ?s s'"
      "\<forall>i. i \<notin> set is \<longrightarrow> queue_buf s' ! i = queue_buf ?s ! i"
      "\<forall>i \<in> set is. disabled (queue_buf s' ! i) \<or> 0 < weight (queue_buf s' ! i)"
      using Cons.IH [of ?s "x + f s ?q"] Cons.prems scorable_frame [OF fr] same_frame_entry(1) [OF fr] by auto
    have e: "queue_buf s' ! i = ?q2" using s'(3) Cons.prems(2) i by (simp add: upd_entry_def)
    have "weigh_loop real_dbl (\<lambda>s q. q\<lparr> weight := f s q \<rparr>) weight (i # is) x s =
        weigh_loop real_dbl (\<lambda>s q. q\<lparr> weight := f s q \<rparr>) weight is (x + f s ?q) ?s"
      using False c by (simp add: Let_def)
    also have "\<dots> = Some (x + (\<Sum>i \<in> set (i # is). if disabled (queue_buf s' ! i) then 0 else weight (queue_buf s' ! i)), s')"
      using s'(1) e False Cons.prems(2) by simp
    finally show ?thesis
      using s'(2-4) e assms(4) [of s ?q] same_frame_trans [OF fr] by (intro exI [of _ s']) (auto simp: upd_entry_def)
  qed
qed simp

lemma swam_weights_real:
  assumes "scorable s"
  shows "\<exists>s'. swam_weights real_dbl s = Some (\<Sum>i < length (queue_buf s). if disabled (queue_buf s' ! i) then 0 else weight (queue_buf s' ! i), s')
    \<and> same_frame s s' \<and> (\<forall>i < length (queue_buf s). disabled (queue_buf s' ! i) \<or> 0 < weight (queue_buf s' ! i))"
proof -
  obtain f where f: "swam_weights real_dbl s =
      weigh_loop real_dbl (\<lambda>s q. q\<lparr> weight := f s q \<rparr>) weight [0..<length (queue_buf s)] 0 s" "\<And>s q. 0 < f s q"
  proof -
    obtain e b t active where a: "avg_sums real_dbl s = (e, b, t, active)" by (metis prod_cases4)
    let ?k = "real (unat active)"
    show thesis
    proof (cases "active > 0")
      case True
      let ?e = "if e / ?k \<le> 0 then 1 else e / ?k"
      show thesis
        by (rule that [where f = "\<lambda>s q. compute_weight real_dbl s q ?e (b / ?k) (t / ?k)"])
          (use True a in \<open>simp_all add: swam_weights_def Let_def compute_weight_pos\<close>)
    next
      case False
      show thesis by (rule that [where f = "\<lambda>s q. 1"]) (use False a in \<open>simp_all add: swam_weights_def Let_def\<close>)
    qed
  qed
  show ?thesis
    unfolding f(1) using weigh_loop_real [OF assms, of "[0..<length (queue_buf s)]" f 0] f(2)
    by (auto simp: lessThan_atLeast0)
qed

lemma alias_mass_zero:
  assumes m: "alias_mass prob tab i = 0" and i: "i < length prob" and p: "\<forall>j < length prob. 0 \<le> prob ! j \<and> prob ! j \<le> 1"
  shows "prob ! i = 0" "j < length prob \<Longrightarrow> unat (tab ! j) = i \<Longrightarrow> prob ! j = 1"
proof -
  let ?f = "\<lambda>s. if unat (tab ! s) = i then 1 - prob ! s else 0"
  have nn: "\<forall>s \<in> {..<length prob}. 0 \<le> ?f s" using p by auto
  then have "0 \<le> sum ?f {..<length prob}" by (intro sum_nonneg) blast
  then have z: "prob ! i = 0" "sum ?f {..<length prob} = 0" using m i p by (auto simp: alias_mass_def add_nonneg_eq_0_iff)
  then show "prob ! i = 0" by simp
  have "\<forall>s \<in> {..<length prob}. ?f s = 0" using z(2) nn by (subst (asm) sum_nonneg_eq_0_iff) auto
  then show "j < length prob \<Longrightarrow> unat (tab ! j) = i \<Longrightarrow> prob ! j = 1" by (drule_tac x = j in bspec) simp_all
qed

lemma weightings_sum:
  fixes w :: "nat \<Rightarrow> real"
  assumes "0 < total_w" and "total_w = (\<Sum>i < n. w i)"
  shows "sum_list (map (\<lambda>i. w i * n / total_w) [0..<n]) = n"
proof -
  have "sum_list (map (\<lambda>i. w i * n / total_w) [0..<n]) = (\<Sum>i < n. w i * n / total_w)"
    by (simp add: interv_sum_list_conv_sum_set_nat lessThan_atLeast0)
  also have "\<dots> = (\<Sum>i < n. w i) * n / total_w" by (simp add: sum_divide_distrib sum_distrib_right)
  finally show ?thesis using assms by simp
qed

section \<open>The score and the speed\<close>

text \<open>Monotone, without wrap-around, up to a bound.\<close>

definition mono_upto :: "nat \<Rightarrow> nat \<Rightarrow> (u32 \<Rightarrow> u32) \<Rightarrow> bool" where
  "mono_upto B C f \<longleftrightarrow> (\<forall>x y. x \<le> y \<longrightarrow> unat y \<le> B \<longrightarrow> f x \<le> f y \<and> unat (f y) \<le> C)"

lemma mono_upto_comp: "mono_upto B C f \<Longrightarrow> mono_upto C E g \<Longrightarrow> mono_upto B E (\<lambda>x. g (f x))"
  unfolding mono_upto_def by (meson order_refl)

lemma mono_upto_weaken: "mono_upto B C f \<Longrightarrow> B' \<le> B \<Longrightarrow> C \<le> C' \<Longrightarrow> mono_upto B' C' f"
  unfolding mono_upto_def by (meson le_trans)

lemma mono_upto_id: "B \<le> C \<Longrightarrow> mono_upto B C (\<lambda>x. x)"
  by (simp add: mono_upto_def)

lemma mono_upto_if: "mono_upto B C f \<Longrightarrow> mono_upto B C g \<Longrightarrow> mono_upto B C (\<lambda>x. if b then f x else g x)"
  by (cases b) simp_all

lemma mono_upto_times:
  assumes "B * unat k \<le> C" and "C < 2 ^ 32"
  shows "mono_upto B C (\<lambda>x. x * k)"
proof -
  have le: "unat x * unat k \<le> C" if "unat x \<le> B" for x :: u32 using order_trans [OF mult_le_mono1 [OF that] assms(1)] .
  have "unat (x * k) = unat x * unat k" if "unat x \<le> B" for x
    using le_less_trans [OF le [OF that] assms(2)] by (intro unat_mult_lem [THEN iffD1]) simp
  then show ?thesis using le by (simp add: mono_upto_def word_le_nat_alt)
qed

lemma mono_upto_dbl:
  fixes c :: real
  assumes "0 \<le> c" and "B * c \<le> C" and "C < 2 ^ 32"
  shows "mono_upto B C (\<lambda>x. mul_dbl real_dbl x c)"
proof -
  have trunc: "d_trunc real_dbl = (\<lambda>x. nat \<lfloor>x\<rfloor>)" by (simp add: real_dbl_def)
  have le: "nat \<lfloor>unat x * c\<rfloor> \<le> C" if "unat x \<le> B" for x :: u32
  proof -
    have "real (unat x) * c \<le> real B * c" using that assms(1) by (intro mult_right_mono) (simp_all only: of_nat_le_iff)
    from order_trans [OF this assms(2)] show ?thesis by (simp add: nat_le_iff floor_le_iff)
  qed
  have u: "unat (mul_dbl real_dbl x c) = nat \<lfloor>unat x * c\<rfloor>" if "unat x \<le> B" for x :: u32
    using le [OF that] assms(3) unfolding mul_dbl_def trunc by (simp add: unat_small)
  have "nat \<lfloor>unat x * c\<rfloor> \<le> nat \<lfloor>unat y * c\<rfloor>" if "unat x \<le> unat y" for x y :: u32
    using that assms(1) by (intro nat_mono floor_mono mult_right_mono) (simp_all only: of_nat_le_iff)
  then show ?thesis using le u by (auto simp: mono_upto_def word_le_nat_alt)
qed

lemma mono_upto_min: "mono_upto B C f \<Longrightarrow> mono_upto B C (\<lambda>x. if f x > k then k else f x)"
  unfolding mono_upto_def by (auto simp: word_le_nat_alt word_less_nat_alt) (meson le_trans less_imp_le not_le)+

lemma mono_upto_max: "mono_upto B C f \<Longrightarrow> 1 \<le> C \<Longrightarrow> mono_upto B C (\<lambda>x. if b \<and> f x < 1 then 1 else f x)"
  unfolding mono_upto_def by (auto simp: word_le_nat_alt word_less_nat_alt) (metis le_zero_eq not_less_zero)

lemma coverage_score_mono: "mono_upto 300 900 (coverage_score real_dbl s q)"
  unfolding coverage_score_def Let_def
  by (intro mono_upto_if mono_upto_times mono_upto_dbl mono_upto_id) (simp_all add: of_rat_divide)

lemma handicap_score_mono: "mono_upto 900 3600 (\<lambda>x. fst (handicap_score q x))" "snd (handicap_score q x) = snd (handicap_score q y)"
proof -
  have "(\<lambda>x. fst (handicap_score q x)) = (\<lambda>x. if handicap q \<ge> 4 then x * 4 else if handicap q \<noteq> 0 then x * 2 else x)"
    by (auto simp: handicap_score_def)
  then show "mono_upto 900 3600 (\<lambda>x. fst (handicap_score q x))"
    by (simp only:) (intro mono_upto_if mono_upto_times mono_upto_id; simp)
qed (simp add: handicap_score_def)

lemma depth_score_mono: "mono_upto 3600 18000 (depth_score q)"
  unfolding depth_score_def by (intro mono_upto_if mono_upto_times mono_upto_id) simp_all

lemma fast_factor_nonneg: "0 \<le> fast_factor real_dbl s q"
  by (simp add: fast_factor_def Let_def of_rat_divide)

lemma schedule_score_mono:
  assumes "schedule s \<noteq> RARE" and "schedule_score real_dbl s q x = Some (x', f)" and "schedule_score real_dbl s q y = Some (y', g)"
  shows "f = g" "0 \<le> f" "\<exists>h. x' = h x \<and> y' = h y \<and> mono_upto 18000 36000 h"
proof -
  have nn: "0 \<le> real (unat k)" for k :: u32 by (rule of_nat_0_le_iff)
  show "f = g" "0 \<le> f" using assms fast_factor_nonneg [of s q] nn
    by (auto simp: schedule_score_def split: power_schedule.splits option.splits if_splits)
  have "mono_upto 18000 36000 (\<lambda>x. x :: u32)" "mono_upto 18000 36000 (\<lambda>x. x * 2)"
    by (intro mono_upto_id mono_upto_times; simp)+
  moreover have "x' = x \<and> y' = y \<or> x' = x * 2 \<and> y' = y * 2"
    using assms by (auto simp: schedule_score_def split: power_schedule.splits option.splits if_splits)
  ultimately show "\<exists>h. x' = h x \<and> y' = h y \<and> mono_upto 18000 36000 h"
    by (elim disjE) (rule exI [of _ "\<lambda>x. x"], simp, rule exI [of _ "\<lambda>x. x * 2"], simp)
qed

lemma final_score_mono:
  assumes "0 \<le> f"
  shows "mono_upto 36000 2304000 (\<lambda>x. final_score real_dbl s q x f)"
proof -
  let ?c = "if 32 < f then 32 else f"
  have c: "0 \<le> ?c" "?c \<le> 32" using assms by auto
  have 1: "mono_upto 36000 1152000 (\<lambda>x. if b then mul_dbl real_dbl x ?c else x)" for b
    using c by (intro mono_upto_if mono_upto_dbl mono_upto_id) (auto split: if_splits)
  have 2: "mono_upto 1152000 2304000 (\<lambda>x :: u32. if b then x * 2 else if d \<and> x < 1 then 1 else x)" for b d
    by (intro mono_upto_if mono_upto_times mono_upto_max mono_upto_id) simp_all
  let ?f = "\<lambda>x. if schedule s \<in> set [EXPLOIT, FAST, COE, LIN, QUAD] then mul_dbl real_dbl x ?c else x"
  let ?g = "\<lambda>x :: u32. if limit_time_sig s \<noteq> 0 \<and> ucast (max_depth s) - depth q < 3 then x * 2
    else if schedule s \<noteq> COE \<and> x < 1 then 1 else x"
  let ?k = "ucast (havoc_max_mult s) * 100 :: u32"
  have div: "d_div real_dbl (if d_less real_dbl (d_of_nat real_dbl MAX_FACTOR) f then d_of_nat real_dbl MAX_FACTOR else f)
      (d_of_nat real_dbl POWER_BETA) = ?c"
    by (simp add: MAX_FACTOR_def POWER_BETA_def)
  have "(\<lambda>x. final_score real_dbl s q x f) = (\<lambda>x. if ?g (?f x) > ?k then ?k else ?g (?f x))"
    unfolding final_score_def Let_def div by (rule ext) (rule refl)
  moreover have "mono_upto 36000 2304000 (\<lambda>x. if ?g (?f x) > ?k then ?k else ?g (?f x))"
    by (rule mono_upto_min [OF mono_upto_comp [OF 1 2]])
  ultimately show ?thesis by (simp only:)
qed

lemma cap_le: "(if y > k then k else y) \<le> (k :: u32)"
  by auto

lemma final_score_cap: "final_score D s q x f \<le> ucast (havoc_max_mult s) * 100"
  unfolding final_score_def Let_def by (rule cap_le)

lemma speed_score_bound: "unat (speed_score D s q) \<le> 300"
  by (simp add: speed_score_def Let_def)

lemma rat_less:
  "real a < real b * of_rat (1 / 10) \<longleftrightarrow> 10 * a < b" "real a < real b * of_rat (1 / 4) \<longleftrightarrow> 4 * a < b"
  "real a < real b * of_rat (1 / 2) \<longleftrightarrow> 2 * a < b" "real a < real b * of_rat (3 / 4) \<longleftrightarrow> 4 * a < 3 * b"
  by (simp_all add: of_rat_divide field_simps) linarith+

lemma exec_us_upd: "exec_us (q\<lparr> exec_us := x \<rparr>) = x"
  by simp

lemma speed_score_mono:
  assumes "e \<le> exec_us q" and "exec_us q < 2 ^ 62"
  shows "speed_score real_dbl s q \<le> speed_score real_dbl s (q\<lparr> exec_us := e \<rparr>)"
proof -
  have e: "unat e \<le> unat (exec_us q)" "unat (exec_us q) < 2 ^ 62" using assms by (simp_all add: word_le_nat_alt word_less_nat_alt)
  have mul: "unat (x * of_nat k) = unat x * k" if "unat x < 2 ^ 62" "k \<le> 4" for x :: u64 and k
  proof -
    have k: "unat (of_nat k :: u64) = k" using that(2) by (subst unat_of_nat) simp
    have "unat x * k < 2 ^ 64" by (rule le_less_trans [OF mult_le_mono2 [OF that(2)]]) (use that(1) in simp)
    then show ?thesis using k by (subst unat_mult_lem [THEN iffD1]) simp_all
  qed
  have lt: "x * of_nat k < ucast a \<longleftrightarrow> unat x * k < unat a" if "unat x < 2 ^ 62" "k \<le> 4" for x :: u64 and k and a :: u32
    using mul [OF that] by (simp add: word_less_nat_alt ucast_u32_u64)
  have lt4: "x * 4 < ucast a \<longleftrightarrow> unat x * 4 < unat a" and lt3: "x * 3 < ucast a \<longleftrightarrow> unat x * 3 < unat a"
    and lt2: "x * 2 < ucast a \<longleftrightarrow> unat x * 2 < unat a" if "unat x < 2 ^ 62" for x :: u64 and a :: u32
    using lt [OF that, of 4 a] lt [OF that, of 3 a] lt [OF that, of 2 a] by simp_all
  let ?A = "unat (avg_exec_us s)" and ?none = "schedule s \<in> set [RARE, SEEK] \<or> queue_state.fixed_seed s"
  let ?F = "\<lambda>x :: nat. if 10 * ?A < x then 10 else if 4 * ?A < x then 25 else if 2 * ?A < x then 50 else if 4 * ?A < 3 * x then 75
    else if x * 4 < ?A then 300 else if x * 3 < ?A then 200 else if x * 2 < ?A then 150 else 100 :: u32"
  have sp: "speed_score real_dbl s (q\<lparr> exec_us := x \<rparr>) = (if ?none then 100 else ?F (unat x))" if "unat x < 2 ^ 62" for x
    by (simp only: speed_score_def Let_def real_dbl_simps rat_less lt4 [OF that] lt3 [OF that] lt2 [OF that]
        exec_us_upd)
  have "?F y \<le> ?F x" if "x \<le> y" for x y :: nat using that by auto
  then show ?thesis using sp [of e] sp [of "exec_us q"] e by simp
qed


lemma exec_us_sel:
  "bitmap_size (q\<lparr> exec_us := e \<rparr>) = bitmap_size q" "depth (q\<lparr> exec_us := e \<rparr>) = depth q" "fuzz_level (q\<lparr> exec_us := e \<rparr>) = fuzz_level q"
  "favored (q\<lparr> exec_us := e \<rparr>) = favored q" "n_fuzz_entry (q\<lparr> exec_us := e \<rparr>) = n_fuzz_entry q" "tc_ref (q\<lparr> exec_us := e \<rparr>) = tc_ref q"
  by simp_all

lemma exec_us_parts:
  "coverage_score D s (q\<lparr> exec_us := e \<rparr>) x = coverage_score D s q x" "depth_score (q\<lparr> exec_us := e \<rparr>) x = depth_score q x"
  "schedule_score D s (q\<lparr> exec_us := e \<rparr>) x = schedule_score D s q x" "final_score D s (q\<lparr> exec_us := e \<rparr>) x f = final_score D s q x f"
  "fst (handicap_score (q\<lparr> exec_us := e \<rparr>) x) = fst (handicap_score q x)"
  "snd (handicap_score (q\<lparr> exec_us := e \<rparr>) x) = (snd (handicap_score q y))\<lparr> exec_us := e \<rparr>"
  unfolding coverage_score_def depth_score_def schedule_score_def final_score_def fast_factor_def exec_us_sel
  by (simp_all add: handicap_score_def)

lemma calculate_score_mono:
  assumes slow: "calculate_score real_dbl s q = Some (a, q1)" and fast: "calculate_score real_dbl s (q\<lparr> exec_us := e \<rparr>) = Some (b, q2)"
    and e: "e \<le> exec_us q" "exec_us q < 2 ^ 62"
  shows "a \<le> b"
proof -
  let ?q = "q\<lparr> exec_us := e \<rparr>"
  let ?c = "coverage_score real_dbl s q" and ?h = "\<lambda>x. fst (handicap_score q x)" and ?q1 = "snd (handicap_score q 0)"
  let ?d = "\<lambda>x. depth_score ?q1 (?h (?c x))"
  have calc: "calculate_score real_dbl s q = map_option (\<lambda>(x, f). (final_score real_dbl s ?q1 x f, ?q1)) (schedule_score real_dbl s ?q1 (?d (speed_score real_dbl s q)))"
    "calculate_score real_dbl s ?q = map_option (\<lambda>(x, f). (final_score real_dbl s ?q1 x f, ?q1\<lparr> exec_us := e \<rparr>))
       (schedule_score real_dbl s ?q1 (?d (speed_score real_dbl s ?q)))"
    unfolding calculate_score_def case_prod_unfold Let_def exec_us_parts(1-5) exec_us_parts(6) [where q = q and y = 0]
      handicap_score_mono(2) [of q "?c (speed_score real_dbl s q)" 0] by (rule refl)+
  have mono: "mono_upto 300 18000 ?d"
    by (rule mono_upto_comp [OF mono_upto_comp [OF coverage_score_mono handicap_score_mono(1)] depth_score_mono])
  obtain x f y g where x: "schedule_score real_dbl s ?q1 (?d (speed_score real_dbl s q)) = Some (x, f)" "a = final_score real_dbl s ?q1 x f"
    and y: "schedule_score real_dbl s ?q1 (?d (speed_score real_dbl s ?q)) = Some (y, g)" "b = final_score real_dbl s ?q1 y g"
    using slow fast unfolding calc by auto
  show ?thesis
  proof (cases "schedule s = RARE")
    case True
    then have "speed_score real_dbl s ?q = speed_score real_dbl s q" by (simp add: speed_score_def)
    then show ?thesis using x y by simp
  next
    case False
    note sched = schedule_score_mono [OF False x(1) y(1)]
    obtain h where h: "x = h (?d (speed_score real_dbl s q))" "y = h (?d (speed_score real_dbl s ?q))" "mono_upto 18000 36000 h"
      using sched(3) by blast
    have "mono_upto 300 2304000 (\<lambda>v. final_score real_dbl s ?q1 (h (?d v)) f)"
      by (rule mono_upto_comp [OF mono_upto_comp [OF mono h(3)] final_score_mono [OF sched(2)]])
    then show ?thesis
      using speed_score_mono [OF e, of s] speed_score_bound [of real_dbl s ?q] x(2) y(2) h(1,2) sched(1) by (simp add: mono_upto_def)
  qed
qed

lemma alias_table_shares:
  assumes sc: "scorable s" and sch: "schedule s \<notin> set [MMOPT, RARE, SEEK]"
  shows "\<exists>s'. create_alias_table real_dbl True s = Some s' \<and> map disabled (queue_buf s') = map disabled (queue_buf s) \<and>
    map favored (queue_buf s') = map favored (queue_buf s) \<and>
    (\<forall>i < length (queue_buf s).
       (disabled (queue_buf s' ! i) \<or> 0 < weight (queue_buf s' ! i)) \<and>
       alias_mass (alias_probability s') (alias_table s') i / length (queue_buf s) =
         (if disabled (queue_buf s' ! i) then 0
          else weight (queue_buf s' ! i) / (\<Sum>j < length (queue_buf s). if disabled (queue_buf s' ! j) then 0 else weight (queue_buf s' ! j)))) \<and>
    (\<forall>i < length (queue_buf s). \<forall>p. 0 \<le> p \<and> p < 1 \<longrightarrow>
       \<not> disabled (queue_buf s' ! unat (alias_pick real_dbl s' (of_nat i) p)))"
proof -
  let ?n = "length (queue_buf s)"
  obtain s1 where w: "swam_weights real_dbl s = Some (\<Sum>i < ?n. if disabled (queue_buf s1 ! i) then 0 else weight (queue_buf s1 ! i), s1)"
    and fr: "same_frame s s1" and pos: "\<forall>i < ?n. disabled (queue_buf s1 ! i) \<or> 0 < weight (queue_buf s1 ! i)"
    using swam_weights_real [OF sc] by blast
  let ?w = "\<lambda>i. if disabled (queue_buf s1 ! i) then 0 else weight (queue_buf s1 ! i)"
  let ?t = "\<Sum>i < ?n. ?w i"
  let ?P = "weightings real_dbl ?t weight s1"
  have n: "length (queue_buf s1) = ?n" "?n < 2 ^ 31" using same_frame_entry(1) [OF fr] sc by (simp_all add: scorable_def)
  have nn: "\<forall>i \<in> {..<?n}. 0 \<le> ?w i" using pos by (auto simp: less_imp_le)
  obtain k where k: "k < ?n" "\<not> disabled (queue_buf s1 ! k)"
    using sc same_frame_entry(6) [OF fr] n(1) by (auto simp: scorable_def list_all_length)
  then have "0 < ?w k" using pos by auto
  also have "?w k \<le> ?t" by (rule member_le_sum) (use k nn in auto)
  finally have t: "0 < ?t" .
  have P: "?P = map (\<lambda>i. ?w i * ?n / ?t) [0..<?n]" using n(1) by (intro nth_equalityI) (auto simp: weightings_def)
  have lP: "length ?P = ?n" and Pi: "i < ?n \<Longrightarrow> ?P ! i = ?w i * ?n / ?t" for i unfolding P by simp_all
  have "\<forall>i < length ?P. 0 \<le> ?P ! i" using Pi t nn lP by (auto intro!: divide_nonneg_nonneg mult_nonneg_nonneg simp: less_imp_le)
  moreover have "sum_list ?P = length ?P" unfolding lP unfolding P by (rule weightings_sum [OF t refl])
  ultimately obtain prob tab where b: "alias_build real_dbl ?P = Some (prob, tab)" "length prob = ?n" "length tab = ?n"
    and m: "\<forall>i < ?n. 0 \<le> prob ! i \<and> prob ! i \<le> 1 \<and> unat (tab ! i) < ?n \<and> alias_mass prob tab i = ?P ! i"
    using alias_build_exact [of ?P] lP n(2) by auto
  let ?s = "s1\<lparr> alias_probability := prob, alias_table := tab, reinit_table := False \<rparr>"
  have boost: "mmopt_boost real_dbl s1 = s1" using sch same_frame_entry(4) [OF fr] by (simp add: mmopt_boost_def)
  have c: "create_alias_table real_dbl True s = Some ?s"
    using sch b(1) by (simp add: create_alias_table_def w boost Let_def)
  have shares: "alias_mass prob tab i / ?n = (if disabled (queue_buf s1 ! i) then 0 else weight (queue_buf s1 ! i) / ?t)" if "i < ?n" for i
    using m that Pi [OF that] k(1) by simp
  have zero: "alias_mass prob tab i = 0" if "i < ?n" "disabled (queue_buf s1 ! i)" for i
    using m that(1) Pi [OF that(1)] that(2) by simp
  have pick: "\<not> disabled (queue_buf ?s ! unat (alias_pick real_dbl ?s (of_nat i) p))" if i: "i < ?n" and p: "0 \<le> p" "p < 1" for i p
  proof -
    have u: "unat (of_nat i :: u32) = i" using i n(2) by (intro unat_small) simp
    have bounds: "\<forall>j < length prob. 0 \<le> prob ! j \<and> prob ! j \<le> 1" using m b(2) by simp
    show ?thesis
    proof (cases "p < prob ! i")
      case True
      then have "prob ! i \<noteq> 0" using p by simp
      then have "\<not> disabled (queue_buf s1 ! i)" using alias_mass_zero(1) [OF zero [OF i] _ bounds] i b(2) by auto
      then show ?thesis using True u by (simp add: alias_pick_def)
    next
      case False
      then have "prob ! i \<noteq> 1" using p by simp
      then have "\<not> disabled (queue_buf s1 ! unat (tab ! i))"
        using alias_mass_zero(2) [OF zero [of "unat (tab ! i)"] _ bounds, of i] m i b(2) by auto
      then show ?thesis using False u by (simp add: alias_pick_def)
    qed
  qed
  have "map disabled (queue_buf ?s) = map disabled (queue_buf s)" "map favored (queue_buf ?s) = map favored (queue_buf s)"
    using fr by (simp_all add: same_frame_def)
  moreover have q: "queue_buf ?s = queue_buf s1" "alias_probability ?s = prob" "alias_table ?s = tab" by simp_all
  ultimately show ?thesis
    using c shares pick pos unfolding q by (intro exI [of _ ?s]) (unfold q, blast)
qed

section \<open>Selection after culling\<close>

text \<open>Culling keeps the schedule and what scores depend on.\<close>

lemma cull_step_keeps:
  "schedule (snd (cull_step len i vs)) = schedule (snd vs)" "n_fuzz (snd (cull_step len i vs)) = n_fuzz (snd vs)"
  by (auto simp: cull_step_def favor_def upd_entry_def Let_def split: prod.splits option.splits)

lemma cull_fold_keeps:
  "schedule (snd (fold (cull_step len) is vs)) = schedule (snd vs)" "n_fuzz (snd (fold (cull_step len) is vs)) = n_fuzz (snd vs)"
  by (induction "is" arbitrary: vs) (simp_all add: cull_step_keeps)

definition select_key :: "'d queue_entry \<Rightarrow> bool \<times> u32" where
  "select_key q = (disabled q, n_fuzz_entry q)"

lemma map_eq_nth: "map f xs = map f ys \<Longrightarrow> i < length ys \<Longrightarrow> f (xs ! i) = f (ys ! i)"
  by (metis map_eq_imp_length_eq nth_map)

lemma favor_keeps: "map select_key (queue_buf (favor t s)) = map select_key (queue_buf s)"
  by (rule nth_equalityI) (auto simp: favor_entry select_key_def)

lemma cull_fold_entries:
  "map select_key (queue_buf (snd (fold (cull_step len) is vs))) =
   map select_key (queue_buf (snd vs))"
proof (induction "is" arbitrary: vs)
  case (Cons i "is")
  have "map select_key (queue_buf (snd (cull_step len i vs))) = map select_key (queue_buf (snd vs))"
    by (auto simp: cull_step_def favor_keeps split: prod.splits option.splits)
  then show ?case by (simp add: Cons.IH)
qed simp

lemma cull_queue_keeps:
  "schedule (cull_queue s) = schedule s" "n_fuzz (cull_queue s) = n_fuzz s"
  "score_changed s \<Longrightarrow> \<not> non_instrumented_mode s \<Longrightarrow> reinit_table (cull_queue s)"
  by (simp_all add: cull_queue_def Let_def case_prod_unfold cull_fold_keeps)

lemma cull_queue_entries:
  fixes s :: "'d queue_state"
  assumes "\<not> disable_redundant s"
  shows "map select_key (queue_buf (cull_queue s)) = map select_key (queue_buf s)"
proof -
  have m: "select_key (mark_as_redundant False r q) = select_key q" for r and q :: "'d queue_entry"
    by (simp add: select_key_def mark_as_redundant_def Let_def)
  show ?thesis
  proof (cases "score_changed s \<and> \<not> non_instrumented_mode s")
    case True
    then have "map select_key (queue_buf (cull_queue s)) = map select_key (queue_buf (snd (cull_loop s)))"
      using assms m by (simp add: cull_queue_loop comp_def)
    also have "\<dots> = map select_key (queue_buf (cull_start s))" by (simp add: cull_loop_def cull_fold_entries)
    also have "\<dots> = map select_key (queue_buf s)" by (simp add: cull_start_def select_key_def)
    finally show ?thesis .
  qed (auto simp: cull_queue_def)
qed

lemma scorable_cong:
  fixes s s' :: "'d queue_state"
  assumes m: "map select_key (queue_buf s') = map select_key (queue_buf s)" and n: "n_fuzz s' = n_fuzz s"
  shows "scorable s' = scorable s"
proof -
  have l: "length (queue_buf s') = length (queue_buf s)" using m by (rule map_eq_imp_length_eq)
  have "\<forall>i < length (queue_buf s). disabled (queue_buf s' ! i) = disabled (queue_buf s ! i) \<and> n_fuzz_entry (queue_buf s' ! i) = n_fuzz_entry (queue_buf s ! i)"
    using map_eq_nth [OF m] by (simp add: select_key_def)
  then show ?thesis using l n by (auto simp: scorable_def list_all_length)
qed

lemma scored_keeps:
  assumes "same_static s0 s"
  shows "map select_key (queue_buf s) = map select_key (queue_buf s0)"
  using same_static_length [OF assms] static_fields(2,5) [OF same_static_entry [OF assms]]
  by (intro nth_equalityI) (simp_all add: select_key_def)

section \<open>Properties\<close>

definition demo_real :: "real queue_state" where
  "demo_real = queue_of [entry_of 0 5, (entry_of 1 3)\<lparr> disabled := True \<rparr>, entry_of 2 2]"

text \<open>
  C20. In exact arithmetic the alias table selects by weight. For a schedule below \<^verbatim>\<open>RARE\<close> other than
  \<^verbatim>\<open>MMOPT\<close>, and a queue with an enabled entry, \<^verbatim>\<open>create_alias_table\<close> returns; every enabled entry has a positive
  weight; the probability of entry \<open>i\<close>, that is its share of the columns divided by their number, is its
  weight divided by the sum of the weights, and 0 if it is disabled; and whatever column is drawn,
  with a percentage below 1 the entry picked is enabled.
\<close>

theorem alias_table_selects:
  assumes sc: "scorable s" and sch: "schedule s \<notin> set [MMOPT, RARE, SEEK]"
  shows "\<exists>s'. create_alias_table real_dbl True s = Some s' \<and> map disabled (queue_buf s') = map disabled (queue_buf s) \<and>
    (\<forall>i < length (queue_buf s).
       (disabled (queue_buf s' ! i) \<or> 0 < weight (queue_buf s' ! i)) \<and>
       alias_mass (alias_probability s') (alias_table s') i / length (queue_buf s) =
         (if disabled (queue_buf s' ! i) then 0
          else weight (queue_buf s' ! i) / (\<Sum>j < length (queue_buf s). if disabled (queue_buf s' ! j) then 0 else weight (queue_buf s' ! j)))) \<and>
    (\<forall>i < length (queue_buf s). \<forall>p. 0 \<le> p \<and> p < 1 \<longrightarrow>
       \<not> disabled (queue_buf s' ! unat (alias_pick real_dbl s' (of_nat i) p)))"
  using alias_table_shares [OF assms] by blast

theorem alias_table_selects_witness:
  "\<exists>s'. create_alias_table real_dbl True (demo_real\<lparr> n_fuzz := [0] \<rparr>) = Some s' \<and>
     alias_mass (alias_probability s') (alias_table s') 1 = 0 \<and> alias_mass (alias_probability s') (alias_table s') 2 > 0 \<and>
     unat (alias_pick real_dbl s' 1 (1 / 2)) \<noteq> 1"
proof -
  let ?s = "demo_real\<lparr> n_fuzz := [0] \<rparr>"
  have h: "scorable ?s" "schedule ?s \<notin> set [MMOPT, RARE, SEEK]"
    by (simp_all add: scorable_def demo_real_def queue_of_def entry_of_def)
  have l: "length (queue_buf ?s) = 3" and d: "map disabled (queue_buf ?s) = [False, True, False]"
    by (simp_all add: demo_real_def queue_of_def entry_of_def)
  obtain s' where s': "create_alias_table real_dbl True ?s = Some s'" "map disabled (queue_buf s') = [False, True, False]"
    and m: "\<forall>i < 3. (disabled (queue_buf s' ! i) \<or> 0 < weight (queue_buf s' ! i)) \<and>
       alias_mass (alias_probability s') (alias_table s') i / 3 =
         (if disabled (queue_buf s' ! i) then 0
          else weight (queue_buf s' ! i) / (\<Sum>j < 3. if disabled (queue_buf s' ! j) then 0 else weight (queue_buf s' ! j)))"
    and p: "\<forall>i < 3. \<forall>p. 0 \<le> p \<and> p < 1 \<longrightarrow> \<not> disabled (queue_buf s' ! unat (alias_pick real_dbl s' (of_nat i) p))"
    using alias_table_selects [OF h] unfolding l d by auto
  have "length (queue_buf s') = 3" using s'(2) by (metis length_Cons length_map list.size(3) numeral_3_eq_3)
  then have e: "\<not> disabled (queue_buf s' ! 0)" "disabled (queue_buf s' ! 1)" "\<not> disabled (queue_buf s' ! 2)"
    using s'(2) by (metis (no_types, lifting) nth_Cons_0 nth_Cons_Suc nth_map numeral_2_eq_2 One_nat_def lessI zero_less_numeral numeral_3_eq_3 less_SucI)+
  let ?m = "alias_mass (alias_probability s') (alias_table s')" and ?w = "\<lambda>i. weight (queue_buf s' ! i)"
  have "?m 2 = ?w 2 * 3 / (?w 0 + ?w 2)" "0 < ?w 0" "0 < ?w 2"
    using m [rule_format, of 2] m [rule_format, of 0] e by (simp_all add: numeral_3_eq_3 numeral_2_eq_2)
  then have "0 < ?m 2" by simp
  then show ?thesis
    using s'(1) m [rule_format, of 1] p [rule_format, of 1 "1/2"] e by (intro exI [of _ s']) auto
qed



declare alias_loop.simps [code]


end
