(* ===== verification/Wasm_Names.thy ===== *)
theory Wasm_Names
  imports Swam_Markers "HOL-Library.Multiset"
begin

text \<open>
  The pool of label names, \<^verbatim>\<open>wasm_init_name_grp\<close> of \<^verbatim>\<open>init_func.c\<close>, and
  \<^verbatim>\<open>wasm_find_available_name\<close> and \<^verbatim>\<open>wasm_reset_name_grp\<close> of \<^verbatim>\<open>helper_func.c\<close>. Binaryen interns every
  name it sees, so names are recycled between modules. The two linked lists of
  \<^verbatim>\<open>nameGrp\<close> are lists here; their \<^verbatim>\<open>element_total_count\<close> is the length.
\<close>

section \<open>The pool\<close>

record nameGrp =
  name_cnt :: u32
  free_names :: "string list"
  used_names :: "string list"

definition fuzz_name :: "nat \<Rightarrow> string" where
  "fuzz_name i = ''fuzz_'' @ nat_string i"

definition wasm_init_name_grp :: nameGrp where
  "wasm_init_name_grp =
     \<lparr> name_cnt = 10, free_names = map fuzz_name [0..<10], used_names = [] \<rparr>"

definition wasm_find_available_name :: "nameGrp \<Rightarrow> string \<times> nameGrp" where
  "wasm_find_available_name grp =
     (if length (free_names grp) \<le> 0 then
        (let name_str = fuzz_name (unat (name_cnt grp))
         in (name_str, grp\<lparr> used_names := used_names grp @ [name_str], name_cnt := name_cnt grp + 1 \<rparr>))
      else
        (let candidate = hd (free_names grp)
         in (candidate, grp\<lparr> free_names := remove1 candidate (free_names grp),
                             used_names := used_names grp @ [candidate] \<rparr>)))"

definition wasm_reset_name_grp :: "nameGrp \<Rightarrow> nameGrp" where
  "wasm_reset_name_grp grp =
     (if length (used_names grp) \<ge> 1
      then grp\<lparr> free_names := free_names grp @ used_names grp, used_names := [] \<rparr>
      else grp)"

section \<open>A supply of names as an interface\<close>

text \<open>
  What the mutators need from the pool: a name that is not in use, as long as the counter
  has room, and a reset that takes all names back. \<open>room\<close> is the number of names that can
  still be handed out.
\<close>

locale name_supply =
  fixes take_name :: "'s \<Rightarrow> 'n \<times> 's"
    and reset :: "'s \<Rightarrow> 's"
    and in_use :: "'s \<Rightarrow> 'n list"
    and room :: "'s \<Rightarrow> nat"
    and ok :: "'s \<Rightarrow> bool"
  assumes take_fresh: "ok s \<Longrightarrow> 0 < room s \<Longrightarrow> fst (take_name s) \<notin> set (in_use s)"
    and take_in_use: "in_use (snd (take_name s)) = in_use s @ [fst (take_name s)]"
    and take_ok: "ok s \<Longrightarrow> 0 < room s \<Longrightarrow> ok (snd (take_name s))"
    and take_room: "ok s \<Longrightarrow> 0 < room s \<Longrightarrow> room (snd (take_name s)) = room s - 1"
    and ok_distinct: "ok s \<Longrightarrow> distinct (in_use s)"
    and reset_in_use: "in_use (reset s) = []"
    and reset_ok: "ok s \<Longrightarrow> ok (reset s)"
begin

fun take_names :: "nat \<Rightarrow> 's \<Rightarrow> 'n list \<times> 's" where
  "take_names 0 s = ([], s)"
| "take_names (Suc k) s =
     (let (n, s1) = take_name s; (ns, s2) = take_names k s1 in (n # ns, s2))"

lemma take_names_in_use: "in_use (snd (take_names k s)) = in_use s @ fst (take_names k s)"
  by (induction k arbitrary: s) (auto simp: take_in_use case_prod_unfold Let_def)

lemma take_names_ok:
  assumes "ok s" and "k \<le> room s"
  shows "ok (snd (take_names k s)) \<and> room (snd (take_names k s)) = room s - k"
  using assms
  by (induction k arbitrary: s) (auto simp: take_ok take_room case_prod_unfold Let_def)

lemma take_names_distinct:
  assumes "ok s" and "k \<le> room s"
  shows "distinct (in_use s @ fst (take_names k s))"
  using ok_distinct [of "snd (take_names k s)"] take_names_ok [OF assms] take_names_in_use [of k s]
  by simp

lemma reset_take_distinct:
  assumes "ok s" and "k \<le> room (reset s)"
  shows "distinct (fst (take_names k (reset s)))"
  using take_names_distinct [OF reset_ok [OF assms(1)] assms(2)] by (simp add: reset_in_use)

lemma take_names_length: "length (fst (take_names k s)) = k"
  by (induction k arbitrary: s) (auto simp: case_prod_unfold Let_def)

end

section \<open>The pool is a supply\<close>

text \<open>The names in the two lists are exactly \<open>fuzz_0\<close> to \<open>fuzz_(n-1)\<close>, each once.\<close>

definition pool_ok :: "nameGrp \<Rightarrow> bool" where
  "pool_ok grp \<longleftrightarrow>
     mset (free_names grp @ used_names grp) = mset (map fuzz_name [0..<unat (name_cnt grp)])"

definition pool_room :: "nameGrp \<Rightarrow> nat" where
  "pool_room grp = length (free_names grp) + (2 ^ 32 - 1 - unat (name_cnt grp))"

lemma fuzz_name_inj: "inj fuzz_name"
proof (rule injI)
  fix i j assume "fuzz_name i = fuzz_name j"
  then have "nat_string i = nat_string j" by (simp add: fuzz_name_def)
  then show "i = j" using digits_value_nat_string by metis
qed

lemma pool_distinct: "pool_ok grp \<Longrightarrow> distinct (free_names grp @ used_names grp)"
proof -
  assume "pool_ok grp"
  moreover have "distinct (map fuzz_name [0..<unat (name_cnt grp)])"
    using fuzz_name_inj by (simp add: distinct_map inj_on_def)
  ultimately show ?thesis unfolding pool_ok_def by (metis mset_eq_imp_distinct_iff)
qed

lemma pool_set:
  assumes "pool_ok grp"
  shows "set (free_names grp) \<union> set (used_names grp) = fuzz_name ` {0..<unat (name_cnt grp)}"
proof -
  have "set (free_names grp @ used_names grp) = set (map fuzz_name [0..<unat (name_cnt grp)])"
    using assms unfolding pool_ok_def by (metis set_mset_mset)
  then show ?thesis by simp
qed

lemma pool_length:
  assumes "pool_ok grp"
  shows "length (free_names grp) + length (used_names grp) = unat (name_cnt grp)"
proof -
  have "size (mset (free_names grp @ used_names grp)) = unat (name_cnt grp)"
    using assms unfolding pool_ok_def by simp
  then show ?thesis by simp
qed

lemma find_name_new:
  assumes "free_names grp = []"
  shows "wasm_find_available_name grp =
    (fuzz_name (unat (name_cnt grp)),
     grp\<lparr> used_names := used_names grp @ [fuzz_name (unat (name_cnt grp))], name_cnt := name_cnt grp + 1 \<rparr>)"
  using assms by (simp add: wasm_find_available_name_def Let_def)

lemma find_name_reuse:
  assumes "free_names grp = n # ns"
  shows "wasm_find_available_name grp =
    (n, grp\<lparr> free_names := ns, used_names := used_names grp @ [n] \<rparr>)"
  using assms by (simp add: wasm_find_available_name_def)

lemma cnt_Suc:
  assumes "free_names grp = []" and "0 < pool_room grp"
  shows "unat (name_cnt grp + 1) = Suc (unat (name_cnt grp))"
  using assms by (intro unat_Suc_less) (simp add: pool_room_def)

lemma find_name_fresh:
  assumes "pool_ok grp" and "0 < pool_room grp"
  shows "fst (wasm_find_available_name grp) \<notin> set (used_names grp)"
proof (cases "free_names grp")
  case Nil
  then show ?thesis
    using pool_set [OF assms(1)] by (auto simp: find_name_new inj_eq [OF fuzz_name_inj])
next
  case (Cons n ns)
  then show ?thesis using pool_distinct [OF assms(1)] by (simp add: find_name_reuse)
qed

lemma find_name_ok:
  assumes "pool_ok grp" and "0 < pool_room grp"
  shows "pool_ok (snd (wasm_find_available_name grp)) \<and>
         pool_room (snd (wasm_find_available_name grp)) = pool_room grp - 1"
proof (cases "free_names grp")
  case Nil
  then show ?thesis
    using assms cnt_Suc [OF Nil assms(2)] by (simp add: find_name_new pool_ok_def pool_room_def)
next
  case (Cons n ns)
  then show ?thesis using assms by (simp add: find_name_reuse pool_ok_def pool_room_def)
qed

lemma init_name_ok: "pool_ok wasm_init_name_grp"
  by (simp add: pool_ok_def wasm_init_name_grp_def)

lemma reset_name_ok: "pool_ok grp \<Longrightarrow> pool_ok (wasm_reset_name_grp grp)"
  by (simp add: pool_ok_def wasm_reset_name_grp_def)

interpretation pool: name_supply wasm_find_available_name wasm_reset_name_grp used_names pool_room pool_ok
proof unfold_locales
  fix s
  show "used_names (snd (wasm_find_available_name s))
          = used_names s @ [fst (wasm_find_available_name s)]"
    by (cases "free_names s") (simp_all add: find_name_new find_name_reuse)
  show "used_names (wasm_reset_name_grp s) = []"
    by (simp add: wasm_reset_name_grp_def Suc_le_eq)
qed (use find_name_fresh find_name_ok pool_distinct reset_name_ok in auto)

section \<open>Property\<close>

text \<open>A sequence of calls of \<^verbatim>\<open>wasm_find_available_name\<close>.\<close>

fun find_names :: "nat \<Rightarrow> nameGrp \<Rightarrow> string list \<times> nameGrp" where
  "find_names 0 grp = ([], grp)"
| "find_names (Suc k) grp =
     (let (n, grp1) = wasm_find_available_name grp; (ns, grp2) = find_names k grp1 in (n # ns, grp2))"

lemma find_names_take: "find_names k grp = pool.take_names k grp"
  by (induction k arbitrary: grp) simp_all

lemma find_names_cnt:
  assumes "pool_ok grp" and "k \<le> pool_room grp"
  shows "unat (name_cnt (snd (find_names k grp))) = unat (name_cnt grp) + (k - length (free_names grp))"
  using assms
proof (induction k arbitrary: grp)
  case (Suc k)
  then have pos: "0 < pool_room grp" by simp
  note ok = find_name_ok [OF Suc.prems(1) pos]
  have "unat (name_cnt (snd (find_names k (snd (wasm_find_available_name grp))))) =
        unat (name_cnt (snd (wasm_find_available_name grp)))
          + (k - length (free_names (snd (wasm_find_available_name grp))))"
    using Suc.IH [of "snd (wasm_find_available_name grp)"] ok Suc.prems(2) by simp
  then show ?case
    by (cases "free_names grp")
       (simp_all add: find_name_new find_name_reuse case_prod_unfold Let_def cnt_Suc [OF _ pos])
qed simp

text \<open>
  C36. The name pool hands out fresh names and recycles them: after a reset of a well-formed
  pool, \<open>k\<close> requests give \<open>k\<close> different names, the pool stays well-formed (its two lists hold
  exactly the names \<open>fuzz_0\<close> to \<open>fuzz_(n-1)\<close>, each once), and it only grows when more names are
  in use at once than ever before.
\<close>

theorem name_pool_fresh:
  assumes "pool_ok grp" and "k < 2 ^ 32"
  shows "distinct (fst (find_names k (wasm_reset_name_grp grp))) \<and>
         length (fst (find_names k (wasm_reset_name_grp grp))) = k \<and>
         pool_ok (snd (find_names k (wasm_reset_name_grp grp))) \<and>
         unat (name_cnt (snd (find_names k (wasm_reset_name_grp grp)))) = max k (unat (name_cnt grp))"
proof -
  let ?r = "wasm_reset_name_grp grp"
  have ok: "pool_ok ?r" using assms(1) by (rule reset_name_ok)
  have r: "name_cnt ?r = name_cnt grp" "used_names ?r = []"
    by (simp_all add: wasm_reset_name_grp_def Suc_le_eq)
  have free: "length (free_names ?r) = unat (name_cnt grp)" using pool_length [OF ok] r by simp
  have "unat (name_cnt grp) < 2 ^ 32" using unsigned_less [of "name_cnt grp", where ?'a = nat] by simp
  then have room: "k \<le> pool_room ?r" using assms(2) r(1) free by (simp add: pool_room_def)
  show ?thesis
    using pool.reset_take_distinct [OF assms(1) room] pool.take_names_ok [OF ok room]
      pool.take_names_length [of k ?r] find_names_cnt [OF ok room] r(1) free
    by (simp add: find_names_take)
qed

theorem name_pool_fresh_witness:
  "unat (name_cnt (snd (find_names 12 (wasm_reset_name_grp wasm_init_name_grp)))) = 12 \<and>
   distinct (fst (find_names 12 (wasm_reset_name_grp wasm_init_name_grp)))"
proof -
  have "unat (name_cnt wasm_init_name_grp) = 10" by (simp add: wasm_init_name_grp_def)
  then show ?thesis using name_pool_fresh [OF init_name_ok, of 12] by simp
qed

end
