(* ===== verification/Wasm_Pass.thy ===== *)
theory Wasm_Pass
  imports Wasm_Helpers Wasm_Names "HOL-Library.Sublist"
begin

text \<open>
  What the structural mutators of \<^verbatim>\<open>mutator_func.c\<close> share: each one walks over the function
  bodies of a module in random order, keeps a work list of expression nodes
  (\<^verbatim>\<open>child_node_list\<close>), changes nodes in place and stops when it has made enough changes.

  A node pointer is modelled by the path of child indices that leads from the body to the
  node; a change in place replaces the node at that path.
\<close>

section \<open>Nodes of an expression\<close>

fun node_at :: "bexpr \<Rightarrow> nat list \<Rightarrow> bexpr option" where
  "node_at e [] = Some e"
| "node_at e (i # p) =
     (if i < length (kids e) then (case kids e ! i of Some c \<Rightarrow> node_at c p | None \<Rightarrow> None) else None)"

fun set_node :: "bexpr \<Rightarrow> nat list \<Rightarrow> bexpr \<Rightarrow> bexpr" where
  "set_node e [] n = n"
| "set_node e (i # p) n =
     (if i < length (kids e)
      then (case kids e ! i of Some c \<Rightarrow> wasm_set_children_expr e (set_node c p n) i | None \<Rightarrow> e)
      else e)"

lemma node_at_append:
  "node_at e (p @ q) = (case node_at e p of Some c \<Rightarrow> node_at c q | None \<Rightarrow> None)"
  by (induction e p rule: node_at.induct) (auto split: option.splits)

lemma node_at_set_node:
  assumes "node_at e p \<noteq> None"
  shows "node_at (set_node e p n) (p @ q) = node_at n q"
  using assms
  by (induction e p n rule: set_node.induct) (auto simp: set_children_kids split: option.splits if_splits)

lemma node_at_set_same:
  assumes "node_at e p \<noteq> None"
  shows "node_at (set_node e p n) p = Some n"
  using node_at_set_node [OF assms, of n "[]"] by simp

lemma node_at_set_parallel:
  assumes "p \<parallel> q"
  shows "node_at (set_node e p n) q = node_at e q"
  using assms
proof (induction e p n arbitrary: q rule: set_node.induct)
  case (2 e i p n)
  then obtain j q' where q: "q = j # q'" by (cases q) auto
  show ?case
  proof (cases "i < length (kids e) \<and> kids e ! i \<noteq> None")
    case True
    then obtain c where c: "i < length (kids e)" "kids e ! i = Some c" by auto
    have "node_at (set_node c p n) q' = node_at c q'" if "i = j"
      using 2 q c that parallel_cancel by fastforce
    then show ?thesis using c by (auto simp: q set_children_kids nth_list_update)
  qed (auto split: option.splits)
qed simp

lemma set_node_append:
  assumes "node_at e p = Some c"
  shows "set_node e (p @ q) n = set_node e p (set_node c q n)"
  using assms by (induction e p n rule: set_node.induct) (auto split: option.splits if_splits)

lemma set_node_child:
  assumes "i < length (kids e)" and "kids e ! i = Some c"
  shows "set_node e [i] n = wasm_set_children_expr e n i"
  using assms by simp

section \<open>Children still to visit\<close>

text \<open>
  The loop that appends the non-NULL children to the work list; \<open>cs\<close> is what
  \<^verbatim>\<open>wasm_get_children_expr\<close> returned for the node at \<open>p\<close>.
\<close>

definition child_paths :: "nat list \<Rightarrow> bexpr option list \<Rightarrow> nat list list" where
  "child_paths p cs = map (\<lambda>i. p @ [i]) (filter (\<lambda>i. cs ! i \<noteq> None) [0..<length cs])"

definition frontier :: "bexpr \<Rightarrow> nat list list \<Rightarrow> bool" where
  "frontier b ws \<longleftrightarrow> sorted_wrt (\<parallel>) ws \<and> list_all (\<lambda>p. node_at b p \<noteq> None) ws"

text \<open>The number of nodes below and including a node.\<close>

function nodes :: "bexpr \<Rightarrow> nat" where
  "nodes e = Suc (sum_list (map (\<lambda>c. case c of Some x \<Rightarrow> nodes x | None \<Rightarrow> 0) (kids e)))"
  by pat_completeness auto
termination
  by (relation "measure size") (auto intro: kids_size)

declare nodes.simps [simp del]

definition node_weight :: "bexpr \<Rightarrow> nat list \<Rightarrow> nat" where
  "node_weight b p = (case node_at b p of Some e \<Rightarrow> nodes e | None \<Rightarrow> 0)"

abbreviation total_weight :: "bexpr \<Rightarrow> nat list list \<Rightarrow> nat" where
  "total_weight b ws \<equiv> sum_list (map (node_weight b) ws)"

lemma sorted_wrt_parallel_children:
  "sorted_wrt (\<parallel>) (map (\<lambda>i. p @ [i]) (filter P [a..<b]))"
  by (induction b) (auto simp: sorted_wrt_append parallel_def)

lemma parallel_child: "p \<parallel> q \<Longrightarrow> p \<parallel> q @ r"
  using parallel_append [of p q "[]" r] by simp

lemma get_children_cases: "wasm_get_children_expr al (Some e) = kids e \<or> wasm_get_children_expr al (Some e) = []"
  by (cases al) (auto simp: wasm_get_children_expr_def split: option.splits)

lemma frontier_root [simp]: "frontier b [[]]"
  by (simp add: frontier_def)

lemma frontier_Nil [simp]: "frontier b []"
  by (simp add: frontier_def)

lemma frontier_step:
  assumes "frontier b (p # ws)" and "node_at b p = Some e"
    and "\<And>q. q \<in> set qs \<Longrightarrow> prefix p q \<and> node_at b q \<noteq> None" and "sorted_wrt (\<parallel>) qs"
  shows "frontier b (ws @ qs)"
proof -
  have "q \<parallel> r" if q: "q \<in> set ws" and r: "r \<in> set qs" for q r
  proof -
    have "p \<parallel> q" using assms(1) q by (simp add: frontier_def)
    then have "q \<parallel> p" by (simp add: parallel_commute)
    moreover obtain s where "r = p @ s" using assms(3) [OF r] by (auto simp: prefix_def)
    ultimately show ?thesis by (simp add: parallel_child)
  qed
  then show ?thesis
    using assms by (auto simp: frontier_def sorted_wrt_append list_all_iff)
qed

lemma frontier_children:
  assumes "frontier b (p # ws)" and "node_at b p = Some e"
  shows "frontier b (ws @ child_paths p (wasm_get_children_expr al (Some e)))"
proof (rule frontier_step [OF assms])
  fix q assume "q \<in> set (child_paths p (wasm_get_children_expr al (Some e)))"
  then show "prefix p q \<and> node_at b q \<noteq> None"
    using get_children_cases [of al e] assms(2)
    by (auto simp: child_paths_def node_at_append)
qed (simp add: child_paths_def sorted_wrt_parallel_children)

lemma frontier_set:
  assumes "frontier b (p # ws)" and "node_at b p = Some e"
  shows "frontier (set_node b p n) (p # ws)"
  using assms by (auto simp: frontier_def list_all_iff node_at_set_same node_at_set_parallel)

lemma weight_set:
  assumes "frontier b (p # ws)"
  shows "total_weight (set_node b p n) ws = total_weight b ws"
  using assms by (auto simp: frontier_def node_weight_def node_at_set_parallel intro!: arg_cong [where f = sum_list])

lemma sum_list_filter_nth:
  "sum_list (map (\<lambda>i. f (cs ! i)) (filter (\<lambda>i. cs ! i \<noteq> None) [0..<length cs]))
     \<le> sum_list (map (f :: 'a option \<Rightarrow> nat) cs)"
proof -
  have "sum_list (map (\<lambda>i. f (cs ! i)) (filter (\<lambda>i. cs ! i \<noteq> None) [0..<length cs]))
      \<le> sum_list (map (\<lambda>i. f (cs ! i)) [0..<length cs])"
    by (rule sum_list_filter_le_nat)
  also have "map (\<lambda>i. f (cs ! i)) [0..<length cs] = map f cs"
    by (rule nth_equalityI) simp_all
  finally show ?thesis .
qed

lemma weight_children:
  assumes "node_at b p = Some e"
  shows "total_weight b (child_paths p (wasm_get_children_expr al (Some e))) < nodes e"
proof -
  let ?f = "\<lambda>c. case c of Some x \<Rightarrow> nodes x | None \<Rightarrow> 0"
  have "total_weight b (child_paths p (kids e))
      = sum_list (map (\<lambda>i. ?f (kids e ! i)) (filter (\<lambda>i. kids e ! i \<noteq> None) [0..<length (kids e)]))"
    using assms
    by (auto simp: child_paths_def node_weight_def node_at_append comp_def
        intro!: arg_cong [where f = sum_list] split: option.splits)
  also have "\<dots> \<le> sum_list (map ?f (kids e))" by (rule sum_list_filter_nth)
  also have "\<dots> < nodes e" by (simp add: nodes.simps [of e])
  finally show ?thesis
    using get_children_cases [of al e] by (auto simp: child_paths_def nodes.simps [of e])
qed

section \<open>Walking over a module\<close>

text \<open>
  The state of a pass: the module, the number of changes so far (\<^verbatim>\<open>cur_cnt\<close>), the name pool and
  the generator. \<open>rm_al\<close> and \<open>rm_shuffle\<close> are outcomes of memory allocations: of the child
  array of the node at a path of a function, and of the array of shuffled indices.
\<close>

record 'g pass_state =
  ps_mod :: bmodule
  ps_cnt :: u32
  ps_names :: nameGrp
  ps_rng :: 'g

record pass_allocs =
  rm_al :: "nat \<Rightarrow> nat list \<Rightarrow> bool"
  rm_shuffle :: bool

abbreviation bodies :: "bmodule \<Rightarrow> bexpr option list" where
  "bodies m \<equiv> map f_body (m_funcs m)"

definition set_body :: "nat \<Rightarrow> bexpr \<Rightarrow> bmodule \<Rightarrow> bmodule" where
  "set_body idx b m =
     m\<lparr> m_funcs := (m_funcs m)[idx := (m_funcs m ! idx)\<lparr> f_body := Some b \<rparr>] \<rparr>"

text \<open>
  \<^verbatim>\<open>LIST_FOREACH\<close> over \<^verbatim>\<open>child_node_list\<close>: the body of the loop may append to the list, removes the
  current element and may leave the pass by a jump to \<^verbatim>\<open>final\<close>, which is the flag. \<open>None\<close> is a
  crash inside the body, or a loop that never ends.
\<close>

partial_function (option) foreach_loop ::
  "('s \<Rightarrow> 'p \<Rightarrow> (bool \<times> 'p list \<times> 's) option) \<Rightarrow> 'p list \<Rightarrow> 's \<Rightarrow> (bool \<times> 's) option" where
  "foreach_loop visit ws s =
     (case ws of
        [] \<Rightarrow> Some (False, s)
      | p # rest \<Rightarrow>
          Option.bind (visit s p) (\<lambda>(stop, new, s').
            if stop then Some (True, s') else foreach_loop visit (rest @ new) s'))"

text \<open>The loop over the functions in the order of \<^verbatim>\<open>func_shuffle\<close>; imported functions have no body.\<close>

fun func_loop ::
  "(nat \<Rightarrow> 'g pass_state \<Rightarrow> nat list \<Rightarrow> (bool \<times> nat list list \<times> 'g pass_state) option) \<Rightarrow>
   nat list \<Rightarrow> 'g pass_state \<Rightarrow> 'g pass_state option" where
  "func_loop visit [] s = Some s"
| "func_loop visit (idx # idxs) s =
     (case f_body (m_funcs (ps_mod s) ! idx) of
        None \<Rightarrow> func_loop visit idxs s
      | Some body \<Rightarrow>
          Option.bind (foreach_loop (visit idx) [[]] s) (\<lambda>(stop, s').
            if stop then Some s' else func_loop visit idxs s'))"

definition func_order :: "'g rand_ops \<Rightarrow> bool \<Rightarrow> nat \<Rightarrow> 'g \<Rightarrow> nat list \<times> 'g" where
  "func_order R shuffle_ok n g =
     (if n > 0 \<and> shuffle_ok
      then (let (arr, g1) = fisher_yates_shuffle R (map of_nat [0..<n]) g in (map unat arr, g1))
      else ([0..<n], g))"

text \<open>A whole pass with at most \<open>limit\<close> intended changes.\<close>

definition run_pass ::
  "'g rand_ops \<Rightarrow> pass_allocs \<Rightarrow> u32 \<Rightarrow>
   (u32 \<Rightarrow> nat \<Rightarrow> 'g pass_state \<Rightarrow> nat list \<Rightarrow> (bool \<times> nat list list \<times> 'g pass_state) option) \<Rightarrow>
   bmodule \<Rightarrow> nameGrp \<times> 'g \<Rightarrow> ((u32 \<times> bmodule) \<times> nameGrp \<times> 'g) option" where
  "run_pass R A limit visit m ng =
     (let (r, g1) = ro_rand_below R (snd ng) limit;
          max_cnt = r + 1;
          (order, g2) = func_order R (rm_shuffle A) (length (m_funcs m)) g1
      in map_option (\<lambda>s. ((ps_cnt s, ps_mod s), ps_names s, ps_rng s))
           (func_loop (visit max_cnt) order
              \<lparr> ps_mod = m, ps_cnt = 0, ps_names = fst ng, ps_rng = g2 \<rparr>))"

section \<open>Passes that return\<close>

text \<open>
  The contract of a visit: from a state satisfying \<open>inv\<close> for the work list it does not crash;
  if it leaves the pass the state satisfies \<open>fin\<close>, otherwise the invariant holds for the new
  work list and the weight of the list has decreased.
\<close>

locale worklist_pass =
  fixes visit :: "'s \<Rightarrow> 'p \<Rightarrow> (bool \<times> 'p list \<times> 's) option"
    and weight :: "'s \<Rightarrow> 'p list \<Rightarrow> nat"
    and inv :: "'s \<Rightarrow> 'p list \<Rightarrow> bool"
    and fin :: "'s \<Rightarrow> bool"
  assumes visit_ok: "inv s (p # ws) \<Longrightarrow>
    \<exists>stop new s'. visit s p = Some (stop, new, s') \<and>
      (if stop then fin s' else inv s' (ws @ new) \<and> weight s' (ws @ new) < weight s (p # ws))"
begin

lemma foreach_returns:
  assumes "inv s ws"
  shows "\<exists>stop s'. foreach_loop visit ws s = Some (stop, s') \<and> (if stop then fin s' else inv s' [])"
  using assms
proof (induction "weight s ws" arbitrary: s ws rule: less_induct)
  case less
  show ?case
  proof (cases ws)
    case Nil
    then show ?thesis using less.prems by (subst foreach_loop.simps) (auto intro: exI [of _ False])
  next
    case (Cons p rest)
    then obtain stop new s' where v: "visit s p = Some (stop, new, s')"
      "if stop then fin s' else inv s' (rest @ new) \<and> weight s' (rest @ new) < weight s (p # rest)"
      using visit_ok less.prems by blast
    show ?thesis
    proof (cases stop)
      case True
      then show ?thesis using v Cons by (subst foreach_loop.simps) (auto intro: exI [of _ True])
    next
      case False
      then show ?thesis
        using v Cons less.hyps [of s' "rest @ new"] by (subst foreach_loop.simps) simp
    qed
  qed
qed

end

text \<open>
  The contract of a pass over a module; \<open>idle rest\<close> holds between two functions when those in
  \<open>rest\<close> are still to be visited.
\<close>

locale module_pass =
  fixes visit :: "nat \<Rightarrow> 'g pass_state \<Rightarrow> nat list \<Rightarrow> (bool \<times> nat list list \<times> 'g pass_state) option"
    and weight :: "nat \<Rightarrow> 'g pass_state \<Rightarrow> nat list list \<Rightarrow> nat"
    and inv :: "nat \<Rightarrow> nat list \<Rightarrow> 'g pass_state \<Rightarrow> nat list list \<Rightarrow> bool"
    and idle :: "nat list \<Rightarrow> 'g pass_state \<Rightarrow> bool"
    and fin :: "'g pass_state \<Rightarrow> bool"
  assumes visit_ok: "inv idx rest s (p # ws) \<Longrightarrow>
    \<exists>stop new s'. visit idx s p = Some (stop, new, s') \<and>
      (if stop then fin s' else inv idx rest s' (ws @ new) \<and> weight idx s' (ws @ new) < weight idx s (p # ws))"
    and start: "idle (idx # rest) s \<Longrightarrow> f_body (m_funcs (ps_mod s) ! idx) = Some b \<Longrightarrow> inv idx rest s [[]]"
    and skip: "idle (idx # rest) s \<Longrightarrow> f_body (m_funcs (ps_mod s) ! idx) = None \<Longrightarrow> idle rest s"
    and finish: "inv idx rest s [] \<Longrightarrow> idle rest s"
    and idle_fin: "idle rest s \<Longrightarrow> fin s"

sublocale module_pass \<subseteq> walk: worklist_pass "visit idx" "weight idx" "inv idx rest" fin for idx rest
  by unfold_locales (rule visit_ok)

context module_pass
begin

lemma func_loop_returns:
  assumes "idle order s"
  shows "\<exists>s'. func_loop visit order s = Some s' \<and> fin s'"
  using assms
proof (induction order arbitrary: s)
  case (Cons idx rest)
  show ?case
  proof (cases "f_body (m_funcs (ps_mod s) ! idx)")
    case None
    then show ?thesis using Cons.IH [OF skip [OF Cons.prems None]] by simp
  next
    case (Some b)
    obtain stop s' where "foreach_loop (visit idx) [[]] s = Some (stop, s')"
      "if stop then fin s' else inv idx rest s' []"
      using walk.foreach_returns [OF start [OF Cons.prems Some]] by blast
    then show ?thesis
      using Some Cons.IH [of s'] finish [of idx rest s'] by (cases stop) simp_all
  qed
qed (simp add: idle_fin)

end

context bounded_rng
begin

lemma func_order_perm:
  assumes "n < 2 ^ 32"
  shows "mset (fst (func_order R ok n g)) = mset [0..<n]"
proof -
  have "mset (fst (fisher_yates_shuffle R (map of_nat [0..<n]) g)) = mset (map of_nat [0..<n])"
    using assms by (intro shuffle_mset) simp
  then have "mset (map unat (fst (fisher_yates_shuffle R (map of_nat [0..<n]) g)))
      = mset (map unat (map of_nat [0..<n] :: u32 list))"
    by (metis mset_map)
  also have "map unat (map of_nat [0..<n] :: u32 list) = [0..<n]"
    using assms by (intro nth_equalityI) (simp_all add: unat_of_nat)
  finally show ?thesis by (simp add: func_order_def case_prod_unfold Let_def)
qed

lemma func_order_set:
  assumes "n < 2 ^ 32"
  shows "set (fst (func_order R ok n g)) = {0..<n}" and "distinct (fst (func_order R ok n g))"
  using func_order_perm [OF assms, of ok g] mset_eq_setD [of _ "[0..<n]"] mset_eq_imp_distinct_iff [of _ "[0..<n]"]
  by auto

lemma max_cnt_bounds:
  assumes "0 < limit" and "limit \<le> 100"
  shows "0 < fst (ro_rand_below R g limit) + 1" and "fst (ro_rand_below R g limit) + 1 \<le> limit"
proof -
  have "unat (fst (ro_rand_below R g limit)) < unat limit"
    using rand_below_less [OF assms(1), of g] by (simp add: word_less_nat_alt)
  moreover have "unat limit \<le> 100" using assms(2) by (simp add: word_le_nat_alt)
  ultimately have "unat (fst (ro_rand_below R g limit) + 1) = Suc (unat (fst (ro_rand_below R g limit)))"
    by (intro unat_Suc_less) simp
  with \<open>unat (fst (ro_rand_below R g limit)) < unat limit\<close>
  show "0 < fst (ro_rand_below R g limit) + 1" "fst (ro_rand_below R g limit) + 1 \<le> limit"
    by (simp_all add: word_less_nat_alt word_le_nat_alt)
qed

end

section \<open>What a pass has done\<close>

text \<open>
  \<open>node_rewrites P k bs bs'\<close>: the bodies \<open>bs'\<close> arise from \<open>bs\<close> by \<open>k\<close> changes, each of which replaces one
  node by another that \<open>P\<close> relates to it.
\<close>

inductive node_rewrites :: "(bexpr \<Rightarrow> bexpr \<Rightarrow> bool) \<Rightarrow> nat \<Rightarrow> bexpr option list \<Rightarrow> bexpr option list \<Rightarrow> bool"
  for P where
  node_rewrites_refl: "node_rewrites P 0 bs bs"
| node_rewrites_step: "node_rewrites P k bs bs' \<Longrightarrow> i < length bs' \<Longrightarrow> bs' ! i = Some b \<Longrightarrow>
    node_at b p = Some e \<Longrightarrow> P e e' \<Longrightarrow> node_rewrites P (Suc k) bs (bs'[i := Some (set_node b p e')])"

lemma node_rewrites_length: "node_rewrites P k bs bs' \<Longrightarrow> length bs' = length bs"
  by (induction rule: node_rewrites.induct) simp_all

lemma bodies_set_body: "idx < length (m_funcs m) \<Longrightarrow> bodies (set_body idx b m) = (bodies m)[idx := Some b]"
  by (simp add: set_body_def map_update)

lemma set_body_funcs [simp]:
  "length (m_funcs (set_body idx b m)) = length (m_funcs m)"
  "idx < length (m_funcs m) \<Longrightarrow> f_body (m_funcs (set_body idx b m) ! idx) = Some b"
  by (simp_all add: set_body_def)

text \<open>A change that keeps the children keeps all positions of a body.\<close>

lemma node_at_same_kids:
  assumes "node_at b p = Some e" and "kids e' = kids e"
  shows "node_at (set_node b p e') q = None \<longleftrightarrow> node_at b q = None"
proof (cases "prefix p q")
  case True
  then obtain r where q: "q = p @ r" by (auto simp: prefix_def)
  have "node_at e' r = None \<longleftrightarrow> node_at e r = None" using assms(2) by (cases r) simp_all
  then show ?thesis using assms(1) node_at_set_node [of b p e' r] by (simp add: q node_at_append)
next
  case False
  show ?thesis
  proof (cases "prefix q p")
    case True
    then obtain r where p: "p = q @ r" by (auto simp: prefix_def)
    have b: "node_at b q \<noteq> None" using assms(1) by (auto simp: p node_at_append split: option.splits)
    then have "node_at (set_node b p e') q \<noteq> None"
      by (auto simp: p set_node_append node_at_set_same)
    with b show ?thesis by auto
  qed (use False node_at_set_parallel [of p q b e'] in \<open>simp add: parallel_def\<close>)
qed

lemma node_rewrites_positions:
  assumes "node_rewrites P k bs bs'" and "\<And>e e'. P e e' \<Longrightarrow> kids e' = kids e"
  shows "list_all2 (rel_option (\<lambda>b b'. \<forall>q. node_at b' q = None \<longleftrightarrow> node_at b q = None)) bs bs'"
  using assms(1)
proof (induction rule: node_rewrites.induct)
  case (node_rewrites_refl bs)
  then show ?case by (auto intro!: list_all2_refl option.rel_refl)
next
  case (node_rewrites_step k bs bs' i b p e e')
  have "i < length bs" using node_rewrites_step node_rewrites_length by simp
  then obtain b0 where b0: "bs ! i = Some b0" "\<forall>q. node_at b q = None \<longleftrightarrow> node_at b0 q = None"
    using list_all2_nthD [OF node_rewrites_step.IH, of i] node_rewrites_step.hyps(3) by (auto simp: option_rel_Some2)
  have "list_all2 (rel_option (\<lambda>b b'. \<forall>q. node_at b' q = None \<longleftrightarrow> node_at b q = None))
          (bs[i := Some b0]) (bs'[i := Some (set_node b p e')])"
    using node_rewrites_step b0(2) assms(2) node_at_same_kids by (intro list_all2_update_cong) simp_all
  moreover have "bs[i := Some b0] = bs" using b0(1) list_update_id by metis
  ultimately show ?case by simp
qed

text \<open>Everything but the bodies of the functions is the same.\<close>

definition same_but_bodies :: "bmodule \<Rightarrow> bmodule \<Rightarrow> bool" where
  "same_but_bodies m m' \<longleftrightarrow>
     m'\<lparr> m_funcs := [] \<rparr> = m\<lparr> m_funcs := [] \<rparr> \<and>
     map (\<lambda>f. f\<lparr> f_body := None \<rparr>) (m_funcs m') = map (\<lambda>f. f\<lparr> f_body := None \<rparr>) (m_funcs m)"

lemma same_but_bodies_refl [simp]: "same_but_bodies m m"
  by (simp add: same_but_bodies_def)

lemma same_but_bodies_set:
  assumes "same_but_bodies m m'" and "idx < length (m_funcs m')"
  shows "same_but_bodies m (set_body idx b m')"
proof -
  have "map (\<lambda>f. f\<lparr> f_body := None \<rparr>) (m_funcs (set_body idx b m')) = map (\<lambda>f. f\<lparr> f_body := None \<rparr>) (m_funcs m')"
    using assms(2) by (intro nth_equalityI) (auto simp: set_body_def nth_list_update)
  then show ?thesis using assms(1) by (simp add: same_but_bodies_def set_body_def)
qed

section \<open>The invariant of a pass\<close>

text \<open>
  Between two visits the number of changes is below \<open>max_cnt\<close> and equals the number of
  rewritten nodes; \<open>F\<close> is what the pass keeps of the rest of the module. During the walk over a
  body the work list is a frontier of it.
\<close>

definition pass_done ::
  "(bexpr \<Rightarrow> bexpr \<Rightarrow> bool) \<Rightarrow> (bmodule \<Rightarrow> bool) \<Rightarrow> bmodule \<Rightarrow> 'g pass_state \<Rightarrow> bool" where
  "pass_done P F m0 s \<longleftrightarrow>
     node_rewrites P (unat (ps_cnt s)) (bodies m0) (bodies (ps_mod s)) \<and> F (ps_mod s)"

definition pass_idle ::
  "(bexpr \<Rightarrow> bexpr \<Rightarrow> bool) \<Rightarrow> (bmodule \<Rightarrow> bool) \<Rightarrow> bmodule \<Rightarrow> u32 \<Rightarrow> 'g pass_state \<Rightarrow> bool" where
  "pass_idle P F m0 max_cnt s \<longleftrightarrow> ps_cnt s < max_cnt \<and> pass_done P F m0 s"

definition pass_inv ::
  "(bexpr \<Rightarrow> bexpr \<Rightarrow> bool) \<Rightarrow> (bmodule \<Rightarrow> bool) \<Rightarrow> bmodule \<Rightarrow> u32 \<Rightarrow> nat \<Rightarrow> 'g pass_state \<Rightarrow> nat list list \<Rightarrow> bool" where
  "pass_inv P F m0 max_cnt idx s ws \<longleftrightarrow> pass_idle P F m0 max_cnt s \<and>
     (\<exists>b. f_body (m_funcs (ps_mod s) ! idx) = Some b \<and> frontier b ws)"

definition body_weight :: "nat \<Rightarrow> 'g pass_state \<Rightarrow> nat list list \<Rightarrow> nat" where
  "body_weight idx s ws = total_weight (the (f_body (m_funcs (ps_mod s) ! idx))) ws"

lemma pass_done_length: "pass_done P F m0 s \<Longrightarrow> length (m_funcs (ps_mod s)) = length (m_funcs m0)"
  using node_rewrites_length by (fastforce simp: pass_done_def)

lemma rewrite_body:
  assumes "node_rewrites P k (bodies m0) (bodies m)" and "idx < length (m_funcs m)"
    and "f_body (m_funcs m ! idx) = Some b" and "node_at b p = Some e" and "P e e'"
  shows "node_rewrites P (Suc k) (bodies m0) (bodies (set_body idx (set_node b p e') m))"
  using node_rewrites_step [OF assms(1) _ _ assms(4,5), of idx] assms(2,3) by (simp add: bodies_set_body)

lemma run_pass_returns:
  fixes R :: "'g rand_ops"
  assumes rng: "bounded_rng R"
    and pass: "\<And>max_cnt.
      module_pass (visit max_cnt) (weight max_cnt) (Inv max_cnt) (idle max_cnt) (fin max_cnt)"
    and init: "\<And>max_cnt order g. 0 < max_cnt \<Longrightarrow> max_cnt \<le> limit \<Longrightarrow> distinct order \<Longrightarrow> set order = {0..<length (m_funcs m)} \<Longrightarrow>
      idle max_cnt order \<lparr> ps_mod = m, ps_cnt = 0, ps_names = fst ng, ps_rng = g \<rparr>"
    and "0 < limit" and "limit \<le> 100" and "length (m_funcs m) < 2 ^ 32"
  shows "\<exists>s max_cnt. 0 < max_cnt \<and> max_cnt \<le> limit \<and> fin max_cnt s \<and>
           run_pass R A limit visit m ng = Some ((ps_cnt s, ps_mod s), ps_names s, ps_rng s)"
proof -
  let ?max = "fst (ro_rand_below R (snd ng) limit) + 1"
  let ?g1 = "snd (ro_rand_below R (snd ng) limit)"
  let ?ord = "func_order R (rm_shuffle A) (length (m_funcs m)) ?g1"
  let ?s0 = "\<lparr> ps_mod = m, ps_cnt = 0, ps_names = fst ng, ps_rng = snd ?ord \<rparr>"
  note max = bounded_rng.max_cnt_bounds [OF rng assms(4,5), of "snd ng"]
  note ord = bounded_rng.func_order_set [OF rng assms(6)]
  obtain s where s: "func_loop (visit ?max) (fst ?ord) ?s0 = Some s" "fin ?max s"
    using module_pass.func_loop_returns [OF pass init [OF max ord(2,1)]] by blast
  then have "run_pass R A limit visit m ng = Some ((ps_cnt s, ps_mod s), ps_names s, ps_rng s)"
    by (simp add: run_pass_def case_prod_unfold Let_def)
  with s(2) max show ?thesis by blast
qed

end
