(* ===== verification/Afl_Interesting.thy ===== *)
theory Afl_Interesting
  imports Prelude
begin

text \<open>
  The tables of corner values, \<^verbatim>\<open>INTERESTING_8\<close> and so on of \<^verbatim>\<open>config.h\<close> in the variant for SWAM
  (\<^verbatim>\<open>AFL_SWAM\<close>) and the arrays of \<^verbatim>\<open>afl-mutations.h\<close> built from them. The lists are written as
  integers; an array stores them at its own width.
\<close>

definition INTERESTING_8 :: "int list" where
  "INTERESTING_8 = [-128, -1, 0, 1, 16, 32, 64, 100, 127]"

definition INTERESTING_16 :: "int list" where
  "INTERESTING_16 = [-32768, -129, 128, 255, 256, 512, 1000, 1024, 4096, 32767]"

definition INTERESTING_32 :: "int list" where
  "INTERESTING_32 =
     [-2147483648, -100663046, -32769, 32768, 65535, 65536, 100663045, 2147483647]"

definition INTERESTING_64 :: "int list" where
  "INTERESTING_64 =
     [-1 - 9223372036854775807, -432345564227567366, -2147483649, 2147483648, 4294967295,
      4294967296, 432345564227567365, 9223372036854775807]"

definition INTERESTING_F32 :: "int list" where
  "INTERESTING_F32 =
     [0x00000000, 0x80000000, 0x7fc00000, 0x7f800000, 0xff800000, 0x00000001, 0x7f7fffff,
      0x80000001, 0xff7fffff]"

definition INTERESTING_F64 :: "int list" where
  "INTERESTING_F64 =
     [0x0000000000000000, 0x8000000000000000, 0x7ff8000000000000, 0x7ff0000000000000,
      0xfff0000000000000, 0x0010000000000000, 0x8010000000000000, 0x7fefffffffffffff,
      0xffefffffffffffff]"

definition interesting_8 :: "u8 list" where
  "interesting_8 = map of_int INTERESTING_8"

definition interesting_16 :: "u16 list" where
  "interesting_16 = map of_int (INTERESTING_8 @ INTERESTING_16)"

definition interesting_32 :: "u32 list" where
  "interesting_32 = map of_int (INTERESTING_8 @ INTERESTING_16 @ INTERESTING_32)"

definition interesting_64 :: "u64 list" where
  "interesting_64 = map of_int (INTERESTING_8 @ INTERESTING_16 @ INTERESTING_32 @ INTERESTING_64)"

definition interesting_f32 :: "u32 list" where
  "interesting_f32 = map of_int INTERESTING_F32"

definition interesting_f64 :: "u64 list" where
  "interesting_f64 = map of_int INTERESTING_F64"

lemmas interesting_defs =
  INTERESTING_8_def INTERESTING_16_def INTERESTING_32_def INTERESTING_64_def
  INTERESTING_F32_def INTERESTING_F64_def interesting_8_def interesting_16_def interesting_32_def
  interesting_64_def interesting_f32_def interesting_f64_def

lemma interesting_lengths:
  "length interesting_8 = 9" "length interesting_16 = 19" "length interesting_32 = 27"
  "length interesting_64 = 35" "length interesting_f32 = 9" "length interesting_f64 = 9"
  by (simp_all add: interesting_defs)

end
