(* ===== verification/Wasm_Interest.thy ===== *)
theory Wasm_Interest
  imports Wasm_Pass Afl_Interesting
begin

text \<open>
  The first structural mutator, \<^verbatim>\<open>wasm_interest_values_mutate\<close> of \<^verbatim>\<open>mutator_func.c\<close>: constants
  are replaced by corner values of the same type.
\<close>

definition DEFAULT_MUTATION_MAX :: u32 where
  "DEFAULT_MUTATION_MAX = 5"

section \<open>Drawing a corner value\<close>

text \<open>One element of a table, \<^verbatim>\<open>t[rand_below(afl, sizeof(t) / sizeof(t[0]))]\<close>, and \<open>n\<close> of them.\<close>

definition draw :: "'g rand_ops \<Rightarrow> 'a list \<Rightarrow> 'g \<Rightarrow> 'a \<times> 'g" where
  "draw R t g = (let (i, g1) = ro_rand_below R g (of_nat (length t)) in (t ! unat i, g1))"

fun draw_n :: "'g rand_ops \<Rightarrow> 'a list \<Rightarrow> nat \<Rightarrow> 'g \<Rightarrow> 'a list \<times> 'g" where
  "draw_n R t 0 g = ([], g)"
| "draw_n R t (Suc n) g = (let (x, g1) = draw R t g; (xs, g2) = draw_n R t n g1 in (x # xs, g2))"

definition interest_v128 :: "'g rand_ops \<Rightarrow> 'g \<Rightarrow> u8 list \<times> 'g" where
  "interest_v128 R g =
     (let (c, g0) = ro_rand_below R g 4
      in if c = 0 then
           (let (a, g1) = draw R interesting_64 g0; (b, g2) = draw R interesting_f64 g1
            in (le_bytes 8 a @ le_bytes 8 b, g2))
         else if c = 1 then
           (let (a, g1) = draw R interesting_32 g0; (b, g2) = draw R interesting_f32 g1;
                (c, g3) = draw R interesting_32 g2; (d, g4) = draw R interesting_f32 g3
            in (le_bytes 4 a @ le_bytes 4 b @ le_bytes 4 c @ le_bytes 4 d, g4))
         else if c = 2 then
           (let (xs, g1) = draw_n R interesting_16 8 g0 in (concat (map (le_bytes 2) xs), g1))
         else draw_n R interesting_8 16 g0)"

text \<open>The type test: the type of a constant is that of its literal.\<close>

definition interest_literal :: "'g rand_ops \<Rightarrow> literal \<Rightarrow> 'g \<Rightarrow> literal \<times> 'g" where
  "interest_literal R l g =
     (case l of
        LitInt32 _ \<Rightarrow> map_prod LitInt32 id (draw R interesting_32 g)
      | LitInt64 _ \<Rightarrow> map_prod LitInt64 id (draw R interesting_64 g)
      | LitFloat32 _ \<Rightarrow> map_prod LitFloat32 id (draw R interesting_f32 g)
      | LitFloat64 _ \<Rightarrow> map_prod LitFloat64 id (draw R interesting_f64 g)
      | LitVec128 _ \<Rightarrow> map_prod LitVec128 id (interest_v128 R g))"

section \<open>The pass\<close>

text \<open>
  The body of the loop for the node at \<open>p\<close> of function \<open>idx\<close>. A path that leads nowhere would
  be a dangling pointer; the invariant below excludes it.
\<close>

definition interest_visit ::
  "'g rand_ops \<Rightarrow> pass_allocs \<Rightarrow> u32 \<Rightarrow> nat \<Rightarrow> 'g pass_state \<Rightarrow> nat list \<Rightarrow>
   (bool \<times> nat list list \<times> 'g pass_state) option" where
  "interest_visit R A max_cnt idx s p =
     (case f_body (m_funcs (ps_mod s) ! idx) of
        None \<Rightarrow> None
      | Some b \<Rightarrow>
          (case node_at b p of
             None \<Rightarrow> None
           | Some el \<Rightarrow>
               (let s1 = (case el of
                            Const l \<Rightarrow>
                              (let (r, g1) = ro_rand_below R (ps_rng s) 6
                               in if r = 0 then
                                    (let (l', g2) = interest_literal R l g1
                                     in s\<lparr> ps_mod := set_body idx (set_node b p (Const l')) (ps_mod s),
                                           ps_cnt := ps_cnt s + 1, ps_rng := g2 \<rparr>)
                                  else s\<lparr> ps_rng := g1 \<rparr>)
                          | _ \<Rightarrow> s)
                in if ps_cnt s1 \<ge> max_cnt then Some (True, [], s1)
                   else Some (False, child_paths p (wasm_get_children_expr (rm_al A idx p) (Some el)), s1))))"

definition wasm_interest_values_mutate ::
  "'g rand_ops \<Rightarrow> pass_allocs \<Rightarrow> bmodule \<Rightarrow> nameGrp \<times> 'g \<Rightarrow> ((u32 \<times> bmodule) \<times> nameGrp \<times> 'g) option" where
  "wasm_interest_values_mutate R A = run_pass R A DEFAULT_MUTATION_MAX (interest_visit R A)"

section \<open>Corner values\<close>

text \<open>A vector is built from corner values of one lane width, or of two.\<close>

definition interesting_vector :: "u8 list \<Rightarrow> bool" where
  "interesting_vector bs \<longleftrightarrow>
     (\<exists>a \<in> set interesting_64. \<exists>b \<in> set interesting_f64. bs = le_bytes 8 a @ le_bytes 8 b) \<or>
     (\<exists>a \<in> set interesting_32. \<exists>b \<in> set interesting_f32. \<exists>c \<in> set interesting_32. \<exists>d \<in> set interesting_f32.
        bs = le_bytes 4 a @ le_bytes 4 b @ le_bytes 4 c @ le_bytes 4 d) \<or>
     (\<exists>xs. length xs = 8 \<and> set xs \<subseteq> set interesting_16 \<and> bs = concat (map (le_bytes 2) xs)) \<or>
     (length bs = 16 \<and> set bs \<subseteq> set interesting_8)"

fun interesting_literal :: "literal \<Rightarrow> bool" where
  "interesting_literal (LitInt32 v) = (v \<in> set interesting_32)"
| "interesting_literal (LitInt64 v) = (v \<in> set interesting_64)"
| "interesting_literal (LitFloat32 v) = (v \<in> set interesting_f32)"
| "interesting_literal (LitFloat64 v) = (v \<in> set interesting_f64)"
| "interesting_literal (LitVec128 bs) = interesting_vector bs"

text \<open>One change of the pass.\<close>

definition const_step :: "bexpr \<Rightarrow> bexpr \<Rightarrow> bool" where
  "const_step e e' \<longleftrightarrow>
     (\<exists>l l'. e = Const l \<and> e' = Const l' \<and> lit_type l' = lit_type l \<and> interesting_literal l')"

lemma const_step_kids: "const_step e e' \<Longrightarrow> kids e' = kids e"
  by (auto simp: const_step_def children_defs)

text \<open>The invariant of the pass between two functions, during the walk over one, and at the end.\<close>

definition interest_idle :: "bmodule \<Rightarrow> u32 \<Rightarrow> nat list \<Rightarrow> 'g pass_state \<Rightarrow> bool" where
  "interest_idle m max_cnt rest s \<longleftrightarrow>
     max_cnt \<le> 100 \<and> list_all (\<lambda>i. i < length (m_funcs m)) rest \<and>
     pass_idle const_step (same_but_bodies m) m max_cnt s"

definition interest_inv :: "bmodule \<Rightarrow> u32 \<Rightarrow> nat \<Rightarrow> nat list \<Rightarrow> 'g pass_state \<Rightarrow> nat list list \<Rightarrow> bool" where
  "interest_inv m max_cnt idx rest s ws \<longleftrightarrow>
     max_cnt \<le> 100 \<and> list_all (\<lambda>i. i < length (m_funcs m)) (idx # rest) \<and>
     pass_inv const_step (same_but_bodies m) m max_cnt idx s ws"

definition interest_fin :: "bmodule \<Rightarrow> u32 \<Rightarrow> 'g pass_state \<Rightarrow> bool" where
  "interest_fin m max_cnt s \<longleftrightarrow> ps_cnt s \<le> max_cnt \<and> pass_done const_step (same_but_bodies m) m s"

context bounded_rng
begin

lemma draw_mem:
  assumes "t \<noteq> []" and "length t < 2 ^ 32"
  shows "fst (draw R t g) \<in> set t"
proof -
  have n: "unat (of_nat (length t) :: u32) = length t" using assms(2) by (simp add: unat_of_nat)
  then have "0 < (of_nat (length t) :: u32)" using assms(1) by (simp add: word_less_nat_alt)
  then have "unat (fst (ro_rand_below R g (of_nat (length t)))) < length t"
    using rand_below_less [of "of_nat (length t)" g] n by (simp add: word_less_nat_alt)
  then show ?thesis by (simp add: draw_def case_prod_unfold Let_def)
qed

lemma draw_n_mem:
  assumes "t \<noteq> []" and "length t < 2 ^ 32"
  shows "length (fst (draw_n R t n g)) = n \<and> set (fst (draw_n R t n g)) \<subseteq> set t"
proof (induction n arbitrary: g)
  case (Suc n)
  then show ?case using draw_mem [OF assms, of g] by (simp add: case_prod_unfold Let_def)
qed simp

lemma draw_interesting:
  "fst (draw R interesting_32 g) \<in> set interesting_32" "fst (draw R interesting_64 g) \<in> set interesting_64"
  "fst (draw R interesting_f32 g) \<in> set interesting_f32" "fst (draw R interesting_f64 g) \<in> set interesting_f64"
  by (rule draw_mem; use interesting_lengths in \<open>force simp flip: length_greater_0_conv\<close>)+

lemma interest_v128_vector: "interesting_vector (fst (interest_v128 R g))"
proof -
  have t: "interesting_16 \<noteq> []" "length interesting_16 < 2 ^ 32" "interesting_8 \<noteq> []" "length interesting_8 < 2 ^ 32"
    using interesting_lengths by (auto simp flip: length_greater_0_conv)
  let ?c = "fst (ro_rand_below R g 4)" and ?g = "snd (ro_rand_below R g 4)"
  consider "?c = 0" | "?c = 1" | "?c = 2" | "?c \<noteq> 0" "?c \<noteq> 1" "?c \<noteq> 2" by blast
  then show ?thesis
  proof cases
    case 1
    then show ?thesis
      using draw_interesting by (auto simp: interest_v128_def interesting_vector_def case_prod_unfold Let_def)
  next
    case 2
    have "interesting_vector (le_bytes 4 a @ le_bytes 4 b @ le_bytes 4 c @ le_bytes 4 d)"
      if "a \<in> set interesting_32" "b \<in> set interesting_f32" "c \<in> set interesting_32" "d \<in> set interesting_f32"
      for a b c d using that unfolding interesting_vector_def by blast
    with 2 show ?thesis
      using draw_interesting by (simp add: interest_v128_def case_prod_unfold Let_def)
  next
    case 3
    then show ?thesis
      using draw_n_mem [OF t(1,2), of 8 ?g]
      by (auto simp: interest_v128_def interesting_vector_def case_prod_unfold Let_def)
  next
    case 4
    then show ?thesis
      using draw_n_mem [OF t(3,4), of 16 ?g]
      by (auto simp: interest_v128_def interesting_vector_def case_prod_unfold Let_def)
  qed
qed

lemma interest_literal_step:
  "const_step (Const l) (Const (fst (interest_literal R l g)))"
  using draw_interesting interest_v128_vector by (cases l) (simp_all add: const_step_def interest_literal_def)

lemma interest_visit_ok:
  assumes "max_cnt \<le> 100" and "idx < length (m_funcs m0)"
    and inv: "pass_inv const_step (same_but_bodies m0) m0 max_cnt idx s (p # ws)"
  shows "\<exists>stop new s'. interest_visit R A max_cnt idx s p = Some (stop, new, s') \<and>
    (if stop then ps_cnt s' \<le> max_cnt \<and> pass_done const_step (same_but_bodies m0) m0 s'
     else pass_inv const_step (same_but_bodies m0) m0 max_cnt idx s' (ws @ new) \<and>
          body_weight idx s' (ws @ new) < body_weight idx s (p # ws))"
proof -
  obtain b where b: "f_body (m_funcs (ps_mod s) ! idx) = Some b" "frontier b (p # ws)"
    and idle: "ps_cnt s < max_cnt" "pass_done const_step (same_but_bodies m0) m0 s"
    using inv by (auto simp: pass_inv_def pass_idle_def)
  obtain el where el: "node_at b p = Some el" using b(2) by (auto simp: frontier_def)
  have idx: "idx < length (m_funcs (ps_mod s))" using assms(2) pass_done_length [OF idle(2)] by simp
  let ?cs = "child_paths p (wasm_get_children_expr (rm_al A idx p) (Some el))"
  have walk: "?thesis" if v: "interest_visit R A max_cnt idx s p = Some (False, ?cs, s')"
    and s': "ps_cnt s' < max_cnt" "pass_done const_step (same_but_bodies m0) m0 s'"
      "f_body (m_funcs (ps_mod s') ! idx) = Some b'" "frontier b' (p # ws)" "node_at b' p = Some el'"
      "kids el' = kids el" "total_weight b' ws = total_weight b ws" for s' b' el'
  proof -
    have cs: "?cs = child_paths p (wasm_get_children_expr (rm_al A idx p) (Some el'))"
      using s'(6) by (cases "rm_al A idx p") (auto simp: wasm_get_children_expr_def split: option.splits)
    have "frontier b' (ws @ ?cs)" using frontier_children [OF s'(4,5)] cs by simp
    moreover have "total_weight b' ?cs < nodes el"
      using weight_children [OF s'(5), of "rm_al A idx p"] cs s'(6) by (simp add: nodes.simps [of el] nodes.simps [of el'])
    ultimately show ?thesis
      using v s' b el by (auto simp: pass_inv_def pass_idle_def body_weight_def node_weight_def)
  qed
  show ?thesis
  proof (cases "\<exists>l. el = Const l \<and> fst (ro_rand_below R (ps_rng s) 6) = 0")
    case True
    then obtain l where l: "el = Const l" "fst (ro_rand_below R (ps_rng s) 6) = 0" by auto
    let ?i = "interest_literal R l (snd (ro_rand_below R (ps_rng s) 6))"
    let ?b = "set_node b p (Const (fst ?i))"
    let ?s = "s\<lparr> ps_mod := set_body idx ?b (ps_mod s), ps_cnt := ps_cnt s + 1, ps_rng := snd ?i \<rparr>"
    have step: "const_step el (Const (fst ?i))" using interest_literal_step l(1) by simp
    have cnt: "unat (ps_cnt s + 1) = Suc (unat (ps_cnt s))" "unat (ps_cnt s) < unat max_cnt"
      using idle(1) assms(1) by (auto simp: word_less_nat_alt word_le_nat_alt intro: unat_plus1_bounded [of _ 100])
    have dn: "pass_done const_step (same_but_bodies m0) m0 ?s"
      using idle(2) rewrite_body [where P = const_step, OF _ idx b(1) el step] same_but_bodies_set [OF _ idx] cnt(1)
      by (simp add: pass_done_def)
    show ?thesis
    proof (cases "ps_cnt s + 1 \<ge> max_cnt")
      case True
      then show ?thesis
        using dn l b el cnt by (auto simp: interest_visit_def case_prod_unfold Let_def word_le_nat_alt)
    next
      case False
      show ?thesis
      proof (rule walk [of ?s ?b "Const (fst ?i)"])
        show "interest_visit R A max_cnt idx s p = Some (False, ?cs, ?s)"
          using False l b el by (simp add: interest_visit_def case_prod_unfold Let_def)
        show "kids (Const (fst ?i)) = kids el" using const_step_kids [OF step] .
      qed (use False dn idx el b in \<open>auto simp: frontier_set weight_set node_at_set_same\<close>)
    qed
  next
    case False
    then obtain g' where "interest_visit R A max_cnt idx s p = Some (False, ?cs, s\<lparr> ps_rng := g' \<rparr>)"
    proof (cases el)
      case (Const l)
      then show ?thesis
        using that [of "snd (ro_rand_below R (ps_rng s) 6)"] False idle(1) b el
        by (auto simp: interest_visit_def case_prod_unfold Let_def)
    qed (use that [of "ps_rng s"] idle(1) b el in \<open>simp_all add: interest_visit_def\<close>)
    then show ?thesis
      by (rule walk [of _ b el]) (use idle b el in \<open>simp_all add: pass_done_def\<close>)
  qed
qed

lemma interest_module_pass:
  "module_pass (interest_visit R A max_cnt) body_weight (interest_inv m0 max_cnt)
    (interest_idle m0 max_cnt) (interest_fin m0 max_cnt)"
proof (unfold_locales, goal_cases)
  case (1 idx rest s p ws)
  then obtain stop new s' where "interest_visit R A max_cnt idx s p = Some (stop, new, s')"
    "if stop then interest_fin m0 max_cnt s'
     else pass_inv const_step (same_but_bodies m0) m0 max_cnt idx s' (ws @ new) \<and>
          body_weight idx s' (ws @ new) < body_weight idx s (p # ws)"
    using interest_visit_ok [of max_cnt idx m0 s p ws A] by (auto simp: interest_inv_def interest_fin_def)
  with 1 show ?case by (cases stop) (auto simp: interest_inv_def)
qed (simp_all add: interest_inv_def interest_idle_def interest_fin_def pass_inv_def pass_idle_def order_less_imp_le)

end

interpretation interest_pass: module_pass "interest_visit (afl_rand_ops libc_rand) A max_cnt" body_weight
    "interest_inv m max_cnt" "interest_idle m max_cnt" "interest_fin m max_cnt" for libc_rand A max_cnt m
  by (rule afl_rng.interest_module_pass)

lemma interest_returns:
  assumes "length (m_funcs m) < 2 ^ 32"
  shows "\<exists>s. wasm_interest_values_mutate (afl_rand_ops libc_rand) A m ng
               = Some ((ps_cnt s, ps_mod s), ps_names s, ps_rng s) \<and>
             ps_cnt s \<le> DEFAULT_MUTATION_MAX \<and> pass_done const_step (same_but_bodies m) m s"
proof -
  let ?R = "afl_rand_ops libc_rand"
  have "\<exists>s max_cnt. 0 < max_cnt \<and> max_cnt \<le> DEFAULT_MUTATION_MAX \<and> interest_fin m max_cnt s \<and>
      run_pass ?R A DEFAULT_MUTATION_MAX (interest_visit ?R A) m ng
        = Some ((ps_cnt s, ps_mod s), ps_names s, ps_rng s)"
  proof (rule run_pass_returns [OF afl_rng.bounded_rng_axioms interest_pass.module_pass_axioms])
    fix max_cnt order g
    assume "max_cnt \<le> DEFAULT_MUTATION_MAX" "0 < max_cnt" "set order = {0..<length (m_funcs m)}"
    then show "interest_idle m max_cnt order \<lparr> ps_mod = m, ps_cnt = 0, ps_names = fst ng, ps_rng = g \<rparr>"
      by (simp add: interest_idle_def pass_idle_def pass_done_def node_rewrites_refl list_all_iff
          DEFAULT_MUTATION_MAX_def word_le_nat_alt)
  qed (use assms in \<open>simp_all add: DEFAULT_MUTATION_MAX_def\<close>)
  then obtain s max_cnt where s: "max_cnt \<le> DEFAULT_MUTATION_MAX" "ps_cnt s \<le> max_cnt"
    "pass_done const_step (same_but_bodies m) m s"
    "wasm_interest_values_mutate ?R A m ng = Some ((ps_cnt s, ps_mod s), ps_names s, ps_rng s)"
    by (auto simp: wasm_interest_values_mutate_def interest_fin_def)
  with order_trans [OF s(2,1)] show ?thesis by blast
qed

section \<open>Property\<close>

text \<open>
  C22. The mutation by interesting values always returns. It reports at most five changes, and
  the module it leaves differs from the input by exactly that many replacements of a constant
  by a corner value of the same type: no other part of the module changes, and every body keeps
  the positions of all its nodes.
\<close>

theorem interest_values_correct:
  assumes "length (m_funcs m) < 2 ^ 32"
  shows "\<exists>cnt m' ng'.
    wasm_interest_values_mutate (afl_rand_ops libc_rand) A m ng = Some ((cnt, m'), ng') \<and>
    unat cnt \<le> 5 \<and> node_rewrites const_step (unat cnt) (bodies m) (bodies m') \<and>
    same_but_bodies m m' \<and>
    list_all2 (rel_option (\<lambda>b b'. \<forall>q. node_at b' q = None \<longleftrightarrow> node_at b q = None)) (bodies m) (bodies m')"
proof -
  obtain s where s: "wasm_interest_values_mutate (afl_rand_ops libc_rand) A m ng
      = Some ((ps_cnt s, ps_mod s), ps_names s, ps_rng s)"
    "ps_cnt s \<le> DEFAULT_MUTATION_MAX" "pass_done const_step (same_but_bodies m) m s"
    using interest_returns [OF assms, where libc_rand = libc_rand and A = A and ng = ng] by blast
  have "node_rewrites const_step (unat (ps_cnt s)) (bodies m) (bodies (ps_mod s))"
    using s(3) by (simp add: pass_done_def)
  from node_rewrites_positions [OF this const_step_kids] show ?thesis
    using s by (auto simp: pass_done_def DEFAULT_MUTATION_MAX_def word_le_nat_alt)
qed

definition demo_const_module :: bmodule where
  "demo_const_module =
     \<lparr> m_funcs = [\<lparr> f_name = ''f'', f_body = Some (Drop (Const (LitInt32 5))), f_params = [], f_results = [],
                     f_vars = [] \<rparr>],
       m_tables = [], m_globals = [], m_exports = [], m_memories = [], m_segments = [], m_features = 0 \<rparr>"

theorem interest_values_correct_witness:
  "\<exists>cnt m' ng'.
    wasm_interest_values_mutate (afl_rand_ops (Pair 0)) \<lparr> rm_al = \<lambda>_ _. True, rm_shuffle = True \<rparr>
      demo_const_module (wasm_init_name_grp, demo_rng) = Some ((cnt, m'), ng') \<and>
    unat cnt \<le> 5 \<and> same_but_bodies demo_const_module m'"
proof -
  have "length (m_funcs demo_const_module) < 2 ^ 32" by (simp add: demo_const_module_def)
  from interest_values_correct [OF this, of "Pair 0" "\<lparr> rm_al = \<lambda>_ _. True, rm_shuffle = True \<rparr>"
      "(wasm_init_name_grp, demo_rng)"]
  show ?thesis by auto
qed

end
