(* ===== verification/Wasm_Instr.thy ===== *)
theory Wasm_Instr
  imports Wasm_Helpers
begin

text \<open>
  Instruction types and their groups: \<^verbatim>\<open>InstrTy\<close> and \<^verbatim>\<open>InstrGrp\<close> of \<^verbatim>\<open>mutator_func.h\<close>, the hash
  of \<^verbatim>\<open>hash_func.c\<close>, the table that \<^verbatim>\<open>wasm_init_instr_grps\<close> of \<^verbatim>\<open>init_func.c\<close> builds, and the
  functions of \<^verbatim>\<open>helper_func.c\<close> that classify an expression and look its type up in the table.

  The numbers Binaryen gives to expression kinds, types and operators are not part of the
  repository; they come through a record. So does the type Binaryen infers for an expression.
\<close>

unbundle bit_operations_syntax

section \<open>Kinds of expressions\<close>

datatype expr_kind =
    BlockId | IfId | LoopId | BreakId | SwitchId | CallId | CallIndirectId | LocalGetId | LocalSetId
  | GlobalGetId | GlobalSetId | LoadId | StoreId | ConstId | UnaryId | BinaryId | SelectId | DropId
  | ReturnId | MemorySizeId | MemoryGrowId | NopId | UnreachableId | AtomicRMWId | AtomicCmpxchgId
  | AtomicWaitId | AtomicNotifyId | SIMDExtractId | SIMDReplaceId | SIMDShuffleId | SIMDTernaryId
  | SIMDShiftId | SIMDLoadId | SIMDLoadStoreLaneId | MemoryInitId | DataDropId | MemoryCopyId
  | MemoryFillId | RefNullId | RefIsNullId | RefFuncId | TableGetId | TableSetId | TableSizeId
  | TableGrowId | TryId | ThrowId | RethrowId | TupleMakeId | TupleExtractId

definition expr_id_of :: "bexpr \<Rightarrow> expr_kind" where
  "expr_id_of e =
     (case e of
        Block _ _ \<Rightarrow> BlockId | If _ _ _ \<Rightarrow> IfId | Loop _ _ \<Rightarrow> LoopId | Break _ _ _ \<Rightarrow> BreakId
      | Switch _ _ _ _ \<Rightarrow> SwitchId | Call _ _ \<Rightarrow> CallId | CallIndirect _ _ _ _ _ \<Rightarrow> CallIndirectId
      | LocalGet _ _ \<Rightarrow> LocalGetId | LocalSet _ _ \<Rightarrow> LocalSetId | LocalTee _ _ _ \<Rightarrow> LocalSetId
      | GlobalGet _ _ \<Rightarrow> GlobalGetId
      | GlobalSet _ _ \<Rightarrow> GlobalSetId | Load _ _ _ _ _ _ _ _ \<Rightarrow> LoadId | Store _ _ _ _ _ _ _ _ \<Rightarrow> StoreId
      | Const _ \<Rightarrow> ConstId | Unary _ _ \<Rightarrow> UnaryId | Binary _ _ _ \<Rightarrow> BinaryId | Select _ _ _ \<Rightarrow> SelectId
      | Drop _ \<Rightarrow> DropId | Return _ \<Rightarrow> ReturnId | MemorySize _ _ \<Rightarrow> MemorySizeId
      | MemoryGrow _ _ _ \<Rightarrow> MemoryGrowId | Nop \<Rightarrow> NopId | Unreachable \<Rightarrow> UnreachableId
      | AtomicRMW _ _ _ _ _ _ _ \<Rightarrow> AtomicRMWId | AtomicCmpxchg _ _ _ _ _ _ _ \<Rightarrow> AtomicCmpxchgId
      | AtomicWait _ _ _ _ _ _ \<Rightarrow> AtomicWaitId | AtomicNotify _ _ _ _ \<Rightarrow> AtomicNotifyId
      | SIMDExtract _ _ _ \<Rightarrow> SIMDExtractId | SIMDReplace _ _ _ _ \<Rightarrow> SIMDReplaceId
      | SIMDShuffle _ _ _ \<Rightarrow> SIMDShuffleId | SIMDTernary _ _ _ _ \<Rightarrow> SIMDTernaryId
      | SIMDShift _ _ _ \<Rightarrow> SIMDShiftId | SIMDLoad _ _ _ _ _ \<Rightarrow> SIMDLoadId
      | SIMDLoadStoreLane _ _ _ _ _ _ _ \<Rightarrow> SIMDLoadStoreLaneId | MemoryInit _ _ _ _ _ \<Rightarrow> MemoryInitId
      | DataDrop _ \<Rightarrow> DataDropId | MemoryCopy _ _ _ _ _ \<Rightarrow> MemoryCopyId | MemoryFill _ _ _ _ \<Rightarrow> MemoryFillId
      | RefNull _ \<Rightarrow> RefNullId | RefIsNull _ \<Rightarrow> RefIsNullId | RefFunc _ \<Rightarrow> RefFuncId
      | TableGet _ _ _ \<Rightarrow> TableGetId | TableSet _ _ _ \<Rightarrow> TableSetId | TableSize _ \<Rightarrow> TableSizeId
      | TableGrow _ _ _ \<Rightarrow> TableGrowId | Try _ _ _ _ \<Rightarrow> TryId | Throw _ _ \<Rightarrow> ThrowId
      | Rethrow _ \<Rightarrow> RethrowId | TupleMake _ \<Rightarrow> TupleMakeId | TupleExtract _ _ \<Rightarrow> TupleExtractId)"

section \<open>Instruction types\<close>

text \<open>The union with its tag \<^verbatim>\<open>union_type\<close>: 0 for an operand type, 1 for an operator.\<close>

datatype instr_operand = OpdType btype | OptType bop

record InstrTy =
  expr_id :: expr_kind
  instr_opd :: instr_operand
  mem_bytes :: u8
  mem_signed :: u8
  hash_value :: u64

record InstrGrp =
  required :: "btype list"
  produced :: "btype list"
  groups :: "InstrTy list"

record api_codes =
  id_code :: "expr_kind \<Rightarrow> u32"
  type_code :: "btype \<Rightarrow> u64"
  op_code :: "bop \<Rightarrow> u32"

definition djb2_hash :: "u8 list \<Rightarrow> u64" where
  "djb2_hash str = foldl (\<lambda>hash ch. (push_bit 5 hash + hash) + ucast ch) 5381 str"

text \<open>
  The 32 bytes of the structure when it is hashed: all of it was cleared before, so the padding
  and the hash field are 0.
\<close>

definition instr_bytes :: "api_codes \<Rightarrow> InstrTy \<Rightarrow> u8 list" where
  "instr_bytes c i =
     le_bytes 4 (id_code c (expr_id i)) @ replicate 4 0 @
     (case instr_opd i of
        OpdType t \<Rightarrow> le_bytes 8 (type_code c t) @ le_bytes 4 (0 :: u32)
      | OptType op \<Rightarrow> le_bytes 4 (op_code c op) @ replicate 4 0 @ le_bytes 4 (1 :: u32)) @
     [mem_bytes i, mem_signed i] @ replicate 2 0 @ replicate 8 0"

definition instr_hash :: "api_codes \<Rightarrow> InstrTy \<Rightarrow> u64" where
  "instr_hash c i = djb2_hash (instr_bytes c i)"

definition hashed :: "api_codes \<Rightarrow> InstrTy \<Rightarrow> InstrTy" where
  "hashed c i = i\<lparr> hash_value := instr_hash c i \<rparr>"

definition FILL_INSTR_TYPE_OPD :: "api_codes \<Rightarrow> expr_kind \<Rightarrow> btype \<Rightarrow> InstrTy" where
  "FILL_INSTR_TYPE_OPD c k t =
     hashed c \<lparr> expr_id = k, instr_opd = OpdType t, mem_bytes = 0, mem_signed = 0, hash_value = 0 \<rparr>"

definition FILL_INSTR_TYPE_OPD_MEM :: "api_codes \<Rightarrow> expr_kind \<Rightarrow> btype \<Rightarrow> u8 \<Rightarrow> u8 \<Rightarrow> InstrTy" where
  "FILL_INSTR_TYPE_OPD_MEM c k t bytes sign =
     hashed c \<lparr> expr_id = k, instr_opd = OpdType t, mem_bytes = bytes, mem_signed = sign, hash_value = 0 \<rparr>"

definition FILL_INSTR_TYPE_OPT :: "api_codes \<Rightarrow> expr_kind \<Rightarrow> bop \<Rightarrow> InstrTy" where
  "FILL_INSTR_TYPE_OPT c k op =
     hashed c \<lparr> expr_id = k, instr_opd = OptType op, mem_bytes = 0, mem_signed = 0, hash_value = 0 \<rparr>"

section \<open>The groups\<close>

definition instr_grps_0_7 :: "api_codes \<Rightarrow> InstrGrp list" where
  "instr_grps_0_7 c = [
      \<lparr> required = [], produced = [TypeInt32],
        groups = [FILL_INSTR_TYPE_OPD c ConstId TypeInt32,
          FILL_INSTR_TYPE_OPD c TableSizeId TypeInt32,
          FILL_INSTR_TYPE_OPD c MemorySizeId TypeInt32] \<rparr>,
      \<lparr> required = [], produced = [TypeInt64],
        groups = [FILL_INSTR_TYPE_OPD c ConstId TypeInt64] \<rparr>,
      \<lparr> required = [], produced = [TypeFloat32],
        groups = [FILL_INSTR_TYPE_OPD c ConstId TypeFloat32] \<rparr>,
      \<lparr> required = [], produced = [TypeFloat64],
        groups = [FILL_INSTR_TYPE_OPD c ConstId TypeFloat64] \<rparr>,
      \<lparr> required = [TypeInt32], produced = [TypeInt32],
        groups = [FILL_INSTR_TYPE_OPT c UnaryId (NamedOp ''ClzInt32''),
          FILL_INSTR_TYPE_OPT c UnaryId (NamedOp ''CtzInt32''),
          FILL_INSTR_TYPE_OPT c UnaryId (NamedOp ''PopcntInt32''),
          FILL_INSTR_TYPE_OPT c UnaryId (NamedOp ''ExtendS8Int32''),
          FILL_INSTR_TYPE_OPT c UnaryId (NamedOp ''ExtendS16Int32''),
          FILL_INSTR_TYPE_OPT c UnaryId (NamedOp ''EqZInt32''),
          FILL_INSTR_TYPE_OPD_MEM c LoadId TypeInt32 4 0,
          FILL_INSTR_TYPE_OPD_MEM c LoadId TypeInt32 1 0,
          FILL_INSTR_TYPE_OPD_MEM c LoadId TypeInt32 1 1,
          FILL_INSTR_TYPE_OPD_MEM c LoadId TypeInt32 2 0,
          FILL_INSTR_TYPE_OPD_MEM c LoadId TypeInt32 2 1,
          FILL_INSTR_TYPE_OPD c MemoryGrowId TypeInt32] \<rparr>,
      \<lparr> required = [TypeInt64], produced = [TypeInt64],
        groups = [FILL_INSTR_TYPE_OPT c UnaryId (NamedOp ''ClzInt64''),
          FILL_INSTR_TYPE_OPT c UnaryId (NamedOp ''CtzInt64''),
          FILL_INSTR_TYPE_OPT c UnaryId (NamedOp ''PopcntInt64''),
          FILL_INSTR_TYPE_OPT c UnaryId (NamedOp ''ExtendS8Int64''),
          FILL_INSTR_TYPE_OPT c UnaryId (NamedOp ''ExtendS16Int64''),
          FILL_INSTR_TYPE_OPT c UnaryId (NamedOp ''ExtendS32Int64'')] \<rparr>,
      \<lparr> required = [TypeFloat32], produced = [TypeFloat32],
        groups = [FILL_INSTR_TYPE_OPT c UnaryId (NamedOp ''AbsFloat32''),
          FILL_INSTR_TYPE_OPT c UnaryId (NamedOp ''NegFloat32''),
          FILL_INSTR_TYPE_OPT c UnaryId (NamedOp ''SqrtFloat32''),
          FILL_INSTR_TYPE_OPT c UnaryId (NamedOp ''CeilFloat32''),
          FILL_INSTR_TYPE_OPT c UnaryId (NamedOp ''FloorFloat32''),
          FILL_INSTR_TYPE_OPT c UnaryId (NamedOp ''TruncFloat32''),
          FILL_INSTR_TYPE_OPT c UnaryId (NamedOp ''NearestFloat32'')] \<rparr>,
      \<lparr> required = [TypeFloat64], produced = [TypeFloat64],
        groups = [FILL_INSTR_TYPE_OPT c UnaryId (NamedOp ''AbsFloat64''),
          FILL_INSTR_TYPE_OPT c UnaryId (NamedOp ''NegFloat64''),
          FILL_INSTR_TYPE_OPT c UnaryId (NamedOp ''SqrtFloat64''),
          FILL_INSTR_TYPE_OPT c UnaryId (NamedOp ''CeilFloat64''),
          FILL_INSTR_TYPE_OPT c UnaryId (NamedOp ''FloorFloat64''),
          FILL_INSTR_TYPE_OPT c UnaryId (NamedOp ''TruncFloat64''),
          FILL_INSTR_TYPE_OPT c UnaryId (NamedOp ''NearestFloat64'')] \<rparr>]"

definition instr_grps_8_15 :: "api_codes \<Rightarrow> InstrGrp list" where
  "instr_grps_8_15 c = [
      \<lparr> required = [TypeInt32, TypeInt32], produced = [TypeInt32],
        groups = [FILL_INSTR_TYPE_OPT c BinaryId AddInt32,
          FILL_INSTR_TYPE_OPT c BinaryId SubInt32,
          FILL_INSTR_TYPE_OPT c BinaryId MulInt32,
          FILL_INSTR_TYPE_OPT c BinaryId (NamedOp ''DivSInt32''),
          FILL_INSTR_TYPE_OPT c BinaryId DivUInt32,
          FILL_INSTR_TYPE_OPT c BinaryId (NamedOp ''RemSInt32''),
          FILL_INSTR_TYPE_OPT c BinaryId (NamedOp ''RemUInt32''),
          FILL_INSTR_TYPE_OPT c BinaryId (NamedOp ''AndInt32''),
          FILL_INSTR_TYPE_OPT c BinaryId (NamedOp ''OrInt32''),
          FILL_INSTR_TYPE_OPT c BinaryId (NamedOp ''XorInt32''),
          FILL_INSTR_TYPE_OPT c BinaryId (NamedOp ''ShlInt32''),
          FILL_INSTR_TYPE_OPT c BinaryId (NamedOp ''ShrUInt32''),
          FILL_INSTR_TYPE_OPT c BinaryId (NamedOp ''ShrSInt32''),
          FILL_INSTR_TYPE_OPT c BinaryId (NamedOp ''RotLInt32''),
          FILL_INSTR_TYPE_OPT c BinaryId (NamedOp ''RotRInt32''),
          FILL_INSTR_TYPE_OPT c BinaryId (NamedOp ''EqInt32''),
          FILL_INSTR_TYPE_OPT c BinaryId (NamedOp ''NeInt32''),
          FILL_INSTR_TYPE_OPT c BinaryId (NamedOp ''LtSInt32''),
          FILL_INSTR_TYPE_OPT c BinaryId (NamedOp ''LtUInt32''),
          FILL_INSTR_TYPE_OPT c BinaryId (NamedOp ''LeSInt32''),
          FILL_INSTR_TYPE_OPT c BinaryId (NamedOp ''LeUInt32''),
          FILL_INSTR_TYPE_OPT c BinaryId (NamedOp ''GtSInt32''),
          FILL_INSTR_TYPE_OPT c BinaryId (NamedOp ''GtUInt32''),
          FILL_INSTR_TYPE_OPT c BinaryId (NamedOp ''GeSInt32''),
          FILL_INSTR_TYPE_OPT c BinaryId (NamedOp ''GeUInt32'')] \<rparr>,
      \<lparr> required = [TypeInt64, TypeInt64], produced = [TypeInt64],
        groups = [FILL_INSTR_TYPE_OPT c BinaryId AddInt64,
          FILL_INSTR_TYPE_OPT c BinaryId SubInt64,
          FILL_INSTR_TYPE_OPT c BinaryId MulInt64,
          FILL_INSTR_TYPE_OPT c BinaryId (NamedOp ''DivSInt64''),
          FILL_INSTR_TYPE_OPT c BinaryId DivUInt64,
          FILL_INSTR_TYPE_OPT c BinaryId (NamedOp ''RemSInt64''),
          FILL_INSTR_TYPE_OPT c BinaryId (NamedOp ''RemUInt64''),
          FILL_INSTR_TYPE_OPT c BinaryId (NamedOp ''AndInt64''),
          FILL_INSTR_TYPE_OPT c BinaryId (NamedOp ''OrInt64''),
          FILL_INSTR_TYPE_OPT c BinaryId (NamedOp ''XorInt64''),
          FILL_INSTR_TYPE_OPT c BinaryId (NamedOp ''ShlInt64''),
          FILL_INSTR_TYPE_OPT c BinaryId (NamedOp ''ShrUInt64''),
          FILL_INSTR_TYPE_OPT c BinaryId (NamedOp ''ShrSInt64''),
          FILL_INSTR_TYPE_OPT c BinaryId (NamedOp ''RotLInt64''),
          FILL_INSTR_TYPE_OPT c BinaryId (NamedOp ''RotRInt64'')] \<rparr>,
      \<lparr> required = [TypeFloat32, TypeFloat32], produced = [TypeFloat32],
        groups = [FILL_INSTR_TYPE_OPT c BinaryId (NamedOp ''AddFloat32''),
          FILL_INSTR_TYPE_OPT c BinaryId (NamedOp ''SubFloat32''),
          FILL_INSTR_TYPE_OPT c BinaryId (NamedOp ''MulFloat32''),
          FILL_INSTR_TYPE_OPT c BinaryId (NamedOp ''DivFloat32''),
          FILL_INSTR_TYPE_OPT c BinaryId (NamedOp ''MinFloat32''),
          FILL_INSTR_TYPE_OPT c BinaryId (NamedOp ''MaxFloat32''),
          FILL_INSTR_TYPE_OPT c BinaryId (NamedOp ''CopySignFloat32'')] \<rparr>,
      \<lparr> required = [TypeFloat64, TypeFloat64], produced = [TypeFloat64],
        groups = [FILL_INSTR_TYPE_OPT c BinaryId (NamedOp ''AddFloat64''),
          FILL_INSTR_TYPE_OPT c BinaryId (NamedOp ''SubFloat64''),
          FILL_INSTR_TYPE_OPT c BinaryId (NamedOp ''MulFloat64''),
          FILL_INSTR_TYPE_OPT c BinaryId (NamedOp ''DivFloat64''),
          FILL_INSTR_TYPE_OPT c BinaryId (NamedOp ''MinFloat64''),
          FILL_INSTR_TYPE_OPT c BinaryId (NamedOp ''MaxFloat64''),
          FILL_INSTR_TYPE_OPT c BinaryId (NamedOp ''CopySignFloat64'')] \<rparr>,
      \<lparr> required = [TypeInt64], produced = [TypeInt32],
        groups = [FILL_INSTR_TYPE_OPT c UnaryId (NamedOp ''EqZInt64''),
          FILL_INSTR_TYPE_OPT c UnaryId (NamedOp ''WrapInt64'')] \<rparr>,
      \<lparr> required = [TypeInt64, TypeInt64], produced = [TypeInt32],
        groups = [FILL_INSTR_TYPE_OPT c BinaryId (NamedOp ''EqInt64''),
          FILL_INSTR_TYPE_OPT c BinaryId (NamedOp ''NeInt64''),
          FILL_INSTR_TYPE_OPT c BinaryId (NamedOp ''LtSInt64''),
          FILL_INSTR_TYPE_OPT c BinaryId (NamedOp ''LtUInt64''),
          FILL_INSTR_TYPE_OPT c BinaryId (NamedOp ''LeSInt64''),
          FILL_INSTR_TYPE_OPT c BinaryId (NamedOp ''LeUInt64''),
          FILL_INSTR_TYPE_OPT c BinaryId (NamedOp ''GtSInt64''),
          FILL_INSTR_TYPE_OPT c BinaryId (NamedOp ''GtUInt64''),
          FILL_INSTR_TYPE_OPT c BinaryId (NamedOp ''GeSInt64''),
          FILL_INSTR_TYPE_OPT c BinaryId (NamedOp ''GeUInt64'')] \<rparr>,
      \<lparr> required = [TypeFloat32, TypeFloat32], produced = [TypeInt32],
        groups = [FILL_INSTR_TYPE_OPT c BinaryId (NamedOp ''EqFloat32''),
          FILL_INSTR_TYPE_OPT c BinaryId (NamedOp ''NeFloat32''),
          FILL_INSTR_TYPE_OPT c BinaryId (NamedOp ''LtFloat32''),
          FILL_INSTR_TYPE_OPT c BinaryId (NamedOp ''LeFloat32''),
          FILL_INSTR_TYPE_OPT c BinaryId (NamedOp ''GtFloat32''),
          FILL_INSTR_TYPE_OPT c BinaryId (NamedOp ''GeFloat32'')] \<rparr>,
      \<lparr> required = [TypeFloat64, TypeFloat64], produced = [TypeInt32],
        groups = [FILL_INSTR_TYPE_OPT c BinaryId (NamedOp ''EqFloat64''),
          FILL_INSTR_TYPE_OPT c BinaryId (NamedOp ''NeFloat64''),
          FILL_INSTR_TYPE_OPT c BinaryId (NamedOp ''LtFloat64''),
          FILL_INSTR_TYPE_OPT c BinaryId (NamedOp ''LeFloat64''),
          FILL_INSTR_TYPE_OPT c BinaryId (NamedOp ''GtFloat64''),
          FILL_INSTR_TYPE_OPT c BinaryId (NamedOp ''GeFloat64'')] \<rparr>]"

definition instr_grps_16_20 :: "api_codes \<Rightarrow> InstrGrp list" where
  "instr_grps_16_20 c = [
      \<lparr> required = [TypeInt32], produced = [TypeInt64],
        groups = [FILL_INSTR_TYPE_OPT c UnaryId (NamedOp ''ExtendSInt32''),
          FILL_INSTR_TYPE_OPT c UnaryId (NamedOp ''ExtendUInt32''),
          FILL_INSTR_TYPE_OPD_MEM c LoadId TypeInt64 8 0,
          FILL_INSTR_TYPE_OPD_MEM c LoadId TypeInt64 1 0,
          FILL_INSTR_TYPE_OPD_MEM c LoadId TypeInt64 1 1,
          FILL_INSTR_TYPE_OPD_MEM c LoadId TypeInt64 2 0,
          FILL_INSTR_TYPE_OPD_MEM c LoadId TypeInt64 2 1,
          FILL_INSTR_TYPE_OPD_MEM c LoadId TypeInt64 4 0,
          FILL_INSTR_TYPE_OPD_MEM c LoadId TypeInt64 4 1] \<rparr>,
      \<lparr> required = [TypeFloat32], produced = [TypeInt32],
        groups = [FILL_INSTR_TYPE_OPT c UnaryId (NamedOp ''TruncSFloat32ToInt32''),
          FILL_INSTR_TYPE_OPT c UnaryId (NamedOp ''TruncUFloat32ToInt32''),
          FILL_INSTR_TYPE_OPT c UnaryId (NamedOp ''ReinterpretFloat32''),
          FILL_INSTR_TYPE_OPT c UnaryId (NamedOp ''TruncSatSFloat32ToInt32''),
          FILL_INSTR_TYPE_OPT c UnaryId (NamedOp ''TruncSatUFloat32ToInt32'')] \<rparr>,
      \<lparr> required = [TypeFloat32], produced = [TypeInt64],
        groups = [FILL_INSTR_TYPE_OPT c UnaryId (NamedOp ''TruncSFloat32ToInt64''),
          FILL_INSTR_TYPE_OPT c UnaryId (NamedOp ''TruncUFloat32ToInt64''),
          FILL_INSTR_TYPE_OPT c UnaryId (NamedOp ''TruncSatSFloat32ToInt64''),
          FILL_INSTR_TYPE_OPT c UnaryId (NamedOp ''TruncSatUFloat32ToInt64'')] \<rparr>,
      \<lparr> required = [TypeFloat64], produced = [TypeInt32],
        groups = [FILL_INSTR_TYPE_OPT c UnaryId (NamedOp ''TruncSFloat64ToInt32''),
          FILL_INSTR_TYPE_OPT c UnaryId (NamedOp ''TruncUFloat64ToInt32''),
          FILL_INSTR_TYPE_OPT c UnaryId (NamedOp ''TruncSatSFloat64ToInt32''),
          FILL_INSTR_TYPE_OPT c UnaryId (NamedOp ''TruncSatUFloat64ToInt32'')] \<rparr>,
      \<lparr> required = [TypeFloat64], produced = [TypeInt64],
        groups = [FILL_INSTR_TYPE_OPT c UnaryId (NamedOp ''TruncSFloat64ToInt64''),
          FILL_INSTR_TYPE_OPT c UnaryId (NamedOp ''TruncUFloat64ToInt64''),
          FILL_INSTR_TYPE_OPT c UnaryId (NamedOp ''ReinterpretFloat64''),
          FILL_INSTR_TYPE_OPT c UnaryId (NamedOp ''TruncSatSFloat64ToInt64''),
          FILL_INSTR_TYPE_OPT c UnaryId (NamedOp ''TruncSatUFloat64ToInt64'')] \<rparr>]"

definition instr_grps_21_44 :: "api_codes \<Rightarrow> InstrGrp list" where
  "instr_grps_21_44 c = [
      \<lparr> required = [TypeInt32], produced = [TypeFloat32],
        groups = [FILL_INSTR_TYPE_OPT c UnaryId (NamedOp ''ReinterpretInt32''),
          FILL_INSTR_TYPE_OPT c UnaryId (NamedOp ''ConvertSInt32ToFloat32''),
          FILL_INSTR_TYPE_OPT c UnaryId (NamedOp ''ConvertUInt32ToFloat32''),
          FILL_INSTR_TYPE_OPD_MEM c LoadId TypeFloat32 4 0] \<rparr>,
      \<lparr> required = [TypeInt64], produced = [TypeFloat64],
        groups = [FILL_INSTR_TYPE_OPT c UnaryId (NamedOp ''ReinterpretInt64''),
          FILL_INSTR_TYPE_OPT c UnaryId (NamedOp ''ConvertSInt64ToFloat64''),
          FILL_INSTR_TYPE_OPT c UnaryId (NamedOp ''ConvertUInt64ToFloat64'')] \<rparr>,
      \<lparr> required = [TypeInt32], produced = [TypeFloat64],
        groups = [FILL_INSTR_TYPE_OPT c UnaryId (NamedOp ''ConvertSInt32ToFloat64''),
          FILL_INSTR_TYPE_OPT c UnaryId (NamedOp ''ConvertUInt32ToFloat64''),
          FILL_INSTR_TYPE_OPD_MEM c LoadId TypeFloat64 8 0] \<rparr>,
      \<lparr> required = [TypeInt64], produced = [TypeFloat32],
        groups = [FILL_INSTR_TYPE_OPT c UnaryId (NamedOp ''ConvertSInt64ToFloat32''),
          FILL_INSTR_TYPE_OPT c UnaryId (NamedOp ''ConvertUInt64ToFloat32'')] \<rparr>,
      \<lparr> required = [TypeFloat64], produced = [TypeFloat32],
        groups = [FILL_INSTR_TYPE_OPT c UnaryId (NamedOp ''DemoteFloat64'')] \<rparr>,
      \<lparr> required = [TypeFloat32], produced = [TypeFloat64],
        groups = [FILL_INSTR_TYPE_OPT c UnaryId (NamedOp ''PromoteFloat32'')] \<rparr>,
      \<lparr> required = [], produced = [TypeFuncref],
        groups = [FILL_INSTR_TYPE_OPD c RefNullId TypeFuncref,
          FILL_INSTR_TYPE_OPD c RefFuncId TypeFuncref] \<rparr>,
      \<lparr> required = [], produced = [TypeExternref],
        groups = [FILL_INSTR_TYPE_OPD c RefNullId TypeExternref] \<rparr>,
      \<lparr> required = [TypeFuncref], produced = [TypeInt32],
        groups = [FILL_INSTR_TYPE_OPD c RefIsNullId TypeFuncref] \<rparr>,
      \<lparr> required = [TypeExternref], produced = [TypeInt32],
        groups = [FILL_INSTR_TYPE_OPD c RefIsNullId TypeExternref] \<rparr>,
      \<lparr> required = [TypeInt32], produced = [],
        groups = [FILL_INSTR_TYPE_OPD c DropId TypeInt32] \<rparr>,
      \<lparr> required = [TypeInt64], produced = [],
        groups = [FILL_INSTR_TYPE_OPD c DropId TypeInt64] \<rparr>,
      \<lparr> required = [TypeFloat32], produced = [],
        groups = [FILL_INSTR_TYPE_OPD c DropId TypeFloat32] \<rparr>,
      \<lparr> required = [TypeFloat64], produced = [],
        groups = [FILL_INSTR_TYPE_OPD c DropId TypeFloat64] \<rparr>,
      \<lparr> required = [TypeFuncref], produced = [],
        groups = [FILL_INSTR_TYPE_OPD c DropId TypeFuncref] \<rparr>,
      \<lparr> required = [TypeExternref], produced = [],
        groups = [FILL_INSTR_TYPE_OPD c DropId TypeExternref] \<rparr>,
      \<lparr> required = [TypeInt32, TypeInt32, TypeInt32], produced = [TypeInt32],
        groups = [FILL_INSTR_TYPE_OPD c SelectId TypeInt32] \<rparr>,
      \<lparr> required = [TypeInt64, TypeInt64, TypeInt32], produced = [TypeInt64],
        groups = [FILL_INSTR_TYPE_OPD c SelectId TypeInt64] \<rparr>,
      \<lparr> required = [TypeFloat32, TypeFloat32, TypeInt32], produced = [TypeFloat32],
        groups = [FILL_INSTR_TYPE_OPD c SelectId TypeFloat32] \<rparr>,
      \<lparr> required = [TypeFloat64, TypeFloat64, TypeInt32], produced = [TypeFloat64],
        groups = [FILL_INSTR_TYPE_OPD c SelectId TypeFloat64] \<rparr>,
      \<lparr> required = [TypeFuncref, TypeFuncref, TypeInt32], produced = [TypeFuncref],
        groups = [FILL_INSTR_TYPE_OPD c SelectId TypeFuncref] \<rparr>,
      \<lparr> required = [TypeExternref, TypeExternref, TypeInt32], produced = [TypeExternref],
        groups = [FILL_INSTR_TYPE_OPD c SelectId TypeExternref] \<rparr>,
      \<lparr> required = [TypeInt32], produced = [TypeFuncref],
        groups = [FILL_INSTR_TYPE_OPD c TableGetId TypeFuncref] \<rparr>,
      \<lparr> required = [TypeInt32], produced = [TypeExternref],
        groups = [FILL_INSTR_TYPE_OPD c TableGetId TypeExternref] \<rparr>]"

definition instr_grps_45_55 :: "api_codes \<Rightarrow> InstrGrp list" where
  "instr_grps_45_55 c = [
      \<lparr> required = [TypeInt32, TypeFuncref], produced = [],
        groups = [FILL_INSTR_TYPE_OPD c TableSetId TypeFuncref] \<rparr>,
      \<lparr> required = [TypeInt32, TypeExternref], produced = [],
        groups = [FILL_INSTR_TYPE_OPD c TableSetId TypeExternref] \<rparr>,
      \<lparr> required = [TypeFuncref, TypeInt32], produced = [TypeInt32],
        groups = [FILL_INSTR_TYPE_OPD c TableGrowId TypeFuncref] \<rparr>,
      \<lparr> required = [TypeExternref, TypeInt32], produced = [TypeInt32],
        groups = [FILL_INSTR_TYPE_OPD c TableGrowId TypeExternref] \<rparr>,
      \<lparr> required = [TypeInt32, TypeInt32], produced = [],
        groups = [FILL_INSTR_TYPE_OPD_MEM c StoreId TypeInt32 4 0,
          FILL_INSTR_TYPE_OPD_MEM c StoreId TypeInt32 1 0,
          FILL_INSTR_TYPE_OPD_MEM c StoreId TypeInt32 2 0] \<rparr>,
      \<lparr> required = [TypeInt32, TypeInt64], produced = [],
        groups = [FILL_INSTR_TYPE_OPD_MEM c StoreId TypeInt64 8 0,
          FILL_INSTR_TYPE_OPD_MEM c StoreId TypeInt64 1 0,
          FILL_INSTR_TYPE_OPD_MEM c StoreId TypeInt64 2 0,
          FILL_INSTR_TYPE_OPD_MEM c StoreId TypeInt64 4 0] \<rparr>,
      \<lparr> required = [TypeInt32, TypeFloat32], produced = [],
        groups = [FILL_INSTR_TYPE_OPD_MEM c StoreId TypeFloat32 4 0] \<rparr>,
      \<lparr> required = [TypeInt32, TypeFloat64], produced = [],
        groups = [FILL_INSTR_TYPE_OPD_MEM c StoreId TypeFloat64 8 0] \<rparr>,
      \<lparr> required = [TypeInt32, TypeInt32, TypeInt32], produced = [],
        groups = [FILL_INSTR_TYPE_OPD c MemoryFillId TypeNone,
          FILL_INSTR_TYPE_OPD c MemoryCopyId TypeNone,
          FILL_INSTR_TYPE_OPD c MemoryInitId TypeNone] \<rparr>,
      \<lparr> required = [], produced = [],
        groups = [FILL_INSTR_TYPE_OPD c DataDropId TypeNone,
          FILL_INSTR_TYPE_OPD c NopId TypeNone] \<rparr>,
      \<lparr> required = [], produced = [TypeVec128],
        groups = [FILL_INSTR_TYPE_OPD c ConstId TypeVec128] \<rparr>]"

definition instr_grps_56 :: "api_codes \<Rightarrow> InstrGrp list" where
  "instr_grps_56 c = [
      \<lparr> required = [TypeVec128], produced = [TypeVec128],
        groups = [FILL_INSTR_TYPE_OPT c UnaryId (NamedOp ''NotVec128''),
          FILL_INSTR_TYPE_OPT c UnaryId (NamedOp ''AbsVecI8x16''),
          FILL_INSTR_TYPE_OPT c UnaryId (NamedOp ''NegVecI8x16''),
          FILL_INSTR_TYPE_OPT c UnaryId (NamedOp ''AbsVecI16x8''),
          FILL_INSTR_TYPE_OPT c UnaryId (NamedOp ''NegVecI16x8''),
          FILL_INSTR_TYPE_OPT c UnaryId (NamedOp ''AbsVecI32x4''),
          FILL_INSTR_TYPE_OPT c UnaryId (NamedOp ''NegVecI32x4''),
          FILL_INSTR_TYPE_OPT c UnaryId (NamedOp ''AbsVecI64x2''),
          FILL_INSTR_TYPE_OPT c UnaryId (NamedOp ''NegVecI64x2''),
          FILL_INSTR_TYPE_OPT c UnaryId (NamedOp ''AbsVecF32x4''),
          FILL_INSTR_TYPE_OPT c UnaryId (NamedOp ''NegVecF32x4''),
          FILL_INSTR_TYPE_OPT c UnaryId (NamedOp ''SqrtVecF32x4''),
          FILL_INSTR_TYPE_OPT c UnaryId (NamedOp ''CeilVecF32x4''),
          FILL_INSTR_TYPE_OPT c UnaryId (NamedOp ''FloorVecF32x4''),
          FILL_INSTR_TYPE_OPT c UnaryId (NamedOp ''TruncVecF32x4''),
          FILL_INSTR_TYPE_OPT c UnaryId (NamedOp ''NearestVecF32x4''),
          FILL_INSTR_TYPE_OPT c UnaryId (NamedOp ''AbsVecF64x2''),
          FILL_INSTR_TYPE_OPT c UnaryId (NamedOp ''NegVecF64x2''),
          FILL_INSTR_TYPE_OPT c UnaryId (NamedOp ''SqrtVecF64x2''),
          FILL_INSTR_TYPE_OPT c UnaryId (NamedOp ''CeilVecF64x2''),
          FILL_INSTR_TYPE_OPT c UnaryId (NamedOp ''FloorVecF64x2''),
          FILL_INSTR_TYPE_OPT c UnaryId (NamedOp ''TruncVecF64x2''),
          FILL_INSTR_TYPE_OPT c UnaryId (NamedOp ''NearestVecF64x2''),
          FILL_INSTR_TYPE_OPT c UnaryId (NamedOp ''PopcntVecI8x16''),
          FILL_INSTR_TYPE_OPT c UnaryId (NamedOp ''ExtendLowSVecI8x16ToVecI16x8''),
          FILL_INSTR_TYPE_OPT c UnaryId (NamedOp ''ExtendLowUVecI8x16ToVecI16x8''),
          FILL_INSTR_TYPE_OPT c UnaryId (NamedOp ''ExtendHighSVecI8x16ToVecI16x8''),
          FILL_INSTR_TYPE_OPT c UnaryId (NamedOp ''ExtendHighUVecI8x16ToVecI16x8''),
          FILL_INSTR_TYPE_OPT c UnaryId (NamedOp ''ExtendLowSVecI16x8ToVecI32x4''),
          FILL_INSTR_TYPE_OPT c UnaryId (NamedOp ''ExtendLowUVecI16x8ToVecI32x4''),
          FILL_INSTR_TYPE_OPT c UnaryId (NamedOp ''ExtendHighSVecI16x8ToVecI32x4''),
          FILL_INSTR_TYPE_OPT c UnaryId (NamedOp ''ExtendHighUVecI16x8ToVecI32x4''),
          FILL_INSTR_TYPE_OPT c UnaryId (NamedOp ''ExtendLowSVecI32x4ToVecI64x2''),
          FILL_INSTR_TYPE_OPT c UnaryId (NamedOp ''ExtendLowUVecI32x4ToVecI64x2''),
          FILL_INSTR_TYPE_OPT c UnaryId (NamedOp ''ExtendHighSVecI32x4ToVecI64x2''),
          FILL_INSTR_TYPE_OPT c UnaryId (NamedOp ''ExtendHighUVecI32x4ToVecI64x2''),
          FILL_INSTR_TYPE_OPT c UnaryId (NamedOp ''TruncSatSVecF32x4ToVecI32x4''),
          FILL_INSTR_TYPE_OPT c UnaryId (NamedOp ''TruncSatUVecF32x4ToVecI32x4''),
          FILL_INSTR_TYPE_OPT c UnaryId (NamedOp ''TruncSatZeroSVecF64x2ToVecI32x4''),
          FILL_INSTR_TYPE_OPT c UnaryId (NamedOp ''TruncSatZeroUVecF64x2ToVecI32x4''),
          FILL_INSTR_TYPE_OPT c UnaryId (NamedOp ''ConvertSVecI32x4ToVecF32x4''),
          FILL_INSTR_TYPE_OPT c UnaryId (NamedOp ''ConvertUVecI32x4ToVecF32x4''),
          FILL_INSTR_TYPE_OPT c UnaryId (NamedOp ''ConvertLowSVecI32x4ToVecF64x2''),
          FILL_INSTR_TYPE_OPT c UnaryId (NamedOp ''ConvertLowUVecI32x4ToVecF64x2''),
          FILL_INSTR_TYPE_OPT c UnaryId (NamedOp ''DemoteZeroVecF64x2ToVecF32x4''),
          FILL_INSTR_TYPE_OPT c UnaryId (NamedOp ''PromoteLowVecF32x4ToVecF64x2''),
          FILL_INSTR_TYPE_OPT c UnaryId (NamedOp ''ExtAddPairwiseSVecI8x16ToI16x8''),
          FILL_INSTR_TYPE_OPT c UnaryId (NamedOp ''ExtAddPairwiseUVecI8x16ToI16x8''),
          FILL_INSTR_TYPE_OPT c UnaryId (NamedOp ''ExtAddPairwiseSVecI16x8ToI32x4''),
          FILL_INSTR_TYPE_OPT c UnaryId (NamedOp ''ExtAddPairwiseUVecI16x8ToI32x4'')] \<rparr>]"

definition instr_grps_57 :: "api_codes \<Rightarrow> InstrGrp list" where
  "instr_grps_57 c = [
      \<lparr> required = [TypeVec128, TypeVec128], produced = [TypeVec128],
        groups = [FILL_INSTR_TYPE_OPT c BinaryId (NamedOp ''AndVec128''),
          FILL_INSTR_TYPE_OPT c BinaryId (NamedOp ''OrVec128''),
          FILL_INSTR_TYPE_OPT c BinaryId (NamedOp ''XorVec128''),
          FILL_INSTR_TYPE_OPT c BinaryId (NamedOp ''AndNotVec128''),
          FILL_INSTR_TYPE_OPT c BinaryId (NamedOp ''SwizzleVecI8x16''),
          FILL_INSTR_TYPE_OPD c SIMDShuffleId TypeVec128,
          FILL_INSTR_TYPE_OPT c BinaryId (NamedOp ''AddVecI8x16''),
          FILL_INSTR_TYPE_OPT c BinaryId (NamedOp ''SubVecI8x16''),
          FILL_INSTR_TYPE_OPT c BinaryId (NamedOp ''AddVecI16x8''),
          FILL_INSTR_TYPE_OPT c BinaryId (NamedOp ''SubVecI16x8''),
          FILL_INSTR_TYPE_OPT c BinaryId (NamedOp ''AddVecI32x4''),
          FILL_INSTR_TYPE_OPT c BinaryId (NamedOp ''SubVecI32x4''),
          FILL_INSTR_TYPE_OPT c BinaryId (NamedOp ''AddVecI64x2''),
          FILL_INSTR_TYPE_OPT c BinaryId (NamedOp ''SubVecI64x2''),
          FILL_INSTR_TYPE_OPT c BinaryId (NamedOp ''AddVecF32x4''),
          FILL_INSTR_TYPE_OPT c BinaryId (NamedOp ''SubVecF32x4''),
          FILL_INSTR_TYPE_OPT c BinaryId (NamedOp ''MulVecF32x4''),
          FILL_INSTR_TYPE_OPT c BinaryId (NamedOp ''DivVecF32x4''),
          FILL_INSTR_TYPE_OPT c BinaryId (NamedOp ''MinVecF32x4''),
          FILL_INSTR_TYPE_OPT c BinaryId (NamedOp ''MaxVecF32x4''),
          FILL_INSTR_TYPE_OPT c BinaryId (NamedOp ''PMinVecF32x4''),
          FILL_INSTR_TYPE_OPT c BinaryId (NamedOp ''PMaxVecF32x4''),
          FILL_INSTR_TYPE_OPT c BinaryId (NamedOp ''AddVecF64x2''),
          FILL_INSTR_TYPE_OPT c BinaryId (NamedOp ''SubVecF64x2''),
          FILL_INSTR_TYPE_OPT c BinaryId (NamedOp ''MulVecF64x2''),
          FILL_INSTR_TYPE_OPT c BinaryId (NamedOp ''DivVecF64x2''),
          FILL_INSTR_TYPE_OPT c BinaryId (NamedOp ''MinVecF64x2''),
          FILL_INSTR_TYPE_OPT c BinaryId (NamedOp ''MaxVecF64x2''),
          FILL_INSTR_TYPE_OPT c BinaryId (NamedOp ''PMinVecF64x2''),
          FILL_INSTR_TYPE_OPT c BinaryId (NamedOp ''PMaxVecF64x2''),
          FILL_INSTR_TYPE_OPT c BinaryId (NamedOp ''MinSVecI8x16''),
          FILL_INSTR_TYPE_OPT c BinaryId (NamedOp ''MinUVecI8x16''),
          FILL_INSTR_TYPE_OPT c BinaryId (NamedOp ''MaxSVecI8x16''),
          FILL_INSTR_TYPE_OPT c BinaryId (NamedOp ''MaxUVecI8x16''),
          FILL_INSTR_TYPE_OPT c BinaryId (NamedOp ''MinSVecI16x8''),
          FILL_INSTR_TYPE_OPT c BinaryId (NamedOp ''MinUVecI16x8''),
          FILL_INSTR_TYPE_OPT c BinaryId (NamedOp ''MaxSVecI16x8''),
          FILL_INSTR_TYPE_OPT c BinaryId (NamedOp ''MaxUVecI16x8''),
          FILL_INSTR_TYPE_OPT c BinaryId (NamedOp ''MinSVecI32x4''),
          FILL_INSTR_TYPE_OPT c BinaryId (NamedOp ''MinUVecI32x4''),
          FILL_INSTR_TYPE_OPT c BinaryId (NamedOp ''MaxSVecI32x4''),
          FILL_INSTR_TYPE_OPT c BinaryId (NamedOp ''MaxUVecI32x4''),
          FILL_INSTR_TYPE_OPT c BinaryId (NamedOp ''AddSatSVecI8x16''),
          FILL_INSTR_TYPE_OPT c BinaryId (NamedOp ''AddSatUVecI8x16''),
          FILL_INSTR_TYPE_OPT c BinaryId (NamedOp ''SubSatSVecI8x16''),
          FILL_INSTR_TYPE_OPT c BinaryId (NamedOp ''SubSatUVecI8x16''),
          FILL_INSTR_TYPE_OPT c BinaryId (NamedOp ''AddSatSVecI16x8''),
          FILL_INSTR_TYPE_OPT c BinaryId (NamedOp ''AddSatUVecI16x8''),
          FILL_INSTR_TYPE_OPT c BinaryId (NamedOp ''SubSatSVecI16x8''),
          FILL_INSTR_TYPE_OPT c BinaryId (NamedOp ''SubSatUVecI16x8''),
          FILL_INSTR_TYPE_OPT c BinaryId (NamedOp ''MulVecI16x8''),
          FILL_INSTR_TYPE_OPT c BinaryId (NamedOp ''MulVecI32x4''),
          FILL_INSTR_TYPE_OPT c BinaryId (NamedOp ''MulVecI64x2''),
          FILL_INSTR_TYPE_OPT c BinaryId (NamedOp ''AvgrUVecI8x16''),
          FILL_INSTR_TYPE_OPT c BinaryId (NamedOp ''AvgrUVecI16x8''),
          FILL_INSTR_TYPE_OPT c BinaryId (NamedOp ''Q15MulrSatSVecI16x8''),
          FILL_INSTR_TYPE_OPT c BinaryId (NamedOp ''EqVecI8x16''),
          FILL_INSTR_TYPE_OPT c BinaryId (NamedOp ''NeVecI8x16''),
          FILL_INSTR_TYPE_OPT c BinaryId (NamedOp ''LtSVecI8x16''),
          FILL_INSTR_TYPE_OPT c BinaryId (NamedOp ''LtUVecI8x16''),
          FILL_INSTR_TYPE_OPT c BinaryId (NamedOp ''GtSVecI8x16''),
          FILL_INSTR_TYPE_OPT c BinaryId (NamedOp ''GtUVecI8x16''),
          FILL_INSTR_TYPE_OPT c BinaryId (NamedOp ''LeSVecI8x16''),
          FILL_INSTR_TYPE_OPT c BinaryId (NamedOp ''LeUVecI8x16''),
          FILL_INSTR_TYPE_OPT c BinaryId (NamedOp ''GeSVecI8x16''),
          FILL_INSTR_TYPE_OPT c BinaryId (NamedOp ''GeUVecI8x16''),
          FILL_INSTR_TYPE_OPT c BinaryId (NamedOp ''EqVecI16x8''),
          FILL_INSTR_TYPE_OPT c BinaryId (NamedOp ''NeVecI16x8''),
          FILL_INSTR_TYPE_OPT c BinaryId (NamedOp ''LtSVecI16x8''),
          FILL_INSTR_TYPE_OPT c BinaryId (NamedOp ''LtUVecI16x8''),
          FILL_INSTR_TYPE_OPT c BinaryId (NamedOp ''GtSVecI16x8''),
          FILL_INSTR_TYPE_OPT c BinaryId (NamedOp ''GtUVecI16x8''),
          FILL_INSTR_TYPE_OPT c BinaryId (NamedOp ''LeSVecI16x8''),
          FILL_INSTR_TYPE_OPT c BinaryId (NamedOp ''LeUVecI16x8''),
          FILL_INSTR_TYPE_OPT c BinaryId (NamedOp ''GeSVecI16x8''),
          FILL_INSTR_TYPE_OPT c BinaryId (NamedOp ''GeUVecI16x8''),
          FILL_INSTR_TYPE_OPT c BinaryId (NamedOp ''EqVecI32x4''),
          FILL_INSTR_TYPE_OPT c BinaryId (NamedOp ''NeVecI32x4''),
          FILL_INSTR_TYPE_OPT c BinaryId (NamedOp ''LtSVecI32x4''),
          FILL_INSTR_TYPE_OPT c BinaryId (NamedOp ''LtUVecI32x4''),
          FILL_INSTR_TYPE_OPT c BinaryId (NamedOp ''GtSVecI32x4''),
          FILL_INSTR_TYPE_OPT c BinaryId (NamedOp ''GtUVecI32x4''),
          FILL_INSTR_TYPE_OPT c BinaryId (NamedOp ''LeSVecI32x4''),
          FILL_INSTR_TYPE_OPT c BinaryId (NamedOp ''LeUVecI32x4''),
          FILL_INSTR_TYPE_OPT c BinaryId (NamedOp ''GeSVecI32x4''),
          FILL_INSTR_TYPE_OPT c BinaryId (NamedOp ''GeUVecI32x4''),
          FILL_INSTR_TYPE_OPT c BinaryId (NamedOp ''EqVecI64x2''),
          FILL_INSTR_TYPE_OPT c BinaryId (NamedOp ''NeVecI64x2''),
          FILL_INSTR_TYPE_OPT c BinaryId (NamedOp ''LtSVecI64x2''),
          FILL_INSTR_TYPE_OPT c BinaryId (NamedOp ''GtSVecI64x2''),
          FILL_INSTR_TYPE_OPT c BinaryId (NamedOp ''LeSVecI64x2''),
          FILL_INSTR_TYPE_OPT c BinaryId (NamedOp ''GeSVecI64x2''),
          FILL_INSTR_TYPE_OPT c BinaryId (NamedOp ''EqVecF32x4''),
          FILL_INSTR_TYPE_OPT c BinaryId (NamedOp ''NeVecF32x4''),
          FILL_INSTR_TYPE_OPT c BinaryId (NamedOp ''LtVecF32x4''),
          FILL_INSTR_TYPE_OPT c BinaryId (NamedOp ''GtVecF32x4''),
          FILL_INSTR_TYPE_OPT c BinaryId (NamedOp ''LeVecF32x4''),
          FILL_INSTR_TYPE_OPT c BinaryId (NamedOp ''GeVecF32x4''),
          FILL_INSTR_TYPE_OPT c BinaryId (NamedOp ''EqVecF64x2''),
          FILL_INSTR_TYPE_OPT c BinaryId (NamedOp ''NeVecF64x2''),
          FILL_INSTR_TYPE_OPT c BinaryId (NamedOp ''LtVecF64x2''),
          FILL_INSTR_TYPE_OPT c BinaryId (NamedOp ''GtVecF64x2''),
          FILL_INSTR_TYPE_OPT c BinaryId (NamedOp ''LeVecF64x2''),
          FILL_INSTR_TYPE_OPT c BinaryId (NamedOp ''GeVecF64x2''),
          FILL_INSTR_TYPE_OPT c BinaryId (NamedOp ''NarrowSVecI16x8ToVecI8x16''),
          FILL_INSTR_TYPE_OPT c BinaryId (NamedOp ''NarrowUVecI16x8ToVecI8x16''),
          FILL_INSTR_TYPE_OPT c BinaryId (NamedOp ''NarrowSVecI32x4ToVecI16x8''),
          FILL_INSTR_TYPE_OPT c BinaryId (NamedOp ''NarrowUVecI32x4ToVecI16x8''),
          FILL_INSTR_TYPE_OPT c BinaryId (NamedOp ''DotSVecI16x8ToVecI32x4''),
          FILL_INSTR_TYPE_OPT c BinaryId (NamedOp ''ExtMulLowSVecI16x8''),
          FILL_INSTR_TYPE_OPT c BinaryId (NamedOp ''ExtMulHighSVecI16x8''),
          FILL_INSTR_TYPE_OPT c BinaryId (NamedOp ''ExtMulLowUVecI16x8''),
          FILL_INSTR_TYPE_OPT c BinaryId (NamedOp ''ExtMulHighUVecI16x8''),
          FILL_INSTR_TYPE_OPT c BinaryId (NamedOp ''ExtMulLowSVecI32x4''),
          FILL_INSTR_TYPE_OPT c BinaryId (NamedOp ''ExtMulHighSVecI32x4''),
          FILL_INSTR_TYPE_OPT c BinaryId (NamedOp ''ExtMulLowUVecI32x4''),
          FILL_INSTR_TYPE_OPT c BinaryId (NamedOp ''ExtMulHighUVecI32x4''),
          FILL_INSTR_TYPE_OPT c BinaryId (NamedOp ''ExtMulLowSVecI64x2''),
          FILL_INSTR_TYPE_OPT c BinaryId (NamedOp ''ExtMulHighSVecI64x2''),
          FILL_INSTR_TYPE_OPT c BinaryId (NamedOp ''ExtMulLowUVecI64x2''),
          FILL_INSTR_TYPE_OPT c BinaryId (NamedOp ''ExtMulHighUVecI64x2'')] \<rparr>]"

definition instr_grps_58_67 :: "api_codes \<Rightarrow> InstrGrp list" where
  "instr_grps_58_67 c = [
      \<lparr> required = [TypeVec128, TypeVec128, TypeVec128], produced = [TypeVec128],
        groups = [FILL_INSTR_TYPE_OPT c SIMDTernaryId (NamedOp ''BitselectVec128'')] \<rparr>,
      \<lparr> required = [TypeVec128], produced = [TypeInt32],
        groups = [FILL_INSTR_TYPE_OPT c UnaryId (NamedOp ''AnyTrueVec128''),
          FILL_INSTR_TYPE_OPT c UnaryId (NamedOp ''BitmaskVecI8x16''),
          FILL_INSTR_TYPE_OPT c UnaryId (NamedOp ''BitmaskVecI16x8''),
          FILL_INSTR_TYPE_OPT c UnaryId (NamedOp ''BitmaskVecI32x4''),
          FILL_INSTR_TYPE_OPT c UnaryId (NamedOp ''BitmaskVecI64x2'')] \<rparr>,
      \<lparr> required = [TypeInt32], produced = [TypeVec128],
        groups = [FILL_INSTR_TYPE_OPT c UnaryId (NamedOp ''SplatVecI8x16''),
          FILL_INSTR_TYPE_OPT c UnaryId (NamedOp ''SplatVecI16x8''),
          FILL_INSTR_TYPE_OPT c UnaryId (NamedOp ''SplatVecI32x4''),
          FILL_INSTR_TYPE_OPD_MEM c LoadId TypeVec128 16 0,
          FILL_INSTR_TYPE_OPT c SIMDLoadId Load8x8SVec128,
          FILL_INSTR_TYPE_OPT c SIMDLoadId Load8x8UVec128,
          FILL_INSTR_TYPE_OPT c SIMDLoadId Load16x4SVec128,
          FILL_INSTR_TYPE_OPT c SIMDLoadId Load16x4UVec128,
          FILL_INSTR_TYPE_OPT c SIMDLoadId Load32x2SVec128,
          FILL_INSTR_TYPE_OPT c SIMDLoadId Load32x2UVec128,
          FILL_INSTR_TYPE_OPT c SIMDLoadId Load8SplatVec128,
          FILL_INSTR_TYPE_OPT c SIMDLoadId Load16SplatVec128,
          FILL_INSTR_TYPE_OPT c SIMDLoadId Load32SplatVec128,
          FILL_INSTR_TYPE_OPT c SIMDLoadId Load64SplatVec128,
          FILL_INSTR_TYPE_OPT c SIMDLoadId Load32ZeroVec128,
          FILL_INSTR_TYPE_OPT c SIMDLoadId Load64ZeroVec128] \<rparr>,
      \<lparr> required = [TypeInt64], produced = [TypeVec128],
        groups = [FILL_INSTR_TYPE_OPT c UnaryId (NamedOp ''SplatVecI64x2'')] \<rparr>,
      \<lparr> required = [TypeFloat32], produced = [TypeVec128],
        groups = [FILL_INSTR_TYPE_OPT c UnaryId (NamedOp ''SplatVecF32x4'')] \<rparr>,
      \<lparr> required = [TypeFloat64], produced = [TypeVec128],
        groups = [FILL_INSTR_TYPE_OPT c UnaryId (NamedOp ''SplatVecF64x2'')] \<rparr>,
      \<lparr> required = [TypeVec128], produced = [TypeInt32],
        groups = [FILL_INSTR_TYPE_OPT c SIMDExtractId ExtractLaneSVecI8x16,
          FILL_INSTR_TYPE_OPT c SIMDExtractId ExtractLaneUVecI8x16,
          FILL_INSTR_TYPE_OPT c SIMDExtractId ExtractLaneSVecI16x8,
          FILL_INSTR_TYPE_OPT c SIMDExtractId ExtractLaneUVecI16x8,
          FILL_INSTR_TYPE_OPT c SIMDExtractId ExtractLaneVecI32x4,
          FILL_INSTR_TYPE_OPT c UnaryId (NamedOp ''AllTrueVecI8x16''),
          FILL_INSTR_TYPE_OPT c UnaryId (NamedOp ''AllTrueVecI16x8''),
          FILL_INSTR_TYPE_OPT c UnaryId (NamedOp ''AllTrueVecI32x4''),
          FILL_INSTR_TYPE_OPT c UnaryId (NamedOp ''AllTrueVecI64x2'')] \<rparr>,
      \<lparr> required = [TypeVec128], produced = [TypeInt64],
        groups = [FILL_INSTR_TYPE_OPT c SIMDExtractId ExtractLaneVecI64x2] \<rparr>,
      \<lparr> required = [TypeVec128], produced = [TypeFloat32],
        groups = [FILL_INSTR_TYPE_OPT c SIMDExtractId ExtractLaneVecF32x4] \<rparr>,
      \<lparr> required = [TypeVec128], produced = [TypeFloat64],
        groups = [FILL_INSTR_TYPE_OPT c SIMDExtractId ExtractLaneVecF64x2] \<rparr>]"

definition instr_grps_68_75 :: "api_codes \<Rightarrow> InstrGrp list" where
  "instr_grps_68_75 c = [
      \<lparr> required = [TypeVec128, TypeInt32], produced = [TypeVec128],
        groups = [FILL_INSTR_TYPE_OPT c SIMDReplaceId ReplaceLaneVecI8x16,
          FILL_INSTR_TYPE_OPT c SIMDReplaceId ReplaceLaneVecI16x8,
          FILL_INSTR_TYPE_OPT c SIMDReplaceId ReplaceLaneVecI32x4,
          FILL_INSTR_TYPE_OPT c SIMDShiftId (NamedOp ''ShlVecI8x16''),
          FILL_INSTR_TYPE_OPT c SIMDShiftId (NamedOp ''ShrSVecI8x16''),
          FILL_INSTR_TYPE_OPT c SIMDShiftId (NamedOp ''ShrUVecI8x16''),
          FILL_INSTR_TYPE_OPT c SIMDShiftId (NamedOp ''ShlVecI16x8''),
          FILL_INSTR_TYPE_OPT c SIMDShiftId (NamedOp ''ShrSVecI16x8''),
          FILL_INSTR_TYPE_OPT c SIMDShiftId (NamedOp ''ShrUVecI16x8''),
          FILL_INSTR_TYPE_OPT c SIMDShiftId (NamedOp ''ShlVecI32x4''),
          FILL_INSTR_TYPE_OPT c SIMDShiftId (NamedOp ''ShrSVecI32x4''),
          FILL_INSTR_TYPE_OPT c SIMDShiftId (NamedOp ''ShrUVecI32x4''),
          FILL_INSTR_TYPE_OPT c SIMDShiftId (NamedOp ''ShlVecI64x2''),
          FILL_INSTR_TYPE_OPT c SIMDShiftId (NamedOp ''ShrSVecI64x2''),
          FILL_INSTR_TYPE_OPT c SIMDShiftId (NamedOp ''ShrUVecI64x2'')] \<rparr>,
      \<lparr> required = [TypeVec128, TypeInt64], produced = [TypeVec128],
        groups = [FILL_INSTR_TYPE_OPT c SIMDReplaceId ReplaceLaneVecI64x2] \<rparr>,
      \<lparr> required = [TypeVec128, TypeFloat32], produced = [TypeVec128],
        groups = [FILL_INSTR_TYPE_OPT c SIMDReplaceId ReplaceLaneVecF32x4] \<rparr>,
      \<lparr> required = [TypeVec128, TypeFloat64], produced = [TypeVec128],
        groups = [FILL_INSTR_TYPE_OPT c SIMDReplaceId ReplaceLaneVecF64x2] \<rparr>,
      \<lparr> required = [TypeVec128], produced = [],
        groups = [FILL_INSTR_TYPE_OPD c DropId TypeVec128] \<rparr>,
      \<lparr> required = [TypeVec128, TypeVec128, TypeInt32], produced = [TypeVec128],
        groups = [FILL_INSTR_TYPE_OPD c SelectId TypeVec128] \<rparr>,
      \<lparr> required = [TypeInt32, TypeVec128], produced = [],
        groups = [FILL_INSTR_TYPE_OPD_MEM c StoreId TypeVec128 16 0,
          FILL_INSTR_TYPE_OPT c SIMDLoadStoreLaneId Store8LaneVec128,
          FILL_INSTR_TYPE_OPT c SIMDLoadStoreLaneId Store16LaneVec128,
          FILL_INSTR_TYPE_OPT c SIMDLoadStoreLaneId Store32LaneVec128,
          FILL_INSTR_TYPE_OPT c SIMDLoadStoreLaneId Store64LaneVec128] \<rparr>,
      \<lparr> required = [TypeInt32, TypeVec128], produced = [TypeVec128],
        groups = [FILL_INSTR_TYPE_OPT c SIMDLoadStoreLaneId Load8LaneVec128,
          FILL_INSTR_TYPE_OPT c SIMDLoadStoreLaneId Load16LaneVec128,
          FILL_INSTR_TYPE_OPT c SIMDLoadStoreLaneId Load32LaneVec128,
          FILL_INSTR_TYPE_OPT c SIMDLoadStoreLaneId Load64LaneVec128] \<rparr>]"

definition wasm_init_instr_grps :: "api_codes \<Rightarrow> InstrGrp list" where
  "wasm_init_instr_grps c =
     instr_grps_0_7 c @ instr_grps_8_15 c @ instr_grps_16_20 c @ instr_grps_21_44 c @
     instr_grps_45_55 c @ instr_grps_56 c @ instr_grps_57 c @ instr_grps_58_67 c @ instr_grps_68_75 c"

section \<open>Classifying an expression\<close>

text \<open>\<open>ty\<close> is \<^verbatim>\<open>BinaryenExpressionGetType\<close>.\<close>

definition wasm_get_single_type :: "(bexpr \<Rightarrow> btype) \<Rightarrow> bexpr option \<Rightarrow> btype" where
  "wasm_get_single_type ty expr =
     (case expr of
        None \<Rightarrow> TypeNone
      | Some e \<Rightarrow>
          (let t = ty e
           in if t \<in> set [TypeNone, TypeInt32, TypeInt64, TypeFloat32, TypeFloat64, TypeVec128, TypeUnreachable]
              then t
              else if t = TypeExternref \<or> t = TypeNullExternref then TypeExternref
              else TypeFuncref))"

definition opd_instr :: "expr_kind \<Rightarrow> btype \<Rightarrow> InstrTy" where
  "opd_instr k t =
     \<lparr> expr_id = k, instr_opd = OpdType t, mem_bytes = 0, mem_signed = 0, hash_value = 0 \<rparr>"

definition opt_instr :: "expr_kind \<Rightarrow> bop \<Rightarrow> InstrTy" where
  "opt_instr k op =
     \<lparr> expr_id = k, instr_opd = OptType op, mem_bytes = 0, mem_signed = 0, hash_value = 0 \<rparr>"

definition wasm_get_instr_type :: "api_codes \<Rightarrow> (bexpr \<Rightarrow> btype) \<Rightarrow> bexpr \<Rightarrow> InstrTy" where
  "wasm_get_instr_type c ty expr =
     hashed c
       (case expr of
          Load atm bytes sg off al t p mem \<Rightarrow>
            (opd_instr LoadId (ty expr))\<lparr> mem_bytes := ucast bytes, mem_signed := (if sg then 1 else 0) \<rparr>
        | Store atm bytes off al p v t mem \<Rightarrow> (opd_instr StoreId t)\<lparr> mem_bytes := ucast bytes \<rparr>
        | Unary op v \<Rightarrow> opt_instr UnaryId op
        | Binary op l r \<Rightarrow> opt_instr BinaryId op
        | Drop v \<Rightarrow> opd_instr DropId (wasm_get_single_type ty (Some v))
        | SIMDExtract op v i \<Rightarrow> opt_instr SIMDExtractId op
        | SIMDReplace op v i x \<Rightarrow> opt_instr SIMDReplaceId op
        | SIMDTernary op x y z \<Rightarrow> opt_instr SIMDTernaryId op
        | SIMDShift op v x \<Rightarrow> opt_instr SIMDShiftId op
        | SIMDLoad op off al p mem \<Rightarrow> opt_instr SIMDLoadId op
        | SIMDLoadStoreLane op off al i p v mem \<Rightarrow> opt_instr SIMDLoadStoreLaneId op
        | RefFunc f \<Rightarrow> opd_instr RefFuncId TypeFuncref
        | RefIsNull v \<Rightarrow> opd_instr RefIsNullId (wasm_get_single_type ty (Some v))
        | TableSet tbl i v \<Rightarrow> opd_instr TableSetId (wasm_get_single_type ty (Some v))
        | TableGrow tbl v d \<Rightarrow> opd_instr TableGrowId (wasm_get_single_type ty (Some v))
        | RefNull t \<Rightarrow> opd_instr RefNullId (if ty expr = TypeNullFuncref then TypeFuncref else TypeExternref)
        | _ \<Rightarrow> opd_instr (expr_id_of expr) (ty expr))"

text \<open>The index of the first group with an entry of the same hash; \<open>None\<close> is -1.\<close>

fun find_grp_from :: "InstrGrp list \<Rightarrow> nat \<Rightarrow> u64 \<Rightarrow> nat option" where
  "find_grp_from [] i h = None"
| "find_grp_from (g # gs) i h =
     (if list_ex (\<lambda>cur. h = hash_value cur) (groups g) then Some i else find_grp_from gs (Suc i) h)"

definition wasm_find_instr_grps :: "InstrGrp list \<Rightarrow> InstrTy \<Rightarrow> nat option" where
  "wasm_find_instr_grps grps instr = find_grp_from grps 0 (hash_value instr)"

section \<open>The stack types of the standard\<close>

text \<open>
  A specification: the stack type the WebAssembly standard gives to an instruction. Binaryen's
  operator names follow a convention, from which the type is read off: a scalar type at the end
  of the name, two types around \<^verbatim>\<open>To\<close> for a conversion, and \<^verbatim>\<open>Vec\<close> with a lane shape for SIMD.
\<close>

fun starts_with :: "string \<Rightarrow> string \<Rightarrow> bool" where
  "starts_with [] s = True"
| "starts_with (a # as) [] = False"
| "starts_with (a # as) (b # bs) = (a = b \<and> starts_with as bs)"

definition ends_with :: "string \<Rightarrow> string \<Rightarrow> bool" where
  "ends_with t s = starts_with (rev t) (rev s)"

fun contains :: "string \<Rightarrow> string \<Rightarrow> bool" where
  "contains t [] = (t = [])"
| "contains t (a # s) = (starts_with t (a # s) \<or> contains t s)"

definition scalar_at_end :: "string \<Rightarrow> btype option" where
  "scalar_at_end s =
     (if ends_with ''Int32'' s \<or> ends_with ''I8x16'' s \<or> ends_with ''I16x8'' s \<or> ends_with ''I32x4'' s
      then Some TypeInt32
      else if ends_with ''Int64'' s \<or> ends_with ''I64x2'' s then Some TypeInt64
      else if ends_with ''Float32'' s \<or> ends_with ''F32x4'' s then Some TypeFloat32
      else if ends_with ''Float64'' s \<or> ends_with ''F64x2'' s then Some TypeFloat64
      else None)"

definition reinterpreted :: "btype \<Rightarrow> btype" where
  "reinterpreted t =
     (case t of TypeInt32 \<Rightarrow> TypeFloat32 | TypeInt64 \<Rightarrow> TypeFloat64 | TypeFloat32 \<Rightarrow> TypeInt32
      | TypeFloat64 \<Rightarrow> TypeInt64 | _ \<Rightarrow> t)"

text \<open>The part of a conversion's name before \<^verbatim>\<open>To\<close>.\<close>

fun before_To :: "string \<Rightarrow> string" where
  "before_To [] = []"
| "before_To (a # s) = (if starts_with ''To'' (a # s) then [] else a # before_To s)"

definition unary_sig :: "string \<Rightarrow> (btype \<times> btype) option" where
  "unary_sig s =
     (if contains ''Vec'' s then
        (if starts_with ''Splat'' s then map_option (\<lambda>t. (t, TypeVec128)) (scalar_at_end s)
         else if starts_with ''AnyTrue'' s \<or> starts_with ''AllTrue'' s \<or> starts_with ''Bitmask'' s
         then Some (TypeVec128, TypeInt32)
         else Some (TypeVec128, TypeVec128))
      else if starts_with ''Wrap'' s then Some (TypeInt64, TypeInt32)
      else if starts_with ''ExtendSInt'' s \<or> starts_with ''ExtendUInt'' s then Some (TypeInt32, TypeInt64)
      else if starts_with ''Demote'' s then Some (TypeFloat64, TypeFloat32)
      else if starts_with ''Promote'' s then Some (TypeFloat32, TypeFloat64)
      else if starts_with ''Reinterpret'' s then map_option (\<lambda>t. (t, reinterpreted t)) (scalar_at_end s)
      else if starts_with ''EqZ'' s then map_option (\<lambda>t. (t, TypeInt32)) (scalar_at_end s)
      else if contains ''To'' s
      then (case (scalar_at_end (before_To s), scalar_at_end s) of
              (Some t, Some u) \<Rightarrow> Some (t, u) | _ \<Rightarrow> None)
      else map_option (\<lambda>t. (t, t)) (scalar_at_end s))"

definition is_comparison :: "string \<Rightarrow> bool" where
  "is_comparison s = list_ex (\<lambda>t. starts_with t s) [''Eq'', ''Ne'', ''Lt'', ''Le'', ''Gt'', ''Ge'']"

definition binary_sig :: "string \<Rightarrow> (btype \<times> btype) option" where
  "binary_sig s =
     (if contains ''Vec'' s then Some (TypeVec128, TypeVec128)
      else map_option (\<lambda>t. (t, if is_comparison s then TypeInt32 else t)) (scalar_at_end s))"

definition op_name :: "bop \<Rightarrow> string" where
  "op_name op =
     (case op of NamedOp s \<Rightarrow> s
      | AddInt32 \<Rightarrow> ''AddInt32'' | SubInt32 \<Rightarrow> ''SubInt32'' | MulInt32 \<Rightarrow> ''MulInt32'' | DivUInt32 \<Rightarrow> ''DivUInt32''
      | AddInt64 \<Rightarrow> ''AddInt64'' | SubInt64 \<Rightarrow> ''SubInt64'' | MulInt64 \<Rightarrow> ''MulInt64'' | DivUInt64 \<Rightarrow> ''DivUInt64''
      | _ \<Rightarrow> [])"

definition type_bytes :: "btype \<Rightarrow> u8" where
  "type_bytes t = (case t of TypeInt32 \<Rightarrow> 4 | TypeFloat32 \<Rightarrow> 4 | TypeInt64 \<Rightarrow> 8 | TypeFloat64 \<Rightarrow> 8
                   | TypeVec128 \<Rightarrow> 16 | _ \<Rightarrow> 0)"

text \<open>An access is as wide as its type, or narrower for integers, where loads may extend the sign.\<close>

definition access_ok :: "btype \<Rightarrow> u8 \<Rightarrow> u8 \<Rightarrow> bool" where
  "access_ok t bytes sign \<longleftrightarrow>
     t \<in> set [TypeInt32, TypeInt64, TypeFloat32, TypeFloat64, TypeVec128] \<and> bytes = type_bytes t \<and> sign = 0 \<or>
     t \<in> set [TypeInt32, TypeInt64] \<and> bytes \<in> set [1, 2, 4] \<and> bytes < type_bytes t \<and> sign \<in> set [0, 1]"

definition extract_lane_type :: "bop \<Rightarrow> btype option" where
  "extract_lane_type op =
     (if op \<in> set [ExtractLaneSVecI8x16, ExtractLaneUVecI8x16, ExtractLaneSVecI16x8, ExtractLaneUVecI16x8,
                   ExtractLaneVecI32x4] then Some TypeInt32
      else if op = ExtractLaneVecI64x2 then Some TypeInt64
      else if op = ExtractLaneVecF32x4 then Some TypeFloat32
      else if op = ExtractLaneVecF64x2 then Some TypeFloat64 else None)"

definition replace_lane_type :: "bop \<Rightarrow> btype option" where
  "replace_lane_type op =
     (if op \<in> set [ReplaceLaneVecI8x16, ReplaceLaneVecI16x8, ReplaceLaneVecI32x4] then Some TypeInt32
      else if op = ReplaceLaneVecI64x2 then Some TypeInt64
      else if op = ReplaceLaneVecF32x4 then Some TypeFloat32
      else if op = ReplaceLaneVecF64x2 then Some TypeFloat64 else None)"

abbreviation ref_types :: "btype list" where
  "ref_types \<equiv> [TypeFuncref, TypeExternref]"

abbreviation num_types :: "btype list" where
  "num_types \<equiv> [TypeInt32, TypeInt64, TypeFloat32, TypeFloat64, TypeVec128]"

definition sig_if :: "bool \<Rightarrow> btype list \<Rightarrow> btype list \<Rightarrow> (btype list \<times> btype list) option" where
  "sig_if ok req pro = (if ok then Some (req, pro) else None)"

definition opd_sig :: "expr_kind \<Rightarrow> btype \<Rightarrow> u8 \<Rightarrow> u8 \<Rightarrow> (btype list \<times> btype list) option" where
  "opd_sig k t bytes sign =
     (case k of
        LoadId \<Rightarrow> sig_if (access_ok t bytes sign) [TypeInt32] [t]
      | StoreId \<Rightarrow> sig_if (access_ok t bytes 0 \<and> sign = 0) [TypeInt32, t] []
      | _ \<Rightarrow>
       if bytes \<noteq> 0 \<or> sign \<noteq> 0 then None else
       (case k of
          ConstId \<Rightarrow> sig_if (t \<in> set num_types) [] [t]
        | SelectId \<Rightarrow> sig_if (t \<in> set (num_types @ ref_types)) [t, t, TypeInt32] [t]
        | DropId \<Rightarrow> sig_if (t \<in> set (num_types @ ref_types)) [t] []
        | TableSizeId \<Rightarrow> sig_if (t = TypeInt32) [] [TypeInt32]
        | MemorySizeId \<Rightarrow> sig_if (t = TypeInt32) [] [TypeInt32]
        | MemoryGrowId \<Rightarrow> sig_if (t = TypeInt32) [TypeInt32] [TypeInt32]
        | RefNullId \<Rightarrow> sig_if (t \<in> set ref_types) [] [t]
        | RefFuncId \<Rightarrow> sig_if (t = TypeFuncref) [] [t]
        | RefIsNullId \<Rightarrow> sig_if (t \<in> set ref_types) [t] [TypeInt32]
        | TableGetId \<Rightarrow> sig_if (t \<in> set ref_types) [TypeInt32] [t]
        | TableSetId \<Rightarrow> sig_if (t \<in> set ref_types) [TypeInt32, t] []
        | TableGrowId \<Rightarrow> sig_if (t \<in> set ref_types) [t, TypeInt32] [TypeInt32]
        | MemoryFillId \<Rightarrow> sig_if (t = TypeNone) [TypeInt32, TypeInt32, TypeInt32] []
        | MemoryCopyId \<Rightarrow> sig_if (t = TypeNone) [TypeInt32, TypeInt32, TypeInt32] []
        | MemoryInitId \<Rightarrow> sig_if (t = TypeNone) [TypeInt32, TypeInt32, TypeInt32] []
        | DataDropId \<Rightarrow> sig_if (t = TypeNone) [] []
        | NopId \<Rightarrow> sig_if (t = TypeNone) [] []
        | SIMDShuffleId \<Rightarrow> sig_if (t = TypeVec128) [TypeVec128, TypeVec128] [TypeVec128]
        | _ \<Rightarrow> None))"

definition opt_sig :: "expr_kind \<Rightarrow> bop \<Rightarrow> (btype list \<times> btype list) option" where
  "opt_sig k op =
     (case k of
        UnaryId \<Rightarrow> map_option (\<lambda>(t, u). ([t], [u])) (unary_sig (op_name op))
      | BinaryId \<Rightarrow> map_option (\<lambda>(t, u). ([t, t], [u])) (binary_sig (op_name op))
      | SIMDExtractId \<Rightarrow> map_option (\<lambda>t. ([TypeVec128], [t])) (extract_lane_type op)
      | SIMDReplaceId \<Rightarrow> map_option (\<lambda>t. ([TypeVec128, t], [TypeVec128])) (replace_lane_type op)
      | SIMDTernaryId \<Rightarrow> Some ([TypeVec128, TypeVec128, TypeVec128], [TypeVec128])
      | SIMDShiftId \<Rightarrow> Some ([TypeVec128, TypeInt32], [TypeVec128])
      | SIMDLoadId \<Rightarrow> sig_if (op \<in> set [Load8x8SVec128, Load8x8UVec128, Load16x4SVec128, Load16x4UVec128,
            Load32x2SVec128, Load32x2UVec128, Load8SplatVec128, Load16SplatVec128, Load32SplatVec128,
            Load64SplatVec128, Load32ZeroVec128, Load64ZeroVec128]) [TypeInt32] [TypeVec128]
      | SIMDLoadStoreLaneId \<Rightarrow>
          (if op \<in> set [Load8LaneVec128, Load16LaneVec128, Load32LaneVec128, Load64LaneVec128]
           then Some ([TypeInt32, TypeVec128], [TypeVec128])
           else sig_if (op \<in> set [Store8LaneVec128, Store16LaneVec128, Store32LaneVec128, Store64LaneVec128])
                  [TypeInt32, TypeVec128] [])
      | _ \<Rightarrow> None)"

definition instr_sig :: "InstrTy \<Rightarrow> (btype list \<times> btype list) option" where
  "instr_sig i =
     (case instr_opd i of
        OpdType t \<Rightarrow> opd_sig (expr_id i) t (mem_bytes i) (mem_signed i)
      | OptType op \<Rightarrow> if mem_bytes i = 0 \<and> mem_signed i = 0 then opt_sig (expr_id i) op else None)"

definition grp_ok :: "InstrGrp \<Rightarrow> bool" where
  "grp_ok g \<longleftrightarrow> list_all (\<lambda>i. instr_sig i = Some (required g, produced g)) (groups g)"

lemma fill_simps [simp]:
  "expr_id (FILL_INSTR_TYPE_OPD c k t) = k" "instr_opd (FILL_INSTR_TYPE_OPD c k t) = OpdType t"
  "mem_bytes (FILL_INSTR_TYPE_OPD c k t) = 0" "mem_signed (FILL_INSTR_TYPE_OPD c k t) = 0"
  "expr_id (FILL_INSTR_TYPE_OPD_MEM c k t bytes sign) = k"
  "instr_opd (FILL_INSTR_TYPE_OPD_MEM c k t bytes sign) = OpdType t"
  "mem_bytes (FILL_INSTR_TYPE_OPD_MEM c k t bytes sign) = bytes"
  "mem_signed (FILL_INSTR_TYPE_OPD_MEM c k t bytes sign) = sign"
  "expr_id (FILL_INSTR_TYPE_OPT c k op) = k" "instr_opd (FILL_INSTR_TYPE_OPT c k op) = OptType op"
  "mem_bytes (FILL_INSTR_TYPE_OPT c k op) = 0" "mem_signed (FILL_INSTR_TYPE_OPT c k op) = 0"
  by (simp_all add: FILL_INSTR_TYPE_OPD_def FILL_INSTR_TYPE_OPD_MEM_def FILL_INSTR_TYPE_OPT_def hashed_def)

lemma fill_sig:
  "instr_sig (FILL_INSTR_TYPE_OPD c k t) = opd_sig k t 0 0"
  "instr_sig (FILL_INSTR_TYPE_OPD_MEM c k t bytes sign) = opd_sig k t bytes sign"
  "instr_sig (FILL_INSTR_TYPE_OPT c k op) = opt_sig k op"
  by (simp_all add: instr_sig_def)

text \<open>The check of the table, one part at a time.\<close>

lemmas grp_check = grp_ok_def list.pred_inject fill_sig InstrGrp.select_convs

lemma grps_ok_0_7: "list_all grp_ok (instr_grps_0_7 c)"
  unfolding instr_grps_0_7_def grp_check by code_simp

lemma grps_ok_8_15: "list_all grp_ok (instr_grps_8_15 c)"
  unfolding instr_grps_8_15_def grp_check by code_simp

lemma grps_ok_16_20: "list_all grp_ok (instr_grps_16_20 c)"
  unfolding instr_grps_16_20_def grp_check by code_simp

lemma grps_ok_21_44: "list_all grp_ok (instr_grps_21_44 c)"
  unfolding instr_grps_21_44_def grp_check by code_simp

lemma grps_ok_45_55: "list_all grp_ok (instr_grps_45_55 c)"
  unfolding instr_grps_45_55_def grp_check by code_simp

lemma grps_ok_56: "list_all grp_ok (instr_grps_56 c)"
  unfolding instr_grps_56_def grp_check by code_simp

lemma grps_ok_57: "list_all grp_ok (instr_grps_57 c)"
  unfolding instr_grps_57_def grp_check by code_simp

lemma grps_ok_58_67: "list_all grp_ok (instr_grps_58_67 c)"
  unfolding instr_grps_58_67_def grp_check by code_simp

lemma grps_ok_68_75: "list_all grp_ok (instr_grps_68_75 c)"
  unfolding instr_grps_68_75_def grp_check by code_simp

lemma grps_ok: "list_all grp_ok (wasm_init_instr_grps c)"
  by (simp add: wasm_init_instr_grps_def grps_ok_0_7 grps_ok_8_15 grps_ok_16_20 grps_ok_21_44 grps_ok_45_55
      grps_ok_56 grps_ok_57 grps_ok_58_67 grps_ok_68_75)

lemmas grps_defs = wasm_init_instr_grps_def instr_grps_0_7_def instr_grps_8_15_def instr_grps_16_20_def instr_grps_21_44_def
  instr_grps_45_55_def instr_grps_56_def instr_grps_57_def instr_grps_58_67_def instr_grps_68_75_def

text \<open>Every entry carries the hash of its own fields.\<close>

definition hash_ok :: "api_codes \<Rightarrow> InstrTy \<Rightarrow> bool" where
  "hash_ok c i \<longleftrightarrow> hash_value i = instr_hash c i"

lemma instr_hash_update [simp]: "instr_hash c (i\<lparr> hash_value := h \<rparr>) = instr_hash c i"
  by (simp add: instr_hash_def instr_bytes_def)

lemma hash_ok_hashed [simp]: "hash_ok c (hashed c i)"
  by (simp add: hash_ok_def hashed_def)

lemma hash_ok_fill [simp]:
  "hash_ok c (FILL_INSTR_TYPE_OPD c k t)" "hash_ok c (FILL_INSTR_TYPE_OPD_MEM c k t bytes sign)"
  "hash_ok c (FILL_INSTR_TYPE_OPT c k op)"
  by (simp_all add: FILL_INSTR_TYPE_OPD_def FILL_INSTR_TYPE_OPD_MEM_def FILL_INSTR_TYPE_OPT_def)

lemma grps_hash_ok: "list_all (\<lambda>g. list_all (hash_ok c) (groups g)) (wasm_init_instr_grps c)"
  by (simp add: grps_defs)

lemma group_facts:
  assumes "g \<in> set (wasm_init_instr_grps c)" and "i \<in> set (groups g)"
  shows "instr_sig i = Some (required g, produced g)" and "hash_ok c i"
  using assms grps_ok [of c] grps_hash_ok [of c] by (auto simp: list_all_iff grp_ok_def)

text \<open>
  C13. The instruction groups are right: in each of the 76 groups every one of the entries has,
  by the standard, exactly the operand and result types of the group, so replacing an
  instruction by another one of its group keeps a program well-typed. No two groups have the
  same type, with one exception: groups 59 and 64 both hold instructions from v128 to i32.
\<close>

theorem instr_groups_typed:
  "list_all (\<lambda>g. list_all (\<lambda>i. instr_sig i = Some (required g, produced g)) (groups g))
     (wasm_init_instr_grps c) \<and>
   length (wasm_init_instr_grps c) = 76 \<and>
   distinct (map (\<lambda>g. (required g, produced g))
     (take 64 (wasm_init_instr_grps c) @ drop 65 (wasm_init_instr_grps c))) \<and>
   required (wasm_init_instr_grps c ! 64) = required (wasm_init_instr_grps c ! 59) \<and>
   produced (wasm_init_instr_grps c ! 64) = produced (wasm_init_instr_grps c ! 59)"
proof -
  let ?sigs = "map (\<lambda>g. (required g, produced g)) (wasm_init_instr_grps c)"
  have len: "length (wasm_init_instr_grps c) = 76"
    by (simp add: grps_defs)
  have d: "distinct (take 64 ?sigs @ drop 65 ?sigs)" "?sigs ! 64 = ?sigs ! 59"
    by (simp_all add: grps_defs)
  show ?thesis
    using grps_ok [of c] len d by (simp add: grp_ok_def [abs_def] take_map drop_map)
qed

end
