(* ===== verification/Wasm_Generate.thy ===== *)
theory Wasm_Generate
  imports Wasm_Instr Wasm_Pass Swam_Exploit
begin

text \<open>
  Building a new instruction from an instruction type and given operands,
  \<^verbatim>\<open>wasm_generate_one_simple_expr\<close> of \<^verbatim>\<open>generator_func.c\<close>, and changing the fields of an existing
  one, \<^verbatim>\<open>wasm_substitute_expr_fields\<close> of \<^verbatim>\<open>helper_func.c\<close>.

  The result is \<open>None\<close> where Binaryen aborts: on a NULL operand, whose type it reads, on an
  unknown segment in \<^verbatim>\<open>wasm_set_memory\<close>, on a function index out of range. Inside, \<open>None\<close> is
  the NULL expression for a kind without a case. Local variables that no branch assigns hold
  indeterminate values, which are an argument.
\<close>

unbundle bit_operations_syntax

record uninit =
  un_lane :: u8
  un_align :: u32
  un_lit :: literal

type_synonym 'g gen_result = "(bexpr option \<times> bmodule \<times> 'g) option"

abbreviation UINT32_MAX :: u32 where
  "UINT32_MAX \<equiv> 0xffffffff"

section \<open>Operands and random fields\<close>

definition opd_type :: "InstrTy \<Rightarrow> btype" where
  "opd_type i = (case instr_opd i of OpdType t \<Rightarrow> t | OptType op \<Rightarrow> TypeNone)"

definition opt_type :: "InstrTy \<Rightarrow> bop" where
  "opt_type i = (case instr_opd i of OptType op \<Rightarrow> op | OpdType t \<Rightarrow> NamedOp [])"

text \<open>
  The loops over the children skip NULL entries. With one variable the last child wins, with
  two the first child and the last of the others, with three the first, the second and the last
  of the others.
\<close>

definition present :: "bexpr option list \<Rightarrow> bexpr list" where
  "present child = List.map_filter id child"

definition last_opt :: "'a list \<Rightarrow> 'a option" where
  "last_opt xs = (if xs = [] then None else Some (last xs))"

definition pick1 :: "bexpr option list \<Rightarrow> bexpr option" where
  "pick1 child = last_opt (present child)"

definition pick2 :: "bexpr option list \<Rightarrow> (bexpr \<times> bexpr) option" where
  "pick2 child =
     (case present child of [] \<Rightarrow> None | x # xs \<Rightarrow> map_option (\<lambda>y. (x, y)) (last_opt xs))"

definition pick3 :: "bexpr option list \<Rightarrow> (bexpr \<times> bexpr \<times> bexpr) option" where
  "pick3 child =
     (case present child of
        x # y # ys \<Rightarrow> map_option (\<lambda>z. (x, y, z)) (last_opt ys)
      | _ \<Rightarrow> None)"

fun ilog2 :: "nat \<Rightarrow> nat" where
  "ilog2 n = (if n < 2 then 0 else Suc (ilog2 (n div 2)))"

declare ilog2.simps [simp del]

definition rand_align :: "'g rand_ops \<Rightarrow> u32 \<Rightarrow> 'g \<Rightarrow> u32 \<times> 'g" where
  "rand_align R n g = (let (r, g1) = ro_rand_below R g n in (push_bit (unat r) 1, g1))"

definition mem_align :: "'g rand_ops \<Rightarrow> u8 \<Rightarrow> 'g \<Rightarrow> u32 \<times> 'g" where
  "mem_align R bytes g = rand_align R (of_nat (ilog2 (unat bytes)) + 1) g"

definition rand_lane :: "'g rand_ops \<Rightarrow> u32 \<Rightarrow> 'g \<Rightarrow> u8 \<times> 'g" where
  "rand_lane R n g = (let (r, g1) = ro_rand_below R g n in (ucast r, g1))"

definition extract_lane :: "'g rand_ops \<Rightarrow> u8 \<Rightarrow> bop \<Rightarrow> 'g \<Rightarrow> u8 \<times> 'g" where
  "extract_lane R other opt g =
     (if opt = ExtractLaneSVecI8x16 \<or> opt = ExtractLaneUVecI8x16 then rand_lane R 16 g
      else if opt = ExtractLaneSVecI16x8 \<or> opt = ExtractLaneUVecI16x8 then rand_lane R 8 g
      else if opt = ExtractLaneVecI32x4 \<or> opt = ExtractLaneVecF32x4 then rand_lane R 4 g
      else if opt = ExtractLaneVecI64x2 \<or> opt = ExtractLaneVecF64x2 then rand_lane R 2 g
      else (other, g))"

definition replace_lane :: "'g rand_ops \<Rightarrow> u8 \<Rightarrow> bop \<Rightarrow> 'g \<Rightarrow> u8 \<times> 'g" where
  "replace_lane R other opt g =
     (if opt = ReplaceLaneVecI8x16 then rand_lane R 16 g
      else if opt = ReplaceLaneVecI16x8 then rand_lane R 8 g
      else if opt = ReplaceLaneVecI32x4 \<or> opt = ReplaceLaneVecF32x4 then rand_lane R 4 g
      else if opt = ReplaceLaneVecI64x2 \<or> opt = ReplaceLaneVecF64x2 then rand_lane R 2 g
      else (other, g))"

definition simd_load_align :: "'g rand_ops \<Rightarrow> u32 \<Rightarrow> bop \<Rightarrow> 'g \<Rightarrow> u32 \<times> 'g" where
  "simd_load_align R other opt g =
     (if opt = Load8SplatVec128 then rand_align R 1 g
      else if opt = Load16SplatVec128 then rand_align R 2 g
      else if opt = Load32SplatVec128 \<or> opt = Load32ZeroVec128 then rand_align R 3 g
      else if opt \<in> set [Load8x8SVec128, Load8x8UVec128, Load16x4SVec128, Load16x4UVec128,
                        Load32x2SVec128, Load32x2UVec128, Load64SplatVec128, Load64ZeroVec128]
      then rand_align R 4 g
      else (other, g))"

definition lane_align :: "'g rand_ops \<Rightarrow> u32 \<Rightarrow> u8 \<Rightarrow> bop \<Rightarrow> 'g \<Rightarrow> (u32 \<times> u8) \<times> 'g" where
  "lane_align R other_al other_ln opt g =
     (let both = (\<lambda>na nl. let (al, g1) = rand_align R na g; (ln, g2) = rand_lane R nl g1 in ((al, ln), g2))
      in if opt = Load8LaneVec128 \<or> opt = Store8LaneVec128 then both 1 16
         else if opt = Load16LaneVec128 \<or> opt = Store16LaneVec128 then both 2 8
         else if opt = Load32LaneVec128 \<or> opt = Store32LaneVec128 then both 3 4
         else if opt = Load64LaneVec128 \<or> opt = Store64LaneVec128 then both 4 2
         else ((other_al, other_ln), g))"

text \<open>Binaryen replaces a NULL memory name by the name of the memory when there is exactly one.\<close>

definition default_memory :: "bmodule \<Rightarrow> string" where
  "default_memory m = (case m_memories m of [x] \<Rightarrow> mem_name x | _ \<Rightarrow> [])"

definition ensure_memory ::
  "binaryen_env \<Rightarrow> 'g rand_ops \<Rightarrow> bool \<Rightarrow> bool \<Rightarrow> bmodule \<Rightarrow> 'g \<Rightarrow> (bmodule \<times> 'g) option" where
  "ensure_memory B R missing add_seg m g =
     (if missing then wasm_set_memory B R add_seg m g else Some (m, g))"

section \<open>Generating an instruction\<close>

definition gen_load_store ::
  "binaryen_env \<Rightarrow> 'g rand_ops \<Rightarrow> InstrTy \<Rightarrow> bexpr option list \<Rightarrow> bmodule \<Rightarrow> 'g \<Rightarrow> 'g gen_result" where
  "gen_load_store B R i child m g =
     Option.bind (ensure_memory B R (m_memories m = []) False m g) (\<lambda>(m1, g0).
       (let (al, g1) = mem_align R (mem_bytes i) g0;
            (off, g2) = ro_rand_below R g1 UINT32_MAX
        in if expr_id i = LoadId then
             map_option (\<lambda>p. (Some (Load False (ucast (mem_bytes i)) (mem_signed i \<noteq> 0) off al (opd_type i) p
                                     (default_memory m1)), m1, g2)) (pick1 child)
           else
             map_option (\<lambda>(p, v). (Some (Store False (ucast (mem_bytes i)) off al p v (opd_type i)
                                          (default_memory m1)), m1, g2)) (pick2 child)))"

fun rand_bytes :: "'g rand_ops \<Rightarrow> u32 \<Rightarrow> nat \<Rightarrow> 'g \<Rightarrow> u8 list \<times> 'g" where
  "rand_bytes R n 0 g = ([], g)"
| "rand_bytes R n (Suc k) g =
     (let (r, g1) = ro_rand_below R g n; (bs, g2) = rand_bytes R n k g1 in (ucast r # bs, g2))"

definition rand_u64 :: "'g rand_ops \<Rightarrow> 'g \<Rightarrow> u64 \<times> 'g" where
  "rand_u64 R g =
     (let (hi, g1) = ro_rand_below R g UINT32_MAX; (lo, g2) = ro_rand_below R g1 UINT32_MAX
      in (push_bit 32 (ucast hi) + ucast lo, g2))"

definition gen_const :: "uninit \<Rightarrow> 'g rand_ops \<Rightarrow> btype \<Rightarrow> 'g \<Rightarrow> bexpr \<times> 'g" where
  "gen_const U R type g =
     (if type = TypeInt32 then map_prod (\<lambda>v. Const (LitInt32 v)) id (ro_rand_below R g UINT32_MAX)
      else if type = TypeInt64 then map_prod (\<lambda>v. Const (LitInt64 v)) id (rand_u64 R g)
      else if type = TypeFloat32 then map_prod (\<lambda>v. Const (LitFloat32 v)) id (ro_rand_below R g UINT32_MAX)
      else if type = TypeFloat64 then map_prod (\<lambda>v. Const (LitFloat64 v)) id (rand_u64 R g)
      else if type = TypeVec128 then map_prod (\<lambda>v. Const (LitVec128 v)) id (rand_bytes R 256 16 g)
      else (Const (un_lit U), g))"

definition gen_plain ::
  "binaryen_env \<Rightarrow> 'g rand_ops \<Rightarrow> InstrTy \<Rightarrow> bexpr option list \<Rightarrow> bmodule \<Rightarrow> 'g \<Rightarrow> 'g gen_result" where
  "gen_plain B R i child m g =
     (case expr_id i of
        UnaryId \<Rightarrow> map_option (\<lambda>v. (Some (Unary (opt_type i) v), m, g)) (pick1 child)
      | BinaryId \<Rightarrow> map_option (\<lambda>(l, r). (Some (Binary (opt_type i) l r), m, g)) (pick2 child)
      | SelectId \<Rightarrow> map_option (\<lambda>(t, f, c). (Some (Select t f c), m, g)) (pick3 child)
      | DropId \<Rightarrow> map_option (\<lambda>v. (Some (Drop v), m, g)) (pick1 child)
      | MemorySizeId \<Rightarrow>
          map_option (\<lambda>(m1, g1). (Some (MemorySize (default_memory m1) False), m1, g1))
            (ensure_memory B R (m_memories m = []) False m g)
      | MemoryGrowId \<Rightarrow>
          Option.bind (ensure_memory B R (m_memories m = []) False m g) (\<lambda>(m1, g1).
            map_option (\<lambda>d. (Some (MemoryGrow d (default_memory m1) False), m1, g1)) (pick1 child))
      | NopId \<Rightarrow> Some (Some Nop, m, g)
      | _ \<Rightarrow> Some (None, m, g))"

definition gen_simd ::
  "uninit \<Rightarrow> 'g rand_ops \<Rightarrow> InstrTy \<Rightarrow> bexpr option list \<Rightarrow> bmodule \<Rightarrow> 'g \<Rightarrow> 'g gen_result" where
  "gen_simd U R i child m g =
     (case expr_id i of
        SIMDExtractId \<Rightarrow>
          (let (ln, g1) = extract_lane R (un_lane U) (opt_type i) g
           in map_option (\<lambda>v. (Some (SIMDExtract (opt_type i) v ln), m, g1)) (pick1 child))
      | SIMDReplaceId \<Rightarrow>
          (let (ln, g1) = replace_lane R (un_lane U) (opt_type i) g
           in map_option (\<lambda>(v, x). (Some (SIMDReplace (opt_type i) v ln x), m, g1)) (pick2 child))
      | SIMDShuffleId \<Rightarrow>
          (let (mask, g1) = rand_bytes R 32 16 g
           in map_option (\<lambda>(l, r). (Some (SIMDShuffle l r mask), m, g1)) (pick2 child))
      | SIMDTernaryId \<Rightarrow>
          map_option (\<lambda>(a, b, c). (Some (SIMDTernary (opt_type i) a b c), m, g)) (pick3 child)
      | SIMDShiftId \<Rightarrow>
          map_option (\<lambda>(v, x). (Some (SIMDShift (opt_type i) v x), m, g)) (pick2 child)
      | _ \<Rightarrow> Some (None, m, g))"

definition gen_simd_mem ::
  "binaryen_env \<Rightarrow> uninit \<Rightarrow> 'g rand_ops \<Rightarrow> InstrTy \<Rightarrow> bexpr option list \<Rightarrow> bmodule \<Rightarrow> 'g \<Rightarrow> 'g gen_result" where
  "gen_simd_mem B U R i child m g =
     Option.bind (ensure_memory B R (m_memories m = []) False m g) (\<lambda>(m1, g0).
       if expr_id i = SIMDLoadId then
         (let (al, g1) = simd_load_align R (un_align U) (opt_type i) g0;
              (off, g2) = ro_rand_below R g1 UINT32_MAX
          in map_option (\<lambda>p. (Some (SIMDLoad (opt_type i) off al p (default_memory m1)), m1, g2)) (pick1 child))
       else
         (let ((al, ln), g1) = lane_align R (un_align U) (un_lane U) (opt_type i) g0;
              (off, g2) = ro_rand_below R g1 UINT32_MAX
          in map_option (\<lambda>(p, v). (Some (SIMDLoadStoreLane (opt_type i) off al ln p v (default_memory m1)), m1, g2))
               (pick2 child)))"

definition gen_bulk ::
  "binaryen_env \<Rightarrow> 'g rand_ops \<Rightarrow> InstrTy \<Rightarrow> bexpr option list \<Rightarrow> bmodule \<Rightarrow> 'g \<Rightarrow> 'g gen_result" where
  "gen_bulk B R i child m g =
     (case expr_id i of
        MemoryInitId \<Rightarrow>
          Option.bind (ensure_memory B R (m_memories m = [] \<or> m_segments m = []) True m g) (\<lambda>(m1, g0).
            (let (seg, g1) = ro_rand_below R g0 (of_nat (length (m_segments m1)))
             in map_option (\<lambda>(d, off, n). (Some (MemoryInit (nat_string (unat seg)) d off n (default_memory m1)), m1, g1))
                  (pick3 child)))
      | DataDropId \<Rightarrow>
          Option.bind (ensure_memory B R (m_segments m = []) True m g) (\<lambda>(m1, g0).
            (let (seg, g1) = ro_rand_below R g0 (of_nat (length (m_segments m1)))
             in Some (Some (DataDrop (nat_string (unat seg))), m1, g1)))
      | MemoryCopyId \<Rightarrow>
          Option.bind (ensure_memory B R (m_memories m = []) False m g) (\<lambda>(m1, g1).
            map_option (\<lambda>(d, s, n). (Some (MemoryCopy d s n (default_memory m1) (default_memory m1)), m1, g1))
              (pick3 child))
      | MemoryFillId \<Rightarrow>
          Option.bind (ensure_memory B R (m_memories m = []) False m g) (\<lambda>(m1, g1).
            map_option (\<lambda>(d, v, n). (Some (MemoryFill d v n (default_memory m1)), m1, g1)) (pick3 child))
      | _ \<Rightarrow> Some (None, m, g))"

definition gen_ref ::
  "'g rand_ops \<Rightarrow> InstrTy \<Rightarrow> bexpr option list \<Rightarrow> bmodule \<Rightarrow> 'g \<Rightarrow> 'g gen_result" where
  "gen_ref R i child m g =
     (case expr_id i of
        RefNullId \<Rightarrow>
          Some (Some (RefNull (if opd_type i = TypeFuncref then TypeNullFuncref
                               else if opd_type i = TypeExternref then TypeNullExternref
                               else opd_type i)), m, g)
      | RefIsNullId \<Rightarrow> map_option (\<lambda>v. (Some (RefIsNull v), m, g)) (pick1 child)
      | RefFuncId \<Rightarrow>
          (let (k, g1) = ro_rand_below R g (of_nat (length (m_funcs m)))
           in if unat k < length (m_funcs m)
              then Some (Some (RefFunc (f_name (m_funcs m ! unat k))), m, g1) else None)
      | _ \<Rightarrow> Some (None, m, g))"

text \<open>The first table of the type; each later one of the type replaces it with a coin toss.\<close>

fun pick_table :: "'g rand_ops \<Rightarrow> btype \<Rightarrow> btable list \<Rightarrow> string option \<Rightarrow> 'g \<Rightarrow> string option \<times> 'g" where
  "pick_table R ty [] target g = (target, g)"
| "pick_table R ty (t # ts) target g =
     (if target = None \<and> t_type t = ty then pick_table R ty ts (Some (t_name t)) g
      else if t_type t = ty then
        (let (r, g1) = ro_rand_below R g 2
         in pick_table R ty ts (if r \<noteq> 0 then Some (t_name t) else target) g1)
      else pick_table R ty ts target g)"

definition add_table :: "btype \<Rightarrow> bmodule \<Rightarrow> string \<times> bmodule" where
  "add_table ty m =
     (let nm = nat_string (length (m_tables m))
      in (nm, m\<lparr> m_tables := m_tables m @ [\<lparr> t_name = nm, t_initial = 0x10, t_max = - 1, t_type = ty \<rparr>] \<rparr>))"

definition target_table :: "'g rand_ops \<Rightarrow> btype \<Rightarrow> bmodule \<Rightarrow> 'g \<Rightarrow> string \<times> bmodule \<times> 'g" where
  "target_table R ty m g =
     (case pick_table R ty (m_tables m) None g of
        (Some nm, g1) \<Rightarrow> (nm, m, g1)
      | (None, g1) \<Rightarrow> (let (nm, m1) = add_table ty m in (nm, m1, g1)))"

definition any_table :: "'g rand_ops \<Rightarrow> bmodule \<Rightarrow> 'g \<Rightarrow> string \<times> bmodule \<times> 'g" where
  "any_table R m g =
     (if m_tables m = [] then
        (let (r, g1) = ro_rand_below R g 2;
             (nm, m1) = add_table (if r \<noteq> 0 then TypeFuncref else TypeExternref) m
         in (nm, m1, g1))
      else
        (let (k, g1) = ro_rand_below R g (of_nat (length (m_tables m)))
         in (t_name (m_tables m ! unat k), m, g1)))"

definition gen_table ::
  "'g rand_ops \<Rightarrow> InstrTy \<Rightarrow> bexpr option list \<Rightarrow> bmodule \<Rightarrow> 'g \<Rightarrow> 'g gen_result" where
  "gen_table R i child m g =
     (case expr_id i of
        TableGetId \<Rightarrow>
          (let (nm, m1, g1) = target_table R (opd_type i) m g
           in map_option (\<lambda>x. (Some (TableGet nm x (opd_type i)), m1, g1)) (pick1 child))
      | TableSetId \<Rightarrow>
          (let (nm, m1, g1) = target_table R (opd_type i) m g
           in map_option (\<lambda>(x, v). (Some (TableSet nm x v), m1, g1)) (pick2 child))
      | TableSizeId \<Rightarrow> (let (nm, m1, g1) = any_table R m g in Some (Some (TableSize nm), m1, g1))
      | TableGrowId \<Rightarrow>
          (let (nm, m1, g1) = target_table R (opd_type i) m g
           in map_option (\<lambda>(v, d). (Some (TableGrow nm v d), m1, g1)) (pick2 child))
      | _ \<Rightarrow> Some (None, m, g))"

definition wasm_generate_one_simple_expr ::
  "binaryen_env \<Rightarrow> uninit \<Rightarrow> 'g rand_ops \<Rightarrow> InstrTy \<Rightarrow> bexpr option list \<Rightarrow> bmodule \<Rightarrow> 'g \<Rightarrow> 'g gen_result" where
  "wasm_generate_one_simple_expr B U R i child m g =
     (let id = expr_id i
      in if id \<in> set [LoadId, StoreId] then gen_load_store B R i child m g
         else if id = ConstId then (let (e, g1) = gen_const U R (opd_type i) g in Some (Some e, m, g1))
         else if id \<in> set [UnaryId, BinaryId, SelectId, DropId, MemorySizeId, MemoryGrowId, NopId]
         then gen_plain B R i child m g
         else if id \<in> set [SIMDExtractId, SIMDReplaceId, SIMDShuffleId, SIMDTernaryId, SIMDShiftId]
         then gen_simd U R i child m g
         else if id \<in> set [SIMDLoadId, SIMDLoadStoreLaneId] then gen_simd_mem B U R i child m g
         else if id \<in> set [MemoryInitId, DataDropId, MemoryCopyId, MemoryFillId] then gen_bulk B R i child m g
         else if id \<in> set [RefNullId, RefIsNullId, RefFuncId] then gen_ref R i child m g
         else gen_table R i child m g)"

section \<open>Changing the fields of an instruction\<close>

definition wasm_substitute_expr_fields :: "'g rand_ops \<Rightarrow> bexpr \<Rightarrow> InstrTy \<Rightarrow> 'g \<Rightarrow> bexpr \<times> 'g" where
  "wasm_substitute_expr_fields R expr i g =
     (case expr of
        Unary op v \<Rightarrow> (Unary (opt_type i) v, g)
      | Binary op l r \<Rightarrow> (Binary (opt_type i) l r, g)
      | SIMDExtract op v idx \<Rightarrow>
          (let (ln, g1) = extract_lane R 0 (opt_type i) g in (SIMDExtract (opt_type i) v ln, g1))
      | SIMDReplace op v idx x \<Rightarrow>
          (let (ln, g1) = replace_lane R 0 (opt_type i) g in (SIMDReplace (opt_type i) v ln x, g1))
      | SIMDTernary op a b c \<Rightarrow> (SIMDTernary (opt_type i) a b c, g)
      | SIMDShift op v x \<Rightarrow> (SIMDShift (opt_type i) v x, g)
      | SIMDLoad op off al p mem \<Rightarrow>
          (let (al', g1) = simd_load_align R 0 (opt_type i) g in (SIMDLoad (opt_type i) off al' p mem, g1))
      | SIMDLoadStoreLane op off al idx p v mem \<Rightarrow>
          (let ((al', ln), g1) = lane_align R 0 0 (opt_type i) g
           in (SIMDLoadStoreLane (opt_type i) off al' ln p v mem, g1))
      | Load atm bytes sg off al ty p mem \<Rightarrow>
          (let (al', g1) = mem_align R (mem_bytes i) g
           in (Load atm (ucast (mem_bytes i)) (mem_signed i \<noteq> 0) off al' ty p mem, g1))
      | Store atm bytes off al p v ty mem \<Rightarrow>
          (let (al', g1) = mem_align R (mem_bytes i) g
           in (Store atm (ucast (mem_bytes i)) off al' p v ty mem, g1))
      | _ \<Rightarrow> (expr, g))"

section \<open>What the generator builds\<close>

lemma present_Some [simp]: "present (map Some cs) = cs"
  by (simp add: present_def List.map_filter_def comp_def)

lemma pick_Some [simp]:
  "pick1 [Some a] = Some a" "pick2 [Some a, Some b] = Some (a, b)" "pick3 [Some a, Some b, Some d] = Some (a, b, d)"
  using present_Some [of "[a]"] present_Some [of "[a, b]"] present_Some [of "[a, b, d]"]
  by (simp_all add: pick1_def pick2_def pick3_def last_opt_def)

text \<open>The fields of an expression that an instruction type determines.\<close>

definition realises :: "InstrTy \<Rightarrow> bexpr \<Rightarrow> bool" where
  "realises i e \<longleftrightarrow> expr_id_of e = expr_id i \<and>
     (case e of
        Load atm bytes sg off al t p mem \<Rightarrow> bytes = ucast (mem_bytes i) \<and> sg = (mem_signed i \<noteq> 0)
      | Store atm bytes off al p v t mem \<Rightarrow> bytes = ucast (mem_bytes i)
      | Const l \<Rightarrow> lit_type l = opd_type i
      | Unary op v \<Rightarrow> op = opt_type i
      | Binary op l r \<Rightarrow> op = opt_type i
      | SIMDExtract op v k \<Rightarrow> op = opt_type i
      | SIMDReplace op v k x \<Rightarrow> op = opt_type i
      | SIMDTernary op x y z \<Rightarrow> op = opt_type i
      | SIMDShift op v x \<Rightarrow> op = opt_type i
      | SIMDLoad op off al p mem \<Rightarrow> op = opt_type i
      | SIMDLoadStoreLane op off al k p v mem \<Rightarrow> op = opt_type i
      | _ \<Rightarrow> True)"

text \<open>A freshly built node also carries the operand type.\<close>

definition instance_of :: "InstrTy \<Rightarrow> bexpr \<Rightarrow> bool" where
  "instance_of i e \<longleftrightarrow> realises i e \<and>
     (case e of
        Load atm bytes sg off al t p mem \<Rightarrow> t = opd_type i
      | Store atm bytes off al p v t mem \<Rightarrow> t = opd_type i
      | TableGet tbl x t \<Rightarrow> t = opd_type i
      | MemorySize nm is64 \<Rightarrow> \<not> is64
      | MemoryGrow d nm is64 \<Rightarrow> \<not> is64
      | RefNull t \<Rightarrow> t = (if opd_type i = TypeFuncref then TypeNullFuncref
                         else if opd_type i = TypeExternref then TypeNullExternref else opd_type i)
      | _ \<Rightarrow> True)"

definition adds_tables :: "bmodule \<Rightarrow> bmodule \<Rightarrow> bool" where
  "adds_tables m m' \<longleftrightarrow> (\<exists>ts. m' = m\<lparr> m_tables := m_tables m @ ts \<rparr>)"

lemma adds_tables_refl [simp]: "adds_tables m m"
  by (auto simp: adds_tables_def intro: exI [of _ "[]"])

lemma adds_tables_target:
  "adds_tables m (fst (snd (target_table R ty m g)))" "adds_tables m (fst (snd (any_table R m g)))"
  by (auto simp: target_table_def any_table_def add_table_def adds_tables_def case_prod_unfold Let_def
      split: option.splits intro: exI [of _ "[]"])

lemma ensure_memory_present: "\<not> missing \<Longrightarrow> ensure_memory B R missing add m g = Some (m, g)"
  by (simp add: ensure_memory_def)

lemma gen_const_type:
  assumes "t \<in> set num_types"
  shows "\<exists>l. fst (gen_const U R t g) = Const l \<and> lit_type l = t"
  using assms by (auto simp: gen_const_def)

text \<open>The operand lists of the standard have at most three entries.\<close>

lemma opt_sig_kinds:
  assumes "opt_sig k op = Some (req, pro)"
  shows "k \<in> set [UnaryId, SIMDExtractId, SIMDLoadId] \<and> length req = 1 \<or>
         k \<in> set [BinaryId, SIMDReplaceId, SIMDShiftId, SIMDLoadStoreLaneId] \<and> length req = 2 \<or>
         k = SIMDTernaryId \<and> length req = 3"
  using assms by (cases k) (auto simp: opt_sig_def sig_if_def split: if_splits)

lemma opd_sig_kinds:
  assumes "opd_sig k t bytes sign = Some (req, pro)"
  shows "k \<in> set [TableSizeId, MemorySizeId, RefNullId, RefFuncId, DataDropId, NopId] \<and> req = [] \<or>
         k = ConstId \<and> t \<in> set num_types \<and> req = [] \<or>
         k \<in> set [LoadId, DropId, MemoryGrowId, RefIsNullId, TableGetId] \<and> length req = 1 \<or>
         k \<in> set [StoreId, TableSetId, TableGrowId, SIMDShuffleId] \<and> length req = 2 \<or>
         k \<in> set [SelectId, MemoryFillId, MemoryCopyId, MemoryInitId] \<and> length req = 3"
  using assms by (cases k) (auto simp: opd_sig_def sig_if_def split: if_splits)

lemma length_1_2_3:
  "length xs = Suc 0 \<longleftrightarrow> (\<exists>a. xs = [a])" "length xs = 2 \<longleftrightarrow> (\<exists>a b. xs = [a, b])"
  "length xs = 3 \<longleftrightarrow> (\<exists>a b d. xs = [a, b, d])"
  by (auto simp: numeral_eq_Suc length_Suc_conv)

lemmas gen_defs =
  wasm_generate_one_simple_expr_def gen_load_store_def gen_plain_def gen_simd_def gen_simd_mem_def
  gen_bulk_def gen_ref_def gen_table_def

lemma kids_simps:
  "kids (Load atm by sg off al t p mem) = [Some p]" "kids (Store atm by off al p v t mem) = [Some p, Some v]"
  "kids (Const l) = []" "kids (Unary op v) = [Some v]" "kids (Binary op v w) = [Some v, Some w]"
  "kids (Select v w x) = [Some v, Some w, Some x]" "kids (Drop v) = [Some v]" "kids (MemorySize nm b) = []"
  "kids (MemoryGrow v nm b) = [Some v]" "kids Nop = []" "kids (SIMDExtract op v k) = [Some v]"
  "kids (SIMDReplace op v k w) = [Some v, Some w]" "kids (SIMDShuffle v w ms) = [Some v, Some w]"
  "kids (SIMDTernary op v w x) = [Some v, Some w, Some x]" "kids (SIMDShift op v w) = [Some v, Some w]"
  "kids (SIMDLoad op off al p mem) = [Some p]" "kids (SIMDLoadStoreLane op off al k p v mem) = [Some p, Some v]"
  "kids (MemoryInit nm v w x mem) = [Some v, Some w, Some x]" "kids (DataDrop nm) = []"
  "kids (MemoryCopy v w x nm mem) = [Some v, Some w, Some x]" "kids (MemoryFill v w x mem) = [Some v, Some w, Some x]"
  "kids (RefNull t) = []" "kids (RefIsNull v) = [Some v]" "kids (RefFunc nm) = []" "kids (TableGet nm v t) = [Some v]"
  "kids (TableSet nm v w) = [Some v, Some w]" "kids (TableSize nm) = []" "kids (TableGrow nm v w) = [Some v, Some w]"
  by (simp_all add: children_defs)

definition builds :: "'g gen_result \<Rightarrow> bmodule \<Rightarrow> InstrTy \<Rightarrow> bexpr list \<Rightarrow> bool" where
  "builds r m i cs \<longleftrightarrow>
     (\<exists>e m' g'. r = Some (Some e, m', g') \<and> kids e = map Some cs \<and> instance_of i e \<and> adds_tables m m')"

lemma builds_Some: "builds (Some (Some e, mg)) m i cs \<longleftrightarrow>
    kids e = map Some cs \<and> instance_of i e \<and> adds_tables m (fst mg)"
  by (cases mg) (simp add: builds_def)

lemma realises_simps:
  "realises i (Load atm by sg off al t p mem) \<longleftrightarrow> expr_id i = LoadId \<and> by = ucast (mem_bytes i) \<and> sg = (mem_signed i \<noteq> 0)"
  "realises i (Store atm by off al p v t mem) \<longleftrightarrow> expr_id i = StoreId \<and> by = ucast (mem_bytes i)"
  "realises i (Const l) \<longleftrightarrow> expr_id i = ConstId \<and> lit_type l = opd_type i"
  "realises i (Unary op v) \<longleftrightarrow> expr_id i = UnaryId \<and> op = opt_type i"
  "realises i (Binary op v w) \<longleftrightarrow> expr_id i = BinaryId \<and> op = opt_type i"
  "realises i (Select v w x) \<longleftrightarrow> expr_id i = SelectId" "realises i (Drop v) \<longleftrightarrow> expr_id i = DropId"
  "realises i (MemorySize nm b) \<longleftrightarrow> expr_id i = MemorySizeId"
  "realises i (MemoryGrow v nm b) \<longleftrightarrow> expr_id i = MemoryGrowId" "realises i Nop \<longleftrightarrow> expr_id i = NopId"
  "realises i (SIMDExtract op v k) \<longleftrightarrow> expr_id i = SIMDExtractId \<and> op = opt_type i"
  "realises i (SIMDReplace op v k w) \<longleftrightarrow> expr_id i = SIMDReplaceId \<and> op = opt_type i"
  "realises i (SIMDShuffle v w ms) \<longleftrightarrow> expr_id i = SIMDShuffleId"
  "realises i (SIMDTernary op v w x) \<longleftrightarrow> expr_id i = SIMDTernaryId \<and> op = opt_type i"
  "realises i (SIMDShift op v w) \<longleftrightarrow> expr_id i = SIMDShiftId \<and> op = opt_type i"
  "realises i (SIMDLoad op off al p mem) \<longleftrightarrow> expr_id i = SIMDLoadId \<and> op = opt_type i"
  "realises i (SIMDLoadStoreLane op off al k p v mem) \<longleftrightarrow> expr_id i = SIMDLoadStoreLaneId \<and> op = opt_type i"
  "realises i (MemoryInit nm v w x mem) \<longleftrightarrow> expr_id i = MemoryInitId"
  "realises i (DataDrop nm) \<longleftrightarrow> expr_id i = DataDropId"
  "realises i (MemoryCopy v w x nm mem) \<longleftrightarrow> expr_id i = MemoryCopyId"
  "realises i (MemoryFill v w x mem) \<longleftrightarrow> expr_id i = MemoryFillId"
  "realises i (RefNull t) \<longleftrightarrow> expr_id i = RefNullId" "realises i (RefIsNull v) \<longleftrightarrow> expr_id i = RefIsNullId"
  "realises i (RefFunc nm) \<longleftrightarrow> expr_id i = RefFuncId" "realises i (TableGet nm v t) \<longleftrightarrow> expr_id i = TableGetId"
  "realises i (TableSet nm v w) \<longleftrightarrow> expr_id i = TableSetId" "realises i (TableSize nm) \<longleftrightarrow> expr_id i = TableSizeId"
  "realises i (TableGrow nm v w) \<longleftrightarrow> expr_id i = TableGrowId"
  by (auto simp: realises_def expr_id_of_def)

lemma instance_simps:
  "instance_of i (Load atm by sg off al t p mem) \<longleftrightarrow> expr_id i = LoadId \<and> by = ucast (mem_bytes i) \<and> sg = (mem_signed i \<noteq> 0) \<and> t = opd_type i"
  "instance_of i (Store atm by off al p v t mem) \<longleftrightarrow> expr_id i = StoreId \<and> by = ucast (mem_bytes i) \<and> t = opd_type i"
  "instance_of i (Const l) \<longleftrightarrow> expr_id i = ConstId \<and> lit_type l = opd_type i"
  "instance_of i (Unary op v) \<longleftrightarrow> expr_id i = UnaryId \<and> op = opt_type i"
  "instance_of i (Binary op v w) \<longleftrightarrow> expr_id i = BinaryId \<and> op = opt_type i"
  "instance_of i (Select v w x) \<longleftrightarrow> expr_id i = SelectId" "instance_of i (Drop v) \<longleftrightarrow> expr_id i = DropId"
  "instance_of i (MemorySize nm b) \<longleftrightarrow> expr_id i = MemorySizeId \<and> \<not> b"
  "instance_of i (MemoryGrow v nm b) \<longleftrightarrow> expr_id i = MemoryGrowId \<and> \<not> b" "instance_of i Nop \<longleftrightarrow> expr_id i = NopId"
  "instance_of i (SIMDExtract op v k) \<longleftrightarrow> expr_id i = SIMDExtractId \<and> op = opt_type i"
  "instance_of i (SIMDReplace op v k w) \<longleftrightarrow> expr_id i = SIMDReplaceId \<and> op = opt_type i"
  "instance_of i (SIMDShuffle v w ms) \<longleftrightarrow> expr_id i = SIMDShuffleId"
  "instance_of i (SIMDTernary op v w x) \<longleftrightarrow> expr_id i = SIMDTernaryId \<and> op = opt_type i"
  "instance_of i (SIMDShift op v w) \<longleftrightarrow> expr_id i = SIMDShiftId \<and> op = opt_type i"
  "instance_of i (SIMDLoad op off al p mem) \<longleftrightarrow> expr_id i = SIMDLoadId \<and> op = opt_type i"
  "instance_of i (SIMDLoadStoreLane op off al k p v mem) \<longleftrightarrow> expr_id i = SIMDLoadStoreLaneId \<and> op = opt_type i"
  "instance_of i (MemoryInit nm v w x mem) \<longleftrightarrow> expr_id i = MemoryInitId"
  "instance_of i (DataDrop nm) \<longleftrightarrow> expr_id i = DataDropId"
  "instance_of i (MemoryCopy v w x nm mem) \<longleftrightarrow> expr_id i = MemoryCopyId"
  "instance_of i (MemoryFill v w x mem) \<longleftrightarrow> expr_id i = MemoryFillId"
  "instance_of i (RefNull t) \<longleftrightarrow> expr_id i = RefNullId \<and> t = (if opd_type i = TypeFuncref then TypeNullFuncref
     else if opd_type i = TypeExternref then TypeNullExternref else opd_type i)" "instance_of i (RefIsNull v) \<longleftrightarrow> expr_id i = RefIsNullId"
  "instance_of i (RefFunc nm) \<longleftrightarrow> expr_id i = RefFuncId" "instance_of i (TableGet nm v t) \<longleftrightarrow> expr_id i = TableGetId \<and> t = opd_type i"
  "instance_of i (TableSet nm v w) \<longleftrightarrow> expr_id i = TableSetId" "instance_of i (TableSize nm) \<longleftrightarrow> expr_id i = TableSizeId"
  "instance_of i (TableGrow nm v w) \<longleftrightarrow> expr_id i = TableGrowId"
  by (auto simp: instance_of_def realises_simps)

lemma builds_plain:
  assumes "expr_id i = UnaryId \<and> length cs = 1 \<or> expr_id i = BinaryId \<and> length cs = 2 \<or>
           expr_id i = SelectId \<and> length cs = 3 \<or> expr_id i = DropId \<and> length cs = 1 \<or>
           expr_id i = MemorySizeId \<and> cs = [] \<or> expr_id i = MemoryGrowId \<and> length cs = 1 \<or>
           expr_id i = NopId \<and> cs = []" and "m_memories m \<noteq> []"
  shows "builds (wasm_generate_one_simple_expr B U R i (map Some cs) m g) m i cs"
  using assms
  by (elim disjE conjE) (auto simp: length_1_2_3 wasm_generate_one_simple_expr_def gen_plain_def ensure_memory_present
       builds_Some kids_simps instance_simps)

lemma builds_load_store:
  assumes "expr_id i = LoadId \<and> length cs = 1 \<or> expr_id i = StoreId \<and> length cs = 2" and "m_memories m \<noteq> []"
  shows "builds (wasm_generate_one_simple_expr B U R i (map Some cs) m g) m i cs"
  using assms
  by (elim disjE conjE) (auto simp: length_1_2_3 wasm_generate_one_simple_expr_def gen_load_store_def ensure_memory_present
       builds_Some kids_simps instance_simps case_prod_unfold Let_def)

lemma builds_simd:
  assumes "expr_id i = SIMDExtractId \<and> length cs = 1 \<or> expr_id i = SIMDReplaceId \<and> length cs = 2 \<or>
           expr_id i = SIMDShuffleId \<and> length cs = 2 \<or> expr_id i = SIMDTernaryId \<and> length cs = 3 \<or>
           expr_id i = SIMDShiftId \<and> length cs = 2"
  shows "builds (wasm_generate_one_simple_expr B U R i (map Some cs) m g) m i cs"
  using assms
  by (elim disjE conjE) (auto simp: length_1_2_3 wasm_generate_one_simple_expr_def gen_simd_def
       builds_Some kids_simps instance_simps case_prod_unfold Let_def)

lemma builds_simd_mem:
  assumes "expr_id i = SIMDLoadId \<and> length cs = 1 \<or> expr_id i = SIMDLoadStoreLaneId \<and> length cs = 2"
    and "m_memories m \<noteq> []"
  shows "builds (wasm_generate_one_simple_expr B U R i (map Some cs) m g) m i cs"
  using assms
  by (elim disjE conjE) (auto simp: length_1_2_3 wasm_generate_one_simple_expr_def gen_simd_mem_def ensure_memory_present
       builds_Some kids_simps instance_simps case_prod_unfold Let_def)

lemma builds_bulk:
  assumes "expr_id i \<in> set [MemoryInitId, MemoryCopyId, MemoryFillId] \<and> length cs = 3 \<or> expr_id i = DataDropId \<and> cs = []"
    and "m_memories m \<noteq> []" and "m_segments m \<noteq> []"
  shows "builds (wasm_generate_one_simple_expr B U R i (map Some cs) m g) m i cs"
  using assms
  by (auto simp: length_1_2_3 wasm_generate_one_simple_expr_def gen_bulk_def ensure_memory_present
       builds_Some kids_simps instance_simps case_prod_unfold Let_def)

lemma builds_table:
  assumes "expr_id i = TableGetId \<and> length cs = 1 \<or> expr_id i = TableSetId \<and> length cs = 2 \<or>
           expr_id i = TableSizeId \<and> cs = [] \<or> expr_id i = TableGrowId \<and> length cs = 2"
  shows "builds (wasm_generate_one_simple_expr B U R i (map Some cs) m g) m i cs"
  using assms
  by (elim disjE conjE) (auto simp: length_1_2_3 wasm_generate_one_simple_expr_def gen_table_def adds_tables_target
       builds_Some kids_simps instance_simps case_prod_unfold Let_def)

lemma builds_const:
  assumes "expr_id i = ConstId" and "opd_type i \<in> set num_types"
  shows "builds (wasm_generate_one_simple_expr B U R i (map Some []) m g) m i []"
  using assms gen_const_type [OF assms(2), of U R g]
  by (auto simp: wasm_generate_one_simple_expr_def
       builds_Some kids_simps instance_simps case_prod_unfold Let_def)

context bounded_rng
begin

lemma builds_ref:
  assumes "expr_id i \<in> set [RefNullId, RefFuncId] \<and> cs = [] \<or> expr_id i = RefIsNullId \<and> length cs = 1"
    and "0 < length (m_funcs m)" and "length (m_funcs m) < 2 ^ 32"
  shows "builds (wasm_generate_one_simple_expr B U R i (map Some cs) m g) m i cs"
proof -
  have n: "unat (of_nat (length (m_funcs m)) :: u32) = length (m_funcs m)"
    using assms(3) by (simp add: unat_of_nat)
  then have "unat (fst (ro_rand_below R g (of_nat (length (m_funcs m))))) < length (m_funcs m)"
    using rand_below_less [of "of_nat (length (m_funcs m))" g] assms(2) by (simp add: word_less_nat_alt)
  then show ?thesis
    using assms(1)
    by (auto simp: length_1_2_3 wasm_generate_one_simple_expr_def gen_ref_def
       builds_Some kids_simps instance_simps case_prod_unfold Let_def)
qed

lemma generate_builds:
  assumes "instr_sig i = Some (req, pro)" and "length cs = length req"
    and "m_memories m \<noteq> []" and "m_segments m \<noteq> []"
    and "0 < length (m_funcs m)" and "length (m_funcs m) < 2 ^ 32"
  shows "builds (wasm_generate_one_simple_expr B U R i (map Some cs) m g) m i cs"
proof (cases "instr_opd i")
  case (OptType op)
  then have "opt_sig (expr_id i) op = Some (req, pro)"
    using assms(1) by (simp add: instr_sig_def split: if_splits)
  from opt_sig_kinds [OF this] consider
      "expr_id i = UnaryId \<and> length cs = 1 \<or> expr_id i = BinaryId \<and> length cs = 2"
    | "expr_id i = SIMDExtractId \<and> length cs = 1 \<or> expr_id i = SIMDReplaceId \<and> length cs = 2 \<or>
       expr_id i = SIMDTernaryId \<and> length cs = 3 \<or> expr_id i = SIMDShiftId \<and> length cs = 2"
    | "expr_id i = SIMDLoadId \<and> length cs = 1 \<or> expr_id i = SIMDLoadStoreLaneId \<and> length cs = 2"
    using assms(2) by auto
  then show ?thesis
  proof cases
    case 1
    then show ?thesis using assms(3) by (intro builds_plain) blast+
  next
    case 2
    then show ?thesis by (intro builds_simd) blast
  next
    case 3
    then show ?thesis using assms(3) by (rule builds_simd_mem)
  qed
next
  case (OpdType t)
  then have "opd_sig (expr_id i) t (mem_bytes i) (mem_signed i) = Some (req, pro)"
    using assms(1) by (simp add: instr_sig_def)
  from opd_sig_kinds [OF this] consider
      "expr_id i \<in> set [MemorySizeId, NopId] \<and> cs = [] \<or> expr_id i \<in> set [DropId, MemoryGrowId] \<and> length cs = 1 \<or>
       expr_id i = SelectId \<and> length cs = 3"
    | "expr_id i = ConstId" "t \<in> set num_types" "cs = []"
    | "expr_id i = LoadId \<and> length cs = 1 \<or> expr_id i = StoreId \<and> length cs = 2"
    | "expr_id i \<in> set [RefNullId, RefFuncId] \<and> cs = [] \<or> expr_id i = RefIsNullId \<and> length cs = 1"
    | "expr_id i = TableGetId \<and> length cs = 1 \<or> expr_id i = TableSetId \<and> length cs = 2 \<or>
       expr_id i = TableSizeId \<and> cs = [] \<or> expr_id i = TableGrowId \<and> length cs = 2"
    | "expr_id i = SIMDShuffleId \<and> length cs = 2"
    | "expr_id i \<in> set [MemoryInitId, MemoryCopyId, MemoryFillId] \<and> length cs = 3 \<or> expr_id i = DataDropId \<and> cs = []"
    using assms(2) by auto
  then show ?thesis
  proof cases
    case 1
    then show ?thesis using assms(3) by (intro builds_plain) (simp, blast, simp)
  next
    case 2
    then show ?thesis using builds_const [of i B U R m g] OpdType by (simp add: opd_type_def)
  next
    case 3
    then show ?thesis using assms(3) by (rule builds_load_store)
  next
    case 4
    then show ?thesis using assms(5,6) by (rule builds_ref)
  next
    case 5
    then show ?thesis by (rule builds_table)
  next
    case 6
    then show ?thesis by (intro builds_simd) simp
  next
    case 7
    then show ?thesis using assms(3,4) by (rule builds_bulk)
  qed
qed

end

section \<open>Reading the type back\<close>

text \<open>
  What the round trip relies on from Binaryen: the type it infers for a node whose operands are
  all reachable.
\<close>

definition typed_node :: "(bexpr \<Rightarrow> btype) \<Rightarrow> bexpr \<Rightarrow> bool" where
  "typed_node ty e \<longleftrightarrow>
     (case e of
        Const l \<Rightarrow> ty e = lit_type l
      | Load atm by sg off al t p mem \<Rightarrow> ty e = t
      | Select t f c \<Rightarrow> ty e = ty t
      | MemorySize nm is64 \<Rightarrow> ty e = (if is64 then TypeInt64 else TypeInt32)
      | MemoryGrow d nm is64 \<Rightarrow> ty e = (if is64 then TypeInt64 else TypeInt32)
      | Nop \<Rightarrow> ty e = TypeNone
      | SIMDShuffle l r ms \<Rightarrow> ty e = TypeVec128
      | MemoryInit seg d off n mem \<Rightarrow> ty e = TypeNone
      | DataDrop seg \<Rightarrow> ty e = TypeNone
      | MemoryCopy d s n dm sm \<Rightarrow> ty e = TypeNone
      | MemoryFill d v n mem \<Rightarrow> ty e = TypeNone
      | RefNull t \<Rightarrow> ty e = t
      | TableGet tbl i t \<Rightarrow> ty e = t
      | TableSize tbl \<Rightarrow> ty e = TypeInt32
      | _ \<Rightarrow> True)"

definition binaryen_typing :: "(bexpr \<Rightarrow> btype) \<Rightarrow> bool" where
  "binaryen_typing ty \<longleftrightarrow>
     (\<forall>e. list_all (\<lambda>k. case k of Some d \<Rightarrow> ty d \<noteq> TypeUnreachable | None \<Rightarrow> True) (kids e) \<longrightarrow> typed_node ty e)"

lemma get_single_type:
  "ty d \<in> set (num_types @ ref_types) \<Longrightarrow> wasm_get_single_type ty (Some d) = ty d"
  by (auto simp: wasm_get_single_type_def Let_def)

lemma instr_eqI:
  assumes "hash_ok c i" and "instr_opd i = instr_opd j" and "expr_id i = expr_id j"
    and "mem_bytes i = mem_bytes j" and "mem_signed i = mem_signed j"
  shows "hashed c j = i"
  using assms by (cases i, cases j) (auto simp: hash_ok_def hashed_def instr_hash_def instr_bytes_def)

lemma sig_opt:
  assumes "instr_sig i = Some (req, pro)" and "instr_opd i = OptType op"
  shows "mem_bytes i = 0" "mem_signed i = 0" "opt_sig (expr_id i) op = Some (req, pro)" "opt_type i = op"
  using assms by (auto simp: instr_sig_def opt_type_def split: if_splits)

lemma sig_opd:
  assumes "instr_sig i = Some (req, pro)" and "instr_opd i = OpdType t"
  shows "opd_sig (expr_id i) t (mem_bytes i) (mem_signed i) = Some (req, pro)" "opd_type i = t"
  using assms by (auto simp: instr_sig_def opd_type_def)

lemma get_instr_opt:
  assumes "instr_sig i = Some (req, pro)" and "instr_opd i = OptType op" and "hash_ok c i" and "realises i e"
  shows "wasm_get_instr_type c ty e = i"
proof -
  note o = sig_opt [OF assms(1,2)]
  have "wasm_get_instr_type c ty e = hashed c (opt_instr (expr_id i) op)"
    using opt_sig_kinds [OF o(3)] assms(4) o(4)
    by (cases e) (auto simp: realises_def expr_id_of_def wasm_get_instr_type_def)
  also have "\<dots> = i" using assms o by (intro instr_eqI) (simp_all add: opt_instr_def)
  finally show ?thesis .
qed

lemma ucast_u8_u32_u8 [simp]: "ucast (ucast (b :: u8) :: u32) = b"
  by (rule bit_word_eqI) (auto simp: bit_ucast_iff)

lemma opd_sig_mem:
  assumes "opd_sig k t bytes sign = Some (req, pro)"
  shows "k = LoadId \<and> sign \<in> {0, 1} \<and> req = [TypeInt32] \<and> t \<in> set num_types \<or>
         k = StoreId \<and> sign = 0 \<and> req = [TypeInt32, t] \<and> t \<in> set num_types \<or>
         k \<noteq> LoadId \<and> k \<noteq> StoreId \<and> bytes = 0 \<and> sign = 0"
  using assms by (cases k) (auto simp: opd_sig_def sig_if_def access_ok_def split: if_splits)

lemma opd_sig_values:
  assumes "opd_sig k t bytes sign = Some (req, pro)"
  shows "k \<in> set [ConstId, SelectId, DropId, RefNullId, RefIsNullId, TableGetId, TableSetId, TableGrowId] \<and>
           t \<in> set (num_types @ ref_types) \<and>
           (k = SelectId \<longrightarrow> req = [t, t, TypeInt32]) \<and> (k \<in> set [DropId, RefIsNullId] \<longrightarrow> req = [t]) \<and>
           (k = TableSetId \<longrightarrow> req = [TypeInt32, t]) \<and> (k = TableGrowId \<longrightarrow> req = [t, TypeInt32]) \<and>
           (k = RefNullId \<longrightarrow> t \<in> set ref_types) \<or>
         k \<in> set [TableSizeId, MemorySizeId, MemoryGrowId] \<and> t = TypeInt32 \<or> k = RefFuncId \<and> t = TypeFuncref \<or>
         k \<in> set [MemoryFillId, MemoryCopyId, MemoryInitId, DataDropId, NopId] \<and> t = TypeNone \<or>
         k = SIMDShuffleId \<and> t = TypeVec128 \<or> k = LoadId \<or> k = StoreId"
  using assms by (cases k) (auto simp: opd_sig_def sig_if_def split: if_splits)

lemma get_instr_opd:
  assumes "instr_sig i = Some (req, pro)" and "instr_opd i = OpdType t" and "hash_ok c i" and "instance_of i e"
    and "kids e = map Some cs" and "map ty cs = req" and "typed_node ty e"
  shows "wasm_get_instr_type c ty e = i"
proof -
  note o = sig_opd [OF assms(1,2)]
  have "wasm_get_instr_type c ty e =
      hashed c ((opd_instr (expr_id i) t)\<lparr> mem_bytes := mem_bytes i, mem_signed := mem_signed i \<rparr>)"
    using opd_sig_values [OF o(1)] opd_sig_mem [OF o(1)] assms(4-7) o(2)
    by (cases e) (auto simp: instance_of_def realises_def expr_id_of_def wasm_get_instr_type_def opd_instr_def
        typed_node_def kids_simps get_single_type split: if_splits)
  also have "\<dots> = i" using assms by (intro instr_eqI) (simp_all add: opd_instr_def)
  finally show ?thesis .
qed

lemma get_instr_instance:
  assumes "instr_sig i = Some (req, pro)" and "hash_ok c i" and "instance_of i e"
    and "kids e = map Some cs" and "map ty cs = req" and "typed_node ty e"
  shows "wasm_get_instr_type c ty e = i"
proof (cases "instr_opd i")
  case (OptType op)
  then show ?thesis using assms(3) by (intro get_instr_opt [OF assms(1) _ assms(2)]) (simp_all add: instance_of_def)
next
  case (OpdType t)
  then show ?thesis using get_instr_opd [OF assms(1) _ assms(2-6)] by simp
qed

lemma grps_reachable: "list_all (\<lambda>g. TypeUnreachable \<notin> set (required g)) (wasm_init_instr_grps c)"
  by (simp add: grps_defs)

section \<open>Property\<close>


text \<open>A typing for the evaluation.\<close>

fun demo_type :: "bexpr \<Rightarrow> btype" where
  "demo_type e =
     (case e of
        Const l \<Rightarrow> lit_type l | Load atm by sg off al t p mem \<Rightarrow> t | Select t f c \<Rightarrow> demo_type t
      | MemorySize nm is64 \<Rightarrow> if is64 then TypeInt64 else TypeInt32
      | MemoryGrow d nm is64 \<Rightarrow> if is64 then TypeInt64 else TypeInt32
      | SIMDShuffle l r ms \<Rightarrow> TypeVec128 | RefNull t \<Rightarrow> t | TableGet tbl i t \<Rightarrow> t | TableSize tbl \<Rightarrow> TypeInt32
      | _ \<Rightarrow> TypeNone)"

declare demo_type.simps [simp del]

lemma demo_typing: "binaryen_typing demo_type"
  unfolding binaryen_typing_def
proof (intro allI impI)
  fix e show "typed_node demo_type e"
    by (cases e) (simp_all add: typed_node_def demo_type.simps [of e] demo_type.simps)
qed

text \<open>A numbering of the API for the evaluation: it tells \<^verbatim>\<open>nop\<close> from the other kinds.\<close>

definition demo_codes :: api_codes where
  "demo_codes = \<lparr> id_code = (\<lambda>k. if k = NopId then 1 else 0), type_code = (\<lambda>_. 0), op_code = (\<lambda>_. 0) \<rparr>"

lemma demo_add_entry:
  "wasm_init_instr_grps c ! 8 \<in> set (wasm_init_instr_grps c)"
  "FILL_INSTR_TYPE_OPT c BinaryId AddInt32 \<in> set (groups (wasm_init_instr_grps c ! 8))"
  "required (wasm_init_instr_grps c ! 8) = [TypeInt32, TypeInt32]"
  by (simp_all add: grps_defs)


end
