(* ===== verification/Wasm_Operators.thy ===== *)
theory Wasm_Operators
  imports Wasm_Generate
begin

text \<open>
  The operator mutation, \<^verbatim>\<open>wasm_operators_mutate\<close> of \<^verbatim>\<open>mutator_func.c\<close>: an instruction is replaced by
  another one of its group. An instruction of the same kind is changed in place, otherwise a
  new node is built around the old operands.
\<close>

definition OPERATOR_MUTATION_MAX :: u32 where
  "OPERATOR_MUTATION_MAX = 10"

record op_env =
  oe_binaryen :: binaryen_env
  oe_uninit :: uninit
  oe_codes :: api_codes

abbreviation oe_grps :: "op_env \<Rightarrow> InstrGrp list" where
  "oe_grps V \<equiv> wasm_init_instr_grps (oe_codes V)"

abbreviation oe_instr :: "op_env \<Rightarrow> bexpr \<Rightarrow> InstrTy" where
  "oe_instr V \<equiv> wasm_get_instr_type (oe_codes V) (be_type (oe_binaryen V))"

section \<open>One node\<close>

text \<open>The \<^verbatim>\<open>do\<close>-\<^verbatim>\<open>while\<close> loop that draws a member with another hash, with \<open>left\<close> attempts to go.\<close>

fun choose_instr :: "'g rand_ops \<Rightarrow> InstrTy list \<Rightarrow> u64 \<Rightarrow> nat \<Rightarrow> 'g \<Rightarrow> InstrTy \<times> 'g" where
  "choose_instr R grp h left g =
     (let (selected, g1) = ro_rand_below R g (of_nat (length grp));
          new_instr_ty = grp ! unat selected
      in if hash_value new_instr_ty = h \<and> 1 < left then choose_instr R grp h (left - 1) g1
         else (new_instr_ty, g1))"

declare choose_instr.simps [simp del]

text \<open>
  What happens to the node \<open>e\<close> with the children \<open>child\<close>: the new node if there is one. A NULL
  expression from the generator cannot be installed, Binaryen stops on it.
\<close>

definition operator_mutation ::
  "op_env \<Rightarrow> 'g rand_ops \<Rightarrow> bexpr \<Rightarrow> bexpr option list \<Rightarrow> 'g pass_state \<Rightarrow> (bexpr option \<times> 'g pass_state) option" where
  "operator_mutation V R e child s =
     (let instr_ty = oe_instr V e
      in case wasm_find_instr_grps (oe_grps V) instr_ty of
           None \<Rightarrow> Some (None, s)
         | Some k \<Rightarrow>
             (let grp = groups (oe_grps V ! k)
              in if length grp \<le> 1 then Some (None, s)
                 else
                   (let (r, g1) = ro_rand_below R (ps_rng s) 10
                    in if r \<noteq> 0 then Some (None, s\<lparr> ps_rng := g1 \<rparr>)
                       else
                         (let (new_ty, g2) = choose_instr R grp (hash_value instr_ty) (length grp * 2) g1
                          in if hash_value new_ty = hash_value instr_ty then Some (None, s\<lparr> ps_rng := g2 \<rparr>)
                             else if expr_id new_ty = expr_id instr_ty then
                               (let (e', g3) = wasm_substitute_expr_fields R e new_ty g2
                                in Some (Some e', s\<lparr> ps_cnt := ps_cnt s + 1, ps_rng := g3 \<rparr>))
                             else
                               (case wasm_generate_one_simple_expr (oe_binaryen V) (oe_uninit V) R new_ty child
                                       (ps_mod s) g2 of
                                  Some (Some e', m', g3) \<Rightarrow>
                                    Some (Some e', s\<lparr> ps_mod := m', ps_cnt := ps_cnt s + 1, ps_rng := g3 \<rparr>)
                                | _ \<Rightarrow> None)))))"

text \<open>Install the result at path \<open>p\<close> of function \<open>idx\<close>.\<close>

definition install :: "nat \<Rightarrow> nat list \<Rightarrow> bexpr option \<times> 'g pass_state \<Rightarrow> 'g pass_state" where
  "install idx p res =
     (case res of
        (None, s) \<Rightarrow> s
      | (Some e', s) \<Rightarrow>
          s\<lparr> ps_mod := set_body idx (set_node (the (f_body (m_funcs (ps_mod s) ! idx))) p e') (ps_mod s) \<rparr>)"

section \<open>The pass\<close>

text \<open>The loop over the children \<open>cs\<close> of the node at \<open>p\<close>, from index \<open>ind\<close> on.\<close>

fun operator_children ::
  "op_env \<Rightarrow> 'g rand_ops \<Rightarrow> pass_allocs \<Rightarrow> nat \<Rightarrow> nat list \<Rightarrow> nat \<Rightarrow> bexpr option list \<Rightarrow> 'g pass_state \<Rightarrow>
   'g pass_state option" where
  "operator_children V R A idx p ind [] s = Some s"
| "operator_children V R A idx p ind (ch # cs) s =
     (case ch of
        None \<Rightarrow> operator_children V R A idx p (Suc ind) cs s
      | Some e \<Rightarrow>
          Option.bind
            (operator_mutation V R e (wasm_get_children_expr (rm_al A idx (p @ [ind])) (Some e)) s)
            (\<lambda>res. operator_children V R A idx p (Suc ind) cs (install idx (p @ [ind]) res)))"

definition operators_visit ::
  "op_env \<Rightarrow> 'g rand_ops \<Rightarrow> pass_allocs \<Rightarrow> u32 \<Rightarrow> nat \<Rightarrow> 'g pass_state \<Rightarrow> nat list \<Rightarrow>
   (bool \<times> nat list list \<times> 'g pass_state) option" where
  "operators_visit V R A max_cnt idx s p =
     (case f_body (m_funcs (ps_mod s) ! idx) of
        None \<Rightarrow> None
      | Some b \<Rightarrow>
          (case node_at b p of
             None \<Rightarrow> None
           | Some el \<Rightarrow>
               (let cs = wasm_get_children_expr (rm_al A idx p) (Some el)
                in Option.bind
                     (if p = [] then map_option (install idx p) (operator_mutation V R el cs s) else Some s)
                     (\<lambda>s1. map_option (\<lambda>s2. (ps_cnt s2 \<ge> max_cnt, child_paths p cs, s2))
                              (operator_children V R A idx p 0 cs s1)))))"

definition wasm_operators_mutate ::
  "op_env \<Rightarrow> 'g rand_ops \<Rightarrow> pass_allocs \<Rightarrow> bmodule \<Rightarrow> nameGrp \<times> 'g \<Rightarrow>
   ((u32 \<times> bmodule) \<times> nameGrp \<times> 'g) option" where
  "wasm_operators_mutate V R A = run_pass R A OPERATOR_MUTATION_MAX (operators_visit V R A)"

section \<open>All nodes of an expression\<close>

function subnodes :: "bexpr \<Rightarrow> bexpr list" where
  "subnodes e = e # concat (map (\<lambda>k. case k of Some d \<Rightarrow> subnodes d | None \<Rightarrow> []) (kids e))"
  by pat_completeness auto
termination
  by (relation "measure size") (auto intro: kids_size)

declare subnodes.simps [simp del]

lemma subnodes_self [simp]: "e \<in> set (subnodes e)"
  by (simp add: subnodes.simps [of e])

lemma node_at_subnodes: "node_at e p = Some d \<Longrightarrow> d \<in> set (subnodes e)"
proof (induction e p rule: node_at.induct)
  case (2 e i p)
  then obtain x where x: "i < length (kids e)" "kids e ! i = Some x" "node_at x p = Some d"
    by (auto split: if_splits option.splits)
  moreover have "Some x \<in> set (kids e)" using x(1,2) by (metis nth_mem)
  ultimately have "d \<in> set (subnodes x)" using 2 by simp
  with \<open>Some x \<in> set (kids e)\<close> show ?case by (force simp: subnodes.simps [of e])
qed simp

section \<open>What the pass relies on\<close>

text \<open>
  The table is searched by hash, so the pass relies on the hash to tell the instructions of the
  module from the other entries of the table.
\<close>

definition hash_separates :: "op_env \<Rightarrow> bexpr \<Rightarrow> bool" where
  "hash_separates V e \<longleftrightarrow>
     list_all (\<lambda>g. list_all (\<lambda>i. hash_value i \<noteq> hash_value (oe_instr V e) \<or> i = oe_instr V e) (groups g))
       (oe_grps V)"

definition node_ok :: "op_env \<Rightarrow> nat \<Rightarrow> bexpr \<Rightarrow> bool" where
  "node_ok V N e \<longleftrightarrow> hash_separates V e \<and> length (kids e) \<le> N"

text \<open>A module whose nodes are told apart, have at most \<open>N\<close> children, and that has a memory with a segment.\<close>

definition op_module_ok :: "op_env \<Rightarrow> nat \<Rightarrow> bmodule \<Rightarrow> bool" where
  "op_module_ok V N m \<longleftrightarrow>
     list_all (\<lambda>b. case b of Some e \<Rightarrow> list_all (node_ok V N) (subnodes e) | None \<Rightarrow> True) (bodies m) \<and>
     m_memories m \<noteq> [] \<and> m_segments m \<noteq> [] \<and> length (m_funcs m) < 2 ^ 32"

text \<open>One change of the pass: the operands stay, the new instruction is of the old one's group.\<close>

definition op_step :: "op_env \<Rightarrow> bexpr \<Rightarrow> bexpr \<Rightarrow> bool" where
  "op_step V e e' \<longleftrightarrow> kids e' = kids e \<and>
     (\<exists>g \<in> set (oe_grps V). oe_instr V e \<in> set (groups g) \<and>
        (\<exists>j \<in> set (groups g). realises j e' \<and> hash_value j \<noteq> hash_value (oe_instr V e)))"

section \<open>Lemmas\<close>

lemma find_grp_from_Some:
  "find_grp_from gs i h = Some k \<Longrightarrow>
     i \<le> k \<and> k - i < length gs \<and> (\<exists>j \<in> set (groups (gs ! (k - i))). hash_value j = h)"
proof (induction gs arbitrary: i)
  case (Cons g gs)
  show ?case
  proof (cases "list_ex (\<lambda>cur. h = hash_value cur) (groups g)")
    case True
    then show ?thesis using Cons.prems by (auto simp: list_ex_iff)
  next
    case False
    then have "Suc i \<le> k \<and> k - Suc i < length gs \<and> (\<exists>j \<in> set (groups (gs ! (k - Suc i))). hash_value j = h)"
      using Cons.IH [of "Suc i"] Cons.prems by simp
    moreover from this [THEN conjunct1] have "k - i = Suc (k - Suc i)" by arith
    ultimately show ?thesis by auto
  qed
qed simp

lemma find_instr_grp:
  assumes "hash_separates V e" and "wasm_find_instr_grps (oe_grps V) (oe_instr V e) = Some k"
  shows "k < length (oe_grps V) \<and> oe_instr V e \<in> set (groups (oe_grps V ! k))"
proof -
  have k: "k < length (oe_grps V)" "\<exists>j \<in> set (groups (oe_grps V ! k)). hash_value j = hash_value (oe_instr V e)"
    using find_grp_from_Some [of "oe_grps V" 0] assms(2) by (auto simp: wasm_find_instr_grps_def)
  with assms(1) show ?thesis by (auto simp: hash_separates_def list_all_iff)
qed

lemma expr_id_get_instr [simp]: "expr_id (wasm_get_instr_type c ty e) = expr_id_of e"
  by (cases e) (simp_all add: wasm_get_instr_type_def hashed_def opd_instr_def opt_instr_def expr_id_of_def)

lemma sig_operands:
  assumes "instr_sig i = Some (req, pro)" and "expr_id_of e = expr_id i"
  shows "\<exists>cs. kids e = map Some cs \<and> length cs = length req"
proof (cases "instr_opd i")
  case (OptType op)
  from opt_sig_kinds [OF sig_opt(3) [OF assms(1) OptType]] assms(2) show ?thesis
    by (cases e) (auto simp: expr_id_of_def kids_simps intro: exI [of _ "[_]"] exI [of _ "[_, _]"] exI [of _ "[_, _, _]"])
next
  case (OpdType t)
  from opd_sig_kinds [OF sig_opd(1) [OF assms(1) OpdType]] assms(2) show ?thesis
    by (cases e) (auto simp: expr_id_of_def kids_simps intro: exI [of _ "[_]"] exI [of _ "[_, _]"] exI [of _ "[_, _, _]"])
qed

lemma substitute_kids: "kids (fst (wasm_substitute_expr_fields R e i g)) = kids e"
  by (cases e) (simp_all add: wasm_substitute_expr_fields_def kids_simps case_prod_unfold Let_def)

definition substitutable :: "expr_kind \<Rightarrow> bool" where
  "substitutable k \<longleftrightarrow> k \<in> set [UnaryId, BinaryId, SIMDExtractId, SIMDReplaceId, SIMDTernaryId, SIMDShiftId,
     SIMDLoadId, SIMDLoadStoreLaneId, LoadId, StoreId]"

lemma substitute_realises:
  assumes "expr_id_of e = expr_id i" and "substitutable (expr_id i)"
  shows "realises i (fst (wasm_substitute_expr_fields R e i g))"
  using assms
  by (cases e) (simp_all add: wasm_substitute_expr_fields_def realises_simps expr_id_of_def substitutable_def
      case_prod_unfold Let_def)

text \<open>Where the fields are not substituted, the kind and the type of the group determine the entry.\<close>

lemma opd_sig_inj:
  assumes "opd_sig k t by sg = Some s" and "opd_sig k t' by' sg' = Some s" and "\<not> substitutable k"
  shows "t = t' \<and> by = by' \<and> sg = sg'"
  using assms by (cases k) (auto simp: opd_sig_def sig_if_def substitutable_def split: if_splits)

lemma opt_sig_substitutable: "opt_sig k op = Some s \<Longrightarrow> substitutable k"
  by (cases k) (auto simp: opt_sig_def substitutable_def)

lemma same_kind_substitutable:
  assumes "instr_sig i = Some s" and "instr_sig j = Some s" and "hash_ok c i" and "hash_ok c j"
    and "expr_id i = expr_id j" and "hash_value i \<noteq> hash_value j"
  shows "substitutable (expr_id j)"
proof (rule ccontr)
  assume n: "\<not> substitutable (expr_id j)"
  obtain t t' where "instr_opd i = OpdType t" "instr_opd j = OpdType t'"
    using n assms(1,2,5) opt_sig_substitutable
    by (cases "instr_opd i"; cases "instr_opd j") (auto simp: instr_sig_def split: if_splits)
  moreover from this have "t = t'" "mem_bytes i = mem_bytes j" "mem_signed i = mem_signed j"
    using opd_sig_inj [of "expr_id j" t "mem_bytes i" "mem_signed i" s t' "mem_bytes j" "mem_signed j"] n assms(1,2,5)
    by (auto simp: instr_sig_def)
  ultimately have "instr_hash c i = instr_hash c j"
    using assms(5) by (simp add: instr_hash_def instr_bytes_def)
  with assms(3,4,6) show False by (simp add: hash_ok_def)
qed

lemma group_sizes: "list_all (\<lambda>g. length (groups g) < 2 ^ 32) (wasm_init_instr_grps c)"
  by (simp add: grps_defs)

context bounded_rng
begin

lemma choose_instr_mem:
  assumes "grp \<noteq> []" and "length grp < 2 ^ 32"
  shows "fst (choose_instr R grp h left g) \<in> set grp"
proof (induction left arbitrary: g rule: less_induct)
  case (less left)
  let ?r = "ro_rand_below R g (of_nat (length grp))"
  have n: "unat (of_nat (length grp) :: u32) = length grp" using assms(2) by (simp add: unat_of_nat)
  then have "0 < (of_nat (length grp) :: u32)" using assms(1) by (simp add: word_less_nat_alt)
  then have "unat (fst ?r) < length grp"
    using rand_below_less [of "of_nat (length grp)" g] n by (simp add: word_less_nat_alt)
  then show ?case
    using less [of "left - 1" "snd ?r"]
    by (subst choose_instr.simps) (simp add: case_prod_unfold Let_def)
qed

lemma operator_mutation_ok:
  assumes sep: "hash_separates V e" and mem: "m_memories (ps_mod s) \<noteq> []" "m_segments (ps_mod s) \<noteq> []"
    and fn: "0 < length (m_funcs (ps_mod s))" "length (m_funcs (ps_mod s)) < 2 ^ 32"
  shows "\<exists>r s'. operator_mutation V R e (kids e) s = Some (r, s') \<and> adds_tables (ps_mod s) (ps_mod s') \<and>
    (case r of None \<Rightarrow> ps_cnt s' = ps_cnt s | Some e' \<Rightarrow> ps_cnt s' = ps_cnt s + 1 \<and> op_step V e e')"
proof (cases "wasm_find_instr_grps (oe_grps V) (oe_instr V e)")
  case None
  then show ?thesis by (auto simp: operator_mutation_def)
next
  case (Some k)
  let ?t = "oe_instr V e" and ?grp = "groups (oe_grps V ! k)"
  have k: "oe_grps V ! k \<in> set (oe_grps V)" "?t \<in> set ?grp" using find_instr_grp [OF sep Some] by auto
  have len: "length ?grp < 2 ^ 32" using group_sizes [of "oe_codes V"] k(1) by (simp add: list_all_iff)
  let ?c = "choose_instr R ?grp (hash_value ?t) (length ?grp * 2) (snd (ro_rand_below R (ps_rng s) 10))"
  let ?j = "fst ?c"
  have j: "?j \<in> set ?grp" using k(2) len by (intro choose_instr_mem) auto
  have sig: "instr_sig ?t = Some (required (oe_grps V ! k), produced (oe_grps V ! k))"
    "instr_sig ?j = Some (required (oe_grps V ! k), produced (oe_grps V ! k))"
    and hash: "hash_ok (oe_codes V) ?t" "hash_ok (oe_codes V) ?j"
    using group_facts [OF k(1)] k(2) j by auto
  consider "length ?grp \<le> 1" | "length ?grp > 1" "fst (ro_rand_below R (ps_rng s) 10) \<noteq> 0"
    | "length ?grp > 1" "fst (ro_rand_below R (ps_rng s) 10) = 0" "hash_value ?j = hash_value ?t"
    | "length ?grp > 1" "fst (ro_rand_below R (ps_rng s) 10) = 0" "hash_value ?j \<noteq> hash_value ?t" "expr_id ?j = expr_id ?t"
    | "length ?grp > 1" "fst (ro_rand_below R (ps_rng s) 10) = 0" "hash_value ?j \<noteq> hash_value ?t" "expr_id ?j \<noteq> expr_id ?t"
    by linarith
  then show ?thesis
  proof cases
    case 4
    let ?e = "wasm_substitute_expr_fields R e ?j (snd ?c)"
    have "substitutable (expr_id ?j)"
      using same_kind_substitutable [OF sig hash] 4 by simp
    then have "realises ?j (fst ?e)" using 4(4) by (intro substitute_realises) simp_all
    then have "op_step V e (fst ?e)" using k j 4(3) by (auto simp: op_step_def substitute_kids)
    then show ?thesis using Some 4 by (simp add: operator_mutation_def case_prod_unfold Let_def)
  next
    case 5
    obtain cs where cs: "kids e = map Some cs" "length cs = length (required (oe_grps V ! k))"
      using sig_operands [OF sig(1), of e] by auto
    have "builds (wasm_generate_one_simple_expr (oe_binaryen V) (oe_uninit V) R ?j (kids e) (ps_mod s) (snd ?c))
            (ps_mod s) ?j cs"
      unfolding cs(1) using sig(2) cs(2) mem fn by (rule generate_builds)
    then obtain e' m' g' where e': "wasm_generate_one_simple_expr (oe_binaryen V) (oe_uninit V) R ?j (kids e)
        (ps_mod s) (snd ?c) = Some (Some e', m', g')" "kids e' = kids e" "instance_of ?j e'" "adds_tables (ps_mod s) m'"
      using cs(1) by (auto simp: builds_def)
    then have "op_step V e e'" using k j 5(3) by (auto simp: op_step_def instance_of_def)
    then show ?thesis using Some 5 e' by (simp add: operator_mutation_def case_prod_unfold Let_def)
  qed (use Some in \<open>auto simp: operator_mutation_def case_prod_unfold Let_def\<close>)
qed

end

section \<open>The pass keeps its invariant\<close>

lemma set_node_same: "node_at b p = Some e \<Longrightarrow> set_node b p e = b"
  by (induction b p e rule: set_node.induct) (auto simp: set_children_same split: if_splits option.splits)

text \<open>What the pass keeps of the module: all but the bodies, up to tables it has added.\<close>

definition op_frame :: "bmodule \<Rightarrow> bmodule \<Rightarrow> bool" where
  "op_frame m m' \<longleftrightarrow>
     m'\<lparr> m_funcs := [], m_tables := [] \<rparr> = m\<lparr> m_funcs := [], m_tables := [] \<rparr> \<and>
     map (\<lambda>f. f\<lparr> f_body := None \<rparr>) (m_funcs m') = map (\<lambda>f. f\<lparr> f_body := None \<rparr>) (m_funcs m) \<and>
     (\<exists>ts. m_tables m' = m_tables m @ ts)"

lemma op_frame_refl [simp]: "op_frame m m"
  by (simp add: op_frame_def)

lemma op_frame_mem:
  assumes "op_frame m m'"
  shows "m_memories m' = m_memories m" "m_segments m' = m_segments m" "length (m_funcs m') = length (m_funcs m)"
proof -
  have "m_memories (m'\<lparr> m_funcs := [], m_tables := [] \<rparr>) = m_memories (m\<lparr> m_funcs := [], m_tables := [] \<rparr>)"
    "m_segments (m'\<lparr> m_funcs := [], m_tables := [] \<rparr>) = m_segments (m\<lparr> m_funcs := [], m_tables := [] \<rparr>)"
    using assms by (simp_all only: op_frame_def)
  moreover have "length (map (\<lambda>f. f\<lparr> f_body := None \<rparr>) (m_funcs m')) = length (map (\<lambda>f. f\<lparr> f_body := None \<rparr>) (m_funcs m))"
    using assms by (simp only: op_frame_def)
  ultimately show "m_memories m' = m_memories m" "m_segments m' = m_segments m" "length (m_funcs m') = length (m_funcs m)"
    by simp_all
qed

lemma op_frame_adds: "op_frame m m' \<Longrightarrow> adds_tables m' m'' \<Longrightarrow> op_frame m m''"
  by (auto simp: op_frame_def adds_tables_def)

lemma adds_tables_funcs [simp]: "adds_tables m m' \<Longrightarrow> m_funcs m' = m_funcs m"
  by (auto simp: adds_tables_def)

lemma op_frame_set:
  assumes "op_frame m m'" and "idx < length (m_funcs m')"
  shows "op_frame m (set_body idx b m')"
proof -
  have "map (\<lambda>f. f\<lparr> f_body := None \<rparr>) (m_funcs (set_body idx b m')) = map (\<lambda>f. f\<lparr> f_body := None \<rparr>) (m_funcs m')"
    using assms(2) by (intro nth_equalityI) (auto simp: set_body_def nth_list_update)
  then show ?thesis using assms(1) by (simp add: op_frame_def set_body_def)
qed

lemma set_body_other: "k \<noteq> idx \<Longrightarrow> m_funcs (set_body idx b m) ! k = m_funcs m ! k"
  by (simp add: set_body_def)

abbreviation other_bodies_same :: "nat \<Rightarrow> 'g pass_state \<Rightarrow> 'g pass_state \<Rightarrow> bool" where
  "other_bodies_same idx s s' \<equiv> (\<forall>k. k \<noteq> idx \<longrightarrow> m_funcs (ps_mod s') ! k = m_funcs (ps_mod s) ! k)"

definition op_at :: "op_env \<Rightarrow> bmodule \<Rightarrow> nat \<Rightarrow> 'g pass_state \<Rightarrow> bexpr \<Rightarrow> bool" where
  "op_at V m0 idx s b \<longleftrightarrow>
     pass_done (op_step V) (op_frame m0) m0 s \<and> idx < length (m_funcs (ps_mod s)) \<and>
     f_body (m_funcs (ps_mod s) ! idx) = Some b"

context bounded_rng
begin

lemma install_ok:
  assumes s: "op_at V m0 idx s b" and e: "node_at b p = Some e" "hash_separates V e"
    and m0: "m_memories m0 \<noteq> []" "m_segments m0 \<noteq> []" "length (m_funcs m0) < 2 ^ 32"
    and cnt: "Suc (unat (ps_cnt s)) < 2 ^ 32"
  shows "\<exists>s' e'. map_option (install idx p) (operator_mutation V R e (kids e) s) = Some s' \<and>
    op_at V m0 idx s' (set_node b p e') \<and> kids e' = kids e \<and>
    unat (ps_cnt s') \<le> Suc (unat (ps_cnt s)) \<and> other_bodies_same idx s s'"
proof -
  have frame: "op_frame m0 (ps_mod s)" and rw: "node_rewrites (op_step V) (unat (ps_cnt s)) (bodies m0) (bodies (ps_mod s))"
    and idx: "idx < length (m_funcs (ps_mod s))" and b: "f_body (m_funcs (ps_mod s) ! idx) = Some b"
    using s by (auto simp: op_at_def pass_done_def)
  have "\<exists>r s1. operator_mutation V R e (kids e) s = Some (r, s1) \<and> adds_tables (ps_mod s) (ps_mod s1) \<and>
    (case r of None \<Rightarrow> ps_cnt s1 = ps_cnt s | Some e' \<Rightarrow> ps_cnt s1 = ps_cnt s + 1 \<and> op_step V e e')"
    by (rule operator_mutation_ok [OF e(2)]) (use m0 idx op_frame_mem [OF frame] in auto)
  then obtain r s1 where r: "operator_mutation V R e (kids e) s = Some (r, s1)" "adds_tables (ps_mod s) (ps_mod s1)"
    "case r of None \<Rightarrow> ps_cnt s1 = ps_cnt s | Some e' \<Rightarrow> ps_cnt s1 = ps_cnt s + 1 \<and> op_step V e e'" by blast
  note f1 = op_frame_adds [OF frame r(2)] adds_tables_funcs [OF r(2)]
  show ?thesis
  proof (cases r)
    case None
    then have "op_at V m0 idx s1 (set_node b p e)"
      using r f1 rw idx b by (simp add: op_at_def pass_done_def set_node_same [OF e(1)])
    then show ?thesis using None r f1 by (auto simp: install_def)
  next
    case (Some e')
    let ?s = "s1\<lparr> ps_mod := set_body idx (set_node b p e') (ps_mod s1) \<rparr>"
    have step: "op_step V e e'" and c: "unat (ps_cnt s1) = Suc (unat (ps_cnt s))"
      using r(3) Some cnt by (simp_all add: unat_Suc_less)
    have "node_rewrites (op_step V) (unat (ps_cnt ?s)) (bodies m0) (bodies (ps_mod ?s))"
      using rewrite_body [where P = "op_step V", OF _ _ _ e(1) step, of "unat (ps_cnt s)" m0 "ps_mod s1" idx] rw idx b f1(2) c
      by simp
    then have "op_at V m0 idx ?s (set_node b p e')"
      using op_frame_set [OF f1(1)] idx f1(2) by (simp add: op_at_def pass_done_def)
    moreover have "map_option (install idx p) (operator_mutation V R e (kids e) s) = Some ?s"
      unfolding r(1) using Some b f1(2) by (simp add: install_def)
    moreover have "kids e' = kids e" using step by (simp add: op_step_def)
    moreover have "unat (ps_cnt ?s) \<le> Suc (unat (ps_cnt s))" using c by simp
    moreover have "other_bodies_same idx s ?s" using f1(2) by (simp add: set_body_other)
    ultimately show ?thesis by (intro exI [of _ ?s] exI [of _ e'] conjI)
  qed
qed

text \<open>The loop over the children.\<close>

lemma operator_children_ok:
  assumes "op_at V m0 idx s b" and "drop ind kc = cs" and "node_at b p \<noteq> None"
    and "\<And>j c0. j < length kc \<Longrightarrow> kc ! j = Some c0 \<Longrightarrow>
      hash_separates V c0 \<and> (\<exists>c. node_at b (p @ [j]) = Some c \<and> kids c = kids c0 \<and> (ind \<le> j \<longrightarrow> c = c0))"
    and m0: "m_memories m0 \<noteq> []" "m_segments m0 \<noteq> []" "length (m_funcs m0) < 2 ^ 32"
    and al: "\<And>q. rm_al A idx q" and "unat (ps_cnt s) + length cs < 2 ^ 32"
  shows "\<exists>s' b'. operator_children V R A idx p ind cs s = Some s' \<and> op_at V m0 idx s' b' \<and>
    (\<forall>j c0. j < length kc \<longrightarrow> kc ! j = Some c0 \<longrightarrow> (\<exists>c. node_at b' (p @ [j]) = Some c \<and> kids c = kids c0)) \<and>
    (\<forall>q. p \<parallel> q \<longrightarrow> node_at b' q = node_at b q) \<and>
    unat (ps_cnt s') \<le> unat (ps_cnt s) + length cs \<and> other_bodies_same idx s s'"
  using assms(1-4,9)
proof (induction cs arbitrary: ind s b)
  case Nil
  have "\<forall>j c0. j < length kc \<longrightarrow> kc ! j = Some c0 \<longrightarrow> (\<exists>c. node_at b (p @ [j]) = Some c \<and> kids c = kids c0)"
    using Nil.prems(4) by blast
  then show ?case using Nil.prems(1) by (intro exI [of _ s] exI [of _ b]) simp
next
  case (Cons ch cs)
  have ind: "ind < length kc" "kc ! ind = ch" "drop (Suc ind) kc = cs"
  proof -
    show i: "ind < length kc" using Cons.prems(2) by (cases "ind < length kc") simp_all
    show "kc ! ind = ch" "drop (Suc ind) kc = cs" using Cons.prems(2) Cons_nth_drop_Suc [OF i] by simp_all
  qed
  show ?case
  proof (cases ch)
    case None
    have "\<exists>s' b'. operator_children V R A idx p (Suc ind) cs s = Some s' \<and> op_at V m0 idx s' b' \<and>
      (\<forall>j c0. j < length kc \<longrightarrow> kc ! j = Some c0 \<longrightarrow> (\<exists>c. node_at b' (p @ [j]) = Some c \<and> kids c = kids c0)) \<and>
      (\<forall>q. p \<parallel> q \<longrightarrow> node_at b' q = node_at b q) \<and>
      unat (ps_cnt s') \<le> unat (ps_cnt s) + length cs \<and> other_bodies_same idx s s'"
    proof (rule Cons.IH [OF Cons.prems(1) ind(3) Cons.prems(3)])
      fix j c0 assume "j < length kc" "kc ! j = Some c0"
      from Cons.prems(4) [OF this]
      show "hash_separates V c0 \<and> (\<exists>c. node_at b (p @ [j]) = Some c \<and> kids c = kids c0 \<and> (Suc ind \<le> j \<longrightarrow> c = c0))"
        by auto
    qed (use Cons.prems(5) in simp)
    then show ?thesis unfolding None by (elim exE conjE, intro exI conjI) (assumption | simp)+
  next
    case (Some c0)
    have c0: "node_at b (p @ [ind]) = Some c0" "hash_separates V c0"
      using Cons.prems(4) [OF ind(1)] ind(2) Some by auto
    obtain s1 e' where s1: "map_option (install idx (p @ [ind])) (operator_mutation V R c0 (kids c0) s) = Some s1"
      "op_at V m0 idx s1 (set_node b (p @ [ind]) e')" "kids e' = kids c0"
      "unat (ps_cnt s1) \<le> Suc (unat (ps_cnt s))" "other_bodies_same idx s s1"
      using install_ok [OF Cons.prems(1) c0 m0] Cons.prems(5) by auto
    let ?b = "set_node b (p @ [ind]) e'"
    have par: "p @ [ind] \<parallel> p @ [j]" if "j \<noteq> ind" for j using that by (simp add: parallel_def)
    have "\<exists>s' b'. operator_children V R A idx p (Suc ind) cs s1 = Some s' \<and> op_at V m0 idx s' b' \<and>
      (\<forall>j c0. j < length kc \<longrightarrow> kc ! j = Some c0 \<longrightarrow> (\<exists>c. node_at b' (p @ [j]) = Some c \<and> kids c = kids c0)) \<and>
      (\<forall>q. p \<parallel> q \<longrightarrow> node_at b' q = node_at ?b q) \<and>
      unat (ps_cnt s') \<le> unat (ps_cnt s1) + length cs \<and> other_bodies_same idx s1 s'"
    proof (rule Cons.IH [OF s1(2) ind(3)])
      have "node_at ?b (p @ [ind]) \<noteq> None" using c0(1) by (simp add: node_at_set_same)
      then show "node_at ?b p \<noteq> None" by (auto simp: node_at_append split: option.splits)
      fix j d0 assume j: "j < length kc" "kc ! j = Some d0"
      show "hash_separates V d0 \<and> (\<exists>c. node_at ?b (p @ [j]) = Some c \<and> kids c = kids d0 \<and> (Suc ind \<le> j \<longrightarrow> c = d0))"
      proof (cases "j = ind")
        case True
        then show ?thesis using j ind(2) Some c0 s1(3) by (simp add: node_at_set_same)
      next
        case False
        then show ?thesis
          using Cons.prems(4) [OF j] node_at_set_parallel [OF par [OF False], of b e'] by auto
      qed
    next
      show "unat (ps_cnt s1) + length cs < 2 ^ 32" using s1(4) Cons.prems(5) by simp
    qed
    then obtain s' b' where s': "operator_children V R A idx p (Suc ind) cs s1 = Some s'" "op_at V m0 idx s' b'"
      "\<forall>j c0. j < length kc \<longrightarrow> kc ! j = Some c0 \<longrightarrow> (\<exists>c. node_at b' (p @ [j]) = Some c \<and> kids c = kids c0)"
      "\<forall>q. p \<parallel> q \<longrightarrow> node_at b' q = node_at ?b q"
      "unat (ps_cnt s') \<le> unat (ps_cnt s1) + length cs" "other_bodies_same idx s1 s'" by blast
    have "node_at ?b q = node_at b q" if "p \<parallel> q" for q
      using that node_at_set_parallel [of "p @ [ind]" q b e'] parallel_append [of p q "[ind]" "[]"] by simp
    moreover have "operator_children V R A idx p ind (ch # cs) s = Some s'"
      using s1(1) s'(1) Some al by (cases "operator_mutation V R c0 (kids c0) s") auto
    ultimately show ?thesis
      using s' s1(4,5) by (intro exI [of _ s'] exI [of _ b']) auto
  qed
qed

end

text \<open>
  The nodes on the work list are unchanged up to their own fields: their children are those of
  the original body \<open>b0\<close>. Functions still to be visited are untouched.
\<close>

definition op_original :: "bexpr \<Rightarrow> bexpr \<Rightarrow> nat list \<Rightarrow> bool" where
  "op_original b0 b p \<longleftrightarrow>
     (\<exists>e e0. node_at b p = Some e \<and> node_at b0 p = Some e0 \<and> kids e = kids e0 \<and> (p = [] \<longrightarrow> e = e0))"

definition op_setting :: "op_env \<Rightarrow> pass_allocs \<Rightarrow> nat \<Rightarrow> bmodule \<Rightarrow> u32 \<Rightarrow> bool" where
  "op_setting V A N m0 max_cnt \<longleftrightarrow>
     op_module_ok V N m0 \<and> (\<forall>idx q. rm_al A idx q) \<and> N + 200 < 2 ^ 32 \<and> max_cnt \<le> 100"

definition op_idle :: "op_env \<Rightarrow> bmodule \<Rightarrow> u32 \<Rightarrow> nat list \<Rightarrow> 'g pass_state \<Rightarrow> bool" where
  "op_idle V m0 max_cnt rest s \<longleftrightarrow>
     pass_idle (op_step V) (op_frame m0) m0 max_cnt s \<and> distinct rest \<and>
     (\<forall>j \<in> set rest. j < length (m_funcs m0) \<and> m_funcs (ps_mod s) ! j = m_funcs m0 ! j)"

definition op_inv :: "op_env \<Rightarrow> bmodule \<Rightarrow> u32 \<Rightarrow> nat \<Rightarrow> nat list \<Rightarrow> 'g pass_state \<Rightarrow> nat list list \<Rightarrow> bool" where
  "op_inv V m0 max_cnt idx rest s ws \<longleftrightarrow>
     op_idle V m0 max_cnt rest s \<and> idx \<notin> set rest \<and>
     (\<exists>b b0. op_at V m0 idx s b \<and> f_body (m_funcs m0 ! idx) = Some b0 \<and> frontier b ws \<and>
        list_all (op_original b0 b) ws)"

definition op_fin :: "op_env \<Rightarrow> nat \<Rightarrow> bmodule \<Rightarrow> u32 \<Rightarrow> 'g pass_state \<Rightarrow> bool" where
  "op_fin V N m0 max_cnt s \<longleftrightarrow>
     unat (ps_cnt s) \<le> unat max_cnt + N \<and> pass_done (op_step V) (op_frame m0) m0 s"

lemma op_module_node:
  assumes "op_module_ok V N m0" and "idx < length (m_funcs m0)" and "f_body (m_funcs m0 ! idx) = Some b0"
    and "node_at b0 p = Some e"
  shows "hash_separates V e" and "length (kids e) \<le> N"
proof -
  have "Some b0 \<in> set (bodies m0)" using assms(2,3) by (metis length_map nth_map nth_mem)
  then have "case Some b0 of Some e \<Rightarrow> list_all (node_ok V N) (subnodes e) | None \<Rightarrow> True"
    using assms(1) unfolding op_module_ok_def list_all_iff [of _ "bodies m0"] by blast
  then have "list_all (node_ok V N) (subnodes b0)" by simp
  then show "hash_separates V e" "length (kids e) \<le> N"
    using node_at_subnodes [OF assms(4)] by (auto simp: list_all_iff node_ok_def)
qed

lemma nodes_kids: "kids d = kids d' \<Longrightarrow> nodes d = nodes d'"
  by (simp add: nodes.simps [of d] nodes.simps [of d'])

lemma child_paths_cases:
  assumes "q \<in> set (child_paths p kc)"
  obtains j d where "q = p @ [j]" "j < length kc" "kc ! j = Some d"
  using assms by (auto simp: child_paths_def)

text \<open>The frontier after a visit, from the facts the loop over the children gives.\<close>

lemma op_frontier:
  assumes fr: "frontier b (p # ws)" and e: "node_at b p = Some e"
    and ch: "\<And>j c0. j < length (kids e) \<Longrightarrow> kids e ! j = Some c0 \<Longrightarrow>
      \<exists>c. node_at b' (p @ [j]) = Some c \<and> kids c = kids c0"
    and par: "\<And>q. p \<parallel> q \<Longrightarrow> node_at b' q = node_at b q"
  shows "frontier b' (ws @ child_paths p (kids e))"
    and "total_weight b' (ws @ child_paths p (kids e)) < total_weight b (p # ws)"
proof -
  let ?cp = "child_paths p (kids e)"
  have kid: "node_at b (p @ [j]) = kids e ! j" if "j < length (kids e)" for j
    using that e by (simp add: node_at_append split: option.splits)
  have ws: "node_at b' q = node_at b q" if "q \<in> set ws" for q
    using that fr par by (simp add: frontier_def)
  have fb: "frontier b (ws @ ?cp)" using frontier_children [OF fr e, of True] by simp
  have "node_at b' q \<noteq> None" if q: "q \<in> set (ws @ ?cp)" for q
  proof (cases "q \<in> set ws")
    case True
    then show ?thesis using ws fr by (simp add: frontier_def list_all_iff)
  next
    case False
    then obtain j d where "q = p @ [j]" "j < length (kids e)" "kids e ! j = Some d"
      using q by (auto elim: child_paths_cases)
    then show ?thesis using ch by fastforce
  qed
  with fb show "frontier b' (ws @ ?cp)" by (simp add: frontier_def list_all_iff)
  have "node_weight b' q = node_weight b q" if qc: "q \<in> set ?cp" for q
  proof -
    obtain j d where q: "q = p @ [j]" "j < length (kids e)" "kids e ! j = Some d"
      using qc by (rule child_paths_cases)
    with ch obtain c where "node_at b' q = Some c" "kids c = kids d" by blast
    then show ?thesis using q kid [OF q(2)] nodes_kids [of c d] by (simp add: node_weight_def)
  qed
  then have "total_weight b' ?cp = total_weight b ?cp" by (intro arg_cong [where f = sum_list] map_cong) simp_all
  also have "\<dots> < nodes e" using weight_children [OF e, of True] by simp
  finally have "total_weight b' ?cp < node_weight b p" using e by (simp add: node_weight_def)
  moreover have "total_weight b' ws = total_weight b ws"
    using ws by (intro arg_cong [where f = sum_list] map_cong) (simp_all add: node_weight_def)
  ultimately show "total_weight b' (ws @ ?cp) < total_weight b (p # ws)" by simp
qed

context bounded_rng
begin

lemma root_step_ok:
  assumes "op_at V m0 idx s b" and "node_at b p = Some e" and "p = [] \<Longrightarrow> hash_separates V e"
    and "m_memories m0 \<noteq> []" "m_segments m0 \<noteq> []" "length (m_funcs m0) < 2 ^ 32" and "Suc (unat (ps_cnt s)) < 2 ^ 32"
  shows "\<exists>s1 e1. (if p = [] then map_option (install idx p) (operator_mutation V R e (kids e) s) else Some s) = Some s1 \<and>
    op_at V m0 idx s1 (set_node b p e1) \<and> kids e1 = kids e \<and>
    unat (ps_cnt s1) \<le> Suc (unat (ps_cnt s)) \<and> other_bodies_same idx s s1"
proof (cases "p = []")
  case True
  then show ?thesis using install_ok [OF assms(1,2) _ assms(4-7)] assms(3) by simp
next
  case False
  then show ?thesis
    using assms(1) set_node_same [OF assms(2)] by (intro exI [of _ s] exI [of _ e]) simp
qed

lemma operators_visit_ok:
  assumes ok: "op_module_ok V N m0" and al: "\<And>idx q. rm_al A idx q" and N: "N + 200 < 2 ^ 32" and max: "max_cnt \<le> 100"
    and inv: "op_inv V m0 max_cnt idx rest s (p # ws)"
  shows "\<exists>stop new s'. operators_visit V R A max_cnt idx s p = Some (stop, new, s') \<and>
    (if stop then op_fin V N m0 max_cnt s'
     else op_inv V m0 max_cnt idx rest s' (ws @ new) \<and>
          body_weight idx s' (ws @ new) < body_weight idx s (p # ws))"
proof -
  have m0: "m_memories m0 \<noteq> []" "m_segments m0 \<noteq> []" "length (m_funcs m0) < 2 ^ 32"
    using ok by (simp_all add: op_module_ok_def)
  obtain b b0 where idle: "op_idle V m0 max_cnt rest s" "idx \<notin> set rest" and at: "op_at V m0 idx s b"
    and b0: "f_body (m_funcs m0 ! idx) = Some b0" and fr: "frontier b (p # ws)"
    and orig: "op_original b0 b p" "list_all (op_original b0 b) ws"
    using inv by (auto simp: op_inv_def)
  obtain e e0 where e: "node_at b p = Some e" "node_at b0 p = Some e0" "kids e = kids e0" "p = [] \<Longrightarrow> e = e0"
    using orig(1) by (auto simp: op_original_def)
  have idx: "idx < length (m_funcs m0)"
    using at pass_done_length [of "op_step V" "op_frame m0" m0 s] by (simp add: op_at_def)
  note e0 = op_module_node [OF ok idx b0 e(2)]
  have cnt: "unat (ps_cnt s) < unat max_cnt" "unat max_cnt \<le> 100"
    using idle(1) max by (auto simp: op_idle_def pass_idle_def word_less_nat_alt word_le_nat_alt)
  obtain s1 e1 where s1: "(if p = [] then map_option (install idx p) (operator_mutation V R e (kids e) s) else Some s) = Some s1"
    "op_at V m0 idx s1 (set_node b p e1)" "kids e1 = kids e"
    "unat (ps_cnt s1) \<le> Suc (unat (ps_cnt s))" "other_bodies_same idx s s1"
    using root_step_ok [OF at e(1) _ m0] e(4) e0(1) cnt by auto
  let ?b1 = "set_node b p e1"
  have n1: "node_at ?b1 (p @ q) = node_at e1 q" for q using node_at_set_node [of b p] e(1) by simp
  have "\<exists>s2 b2. operator_children V R A idx p 0 (kids e) s1 = Some s2 \<and> op_at V m0 idx s2 b2 \<and>
    (\<forall>j c0. j < length (kids e) \<longrightarrow> kids e ! j = Some c0 \<longrightarrow> (\<exists>c. node_at b2 (p @ [j]) = Some c \<and> kids c = kids c0)) \<and>
    (\<forall>q. p \<parallel> q \<longrightarrow> node_at b2 q = node_at ?b1 q) \<and>
    unat (ps_cnt s2) \<le> unat (ps_cnt s1) + length (kids e) \<and> other_bodies_same idx s1 s2"
  proof (rule operator_children_ok [OF s1(2) _ _ _ m0 al])
    show "node_at ?b1 p \<noteq> None" using n1 [of "[]"] by simp
    fix j c0 assume j: "j < length (kids e)" "kids e ! j = Some c0"
    then have "node_at b0 (p @ [j]) = Some c0" using e(2,3) by (simp add: node_at_append)
    moreover have "node_at ?b1 (p @ [j]) = Some c0" using n1 [of "[j]"] j s1(3) by simp
    ultimately show "hash_separates V c0 \<and> (\<exists>c. node_at ?b1 (p @ [j]) = Some c \<and> kids c = kids c0 \<and> (0 \<le> j \<longrightarrow> c = c0))"
      using op_module_node(1) [OF ok idx b0] by simp
  qed (use s1(4) cnt e0(2) e(3) N in auto)
  then obtain s2 b2 where s2: "operator_children V R A idx p 0 (kids e) s1 = Some s2" "op_at V m0 idx s2 b2"
    "\<And>j c0. j < length (kids e) \<Longrightarrow> kids e ! j = Some c0 \<Longrightarrow> \<exists>c. node_at b2 (p @ [j]) = Some c \<and> kids c = kids c0"
    "\<And>q. p \<parallel> q \<Longrightarrow> node_at b2 q = node_at ?b1 q"
    "unat (ps_cnt s2) \<le> unat (ps_cnt s1) + length (kids e)" "other_bodies_same idx s1 s2" by blast
  have par: "node_at b2 q = node_at b q" if "p \<parallel> q" for q
    using s2(4) [OF that] node_at_set_parallel [OF that] by simp
  have visit: "operators_visit V R A max_cnt idx s p = Some (ps_cnt s2 \<ge> max_cnt, child_paths p (kids e), s2)"
    using at e(1) s1(1) s2(1) al by (simp add: operators_visit_def op_at_def)
  have bound: "unat (ps_cnt s2) \<le> unat max_cnt + N" using s2(5) s1(4) cnt(1) e0(2) e(3) by simp
  show ?thesis
  proof (cases "ps_cnt s2 \<ge> max_cnt")
    case True
    then show ?thesis
      using visit bound s2(2) by (auto simp: op_fin_def op_at_def intro!: exI [of _ True])
  next
    case False
    have "list_all (op_original b0 b2) (child_paths p (kids e))"
      using s2(3) e(2,3) by (auto simp: list_all_iff op_original_def node_at_append elim!: child_paths_cases)
    moreover have "list_all (op_original b0 b2) ws"
      using orig(2) par fr by (auto simp: list_all_iff op_original_def frontier_def)
    moreover note op_frontier [OF fr e(1) s2(3) par]
    moreover have "op_idle V m0 max_cnt rest s2"
      using idle False s1(5) s2(2,6) by (auto simp: op_idle_def pass_idle_def op_at_def)
    ultimately show ?thesis
      using visit False idle(2) s2(2) b0 at by (auto simp: op_inv_def body_weight_def op_at_def)
  qed
qed

lemma operators_module_pass:
  "module_pass (operators_visit V R A max_cnt) body_weight
     (\<lambda>idx rest s ws. op_setting V A N m0 max_cnt \<and> op_inv V m0 max_cnt idx rest s ws)
     (\<lambda>rest s. op_setting V A N m0 max_cnt \<and> op_idle V m0 max_cnt rest s) (op_fin V N m0 max_cnt)"
proof (unfold_locales, goal_cases)
  case (1 idx rest s p ws)
  then obtain stop new s' where "operators_visit V R A max_cnt idx s p = Some (stop, new, s')"
    "if stop then op_fin V N m0 max_cnt s'
     else op_inv V m0 max_cnt idx rest s' (ws @ new) \<and> body_weight idx s' (ws @ new) < body_weight idx s (p # ws)"
    using operators_visit_ok [of V N m0 A max_cnt idx rest s p ws] by (auto simp: op_setting_def)
  with 1 show ?case by (cases stop) auto
next
  case (2 idx rest s b)
  then have idle: "op_idle V m0 max_cnt (idx # rest) s" by simp
  then have m: "m_funcs (ps_mod s) ! idx = m_funcs m0 ! idx" "idx < length (m_funcs m0)"
    by (simp_all add: op_idle_def)
  have pd: "pass_done (op_step V) (op_frame m0) m0 s" using idle by (simp add: op_idle_def pass_idle_def)
  then have "op_at V m0 idx s b" using m 2 pass_done_length [OF pd] by (auto simp: op_at_def)
  then show ?case
    using 2 m by (auto simp: op_inv_def op_idle_def op_original_def)
next
  case (5 rest s)
  then show ?case by (auto simp: op_idle_def op_fin_def pass_idle_def word_less_nat_alt)
qed (auto simp: op_inv_def op_idle_def)

end

interpretation operators_pass: module_pass "operators_visit V (afl_rand_ops libc_rand) A max_cnt" body_weight
    "\<lambda>idx rest s ws. op_setting V A N m max_cnt \<and> op_inv V m max_cnt idx rest s ws"
    "\<lambda>rest s. op_setting V A N m max_cnt \<and> op_idle V m max_cnt rest s" "op_fin V N m max_cnt"
    for V libc_rand A N m max_cnt
  by (rule afl_rng.operators_module_pass)

lemma operators_returns:
  assumes "op_module_ok V N m" and "\<And>idx q. rm_al A idx q" and "N + 200 < 2 ^ 32"
  shows "\<exists>s. wasm_operators_mutate V (afl_rand_ops libc_rand) A m ng
               = Some ((ps_cnt s, ps_mod s), ps_names s, ps_rng s) \<and>
             unat (ps_cnt s) \<le> 10 + N \<and> pass_done (op_step V) (op_frame m) m s"
proof -
  let ?R = "afl_rand_ops libc_rand"
  have "\<exists>s max_cnt. 0 < max_cnt \<and> max_cnt \<le> OPERATOR_MUTATION_MAX \<and> op_fin V N m max_cnt s \<and>
      run_pass ?R A OPERATOR_MUTATION_MAX (operators_visit V ?R A) m ng
        = Some ((ps_cnt s, ps_mod s), ps_names s, ps_rng s)"
  proof (rule run_pass_returns [OF afl_rng.bounded_rng_axioms operators_pass.module_pass_axioms])
    fix max_cnt order g
    assume "0 < max_cnt" "max_cnt \<le> OPERATOR_MUTATION_MAX" "distinct order" "set order = {0..<length (m_funcs m)}"
    then show "op_setting V A N m max_cnt \<and>
        op_idle V m max_cnt order \<lparr> ps_mod = m, ps_cnt = 0, ps_names = fst ng, ps_rng = g \<rparr>"
      using assms
      by (auto simp: op_setting_def op_idle_def pass_idle_def pass_done_def node_rewrites_refl
          OPERATOR_MUTATION_MAX_def word_le_nat_alt)
  qed (use assms in \<open>simp_all add: OPERATOR_MUTATION_MAX_def op_module_ok_def\<close>)
  then show ?thesis
    by (auto simp: wasm_operators_mutate_def op_fin_def OPERATOR_MUTATION_MAX_def word_le_nat_alt)
qed

section \<open>Property\<close>

text \<open>
  C12. The operator mutation always returns and does nothing but exchange instructions within
  their groups: for a module whose instructions the hash tells apart, with at most \<open>N\<close> operands
  per node and a memory with a segment, it reports at most \<open>10 + N\<close> changes, the bodies differ
  from the input by exactly that many replacements of an instruction by a different member of
  its group around the same operands, and the rest of the module is kept up to added tables.
\<close>

theorem operators_mutate_correct:
  assumes "op_module_ok V N m" and "\<And>idx q. rm_al A idx q" and "N + 200 < 2 ^ 32"
  shows "\<exists>cnt m' ng'.
    wasm_operators_mutate V (afl_rand_ops libc_rand) A m ng = Some ((cnt, m'), ng') \<and>
    unat cnt \<le> 10 + N \<and> node_rewrites (op_step V) (unat cnt) (bodies m) (bodies m') \<and> op_frame m m' \<and>
    list_all2 (rel_option (\<lambda>b b'. \<forall>q. node_at b' q = None \<longleftrightarrow> node_at b q = None)) (bodies m) (bodies m')"
proof -
  obtain s where s: "wasm_operators_mutate V (afl_rand_ops libc_rand) A m ng
      = Some ((ps_cnt s, ps_mod s), ps_names s, ps_rng s)"
    "unat (ps_cnt s) \<le> 10 + N" "pass_done (op_step V) (op_frame m) m s"
    using operators_returns [OF assms, where libc_rand = libc_rand and ng = ng] by blast
  have "node_rewrites (op_step V) (unat (ps_cnt s)) (bodies m) (bodies (ps_mod s))"
    using s(3) by (simp add: pass_done_def)
  from node_rewrites_positions [OF this] show ?thesis
    using s by (auto simp: pass_done_def op_step_def)
qed

definition demo_op_env :: op_env where
  "demo_op_env = \<lparr> oe_binaryen = demo_benv, oe_uninit = \<lparr> un_lane = 0, un_align = 0, un_lit = LitInt32 0 \<rparr>,
     oe_codes = demo_codes \<rparr>"

definition demo_nop_module :: bmodule where
  "demo_nop_module = demo_func_module\<lparr> m_funcs := [\<lparr> f_name = ''f'', f_body = Some Nop, f_params = [],
     f_results = [], f_vars = [] \<rparr>],
     m_segments := [\<lparr> seg_name = ''0'', seg_passive = True, seg_offset = 0, seg_data = [] \<rparr>] \<rparr>"

lemma demo_hash:
  "hash_value (FILL_INSTR_TYPE_OPD demo_codes k t) = djb2_hash ((if k = NopId then 1 else 0) # replicate 31 0)"
  "hash_value (FILL_INSTR_TYPE_OPT demo_codes k op)
     = djb2_hash ((if k = NopId then 1 else 0) # replicate 15 0 @ 1 # replicate 15 0)"
  "hash_value (FILL_INSTR_TYPE_OPD_MEM demo_codes k t b sg)
     = djb2_hash ((if k = NopId then 1 else 0) # replicate 19 0 @ b # sg # replicate 10 0)"
  by (simp_all add: FILL_INSTR_TYPE_OPD_def FILL_INSTR_TYPE_OPT_def FILL_INSTR_TYPE_OPD_MEM_def hashed_def
      instr_hash_def instr_bytes_def demo_codes_def le_bytes_def upt_rec numeral_eq_Suc)

lemma demo_hash_opd: "djb2_hash (0 # replicate 31 0) \<noteq> djb2_hash (1 # replicate 31 0)"
  by code_simp

lemma demo_hash_opt: "djb2_hash (0 # replicate 15 0 @ 1 # replicate 15 0) \<noteq> djb2_hash (1 # replicate 31 0)"
  by code_simp

lemma demo_hash_mem:
  "djb2_hash (0 # replicate 19 0 @ 1 # 0 # replicate 10 0) \<noteq> djb2_hash (1 # replicate 31 0)"
  "djb2_hash (0 # replicate 19 0 @ 1 # 1 # replicate 10 0) \<noteq> djb2_hash (1 # replicate 31 0)"
  "djb2_hash (0 # replicate 19 0 @ 2 # 0 # replicate 10 0) \<noteq> djb2_hash (1 # replicate 31 0)"
  "djb2_hash (0 # replicate 19 0 @ 2 # 1 # replicate 10 0) \<noteq> djb2_hash (1 # replicate 31 0)"
  "djb2_hash (0 # replicate 19 0 @ 4 # 0 # replicate 10 0) \<noteq> djb2_hash (1 # replicate 31 0)"
  "djb2_hash (0 # replicate 19 0 @ 4 # 1 # replicate 10 0) \<noteq> djb2_hash (1 # replicate 31 0)"
  "djb2_hash (0 # replicate 19 0 @ 8 # 0 # replicate 10 0) \<noteq> djb2_hash (1 # replicate 31 0)"
  "djb2_hash (0 # replicate 19 0 @ 16 # 0 # replicate 10 0) \<noteq> djb2_hash (1 # replicate 31 0)"
  by (code_simp, code_simp, code_simp, code_simp, code_simp, code_simp, code_simp, code_simp)

lemma demo_separates: "hash_separates demo_op_env Nop"
proof -
  have nop: "oe_instr demo_op_env Nop = FILL_INSTR_TYPE_OPD demo_codes NopId TypeNone"
    by (simp add: demo_op_env_def demo_benv_def wasm_get_instr_type_def opd_instr_def FILL_INSTR_TYPE_OPD_def expr_id_of_def)
  have c: "oe_codes demo_op_env = demo_codes" by (simp add: demo_op_env_def)
  show ?thesis
    unfolding hash_separates_def nop unfolding c
    by (simp add: grps_defs demo_hash demo_hash_opd demo_hash_opt demo_hash_mem)
qed

theorem operators_mutate_correct_witness:
  "\<exists>cnt m' ng'.
    wasm_operators_mutate demo_op_env (afl_rand_ops (Pair 0)) \<lparr> rm_al = \<lambda>_ _. True, rm_shuffle = True \<rparr>
      demo_nop_module (wasm_init_name_grp, demo_rng) = Some ((cnt, m'), ng') \<and>
    unat cnt \<le> 10 \<and> op_frame demo_nop_module m'"
proof -
  have "subnodes Nop = [Nop]" by (simp add: subnodes.simps kids_simps)
  then have "op_module_ok demo_op_env 0 demo_nop_module"
    using demo_separates
    by (simp add: op_module_ok_def demo_nop_module_def demo_func_module_def node_ok_def kids_simps)
  from operators_mutate_correct [OF this, of "\<lparr> rm_al = \<lambda>_ _. True, rm_shuffle = True \<rparr>" "Pair 0"
      "(wasm_init_name_grp, demo_rng)"]
  show ?thesis by auto
qed

end
