(* ===== verification/Wasm_Recursive.thy ===== *)
theory Wasm_Recursive
  imports Wasm_Operators
begin

text \<open>
  The recursive mutation, \<^verbatim>\<open>wasm_recursive_mutate\<close> of \<^verbatim>\<open>mutator_func.c\<close>: a block, loop or conditional is
  wrapped into a new block, a new loop, or the taken arm of a new conditional. The labels of
  new blocks and loops come from the name pool. The node itself stays on the work list, so its
  path grows by the step into the wrapper.
\<close>

definition RECURSE_MUTATION_MAX :: u32 where
  "RECURSE_MUTATION_MAX = 7"

text \<open>
  Outcomes of the allocations made for the node that is wrapped: by \<^verbatim>\<open>wasm_simplify_type\<close> and of
  the arrays for the arm that is not taken.
\<close>

record wrap_allocs =
  wa_simplify :: "nat \<Rightarrow> nat list \<Rightarrow> bool"
  wa_types :: "nat \<Rightarrow> nat list \<Rightarrow> bool"

section \<open>The arm that is not taken\<close>

definition simplify_single :: "btype \<Rightarrow> btype" where
  "simplify_single type =
     (if type \<in> set [TypeInt32, TypeInt64, TypeVec128, TypeFloat32, TypeFloat64] then type
      else if type = TypeExternref \<or> type = TypeNullExternref then TypeExternref
      else TypeFuncref)"

definition wasm_simplify_type :: "bool \<Rightarrow> btype \<Rightarrow> btype" where
  "wasm_simplify_type alloc_ok original =
     (if original = TypeUnreachable then original
      else if type_arity original > 0 then
        (if alloc_ok then type_create (map simplify_single (type_expand original)) else TypeNone)
      else TypeNone)"

definition dumb_instr :: "op_env \<Rightarrow> 'g rand_ops \<Rightarrow> btype \<Rightarrow> 'g \<Rightarrow> InstrTy \<times> 'g" where
  "dumb_instr V R type g =
     (if type = TypeExternref then (FILL_INSTR_TYPE_OPD (oe_codes V) RefNullId type, g)
      else if type = TypeFuncref then
        (let (r, g1) = ro_rand_below R g 2
         in (FILL_INSTR_TYPE_OPD (oe_codes V) (if r \<noteq> 0 then RefNullId else RefFuncId) type, g1))
      else (FILL_INSTR_TYPE_OPD (oe_codes V) ConstId type, g))"

text \<open>The loop over the types; the generator gets no operands.\<close>

fun dumb_exprs ::
  "op_env \<Rightarrow> 'g rand_ops \<Rightarrow> btype list \<Rightarrow> bmodule \<Rightarrow> 'g \<Rightarrow> (bexpr option list \<times> bmodule \<times> 'g) option" where
  "dumb_exprs V R [] m g = Some ([], m, g)"
| "dumb_exprs V R (type # types) m g =
     (let (inst, g1) = dumb_instr V R type g
      in Option.bind (wasm_generate_one_simple_expr (oe_binaryen V) (oe_uninit V) R inst [] m g1) (\<lambda>(e, m1, g2).
           map_option (\<lambda>(es, m2, g3). (e # es, m2, g3)) (dumb_exprs V R types m1 g2)))"

text \<open>
  The false arm for the simplified type: \<open>Some None\<close> inside the result is a failed allocation.
  \<^verbatim>\<open>BinaryenTupleMake\<close> reads the types of its operands, a NULL among them is a crash.
\<close>

definition false_arm ::
  "op_env \<Rightarrow> 'g rand_ops \<Rightarrow> bool \<Rightarrow> btype \<Rightarrow> bmodule \<Rightarrow> 'g \<Rightarrow> (bexpr option option \<times> bmodule \<times> 'g) option" where
  "false_arm V R alloc_ok ty m g =
     (if ty = TypeUnreachable then Some (Some (Some Unreachable), m, g)
      else if type_arity ty = 0 then Some (Some (Some Nop), m, g)
      else if \<not> alloc_ok then Some (None, m, g)
      else
        Option.bind (dumb_exprs V R (type_expand ty) m g) (\<lambda>(type_exprs, m1, g1).
          if type_arity ty > 1 then
            (if None \<in> set type_exprs then None
             else Some (Some (Some (TupleMake (map the type_exprs))), m1, g1))
          else Some (Some (hd type_exprs), m1, g1)))"

section \<open>One node\<close>

text \<open>
  The node \<open>e\<close> at path \<open>p\<close> of function \<open>idx\<close>. The flag is the jump to \<^verbatim>\<open>final\<close>; the number beside the
  wrapper is the index of \<open>e\<close> among its children.
\<close>

definition wrap_expr ::
  "op_env \<Rightarrow> 'g rand_ops \<Rightarrow> wrap_allocs \<Rightarrow> nat \<Rightarrow> nat list \<Rightarrow> bexpr \<Rightarrow> 'g pass_state \<Rightarrow>
   (bool \<times> (bexpr \<times> nat) option \<times> 'g pass_state) option" where
  "wrap_expr V R W idx p e s =
     (if expr_id_of e \<in> set [BlockId, LoopId, IfId] then
        (let (r, g1) = ro_rand_below R (ps_rng s) 8
         in if r \<noteq> 0 then Some (False, None, s\<lparr> ps_rng := g1 \<rparr>)
            else
              (let (wrapper, g2) = ro_rand_below R g1 3
               in if wrapper = 0 \<or> wrapper = 1 then
                    (let (label_str, names) = wasm_find_available_name (ps_names s)
                     in Some (False,
                          Some (if wrapper = 0 then Block (Some label_str) [e] else Loop (Some label_str) e, 0),
                          s\<lparr> ps_cnt := ps_cnt s + 1, ps_names := names, ps_rng := g2 \<rparr>))
                  else
                    (let ty = wasm_simplify_type (wa_simplify W idx p) (be_type (oe_binaryen V) e)
                     in case false_arm V R (wa_types W idx p) ty (ps_mod s) g2 of
                          None \<Rightarrow> None
                        | Some (None, m1, g3) \<Rightarrow> Some (True, None, s\<lparr> ps_mod := m1, ps_rng := g3 \<rparr>)
                        | Some (Some f, m1, g3) \<Rightarrow>
                            Some (False, Some (If (Const (LitInt32 1)) e f, 1),
                              s\<lparr> ps_mod := m1, ps_cnt := ps_cnt s + 1, ps_rng := g3 \<rparr>))))
      else Some (False, None, s))"

text \<open>Install the wrapper at \<open>p\<close>; the first component is the path of the wrapped node afterwards.\<close>

definition place ::
  "nat \<Rightarrow> nat list \<Rightarrow> (bexpr \<times> nat) option \<Rightarrow> 'g pass_state \<Rightarrow> nat list \<times> 'g pass_state" where
  "place idx p res s =
     (case res of
        None \<Rightarrow> (p, s)
      | Some (new_expr, k) \<Rightarrow>
          (p @ [k],
           s\<lparr> ps_mod := set_body idx (set_node (the (f_body (m_funcs (ps_mod s) ! idx))) p new_expr) (ps_mod s) \<rparr>))"

section \<open>The pass\<close>

text \<open>The loop over the children \<open>cs\<close> of the node at \<open>p\<close>, from index \<open>ind\<close> on.\<close>

fun recursive_children ::
  "op_env \<Rightarrow> 'g rand_ops \<Rightarrow> wrap_allocs \<Rightarrow> nat \<Rightarrow> nat list \<Rightarrow> nat \<Rightarrow> bexpr option list \<Rightarrow> 'g pass_state \<Rightarrow>
   (bool \<times> nat list list \<times> 'g pass_state) option" where
  "recursive_children V R W idx p ind [] s = Some (False, [], s)"
| "recursive_children V R W idx p ind (ch # cs) s =
     (case ch of
        None \<Rightarrow> recursive_children V R W idx p (Suc ind) cs s
      | Some e \<Rightarrow>
          Option.bind (wrap_expr V R W idx (p @ [ind]) e s) (\<lambda>(stop, res, s1).
            if stop then Some (True, [], s1)
            else
              (let (q, s2) = place idx (p @ [ind]) res s1
               in map_option (\<lambda>(stop, new, s3). (stop, q # new, s3))
                    (recursive_children V R W idx p (Suc ind) cs s2))))"

definition recursive_visit ::
  "op_env \<Rightarrow> 'g rand_ops \<Rightarrow> pass_allocs \<Rightarrow> wrap_allocs \<Rightarrow> u32 \<Rightarrow> nat \<Rightarrow> 'g pass_state \<Rightarrow> nat list \<Rightarrow>
   (bool \<times> nat list list \<times> 'g pass_state) option" where
  "recursive_visit V R A W max_cnt idx s p =
     (case f_body (m_funcs (ps_mod s) ! idx) of
        None \<Rightarrow> None
      | Some b \<Rightarrow>
          (case node_at b p of
             None \<Rightarrow> None
           | Some el \<Rightarrow>
               (let cs = wasm_get_children_expr (rm_al A idx p) (Some el)
                in Option.bind (if p = [] then wrap_expr V R W idx p el s else Some (False, None, s)) (\<lambda>(stop, res, s1).
                     if stop then Some (True, [], s1)
                     else
                       (let (q, s2) = place idx p res s1
                        in map_option (\<lambda>(stop, new, s3). (stop \<or> ps_cnt s3 \<ge> max_cnt, new, s3))
                             (recursive_children V R W idx q 0 cs s2))))))"

definition wasm_recursive_mutate ::
  "op_env \<Rightarrow> 'g rand_ops \<Rightarrow> pass_allocs \<Rightarrow> wrap_allocs \<Rightarrow> bmodule \<Rightarrow> nameGrp \<times> 'g \<Rightarrow>
   ((u32 \<times> bmodule) \<times> nameGrp \<times> 'g) option" where
  "wasm_recursive_mutate V R A W = run_pass R A RECURSE_MUTATION_MAX (recursive_visit V R A W)"

section \<open>What the pass does\<close>

text \<open>A leaf of a given simplified type: a constant, a null reference or a function of the module.\<close>

definition dumb_value :: "string list \<Rightarrow> btype \<Rightarrow> bexpr \<Rightarrow> bool" where
  "dumb_value fs t e \<longleftrightarrow>
     (if t = TypeExternref then e = RefNull TypeNullExternref
      else if t = TypeFuncref then e = RefNull TypeNullFuncref \<or> (\<exists>f \<in> set fs. e = RefFunc f)
      else \<exists>l. e = Const l \<and> lit_type l = t)"

definition dumb_arm :: "string list \<Rightarrow> btype \<Rightarrow> bexpr \<Rightarrow> bool" where
  "dumb_arm fs ty e \<longleftrightarrow>
     (if ty = TypeUnreachable then e = Unreachable
      else case map simplify_single (type_expand ty) of
             [] \<Rightarrow> e = Nop
           | [t] \<Rightarrow> dumb_value fs t e
           | ts \<Rightarrow> \<exists>es. e = TupleMake es \<and> list_all2 (dumb_value fs) ts es)"

text \<open>
  One wrapping of a structured instruction: with the label it introduces, or into the taken arm
  of a conditional whose other arm has the same type.
\<close>

definition wraps :: "(bexpr \<Rightarrow> btype) \<Rightarrow> string list \<Rightarrow> string option \<Rightarrow> bexpr \<Rightarrow> bexpr \<Rightarrow> bool" where
  "wraps ty fs l e e' \<longleftrightarrow> expr_id_of e \<in> set [BlockId, LoopId, IfId] \<and>
     (case l of
        Some n \<Rightarrow> e' = Block (Some n) [e] \<or> e' = Loop (Some n) e
      | None \<Rightarrow> \<exists>f. e' = If (Const (LitInt32 1)) e (Some f) \<and> dumb_arm fs (ty e) f)"

text \<open>The bodies after a sequence of wrappings with the labels \<open>ls\<close>, in this order.\<close>

inductive wrap_rewrites ::
  "(string option \<Rightarrow> bexpr \<Rightarrow> bexpr \<Rightarrow> bool) \<Rightarrow> string option list \<Rightarrow> bexpr option list \<Rightarrow> bexpr option list \<Rightarrow> bool"
  for P where
  wrap_rewrites_refl: "wrap_rewrites P [] bs bs"
| wrap_rewrites_step: "wrap_rewrites P ls bs bs' \<Longrightarrow> i < length bs' \<Longrightarrow> bs' ! i = Some b \<Longrightarrow>
    node_at b p = Some e \<Longrightarrow> P l e e' \<Longrightarrow> wrap_rewrites P (ls @ [l]) bs (bs'[i := Some (set_node b p e')])"

lemma wrap_rewrites_length: "wrap_rewrites P ls bs bs' \<Longrightarrow> length bs' = length bs"
  by (induction rule: wrap_rewrites.induct) simp_all

lemma wrap_rewrites_nodes:
  "wrap_rewrites P ls bs bs' \<Longrightarrow> node_rewrites (\<lambda>e e'. \<exists>l. P l e e') (length ls) bs bs'"
  by (induction rule: wrap_rewrites.induct) (auto intro: node_rewrites.intros)

abbreviation labels :: "string option list \<Rightarrow> string list" where
  "labels ls \<equiv> List.map_filter id ls"

section \<open>The generated arm\<close>

context bounded_rng
begin

lemma dumb_generate:
  assumes "t = simplify_single t0" and "0 < length (m_funcs m)" and "length (m_funcs m) < 2 ^ 32"
  shows "\<exists>e g'. wasm_generate_one_simple_expr B U R (fst (dumb_instr V R t g)) [] m (snd (dumb_instr V R t g))
           = Some (Some e, m, g') \<and> dumb_value (map f_name (m_funcs m)) t e"
proof -
  have n: "unat (fst (ro_rand_below R g' (of_nat (length (m_funcs m))))) < length (m_funcs m)" for g'
  proof -
    have "unat (of_nat (length (m_funcs m)) :: u32) = length (m_funcs m)" using assms(3) by (simp add: unat_of_nat)
    then show ?thesis
      using rand_below_less [of "of_nat (length (m_funcs m))" g'] assms(2) by (simp add: word_less_nat_alt)
  qed
  consider "t = TypeExternref" | "t = TypeFuncref" | "t \<in> set [TypeInt32, TypeInt64, TypeVec128, TypeFloat32, TypeFloat64]"
    using assms(1) by (auto simp: simplify_single_def split: if_splits)
  then show ?thesis
  proof cases
    case 1
    then show ?thesis
      by (simp add: dumb_instr_def FILL_INSTR_TYPE_OPD_def hashed_def wasm_generate_one_simple_expr_def gen_ref_def
          opd_type_def dumb_value_def)
  next
    case 2
    then show ?thesis using n
      by (auto simp: dumb_instr_def FILL_INSTR_TYPE_OPD_def hashed_def wasm_generate_one_simple_expr_def gen_ref_def
          opd_type_def dumb_value_def case_prod_unfold Let_def)
  next
    case 3
    then have "t \<noteq> TypeExternref" "t \<noteq> TypeFuncref" by auto
    then show ?thesis using gen_const_type [of t U R g] 3
      by (auto simp: dumb_instr_def FILL_INSTR_TYPE_OPD_def hashed_def wasm_generate_one_simple_expr_def
          opd_type_def dumb_value_def case_prod_unfold Let_def)
  qed
qed

lemma dumb_exprs_ok:
  assumes "0 < length (m_funcs m)" and "length (m_funcs m) < 2 ^ 32"
  shows "\<exists>es g'. dumb_exprs V R (map simplify_single ts) m g = Some (map Some es, m, g') \<and>
           list_all2 (dumb_value (map f_name (m_funcs m))) (map simplify_single ts) es"
proof (induction ts arbitrary: g)
  case (Cons t ts)
  obtain e g1 where e: "wasm_generate_one_simple_expr (oe_binaryen V) (oe_uninit V) R
      (fst (dumb_instr V R (simplify_single t) g)) [] m (snd (dumb_instr V R (simplify_single t) g)) = Some (Some e, m, g1)"
    "dumb_value (map f_name (m_funcs m)) (simplify_single t) e"
    using dumb_generate [OF refl assms] by blast
  obtain es g2 where es: "dumb_exprs V R (map simplify_single ts) m g1 = Some (map Some es, m, g2)"
    "list_all2 (dumb_value (map f_name (m_funcs m))) (map simplify_single ts) es" using Cons.IH by blast
  show ?case
    using e es by (intro exI [of _ "e # es"] exI [of _ g2]) (simp add: case_prod_unfold Let_def)
qed simp

end

lemma type_expand_simplified [simp]:
  "type_expand (type_create (map simplify_single ts)) = map simplify_single ts"
  by (cases ts rule: remdups_adj.cases)
     (auto simp: type_create_def type_expand_def simplify_single_def split: if_splits)

lemma simplified_reachable: "type_create (map simplify_single ts) \<noteq> TypeUnreachable"
  by (cases ts rule: remdups_adj.cases) (auto simp: type_create_def simplify_single_def)

context bounded_rng
begin

lemma false_arm_ok:
  assumes "0 < length (m_funcs m)" and "length (m_funcs m) < 2 ^ 32"
  shows "\<exists>r g'. false_arm V R al (wasm_simplify_type True ty) m g = Some (r, m, g') \<and>
           (case r of None \<Rightarrow> True | Some f \<Rightarrow> \<exists>x. f = Some x \<and> dumb_arm (map f_name (m_funcs m)) ty x)"
proof (cases "ty = TypeUnreachable \<or> type_expand ty = []")
  case True
  then show ?thesis
    by (auto simp: wasm_simplify_type_def false_arm_def dumb_arm_def type_arity_def type_expand_def)
next
  case False
  let ?ts = "map simplify_single (type_expand ty)"
  have ty: "wasm_simplify_type True ty = type_create ?ts" "type_expand (type_create ?ts) = ?ts"
    "type_create ?ts \<noteq> TypeUnreachable" "?ts \<noteq> []"
    using False simplified_reachable by (auto simp: wasm_simplify_type_def type_arity_def)
  obtain es g' where es: "dumb_exprs V R ?ts m g = Some (map Some es, m, g')"
    "list_all2 (dumb_value (map f_name (m_funcs m))) ?ts es"
    using dumb_exprs_ok [OF assms] by blast
  show ?thesis
  proof (cases al)
    case True
    consider t where "?ts = [t]" | t u us where "?ts = t # u # us"
      using ty(4) by (cases ?ts rule: remdups_adj.cases) auto
    then show ?thesis
    proof cases
      case 1
      then obtain e where "es = [e]" "dumb_value (map f_name (m_funcs m)) t e"
        using es(2) by (auto simp: list_all2_Cons1)
      then show ?thesis
        using 1 True ty es(1) False by (auto simp: false_arm_def dumb_arm_def type_arity_def)
    next
      case 2
      then show ?thesis
        using True ty es False by (auto simp: false_arm_def dumb_arm_def type_arity_def)
    qed
  next
    case False
    then show ?thesis using ty by (auto simp: false_arm_def type_arity_def)
  qed
qed

section \<open>One node\<close>

lemma wrap_expr_ok:
  assumes "0 < length (m_funcs (ps_mod s))" and "length (m_funcs (ps_mod s)) < 2 ^ 32" and "wa_simplify W idx p"
  shows "\<exists>stop res s1. wrap_expr V R W idx p e s = Some (stop, res, s1) \<and> ps_mod s1 = ps_mod s \<and>
    (case res of
       None \<Rightarrow> ps_cnt s1 = ps_cnt s \<and> ps_names s1 = ps_names s
     | Some (new, k) \<Rightarrow> \<not> stop \<and> ps_cnt s1 = ps_cnt s + 1 \<and> node_at new [k] = Some e \<and>
         (\<exists>l. wraps (be_type (oe_binaryen V)) (map f_name (m_funcs (ps_mod s))) l e new \<and>
            (case l of None \<Rightarrow> ps_names s1 = ps_names s
             | Some n \<Rightarrow> wasm_find_available_name (ps_names s) = (n, ps_names s1))))"
proof (cases "expr_id_of e \<in> set [BlockId, LoopId, IfId] \<and> fst (ro_rand_below R (ps_rng s) 8) = 0")
  case True
  note kind = conjunct1 [OF True]
  let ?g1 = "snd (ro_rand_below R (ps_rng s) 8)"
  let ?w = "ro_rand_below R ?g1 3"
  show ?thesis
  proof (cases "fst ?w = 0 \<or> fst ?w = 1")
    case label: True
    obtain n names where n: "wasm_find_available_name (ps_names s) = (n, names)" by force
    let ?new = "if fst ?w = 0 then Block (Some n) [e] else Loop (Some n) e"
    have "wrap_expr V R W idx p e s = Some (False, Some (?new, 0), s\<lparr> ps_cnt := ps_cnt s + 1, ps_names := names, ps_rng := snd ?w \<rparr>)"
      using True label n by (auto simp: wrap_expr_def case_prod_unfold Let_def)
    moreover have "wraps (be_type (oe_binaryen V)) (map f_name (m_funcs (ps_mod s))) (Some n) e ?new"
      using kind by (simp add: wraps_def)
    moreover have "node_at ?new [0] = Some e" by (simp add: children_defs)
    ultimately show ?thesis using n by (intro exI conjI) (assumption | auto)+
  next
    case arm: False
    obtain r g' where r: "false_arm V R (wa_types W idx p) (wasm_simplify_type True (be_type (oe_binaryen V) e)) (ps_mod s) (snd ?w)
        = Some (r, ps_mod s, g')"
      "case r of None \<Rightarrow> True | Some f \<Rightarrow> \<exists>x. f = Some x \<and> dumb_arm (map f_name (m_funcs (ps_mod s))) (be_type (oe_binaryen V) e) x"
      using false_arm_ok [OF assms(1,2)] by blast
    show ?thesis
    proof (cases r)
      case None
      then show ?thesis
        using True arm r assms(3) by (auto simp: wrap_expr_def case_prod_unfold Let_def)
    next
      case (Some f)
      then obtain x where x: "f = Some x" "dumb_arm (map f_name (m_funcs (ps_mod s))) (be_type (oe_binaryen V) e) x"
        using r(2) by auto
      let ?new = "If (Const (LitInt32 1)) e (Some x)"
      have "wrap_expr V R W idx p e s = Some (False, Some (?new, 1), s\<lparr> ps_mod := ps_mod s, ps_cnt := ps_cnt s + 1, ps_rng := g' \<rparr>)"
        using True arm r assms(3) Some x(1) by (auto simp: wrap_expr_def case_prod_unfold Let_def)
      moreover have "wraps (be_type (oe_binaryen V)) (map f_name (m_funcs (ps_mod s))) None e ?new"
        using kind x(2) by (simp add: wraps_def)
      moreover have "node_at ?new [1] = Some e" by (simp add: children_defs)
      ultimately show ?thesis by (intro exI conjI) (assumption | auto)+
    qed
  qed
next
  case False
  then show ?thesis by (auto simp: wrap_expr_def case_prod_unfold Let_def)
qed

end

section \<open>The state between two wrappings\<close>

text \<open>
  The wrappings so far, their number, and the names: those in use are the ones in use before and
  the labels that were introduced.
\<close>

definition wrap_done :: "(bexpr \<Rightarrow> btype) \<Rightarrow> bmodule \<Rightarrow> nameGrp \<Rightarrow> 'g pass_state \<Rightarrow> bool" where
  "wrap_done ty m0 n0 s \<longleftrightarrow>
     (\<exists>ls. wrap_rewrites (wraps ty (map f_name (m_funcs m0))) ls (bodies m0) (bodies (ps_mod s)) \<and>
        length ls = unat (ps_cnt s) \<and> same_but_bodies m0 (ps_mod s) \<and> pool_ok (ps_names s) \<and>
        used_names (ps_names s) = used_names n0 @ labels ls \<and>
        pool_room n0 \<le> pool_room (ps_names s) + length ls)"

definition wrap_at :: "(bexpr \<Rightarrow> btype) \<Rightarrow> bmodule \<Rightarrow> nameGrp \<Rightarrow> nat \<Rightarrow> 'g pass_state \<Rightarrow> bexpr \<Rightarrow> bool" where
  "wrap_at ty m0 n0 idx s b \<longleftrightarrow>
     wrap_done ty m0 n0 s \<and> idx < length (m_funcs m0) \<and> f_body (m_funcs (ps_mod s) ! idx) = Some b"

lemma same_but_bodies_names:
  assumes "same_but_bodies m m'"
  shows "map f_name (m_funcs m') = map f_name (m_funcs m)" and "length (m_funcs m') = length (m_funcs m)"
proof -
  have "map f_name (map (\<lambda>f. f\<lparr> f_body := None \<rparr>) (m_funcs m')) = map f_name (map (\<lambda>f. f\<lparr> f_body := None \<rparr>) (m_funcs m))"
    using assms by (simp only: same_but_bodies_def)
  then show n: "map f_name (m_funcs m') = map f_name (m_funcs m)" by (simp add: comp_def)
  show "length (m_funcs m') = length (m_funcs m)" using arg_cong [OF n, of length] by simp
qed

lemma wrap_done_names:
  assumes "wrap_done ty m0 n0 s"
  shows "map f_name (m_funcs (ps_mod s)) = map f_name (m_funcs m0)" and "length (m_funcs (ps_mod s)) = length (m_funcs m0)"
  using assms same_but_bodies_names by (auto simp: wrap_done_def)

lemma wrap_done_unchanged:
  "wrap_done ty m0 n0 s \<Longrightarrow> ps_mod s' = ps_mod s \<Longrightarrow> ps_cnt s' = ps_cnt s \<Longrightarrow> ps_names s' = ps_names s \<Longrightarrow>
   wrap_done ty m0 n0 s'"
  by (simp add: wrap_done_def)

lemma labels_snoc [simp]: "labels (ls @ [l]) = labels ls @ (case l of Some n \<Rightarrow> [n] | None \<Rightarrow> [])"
  by (cases l) (simp_all add: List.map_filter_def)

lemma wrap_done_step:
  assumes s: "wrap_at ty m0 n0 idx s b" and e: "node_at b p = Some e" "wraps ty (map f_name (m_funcs m0)) l e e'"
    and s1: "ps_mod s1 = ps_mod s" "ps_cnt s1 = ps_cnt s + 1"
    and nm: "case l of None \<Rightarrow> ps_names s1 = ps_names s | Some n \<Rightarrow> wasm_find_available_name (ps_names s) = (n, ps_names s1)"
    and cnt: "Suc (unat (ps_cnt s)) < 2 ^ 32" "unat (ps_cnt s) < pool_room n0"
  shows "wrap_at ty m0 n0 idx (s1\<lparr> ps_mod := set_body idx (set_node b p e') (ps_mod s1) \<rparr>) (set_node b p e')"
proof -
  obtain ls where ls: "wrap_rewrites (wraps ty (map f_name (m_funcs m0))) ls (bodies m0) (bodies (ps_mod s))"
    "length ls = unat (ps_cnt s)" "same_but_bodies m0 (ps_mod s)" "pool_ok (ps_names s)"
    "used_names (ps_names s) = used_names n0 @ labels ls" "pool_room n0 \<le> pool_room (ps_names s) + length ls"
    using s by (auto simp: wrap_at_def wrap_done_def)
  have idx: "idx < length (m_funcs (ps_mod s))" "f_body (m_funcs (ps_mod s) ! idx) = Some b"
    using s same_but_bodies_names(2) [OF ls(3)] by (auto simp: wrap_at_def)
  have "wrap_rewrites (wraps ty (map f_name (m_funcs m0))) (ls @ [l]) (bodies m0) (bodies (set_body idx (set_node b p e') (ps_mod s)))"
    using wrap_rewrites_step [OF ls(1) _ _ e, of idx] idx by (simp add: bodies_set_body)
  moreover have "length (ls @ [l]) = unat (ps_cnt s + 1)" using ls(2) cnt(1) by (simp add: unat_Suc_less)
  moreover have room: "0 < pool_room (ps_names s)" using cnt(2) ls(2,6) by simp
  have "pool_ok (ps_names s1) \<and> used_names (ps_names s1) = used_names n0 @ labels (ls @ [l]) \<and>
      pool_room n0 \<le> pool_room (ps_names s1) + length (ls @ [l])"
  proof (cases l)
    case None
    then show ?thesis using nm ls by simp
  next
    case (Some n)
    then have "snd (wasm_find_available_name (ps_names s)) = ps_names s1" "fst (wasm_find_available_name (ps_names s)) = n"
      using nm by simp_all
    then show ?thesis
      using Some ls(4-6) room pool.take_ok [OF ls(4) room] pool.take_room [OF ls(4) room] pool.take_in_use [of "ps_names s"]
      by simp
  qed
  ultimately show ?thesis
    using s s1 idx same_but_bodies_set [OF ls(3) idx(1)]
    by (auto simp: wrap_at_def wrap_done_def intro!: exI [of _ "ls @ [l]"])
qed

context bounded_rng
begin

lemma wrap_place_ok:
  assumes s: "wrap_at (be_type (oe_binaryen V)) m0 n0 idx s b" and e: "node_at b p = Some e"
    and len: "length (m_funcs m0) < 2 ^ 32" and W: "wa_simplify W idx p"
    and cnt: "Suc (unat (ps_cnt s)) < 2 ^ 32" "unat (ps_cnt s) < pool_room n0"
  shows "\<exists>stop res s1. wrap_expr V R W idx p e s = Some (stop, res, s1) \<and>
    (if stop then wrap_done (be_type (oe_binaryen V)) m0 n0 s1 \<and> ps_cnt s1 = ps_cnt s
     else \<exists>q s2 b2. place idx p res s1 = (q, s2) \<and> wrap_at (be_type (oe_binaryen V)) m0 n0 idx s2 b2 \<and>
       node_at b2 q = Some e \<and> prefix p q \<and> (\<forall>r. p \<parallel> r \<longrightarrow> node_at b2 r = node_at b r) \<and>
       unat (ps_cnt s2) \<le> Suc (unat (ps_cnt s)) \<and> other_bodies_same idx s s2)"
proof -
  let ?ty = "be_type (oe_binaryen V)"
  have wd: "wrap_done ?ty m0 n0 s" and b: "f_body (m_funcs (ps_mod s) ! idx) = Some b"
    using s by (auto simp: wrap_at_def)
  note fn = wrap_done_names [OF wd]
  have "0 < length (m_funcs (ps_mod s))" "length (m_funcs (ps_mod s)) < 2 ^ 32"
    using s fn(2) len by (auto simp: wrap_at_def)
  from wrap_expr_ok [OF this W, of V e] obtain stop res s1 where
    w: "wrap_expr V R W idx p e s = Some (stop, res, s1)" "ps_mod s1 = ps_mod s"
    and res: "case res of None \<Rightarrow> ps_cnt s1 = ps_cnt s \<and> ps_names s1 = ps_names s
       | Some (new, k) \<Rightarrow> \<not> stop \<and> ps_cnt s1 = ps_cnt s + 1 \<and> node_at new [k] = Some e \<and>
         (\<exists>l. wraps ?ty (map f_name (m_funcs (ps_mod s))) l e new \<and>
            (case l of None \<Rightarrow> ps_names s1 = ps_names s
             | Some n \<Rightarrow> wasm_find_available_name (ps_names s) = (n, ps_names s1)))"
    by blast
  show ?thesis
  proof (cases res)
    case None
    then have wd1: "wrap_done ?ty m0 n0 s1" using wrap_done_unchanged [OF wd w(2)] res by simp
    then have "wrap_at ?ty m0 n0 idx s1 b" using s w(2) by (simp add: wrap_at_def)
    with wd1 show ?thesis
      using None w res e by (cases stop) (auto simp: place_def)
  next
    case (Some nk)
    then obtain new k l where nk: "res = Some (new, k)" "\<not> stop" "ps_cnt s1 = ps_cnt s + 1" "node_at new [k] = Some e"
      "wraps ?ty (map f_name (m_funcs m0)) l e new"
      "case l of None \<Rightarrow> ps_names s1 = ps_names s | Some n \<Rightarrow> wasm_find_available_name (ps_names s) = (n, ps_names s1)"
      using res fn(1) by (cases nk) auto
    let ?b = "set_node b p new"
    let ?s = "s1\<lparr> ps_mod := set_body idx ?b (ps_mod s1) \<rparr>"
    have "wrap_at ?ty m0 n0 idx ?s ?b"
      by (rule wrap_done_step [OF s e nk(5) w(2) nk(3,6) cnt])
    moreover have "node_at ?b (p @ [k]) = Some e" using node_at_set_node [of b p new "[k]"] e nk(4) by simp
    moreover have "place idx p res s1 = (p @ [k], ?s)" using nk(1) w(2) b by (simp add: place_def)
    moreover have "\<forall>r. p \<parallel> r \<longrightarrow> node_at ?b r = node_at b r" by (simp add: node_at_set_parallel)
    moreover have "unat (ps_cnt ?s) \<le> Suc (unat (ps_cnt s))" using nk(3) cnt(1) by (simp add: unat_Suc_less)
    moreover have "other_bodies_same idx s ?s" using w(2) by (simp add: set_body_other)
    ultimately show ?thesis
      using w(1) nk(2) by (intro exI [of _ False] exI [of _ res] exI [of _ s1]) auto
  qed
qed

end

section \<open>The loop over the children\<close>

text \<open>The new entries \<open>ps\<close> of the work list for the children \<open>cs\<close>, which begin at index \<open>ind\<close> of the node at \<open>p\<close>.\<close>

definition child_entries :: "bexpr \<Rightarrow> nat list \<Rightarrow> nat \<Rightarrow> bexpr option list \<Rightarrow> nat list list \<Rightarrow> bool" where
  "child_entries b p ind cs ps \<longleftrightarrow>
     sorted_wrt (\<parallel>) ps \<and>
     list_all2 (\<lambda>r c. node_at b r = Some c \<and> (\<exists>j \<ge> ind. prefix (p @ [j]) r)) ps (present cs)"

lemma present_simps [simp]: "present [] = []" "present (None # cs) = present cs" "present (Some c # cs) = c # present cs"
  by (simp_all add: present_def)

lemma child_entries_mono:
  assumes "child_entries b p (Suc ind) cs ps"
  shows "child_entries b p ind cs ps"
  using assms unfolding child_entries_def by (auto elim!: list_all2_mono dest: Suc_leD)

lemma child_entries_parallel:
  assumes "child_entries b p (Suc ind) cs ps" and "prefix (p @ [ind]) q" and "r \<in> set ps"
  shows "q \<parallel> r"
proof -
  obtain j where "Suc ind \<le> j" "prefix (p @ [j]) r"
    using assms(1,3) unfolding child_entries_def by (auto simp: list_all2_conv_all_nth in_set_conv_nth)
  then show ?thesis using assms(2) by (auto simp: prefix_def parallel_def)
qed

context bounded_rng
begin

lemma recursive_children_ok:
  assumes "wrap_at (be_type (oe_binaryen V)) m0 n0 idx s b"
    and "\<And>j c. j < length cs \<Longrightarrow> cs ! j = Some c \<Longrightarrow> node_at b (p @ [ind + j]) = Some c"
    and len: "length (m_funcs m0) < 2 ^ 32" and W: "\<And>q. wa_simplify W idx q"
    and "unat (ps_cnt s) + length cs < 2 ^ 32" and "unat (ps_cnt s) + length cs \<le> pool_room n0"
  shows "\<exists>stop new s'. recursive_children V R W idx p ind cs s = Some (stop, new, s') \<and>
    wrap_done (be_type (oe_binaryen V)) m0 n0 s' \<and> unat (ps_cnt s') \<le> unat (ps_cnt s) + length cs \<and>
    (\<not> stop \<longrightarrow> (\<exists>b'. wrap_at (be_type (oe_binaryen V)) m0 n0 idx s' b' \<and> child_entries b' p ind cs new \<and>
       (\<forall>r. (\<forall>j \<ge> ind. p @ [j] \<parallel> r) \<longrightarrow> node_at b' r = node_at b r) \<and> other_bodies_same idx s s'))"
  using assms(1,2,5,6)
proof (induction cs arbitrary: ind s b)
  case Nil
  then show ?case by (auto simp: wrap_at_def child_entries_def)
next
  case (Cons ch cs)
  let ?ty = "be_type (oe_binaryen V)"
  have later: "node_at b (p @ [Suc ind + j]) = Some c" if "j < length cs" "cs ! j = Some c" for j c
    using Cons.prems(2) [of "Suc j" c] that by simp
  show ?case
  proof (cases ch)
    case None
    obtain stop new s' where r: "recursive_children V R W idx p (Suc ind) cs s = Some (stop, new, s')"
      "wrap_done ?ty m0 n0 s'" "unat (ps_cnt s') \<le> unat (ps_cnt s) + length cs"
      "\<not> stop \<Longrightarrow> \<exists>b'. wrap_at ?ty m0 n0 idx s' b' \<and> child_entries b' p (Suc ind) cs new \<and>
         (\<forall>r. (\<forall>j \<ge> Suc ind. p @ [j] \<parallel> r) \<longrightarrow> node_at b' r = node_at b r) \<and> other_bodies_same idx s s'"
      using Cons.IH [OF Cons.prems(1) later] Cons.prems(3,4) by auto
    have "child_entries b' p ind (ch # cs) new \<and> (\<forall>r. (\<forall>j \<ge> ind. p @ [j] \<parallel> r) \<longrightarrow> node_at b' r = node_at b r)"
      if "child_entries b' p (Suc ind) cs new" "\<forall>r. (\<forall>j \<ge> Suc ind. p @ [j] \<parallel> r) \<longrightarrow> node_at b' r = node_at b r" for b'
      using child_entries_mono [OF that(1)] that(2) None by (simp add: child_entries_def)
    then show ?thesis
      using r None by (intro exI [of _ stop] exI [of _ new] exI [of _ s']) fastforce
  next
    case (Some e)
    have e: "node_at b (p @ [ind]) = Some e" using Cons.prems(2) [of 0 e] Some by simp
    obtain stop res s1 where w: "wrap_expr V R W idx (p @ [ind]) e s = Some (stop, res, s1)"
      "if stop then wrap_done ?ty m0 n0 s1 \<and> ps_cnt s1 = ps_cnt s
       else \<exists>q s2 b2. place idx (p @ [ind]) res s1 = (q, s2) \<and> wrap_at ?ty m0 n0 idx s2 b2 \<and>
         node_at b2 q = Some e \<and> prefix (p @ [ind]) q \<and> (\<forall>r. p @ [ind] \<parallel> r \<longrightarrow> node_at b2 r = node_at b r) \<and>
         unat (ps_cnt s2) \<le> Suc (unat (ps_cnt s)) \<and> other_bodies_same idx s s2"
      using wrap_place_ok [OF Cons.prems(1) e len W] Cons.prems(3,4) by auto
    show ?thesis
    proof (cases stop)
      case True
      then show ?thesis using w Some by (intro exI [of _ True] exI [of _ "[]"] exI [of _ s1]) simp
    next
      case False
      then obtain q s2 b2 where q: "place idx (p @ [ind]) res s1 = (q, s2)" "wrap_at ?ty m0 n0 idx s2 b2"
        "node_at b2 q = Some e" "prefix (p @ [ind]) q" "\<And>r. p @ [ind] \<parallel> r \<Longrightarrow> node_at b2 r = node_at b r"
        "unat (ps_cnt s2) \<le> Suc (unat (ps_cnt s))" "other_bodies_same idx s s2"
        using w(2) by auto
      have later2: "node_at b2 (p @ [Suc ind + j]) = Some c" if "j < length cs" "cs ! j = Some c" for j c
        using later [OF that] q(5) [of "p @ [Suc ind + j]"] by (simp add: parallel_def)
      have "unat (ps_cnt s2) + length cs < 2 ^ 32" "unat (ps_cnt s2) + length cs \<le> pool_room n0"
        using q(6) Cons.prems(3,4) by simp_all
      from Cons.IH [OF q(2) later2 this] obtain stop' new s' where
        r: "recursive_children V R W idx p (Suc ind) cs s2 = Some (stop', new, s')"
        "wrap_done ?ty m0 n0 s'" "unat (ps_cnt s') \<le> unat (ps_cnt s2) + length cs"
        "\<not> stop' \<Longrightarrow> \<exists>b'. wrap_at ?ty m0 n0 idx s' b' \<and> child_entries b' p (Suc ind) cs new \<and>
           (\<forall>r. (\<forall>j \<ge> Suc ind. p @ [j] \<parallel> r) \<longrightarrow> node_at b' r = node_at b2 r) \<and> other_bodies_same idx s2 s'"
        by blast
      have res: "recursive_children V R W idx p ind (ch # cs) s = Some (stop', q # new, s')"
        using w(1) q(1) r(1) Some False by simp
      have "child_entries b' p ind (ch # cs) (q # new) \<and> (\<forall>r. (\<forall>j \<ge> ind. p @ [j] \<parallel> r) \<longrightarrow> node_at b' r = node_at b r)"
        if b': "child_entries b' p (Suc ind) cs new" "\<forall>r. (\<forall>j \<ge> Suc ind. p @ [j] \<parallel> r) \<longrightarrow> node_at b' r = node_at b2 r" for b'
      proof -
        have "p @ [j] \<parallel> q" if "Suc ind \<le> j" for j
          using that q(4) by (auto simp: prefix_def parallel_def)
        then have "node_at b' q = Some e" using b'(2) q(3) by simp
        then show ?thesis
          using Some child_entries_mono [OF b'(1)] child_entries_parallel [OF b'(1) q(4)] q(4,5) b'(2)
          by (auto simp: child_entries_def)
      qed
      note entries = this
      have "\<exists>b'. wrap_at ?ty m0 n0 idx s' b' \<and> child_entries b' p ind (ch # cs) (q # new) \<and>
         (\<forall>r. (\<forall>j \<ge> ind. p @ [j] \<parallel> r) \<longrightarrow> node_at b' r = node_at b r) \<and> other_bodies_same idx s s'" if "\<not> stop'"
      proof -
        from r(4) [OF that] obtain b' where b': "wrap_at ?ty m0 n0 idx s' b'" "child_entries b' p (Suc ind) cs new"
          "\<forall>r. (\<forall>j \<ge> Suc ind. p @ [j] \<parallel> r) \<longrightarrow> node_at b' r = node_at b2 r" "other_bodies_same idx s2 s'" by blast
        then show ?thesis using entries [OF b'(2,3)] q(7) by (intro exI [of _ b']) simp
      qed
      then show ?thesis
        using r(2,3) q(6) res by (intro exI [of _ stop'] exI [of _ "q # new"] exI [of _ s']) simp
    qed
  qed
qed

end

section \<open>The pass keeps its invariant\<close>

definition arity_ok :: "nat \<Rightarrow> bexpr \<Rightarrow> bool" where
  "arity_ok N e \<longleftrightarrow> list_all (\<lambda>x. length (kids x) \<le> N) (subnodes e)"

lemma arity_ok_kid:
  assumes "arity_ok N e" and "Some c \<in> set (kids e)"
  shows "arity_ok N c" and "length (kids e) \<le> N"
proof -
  have "set (subnodes c) \<subseteq> set (subnodes e)"
    using assms(2) by (force simp: subnodes.simps [of e])
  then show "arity_ok N c" "length (kids e) \<le> N"
    using assms(1) by (auto simp: arity_ok_def list_all_iff)
qed

lemma arity_ok_self: "arity_ok N e \<Longrightarrow> length (kids e) \<le> N"
  by (simp add: arity_ok_def list_all_iff)

text \<open>All bodies have at most \<open>N\<close> children per node, and the name pool can serve that many labels.\<close>

definition wrap_setting :: "wrap_allocs \<Rightarrow> nat \<Rightarrow> bmodule \<Rightarrow> nameGrp \<Rightarrow> bool" where
  "wrap_setting W N m0 n0 \<longleftrightarrow>
     list_all (\<lambda>b. case b of Some e \<Rightarrow> arity_ok N e | None \<Rightarrow> True) (bodies m0) \<and>
     length (m_funcs m0) < 2 ^ 32 \<and> (\<forall>idx q. wa_simplify W idx q) \<and>
     N + 200 < 2 ^ 32 \<and> N + 200 \<le> pool_room n0"

definition wrap_idle :: "(bexpr \<Rightarrow> btype) \<Rightarrow> bmodule \<Rightarrow> nameGrp \<Rightarrow> u32 \<Rightarrow> nat list \<Rightarrow> 'g pass_state \<Rightarrow> bool" where
  "wrap_idle ty m0 n0 max_cnt rest s \<longleftrightarrow>
     wrap_done ty m0 n0 s \<and> ps_cnt s < max_cnt \<and> max_cnt \<le> 100 \<and> distinct rest \<and>
     (\<forall>j \<in> set rest. j < length (m_funcs m0) \<and> m_funcs (ps_mod s) ! j = m_funcs m0 ! j)"

definition wrap_inv ::
  "(bexpr \<Rightarrow> btype) \<Rightarrow> nat \<Rightarrow> bmodule \<Rightarrow> nameGrp \<Rightarrow> u32 \<Rightarrow> nat \<Rightarrow> nat list \<Rightarrow> 'g pass_state \<Rightarrow> nat list list \<Rightarrow> bool" where
  "wrap_inv ty N m0 n0 max_cnt idx rest s ws \<longleftrightarrow>
     wrap_idle ty m0 n0 max_cnt rest s \<and> idx \<notin> set rest \<and>
     (\<exists>b. wrap_at ty m0 n0 idx s b \<and> frontier b ws \<and>
        list_all (\<lambda>p. \<exists>e. node_at b p = Some e \<and> arity_ok N e) ws)"

definition wrap_fin :: "(bexpr \<Rightarrow> btype) \<Rightarrow> nat \<Rightarrow> bmodule \<Rightarrow> nameGrp \<Rightarrow> u32 \<Rightarrow> 'g pass_state \<Rightarrow> bool" where
  "wrap_fin ty N m0 n0 max_cnt s \<longleftrightarrow> unat (ps_cnt s) \<le> unat max_cnt + N \<and> wrap_done ty m0 n0 s"

lemma entries_weight:
  assumes "list_all2 (\<lambda>r c. node_at b r = Some c \<and> P r) ps (present cs)"
  shows "total_weight b ps = sum_list (map (\<lambda>k. case k of Some x \<Rightarrow> nodes x | None \<Rightarrow> 0) cs)"
proof -
  have "map (node_weight b) ps = map nodes (present cs)"
    using assms by (induction rule: list_all2_induct) (simp_all add: node_weight_def)
  also have "sum_list \<dots> = sum_list (map (\<lambda>k. case k of Some x \<Rightarrow> nodes x | None \<Rightarrow> 0) cs)"
    by (induction cs) (auto simp: present_simps split: option.splits)
  finally show ?thesis .
qed

lemma present_mem: "c \<in> set (present cs) \<longleftrightarrow> Some c \<in> set cs"
  by (induction cs) (auto simp: present_def List.map_filter_def)

text \<open>The work list after a visit.\<close>

lemma entries_frontier:
  assumes fr: "frontier b (p # ws)" and e: "node_at b p = Some e" and cs: "cs = kids e \<or> cs = []"
    and pq: "prefix p q" and new: "child_entries b' q 0 cs new"
    and par: "\<And>r. p \<parallel> r \<Longrightarrow> node_at b' r = node_at b r"
  shows "frontier b' (ws @ new)" and "total_weight b' (ws @ new) < total_weight b (p # ws)"
proof -
  have ws: "p \<parallel> r" "node_at b' r = node_at b r" "node_at b r \<noteq> None" if "r \<in> set ws" for r
    using that fr par by (auto simp: frontier_def list_all_iff)
  have n: "prefix p r \<and> node_at b' r \<noteq> None" if "r \<in> set new" for r
    using new that pq unfolding child_entries_def
    by (auto simp: list_all2_conv_all_nth in_set_conv_nth intro: prefix_order.trans elim!: append_prefixD)
  have "x \<parallel> y" if x: "x \<in> set ws" and y: "y \<in> set new" for x y
  proof -
    obtain t where "y = p @ t" using n [OF y] by (auto simp: prefix_def)
    moreover have "x \<parallel> p" using ws(1) [OF x] by (simp add: parallel_commute)
    ultimately show ?thesis by (simp add: parallel_child)
  qed
  then show "frontier b' (ws @ new)"
    using fr ws n new by (auto simp: frontier_def sorted_wrt_append list_all_iff child_entries_def)
  have "total_weight b' new = sum_list (map (\<lambda>k. case k of Some x \<Rightarrow> nodes x | None \<Rightarrow> 0) cs)"
    using new unfolding child_entries_def by (elim conjE) (rule entries_weight)
  also have "\<dots> < nodes e" using cs by (auto simp: nodes.simps [of e])
  finally have "total_weight b' new < node_weight b p" using e by (simp add: node_weight_def)
  moreover have "total_weight b' ws = total_weight b ws"
    using ws(2) by (intro arg_cong [where f = sum_list] map_cong) (simp_all add: node_weight_def)
  ultimately show "total_weight b' (ws @ new) < total_weight b (p # ws)" by simp
qed

context bounded_rng
begin

lemma wrap_root_ok:
  assumes s: "wrap_at (be_type (oe_binaryen V)) m0 n0 idx s b" and e: "node_at b p = Some e"
    and len: "length (m_funcs m0) < 2 ^ 32" and W: "wa_simplify W idx p"
    and cnt: "Suc (unat (ps_cnt s)) < 2 ^ 32" "unat (ps_cnt s) < pool_room n0"
  shows "\<exists>stop res s1. (if p = [] then wrap_expr V R W idx p e s else Some (False, None, s)) = Some (stop, res, s1) \<and>
    (if stop then wrap_done (be_type (oe_binaryen V)) m0 n0 s1 \<and> ps_cnt s1 = ps_cnt s
     else \<exists>q s2 b2. place idx p res s1 = (q, s2) \<and> wrap_at (be_type (oe_binaryen V)) m0 n0 idx s2 b2 \<and>
       node_at b2 q = Some e \<and> prefix p q \<and> (\<forall>r. p \<parallel> r \<longrightarrow> node_at b2 r = node_at b r) \<and>
       unat (ps_cnt s2) \<le> Suc (unat (ps_cnt s)) \<and> other_bodies_same idx s s2)"
proof (cases "p = []")
  case True
  then show ?thesis using wrap_place_ok [OF assms] by simp
next
  case False
  then show ?thesis using s e by (auto simp: place_def intro!: exI [of _ False])
qed

lemma recursive_visit_ok:
  assumes set: "wrap_setting W N m0 n0" and inv: "wrap_inv (be_type (oe_binaryen V)) N m0 n0 max_cnt idx rest s (p # ws)"
  shows "\<exists>stop new s'. recursive_visit V R A W max_cnt idx s p = Some (stop, new, s') \<and>
    (if stop then wrap_fin (be_type (oe_binaryen V)) N m0 n0 max_cnt s'
     else wrap_inv (be_type (oe_binaryen V)) N m0 n0 max_cnt idx rest s' (ws @ new) \<and>
          body_weight idx s' (ws @ new) < body_weight idx s (p # ws))"
proof -
  let ?ty = "be_type (oe_binaryen V)"
  obtain b el where idle: "wrap_idle ?ty m0 n0 max_cnt rest s" "idx \<notin> set rest" and at: "wrap_at ?ty m0 n0 idx s b"
    and fr: "frontier b (p # ws)" and el: "node_at b p = Some el" "arity_ok N el"
    and ar: "list_all (\<lambda>p. \<exists>e. node_at b p = Some e \<and> arity_ok N e) ws"
    using inv by (auto simp: wrap_inv_def)
  have sett: "length (m_funcs m0) < 2 ^ 32" "\<And>idx q. wa_simplify W idx q" "N + 200 < 2 ^ 32" "N + 200 \<le> pool_room n0"
    using set by (auto simp: wrap_setting_def)
  have cnt: "unat (ps_cnt s) < unat max_cnt" "unat max_cnt \<le> 100"
    using idle(1) by (auto simp: wrap_idle_def word_less_nat_alt word_le_nat_alt)
  let ?cs = "wasm_get_children_expr (rm_al A idx p) (Some el)"
  have cs: "?cs = kids el \<or> ?cs = []" by (rule get_children_cases)
  then have lcs: "length ?cs \<le> N" using arity_ok_self [OF el(2)] by auto
  obtain stop res s1 where w: "(if p = [] then wrap_expr V R W idx p el s else Some (False, None, s)) = Some (stop, res, s1)"
    "if stop then wrap_done ?ty m0 n0 s1 \<and> ps_cnt s1 = ps_cnt s
     else \<exists>q s2 b2. place idx p res s1 = (q, s2) \<and> wrap_at ?ty m0 n0 idx s2 b2 \<and>
       node_at b2 q = Some el \<and> prefix p q \<and> (\<forall>r. p \<parallel> r \<longrightarrow> node_at b2 r = node_at b r) \<and>
       unat (ps_cnt s2) \<le> Suc (unat (ps_cnt s)) \<and> other_bodies_same idx s s2"
    using wrap_root_ok [OF at el(1) sett(1,2)] cnt sett(3,4) by auto
  have b: "f_body (m_funcs (ps_mod s) ! idx) = Some b" using at by (simp add: wrap_at_def)
  show ?thesis
  proof (cases stop)
    case True
    then show ?thesis using w b el cnt by (auto simp: recursive_visit_def wrap_fin_def intro!: exI [of _ True])
  next
    case False
    then obtain q s2 b2 where q: "place idx p res s1 = (q, s2)" "wrap_at ?ty m0 n0 idx s2 b2" "node_at b2 q = Some el"
      "prefix p q" "\<And>r. p \<parallel> r \<Longrightarrow> node_at b2 r = node_at b r" "unat (ps_cnt s2) \<le> Suc (unat (ps_cnt s))"
      "other_bodies_same idx s s2" using w(2) by auto
    have kid: "node_at b2 (q @ [0 + j]) = Some c" if "j < length ?cs" "?cs ! j = Some c" for j c
      using that q(3) cs by (auto simp: node_at_append)
    have room: "unat (ps_cnt s2) + length ?cs < 2 ^ 32" "unat (ps_cnt s2) + length ?cs \<le> pool_room n0"
      using q(6) cnt lcs sett(3,4) by simp_all
    from recursive_children_ok [OF q(2) kid sett(1,2) room] obtain stop' new s' where
      r: "recursive_children V R W idx q 0 ?cs s2 = Some (stop', new, s')" "wrap_done ?ty m0 n0 s'"
      "unat (ps_cnt s') \<le> unat (ps_cnt s2) + length ?cs"
      "\<not> stop' \<Longrightarrow> \<exists>b'. wrap_at ?ty m0 n0 idx s' b' \<and> child_entries b' q 0 ?cs new \<and>
         (\<forall>r. (\<forall>j \<ge> 0. q @ [j] \<parallel> r) \<longrightarrow> node_at b' r = node_at b2 r) \<and> other_bodies_same idx s2 s'" by blast
    have visit: "recursive_visit V R A W max_cnt idx s p = Some (stop' \<or> ps_cnt s' \<ge> max_cnt, new, s')"
      using b el(1) w(1) q(1) r(1) False by (simp add: recursive_visit_def)
    have bound: "unat (ps_cnt s') \<le> unat max_cnt + N" using r(3) q(6) cnt(1) lcs by simp
    show ?thesis
    proof (cases "stop' \<or> ps_cnt s' \<ge> max_cnt")
      case True
      then show ?thesis using visit bound r(2) by (auto simp: wrap_fin_def intro!: exI [of _ True])
    next
      case go: False
      then obtain b' where b': "wrap_at ?ty m0 n0 idx s' b'" "child_entries b' q 0 ?cs new"
        "\<And>r. (\<And>j. q @ [j] \<parallel> r) \<Longrightarrow> node_at b' r = node_at b2 r" "other_bodies_same idx s2 s'"
        using r(4) by blast
      have par: "node_at b' r = node_at b r" if "p \<parallel> r" for r
      proof -
        obtain t where "q = p @ t" using q(4) by (auto simp: prefix_def)
        then have "q @ [j] \<parallel> r" for j
          using parallel_append [OF that, of "t @ [j]" "[]"] by simp
        then show ?thesis using b'(3) q(5) [OF that] by simp
      qed
      note fr' = entries_frontier [OF fr el(1) cs q(4) b'(2) par]
      have "list_all (\<lambda>p. \<exists>e. node_at b' p = Some e \<and> arity_ok N e) new"
      proof -
        have "arity_ok N c" if "c \<in> set (present ?cs)" for c
          using that cs arity_ok_kid(1) [OF el(2)] by (auto simp: present_mem)
        then show ?thesis
          using b'(2) unfolding child_entries_def list_all2_conv_all_nth list_all_length by (metis nth_mem)
      qed
      moreover have "list_all (\<lambda>p. \<exists>e. node_at b' p = Some e \<and> arity_ok N e) ws"
        using ar fr par by (auto simp: list_all_iff frontier_def)
      moreover have "wrap_idle ?ty m0 n0 max_cnt rest s'"
        using idle go q(7) b'(4) r(2) by (auto simp: wrap_idle_def)
      ultimately show ?thesis
        using visit go idle(2) b'(1) fr' b by (auto simp: wrap_inv_def body_weight_def wrap_at_def)
    qed
  qed
qed

lemma recursive_module_pass:
  "module_pass (recursive_visit V R A W max_cnt) body_weight
     (\<lambda>idx rest s ws. wrap_setting W N m0 n0 \<and> wrap_inv (be_type (oe_binaryen V)) N m0 n0 max_cnt idx rest s ws)
     (\<lambda>rest s. wrap_setting W N m0 n0 \<and> wrap_idle (be_type (oe_binaryen V)) m0 n0 max_cnt rest s)
     (wrap_fin (be_type (oe_binaryen V)) N m0 n0 max_cnt)"
proof (unfold_locales, goal_cases)
  case (1 idx rest s p ws)
  then obtain stop new s' where "recursive_visit V R A W max_cnt idx s p = Some (stop, new, s')"
    "if stop then wrap_fin (be_type (oe_binaryen V)) N m0 n0 max_cnt s'
     else wrap_inv (be_type (oe_binaryen V)) N m0 n0 max_cnt idx rest s' (ws @ new) \<and>
          body_weight idx s' (ws @ new) < body_weight idx s (p # ws)"
    using recursive_visit_ok by blast
  with 1 show ?case by (cases stop) auto
next
  case (2 idx rest s b)
  then have idle: "wrap_idle (be_type (oe_binaryen V)) m0 n0 max_cnt (idx # rest) s" by simp
  then have m: "m_funcs (ps_mod s) ! idx = m_funcs m0 ! idx" "idx < length (m_funcs m0)"
    by (simp_all add: wrap_idle_def)
  have "Some b \<in> set (bodies m0)" using 2(2) m by (metis length_map nth_map nth_mem)
  then have "case Some b of Some e \<Rightarrow> arity_ok N e | None \<Rightarrow> True"
    using 2 unfolding wrap_setting_def list_all_iff by blast
  then show ?case
    using 2 m idle by (auto simp: wrap_inv_def wrap_idle_def wrap_at_def)
next
  case (5 rest s)
  then show ?case by (auto simp: wrap_idle_def wrap_fin_def word_less_nat_alt)
qed (auto simp: wrap_inv_def wrap_idle_def)

end

interpretation recursive_pass: module_pass "recursive_visit V (afl_rand_ops libc_rand) A W max_cnt" body_weight
    "\<lambda>idx rest s ws. wrap_setting W N m n0 \<and> wrap_inv (be_type (oe_binaryen V)) N m n0 max_cnt idx rest s ws"
    "\<lambda>rest s. wrap_setting W N m n0 \<and> wrap_idle (be_type (oe_binaryen V)) m n0 max_cnt rest s"
    "wrap_fin (be_type (oe_binaryen V)) N m n0 max_cnt"
    for V libc_rand A W N m n0 max_cnt
  by (rule afl_rng.recursive_module_pass)

lemma recursive_returns:
  assumes "wrap_setting W N m (fst ng)" and "pool_ok (fst ng)"
  shows "\<exists>s. wasm_recursive_mutate V (afl_rand_ops libc_rand) A W m ng
               = Some ((ps_cnt s, ps_mod s), ps_names s, ps_rng s) \<and>
             unat (ps_cnt s) \<le> 7 + N \<and> wrap_done (be_type (oe_binaryen V)) m (fst ng) s"
proof -
  let ?R = "afl_rand_ops libc_rand" and ?ty = "be_type (oe_binaryen V)"
  have "\<exists>s max_cnt. 0 < max_cnt \<and> max_cnt \<le> RECURSE_MUTATION_MAX \<and> wrap_fin ?ty N m (fst ng) max_cnt s \<and>
      run_pass ?R A RECURSE_MUTATION_MAX (recursive_visit V ?R A W) m ng
        = Some ((ps_cnt s, ps_mod s), ps_names s, ps_rng s)"
  proof (rule run_pass_returns [OF afl_rng.bounded_rng_axioms recursive_pass.module_pass_axioms])
    fix max_cnt order g
    assume "0 < max_cnt" "max_cnt \<le> RECURSE_MUTATION_MAX" "distinct order" "set order = {0..<length (m_funcs m)}"
    then show "wrap_setting W N m (fst ng) \<and>
        wrap_idle ?ty m (fst ng) max_cnt order \<lparr> ps_mod = m, ps_cnt = 0, ps_names = fst ng, ps_rng = g \<rparr>"
      using assms
      by (auto simp: wrap_idle_def wrap_done_def RECURSE_MUTATION_MAX_def word_le_nat_alt
          intro!: exI [of _ "[]"] wrap_rewrites_refl)
  qed (use assms in \<open>simp_all add: RECURSE_MUTATION_MAX_def wrap_setting_def\<close>)
  then show ?thesis
    by (auto simp: wasm_recursive_mutate_def wrap_fin_def RECURSE_MUTATION_MAX_def word_le_nat_alt)
qed

section \<open>Property\<close>

text \<open>
  C17. The recursive mutation always returns. It reports at most \<open>7 + N\<close> changes, where \<open>N\<close> bounds the
  children of a node, and the bodies differ from the input by exactly that many wrappings of a
  block, loop or conditional: into a block or loop with a label of its own, or into the taken arm
  of a conditional whose other arm is a leaf of the same type. The labels are new: they differ from
  each other and from the names in use before, and the pool records them. Nothing else in the
  module changes.
\<close>

theorem recursive_mutate_correct:
  assumes "wrap_setting W N m (fst ng)" and "pool_ok (fst ng)"
  shows "\<exists>cnt m' ng' ls.
    wasm_recursive_mutate V (afl_rand_ops libc_rand) A W m ng = Some ((cnt, m'), ng') \<and>
    unat cnt \<le> 7 + N \<and> length ls = unat cnt \<and>
    wrap_rewrites (wraps (be_type (oe_binaryen V)) (map f_name (m_funcs m))) ls (bodies m) (bodies m') \<and>
    same_but_bodies m m' \<and> used_names (fst ng') = used_names (fst ng) @ labels ls \<and>
    distinct (used_names (fst ng) @ labels ls) \<and> pool_ok (fst ng')"
proof -
  obtain s where s: "wasm_recursive_mutate V (afl_rand_ops libc_rand) A W m ng
      = Some ((ps_cnt s, ps_mod s), ps_names s, ps_rng s)"
    "unat (ps_cnt s) \<le> 7 + N" "wrap_done (be_type (oe_binaryen V)) m (fst ng) s"
    using recursive_returns [OF assms] by blast
  then obtain ls where ls: "wrap_rewrites (wraps (be_type (oe_binaryen V)) (map f_name (m_funcs m))) ls (bodies m) (bodies (ps_mod s))"
    "length ls = unat (ps_cnt s)" "same_but_bodies m (ps_mod s)" "pool_ok (ps_names s)"
    "used_names (ps_names s) = used_names (fst ng) @ labels ls"
    by (auto simp: wrap_done_def)
  then have "distinct (used_names (fst ng) @ labels ls)" using pool.ok_distinct [OF ls(4)] by simp
  with s ls show ?thesis
    by (intro exI [of _ "ps_cnt s"] exI [of _ "ps_mod s"] exI [of _ "(ps_names s, ps_rng s)"] exI [of _ ls]) simp
qed

definition demo_block_module :: bmodule where
  "demo_block_module = demo_func_module\<lparr> m_funcs := [\<lparr> f_name = ''f'', f_body = Some (Block None [Loop None Nop]),
     f_params = [], f_results = [], f_vars = [] \<rparr>] \<rparr>"

definition demo_wrap_allocs :: wrap_allocs where
  "demo_wrap_allocs = \<lparr> wa_simplify = (\<lambda>_ _. True), wa_types = (\<lambda>_ _. True) \<rparr>"

lemma demo_wrap_setting: "wrap_setting demo_wrap_allocs 1 demo_block_module wasm_init_name_grp" "pool_ok wasm_init_name_grp"
proof -
  have "subnodes (Block None [Loop None Nop]) = [Block None [Loop None Nop], Loop None Nop, Nop]"
    by (simp add: subnodes.simps children_defs)
  then show "wrap_setting demo_wrap_allocs 1 demo_block_module wasm_init_name_grp"
    by (simp add: wrap_setting_def demo_block_module_def demo_wrap_allocs_def arity_ok_def children_defs
        pool_room_def wasm_init_name_grp_def)
  show "pool_ok wasm_init_name_grp"
    by (simp add: pool_ok_def wasm_init_name_grp_def)
qed

theorem recursive_mutate_correct_witness:
  "\<exists>cnt m' ng' ls.
    wasm_recursive_mutate demo_op_env (afl_rand_ops (Pair 0)) \<lparr> rm_al = (\<lambda>_ _. True), rm_shuffle = True \<rparr>
      demo_wrap_allocs demo_block_module (wasm_init_name_grp, demo_rng) = Some ((cnt, m'), ng') \<and>
    unat cnt \<le> 8 \<and> wrap_rewrites (wraps (be_type (oe_binaryen demo_op_env)) [''f'']) ls (bodies demo_block_module) (bodies m') \<and>
    distinct (labels ls)"
proof -
  have "map f_name (m_funcs demo_block_module) = [''f'']" by (simp add: demo_block_module_def)
  then show ?thesis
    using recursive_mutate_correct [where ng = "(wasm_init_name_grp, demo_rng)", unfolded fst_conv, OF demo_wrap_setting,
        of demo_op_env "Pair 0" "\<lparr> rm_al = (\<lambda>_ _. True), rm_shuffle = True \<rparr>"]
    by force
qed

end
