(* ===== verification/Wasm_Typing.thy ===== *)
theory Wasm_Typing
  imports Wasm_Recursive
begin

text \<open>
  A specification: the typing of expression trees. It follows the validation rules of the
  WebAssembly standard for the instructions the generators of \<^verbatim>\<open>generator_func.c\<close> build, read over
  Binaryen's trees: operands are subtrees, a sequence of values is a tuple, and only the last
  expression of a block leaves a value. Plain instructions are covered by one rule, with the
  signatures of \<^verbatim>\<open>Wasm_Instr\<close>.
\<close>

section \<open>Value types\<close>

definition value_type :: "btype \<Rightarrow> bool" where
  "value_type t \<longleftrightarrow> t \<in> set (num_types @ ref_types)"

lemma type_expand_None [simp]: "type_expand TypeNone = []" "type_arity TypeNone = 0"
  by (simp_all add: type_expand_def type_arity_def)

lemma type_expand_create [simp]: "list_all value_type ts \<Longrightarrow> type_expand (type_create ts) = ts"
  by (cases ts rule: remdups_adj.cases) (auto simp: type_create_def type_expand_def value_type_def)

lemma type_arity_create [simp]: "list_all value_type ts \<Longrightarrow> type_arity (type_create ts) = length ts"
  by (simp add: type_arity_def)

lemma type_create_none [simp]: "list_all value_type ts \<Longrightarrow> type_create ts = TypeNone \<longleftrightarrow> ts = []"
  by (cases ts rule: remdups_adj.cases) (auto simp: type_create_def value_type_def)

lemma type_create_simps [simp]: "type_create [] = TypeNone" "type_create [t] = t" "type_create (t # u # ts) = TypeTuple (t # u # ts)"
  by (simp_all add: type_create_def)

lemma value_type_expand [simp]: "value_type t \<Longrightarrow> type_expand t = [t]"
  using type_expand_create [of "[t]"] by simp

lemma simplify_single_value [simp]: "value_type t \<Longrightarrow> simplify_single t = t"
  by (auto simp: value_type_def simplify_single_def)

lemma simplify_value_types [simp]:
  assumes "list_all value_type ts"
  shows "wasm_simplify_type True (type_create ts) = type_create ts"
proof -
  have "map simplify_single ts = ts"
    using assms by (induction ts) simp_all
  moreover have "type_create ts \<noteq> TypeUnreachable"
    using assms by (cases ts rule: remdups_adj.cases) (auto simp: type_create_def value_type_def)
  ultimately show ?thesis
    using assms by (cases "ts = []") (simp_all add: wasm_simplify_type_def type_arity_def)
qed

lemma type_create_inj:
  "list_all value_type ts \<Longrightarrow> list_all value_type us \<Longrightarrow> type_create ts = type_create us \<longleftrightarrow> ts = us"
  by (metis type_expand_create)

section \<open>What an expression refers to\<close>

definition has_table :: "bmodule \<Rightarrow> string \<Rightarrow> btype \<Rightarrow> bool" where
  "has_table m nm t \<longleftrightarrow> (\<exists>tb \<in> set (m_tables m). t_name tb = nm \<and> t_type tb = t)"

definition has_global :: "bmodule \<Rightarrow> string \<Rightarrow> btype \<Rightarrow> bool \<Rightarrow> bool" where
  "has_global m nm t mut \<longleftrightarrow> (\<exists>g \<in> set (m_globals m). g_name g = nm \<and> g_type g = t \<and> (mut \<longrightarrow> g_mutable g))"

definition has_func :: "bmodule \<Rightarrow> string \<Rightarrow> btype list \<Rightarrow> btype list \<Rightarrow> bool" where
  "has_func m nm ps rs \<longleftrightarrow> (\<exists>f \<in> set (m_funcs m). f_name f = nm \<and> f_params f = ps \<and> f_results f = rs)"

definition memory_kinds :: "expr_kind list" where
  "memory_kinds = [LoadId, StoreId, MemorySizeId, MemoryGrowId, MemoryFillId, MemoryCopyId, MemoryInitId,
     SIMDLoadId, SIMDLoadStoreLaneId]"

text \<open>Tables of the right type, a 32-bit memory, data segments and functions that exist.\<close>

definition refs_ok :: "bmodule \<Rightarrow> InstrTy \<Rightarrow> bexpr \<Rightarrow> bool" where
  "refs_ok m i e \<longleftrightarrow>
     (expr_id i \<in> set memory_kinds \<longrightarrow> (\<exists>x. m_memories m = [x] \<and> \<not> mem_is64 x)) \<and>
     (case e of
        TableGet nm x t \<Rightarrow> has_table m nm (opd_type i)
      | TableSet nm x v \<Rightarrow> has_table m nm (opd_type i)
      | TableGrow nm v d \<Rightarrow> has_table m nm (opd_type i)
      | TableSize nm \<Rightarrow> \<exists>t. has_table m nm t
      | MemoryInit seg d off n mem \<Rightarrow> \<exists>x \<in> set (m_segments m). seg_name x = seg
      | DataDrop seg \<Rightarrow> \<exists>x \<in> set (m_segments m). seg_name x = seg
      | RefFunc f \<Rightarrow> f \<in> set (map f_name (m_funcs m))
      | _ \<Rightarrow> True)"

section \<open>The judgement\<close>

text \<open>
  \<open>wt m ls L e t\<close>: in module \<open>m\<close>, with locals of the types \<open>ls\<close> and the enclosing labels \<open>L\<close> (innermost
  first, with the type a branch to them carries), the expression \<open>e\<close> has type \<open>t\<close>. Expressions that do
  not return have every type.
\<close>

inductive wt :: "bmodule \<Rightarrow> btype list \<Rightarrow> (string \<times> btype) list \<Rightarrow> bexpr \<Rightarrow> btype \<Rightarrow> bool" for m ls where
  wt_instr: "instance_of i e \<Longrightarrow> instr_sig i = Some (req, pro) \<Longrightarrow> kids e = map Some cs \<Longrightarrow> refs_ok m i e \<Longrightarrow>
    length cs = length req \<Longrightarrow> (\<And>k. k < length cs \<Longrightarrow> wt m ls L (cs ! k) (req ! k)) \<Longrightarrow>
    wt m ls L e (type_create pro)"
| wt_block: "(\<And>d. d \<in> set ds \<Longrightarrow> wt m ls ((nm, t) # L) d TypeNone) \<Longrightarrow> wt m ls ((nm, t) # L) e t \<Longrightarrow>
    wt m ls L (Block (Some nm) (ds @ [e])) t"
| wt_loop: "wt m ls ((nm, TypeNone) # L) e t \<Longrightarrow> wt m ls L (Loop (Some nm) e) t"
| wt_if: "wt m ls L c TypeInt32 \<Longrightarrow> wt m ls L e t \<Longrightarrow> wt m ls L f t \<Longrightarrow> wt m ls L (If c e (Some f)) t"
| wt_br: "map_of L nm = Some t \<Longrightarrow> (v = None \<longleftrightarrow> t = TypeNone) \<Longrightarrow> (\<And>x. v = Some x \<Longrightarrow> wt m ls L x t) \<Longrightarrow>
    wt m ls L (Break nm v None) u"
| wt_br_if: "map_of L nm = Some t \<Longrightarrow> (v = None \<longleftrightarrow> t = TypeNone) \<Longrightarrow> (\<And>x. v = Some x \<Longrightarrow> wt m ls L x t) \<Longrightarrow>
    wt m ls L c TypeInt32 \<Longrightarrow> wt m ls L (Break nm v (Some c)) t"
| wt_br_table: "list_all (\<lambda>n. map_of L n = Some t) (nm # ns) \<Longrightarrow> (v = None \<longleftrightarrow> t = TypeNone) \<Longrightarrow>
    (\<And>x. v = Some x \<Longrightarrow> wt m ls L x t) \<Longrightarrow> wt m ls L c TypeInt32 \<Longrightarrow> wt m ls L (Switch ns nm v c) u"
| wt_unreachable: "wt m ls L Unreachable u"
| wt_call: "has_func m nm ps rs \<Longrightarrow> length es = length ps \<Longrightarrow> (\<And>k. k < length es \<Longrightarrow> wt m ls L (es ! k) (ps ! k)) \<Longrightarrow>
    wt m ls L (Call nm es) (type_create rs)"
| wt_call_indirect: "has_table m nm TypeFuncref \<Longrightarrow> length es = length (type_expand pt) \<Longrightarrow>
    (\<And>k. k < length es \<Longrightarrow> wt m ls L (es ! k) (type_expand pt ! k)) \<Longrightarrow> wt m ls L x TypeInt32 \<Longrightarrow>
    wt m ls L (CallIndirect nm es x pt rt) rt"
| wt_local_get: "i < length ls \<Longrightarrow> ls ! i = t \<Longrightarrow> wt m ls L (LocalGet i t) t"
| wt_local_set: "i < length ls \<Longrightarrow> wt m ls L v (ls ! i) \<Longrightarrow> wt m ls L (LocalSet i v) TypeNone"
| wt_local_tee: "i < length ls \<Longrightarrow> ls ! i = t \<Longrightarrow> wt m ls L v t \<Longrightarrow> wt m ls L (LocalTee i v t) t"
| wt_global_get: "has_global m nm t False \<Longrightarrow> wt m ls L (GlobalGet nm t) t"
| wt_global_set: "has_global m nm t True \<Longrightarrow> wt m ls L v t \<Longrightarrow> wt m ls L (GlobalSet nm v) TypeNone"
| wt_tuple_make: "2 \<le> length es \<Longrightarrow> length es = length ts \<Longrightarrow> (\<And>k. k < length es \<Longrightarrow> wt m ls L (es ! k) (ts ! k)) \<Longrightarrow>
    wt m ls L (TupleMake es) (TypeTuple ts)"
| wt_tuple_extract: "wt m ls L e (TypeTuple ts) \<Longrightarrow> k < length ts \<Longrightarrow> wt m ls L (TupleExtract e k) (ts ! k)"

section \<open>Modules that grow\<close>

text \<open>The generators only add tables, globals and functions to a module.\<close>

definition grows :: "bmodule \<Rightarrow> bmodule \<Rightarrow> bool" where
  "grows m m' \<longleftrightarrow>
     (\<exists>ts. m_tables m' = m_tables m @ ts) \<and> (\<exists>gs. m_globals m' = m_globals m @ gs) \<and>
     (\<exists>fs. m_funcs m' = m_funcs m @ fs) \<and>
     m_memories m' = m_memories m \<and> m_segments m' = m_segments m \<and> m_exports m' = m_exports m \<and>
     m_features m' = m_features m"

lemma grows_refl [simp]: "grows m m"
  by (simp add: grows_def)

lemma grows_trans [trans]: "grows m m' \<Longrightarrow> grows m' m'' \<Longrightarrow> grows m m''"
  by (auto simp: grows_def)

lemma adds_tables_grows: "adds_tables m m' \<Longrightarrow> grows m m'"
  unfolding adds_tables_def grows_def by (elim exE) simp

lemma has_grows:
  assumes "grows m m'"
  shows "has_table m nm t \<Longrightarrow> has_table m' nm t" "has_global m nm t mut \<Longrightarrow> has_global m' nm t mut"
    "has_func m nm ps rs \<Longrightarrow> has_func m' nm ps rs"
  using assms by (auto simp: grows_def has_table_def has_global_def has_func_def)

lemma refs_ok_grows:
  assumes "grows m m'" and "refs_ok m i e"
  shows "refs_ok m' i e"
  using assms(2) has_grows [OF assms(1)] assms(1)
  by (cases e) (auto simp: refs_ok_def grows_def)

lemma wt_weaken:
  assumes "wt m ls L e t" and "grows m m'" and "prefix ls ls'"
  shows "wt m' ls' L e t"
  using assms(1)
proof (induction rule: wt.induct)
  case (wt_instr i e req pro cs L)
  then show ?case using refs_ok_grows [OF assms(2)] by (blast intro: wt.wt_instr)
next
  case (wt_local_get i t L)
  then show ?case using assms(3) by (auto simp: prefix_def nth_append intro!: wt.wt_local_get)
next
  case (wt_local_set i L v)
  then show ?case using assms(3) by (auto simp: prefix_def nth_append intro!: wt.wt_local_set)
next
  case (wt_local_tee i t L v)
  then show ?case using assms(3) by (auto simp: prefix_def nth_append intro!: wt.wt_local_tee)
next
  case (wt_call nm ps rs es L)
  then show ?case using has_grows(3) [OF assms(2)] by (blast intro: wt.wt_call)
next
  case (wt_call_indirect nm es pt L x rt)
  then show ?case using has_grows(1) [OF assms(2)] by (blast intro: wt.wt_call_indirect)
next
  case (wt_global_get nm t L)
  then show ?case using has_grows(2) [OF assms(2)] by (blast intro: wt.wt_global_get)
next
  case (wt_global_set nm t L v)
  then show ?case using has_grows(2) [OF assms(2)] by (blast intro: wt.wt_global_set)
next
  case (wt_block ds nm t L e)
  then show ?case by (intro wt.wt_block)
next
  case (wt_br L nm t v u)
  then show ?case by (intro wt.wt_br)
next
  case (wt_br_if L nm t v c)
  then show ?case by (intro wt.wt_br_if)
next
  case (wt_br_table L t nm ns v c u)
  then show ?case by (intro wt.wt_br_table)
next
  case (wt_tuple_make es ts L)
  then show ?case by (intro wt.wt_tuple_make)
next
  case (wt_tuple_extract L e ts k)
  then show ?case by (intro wt.wt_tuple_extract)
qed (intro wt.wt_loop wt.wt_if wt.wt_unreachable; assumption)+

section \<open>Plain instructions\<close>

text \<open>
  Modules the generators work on: one 32-bit memory, at least one data segment, segments named by
  their index as \<^verbatim>\<open>memory.init\<close> and \<^verbatim>\<open>data.drop\<close> address them, at least one function, value types
  throughout, and room for a table of each reference type, since at most one of each is added.
\<close>

definition missing_refs :: "btype list \<Rightarrow> nat" where
  "missing_refs ts = length (filter (\<lambda>t. t \<notin> set ts) ref_types)"

definition table_room :: "bmodule \<Rightarrow> bool" where
  "table_room m \<longleftrightarrow> length (m_tables m) + missing_refs (map t_type (m_tables m)) < 2 ^ 32"

definition gen_module :: "bmodule \<Rightarrow> bool" where
  "gen_module m \<longleftrightarrow>
     (\<exists>x. m_memories m = [x] \<and> \<not> mem_is64 x) \<and>
     m_segments m \<noteq> [] \<and> length (m_segments m) < 2 ^ 32 \<and>
     (\<forall>k < length (m_segments m). seg_name (m_segments m ! k) = nat_string k) \<and>
     m_funcs m \<noteq> [] \<and> length (m_funcs m) < 2 ^ 32 \<and> table_room m \<and>
     (\<forall>f \<in> set (m_funcs m). list_all value_type (f_params f) \<and> list_all value_type (f_results f)) \<and>
     (\<forall>g \<in> set (m_globals m). \<exists>ts. list_all value_type ts \<and> g_type g = type_create ts)"

lemma pick_table_has:
  assumes "fst (pick_table R ty ts sel g) = Some nm" and "\<And>n. sel = Some n \<Longrightarrow> has_table m n ty"
    and "set ts \<subseteq> set (m_tables m)"
  shows "has_table m nm ty"
  using assms
proof (induction ts arbitrary: sel g)
  case (Cons t ts)
  have here: "has_table m (t_name t) ty" if "t_type t = ty"
    using Cons.prems(3) that by (auto simp: has_table_def)
  show ?case
  proof (cases "t_type t = ty")
    case True
    then show ?thesis
      using Cons.prems Cons.IH [of "Some (t_name t)"] Cons.IH [of sel] here
      by (auto simp: case_prod_unfold Let_def split: if_splits)
  next
    case False
    then show ?thesis using Cons.prems Cons.IH [of sel g] by simp
  qed
qed simp

lemma target_table_has: "has_table (fst (snd (target_table R ty m g))) (fst (target_table R ty m g)) ty"
proof (cases "fst (pick_table R ty (m_tables m) None g)")
  case None
  then show ?thesis by (auto simp: target_table_def add_table_def has_table_def case_prod_unfold Let_def split: prod.splits)
next
  case (Some nm)
  then show ?thesis
    using pick_table_has [of R ty "m_tables m" None g nm m]
    by (auto simp: target_table_def split: prod.splits)
qed

lemma pick_table_None:
  "fst (pick_table R ty ts sel g) = None \<Longrightarrow> sel = None \<and> ty \<notin> set (map t_type ts)"
proof (induction ts arbitrary: sel g)
  case (Cons t ts)
  show ?case
  proof (cases "t_type t = ty")
    case True
    have no: "(fst (pick_table R ty ts (Some x) g1) = None) = False" for x g1
      using Cons.IH [of "Some x" g1] by auto
    show ?thesis using Cons.prems True by (cases sel) (simp_all add: no case_prod_unfold Let_def split: if_splits)
  next
    case False
    then show ?thesis using Cons.prems Cons.IH [of sel g] by simp
  qed
qed simp

lemma missing_refs_add:
  assumes "ty \<notin> set ts" and "ty \<in> set ref_types"
  shows "Suc (missing_refs (ts @ [ty])) = missing_refs ts"
  using assms by (auto simp: missing_refs_def)

lemma add_table_room:
  assumes "table_room m" and "ty \<notin> set (map t_type (m_tables m))" and "ty \<in> set ref_types"
  shows "table_room (snd (add_table ty m))"
proof -
  define x where "x = last (m_tables (snd (add_table ty m)))"
  have x: "m_tables (snd (add_table ty m)) = m_tables m @ [x]" "t_type x = ty"
    by (simp_all add: x_def add_table_def Let_def)
  show ?thesis
    using assms(1) missing_refs_add [OF assms(2,3)] unfolding table_room_def x(1) map_append
    by (simp add: x(2))
qed

lemma target_table_room:
  assumes "table_room m" and "ty \<in> set ref_types"
  shows "table_room (fst (snd (target_table R ty m g)))"
proof (cases "pick_table R ty (m_tables m) None g")
  case (Pair sel g1)
  show ?thesis
  proof (cases sel)
    case None
    then have "ty \<notin> set (map t_type (m_tables m))"
      using Pair pick_table_None [of R ty "m_tables m" None g] by simp
    from add_table_room [OF assms(1) this assms(2)] show ?thesis
      using Pair None by (simp add: target_table_def case_prod_unfold Let_def)
  next
    case (Some nm)
    then show ?thesis using Pair assms(1) by (simp add: target_table_def)
  qed
qed

lemma any_table_room:
  assumes "table_room m"
  shows "table_room (fst (snd (any_table R m g)))"
  using assms add_table_room [OF assms]
  by (auto simp: any_table_def case_prod_unfold Let_def)

context bounded_rng
begin

lemma index_bound:
  assumes "xs \<noteq> []" and "length xs < 2 ^ 32"
  shows "unat (fst (ro_rand_below R g (of_nat (length xs)))) < length xs"
proof -
  have n: "unat (of_nat (length xs) :: u32) = length xs" using assms(2) by (simp add: unat_of_nat)
  then have "0 < (of_nat (length xs) :: u32)" using assms(1) by (simp add: word_less_nat_alt)
  from rand_below_less [OF this, of g] show ?thesis using n by (simp add: word_less_nat_alt)
qed

lemma any_table_has:
  assumes "length (m_tables m) < 2 ^ 32"
  shows "\<exists>t. has_table (fst (snd (any_table R m g))) (fst (any_table R m g)) t"
proof (cases "m_tables m = []")
  case True
  then show ?thesis by (auto simp: any_table_def add_table_def has_table_def case_prod_unfold Let_def)
next
  case False
  then show ?thesis
    using index_bound [OF False assms, of g]
    by (auto simp: any_table_def has_table_def case_prod_unfold Let_def intro!: bexI [OF _ nth_mem])
qed

lemma generate_refs:
  assumes gm: "gen_module m" and gen: "wasm_generate_one_simple_expr B U R i child m g = Some (Some e, m', g')"
    and ad: "adds_tables m m'" and inst: "instance_of i e"
  shows "refs_ok m' i e"
proof -
  have mem: "m_memories m \<noteq> []" "m_segments m \<noteq> []" using gm by (auto simp: gen_module_def)
  have same: "m_memories m' = m_memories m" "m_segments m' = m_segments m" "m_funcs m' = m_funcs m"
    using ad unfolding adds_tables_def by (elim exE, simp)+
  have "expr_id i \<in> set memory_kinds \<longrightarrow> (\<exists>x. m_memories m' = [x] \<and> \<not> mem_is64 x)"
    using gm same by (simp add: gen_module_def)
  moreover have seg: "\<exists>x \<in> set (m_segments m). seg_name x = nat_string (unat (fst (ro_rand_below R g1 (of_nat (length (m_segments m))))))" for g1
    using index_bound [OF mem(2), of g1] gm by (auto simp: gen_module_def intro!: bexI [OF _ nth_mem])
  have fn: "f_name (m_funcs m ! unat (fst (ro_rand_below R g1 (of_nat (length (m_funcs m)))))) \<in> set (map f_name (m_funcs m))" for g1
    using index_bound [of "m_funcs m" g1] gm by (auto simp: gen_module_def)
  have tb: "length (m_tables m) < 2 ^ 32" using gm by (simp add: gen_module_def table_room_def)
  have "case e of TableGet nm x t \<Rightarrow> has_table m' nm (opd_type i)
      | TableSet nm x v \<Rightarrow> has_table m' nm (opd_type i) | TableGrow nm v d \<Rightarrow> has_table m' nm (opd_type i)
      | TableSize nm \<Rightarrow> \<exists>t. has_table m' nm t
      | MemoryInit seg d off n mem \<Rightarrow> \<exists>x \<in> set (m_segments m'). seg_name x = seg
      | DataDrop seg \<Rightarrow> \<exists>x \<in> set (m_segments m'). seg_name x = seg
      | RefFunc f \<Rightarrow> f \<in> set (map f_name (m_funcs m')) | _ \<Rightarrow> True"
  proof (cases e)
    case (TableGet nm x t)
    then have "expr_id i = TableGetId" using inst by (simp add: instance_simps)
    then show ?thesis using gen TableGet target_table_has [of R "opd_type i" m g]
      by (auto simp: wasm_generate_one_simple_expr_def gen_table_def case_prod_unfold Let_def)
  next
    case (TableSet nm x v)
    then have "expr_id i = TableSetId" using inst by (simp add: instance_simps)
    then show ?thesis using gen TableSet target_table_has [of R "opd_type i" m g]
      by (auto simp: wasm_generate_one_simple_expr_def gen_table_def case_prod_unfold Let_def)
  next
    case (TableGrow nm v d)
    then have "expr_id i = TableGrowId" using inst by (simp add: instance_simps)
    then show ?thesis using gen TableGrow target_table_has [of R "opd_type i" m g]
      by (auto simp: wasm_generate_one_simple_expr_def gen_table_def case_prod_unfold Let_def)
  next
    case (TableSize nm)
    then have "expr_id i = TableSizeId" using inst by (simp add: instance_simps)
    then show ?thesis using gen TableSize any_table_has [OF tb, of g]
      by (auto simp: wasm_generate_one_simple_expr_def gen_table_def case_prod_unfold Let_def)
  next
    case (MemoryInit sg d off n memo)
    then have "expr_id i = MemoryInitId" using inst by (simp add: instance_simps)
    then have "sg = nat_string (unat (fst (ro_rand_below R g (of_nat (length (m_segments m))))))"
      using gen MemoryInit mem
      by (auto simp: wasm_generate_one_simple_expr_def gen_bulk_def ensure_memory_present case_prod_unfold Let_def)
    then show ?thesis using seg [of g] same(2) MemoryInit by simp
  next
    case (DataDrop sg)
    then have "expr_id i = DataDropId" using inst by (simp add: instance_simps)
    then have "sg = nat_string (unat (fst (ro_rand_below R g (of_nat (length (m_segments m))))))"
      using gen DataDrop mem
      by (auto simp: wasm_generate_one_simple_expr_def gen_bulk_def ensure_memory_present case_prod_unfold Let_def)
    then show ?thesis using seg [of g] same(2) DataDrop by simp
  next
    case (RefFunc f)
    then have "expr_id i = RefFuncId" using inst by (simp add: instance_simps)
    then have "f = f_name (m_funcs m ! unat (fst (ro_rand_below R g (of_nat (length (m_funcs m))))))"
      using gen RefFunc
      by (auto simp: wasm_generate_one_simple_expr_def gen_ref_def case_prod_unfold Let_def split: if_splits)
    then show ?thesis using fn [of g] same(3) RefFunc by simp
  qed simp_all
  ultimately show ?thesis by (simp add: refs_ok_def)
qed

lemma table_room_same: "m_tables m' = m_tables m \<Longrightarrow> table_room m' = table_room m"
  by (simp add: table_room_def)

lemma generate_table_room:
  assumes gm: "gen_module m" and gen: "wasm_generate_one_simple_expr B U R i child m g = Some (Some e, m', g')"
    and sig: "instr_sig i = Some (req, pro)" and inst: "instance_of i e"
  shows "table_room m'"
proof -
  have mem: "m_memories m \<noteq> []" "m_segments m \<noteq> []" and tr: "table_room m" using gm by (auto simp: gen_module_def)
  have ty: "opd_type i \<in> set ref_types" if "expr_id i \<in> set [TableGetId, TableSetId, TableGrowId]"
    using sig that by (auto simp: instr_sig_def opd_sig_def opt_sig_def sig_if_def opd_type_def split: instr_operand.splits if_splits)
  consider "expr_id i \<in> set [TableGetId, TableSetId, TableGrowId]" | "expr_id i = TableSizeId"
    | "expr_id i \<notin> set [TableGetId, TableSetId, TableGrowId, TableSizeId]" by auto
  then show ?thesis
  proof cases
    case 1
    then have "m' = fst (snd (target_table R (opd_type i) m g))"
      using gen by (auto simp: wasm_generate_one_simple_expr_def gen_table_def case_prod_unfold Let_def)
    then show ?thesis using target_table_room [OF tr ty [OF 1]] by simp
  next
    case 2
    then have "m' = fst (snd (any_table R m g))"
      using gen by (auto simp: wasm_generate_one_simple_expr_def gen_table_def case_prod_unfold Let_def)
    then show ?thesis using any_table_room [OF tr] by simp
  next
    case 3
    then have "m' = m"
      using gen mem
      by (auto simp: gen_defs ensure_memory_present case_prod_unfold Let_def split: if_splits expr_kind.splits option.splits)
    then show ?thesis using tr by simp
  qed
qed

lemma adds_tables_module:
  assumes "gen_module m" and "adds_tables m m'" and "table_room m'"
  shows "gen_module m'"
  using assms(1,2) unfolding adds_tables_def by (elim exE) (use assms(3) in \<open>simp add: gen_module_def\<close>)

text \<open>Generating from an entry of the standard with well-typed operands gives a well-typed node.\<close>

lemma generate_wt:
  assumes gm: "gen_module m" and sig: "instr_sig i = Some (req, pro)" and len: "length cs = length req"
    and ops: "\<And>k. k < length cs \<Longrightarrow> wt m ls L (cs ! k) (req ! k)"
  shows "\<exists>e m' g'. wasm_generate_one_simple_expr B U R i (map Some cs) m g = Some (Some e, m', g') \<and>
           adds_tables m m' \<and> gen_module m' \<and> wt m' ls L e (type_create pro)"
proof -
  have "builds (wasm_generate_one_simple_expr B U R i (map Some cs) m g) m i cs"
    using gm by (intro generate_builds [OF sig len]) (auto simp: gen_module_def)
  then obtain e m' g' where e: "wasm_generate_one_simple_expr B U R i (map Some cs) m g = Some (Some e, m', g')"
    "kids e = map Some cs" "instance_of i e" "adds_tables m m'" by (auto simp: builds_def)
  have "wt m' ls L (cs ! k) (req ! k)" if "k < length cs" for k
    using wt_weaken [OF ops [OF that] adds_tables_grows [OF e(4)]] by simp
  then have "wt m' ls L e (type_create pro)"
    using wt_instr [OF e(3) sig e(2) generate_refs [OF gm e(1,4,3)] len] by simp
  with e adds_tables_module [OF gm e(4) generate_table_room [OF gm e(1) sig e(3)]] show ?thesis by blast
qed

end

end
