(* ===== verification/Wasm_Seqs.thy ===== *)
theory Wasm_Seqs
  imports Wasm_Typing
begin

text \<open>
  The generators of instruction sequences, \<^verbatim>\<open>wasm_generate_instr_seqs_top_level\<close> and the functions it
  calls in \<^verbatim>\<open>generator_func.c\<close>, and \<^verbatim>\<open>wasm_find_matching_funcs\<close> and \<^verbatim>\<open>wasm_generate_one_func\<close> of
  \<^verbatim>\<open>helper_func.c\<close>.

  A generator takes the state to a result and a new state; \<open>None\<close> is a crash or a call that does not
  return, and inside a result \<open>None\<close> is NULL. A node built around a NULL operand is a crash, because
  Binaryen reads the type of the operand; only the operands of a branch may be missing. Outcomes of
  the allocations the code checks come from a sequence, one for each place that reacts in one way.
  A list of labels is an argument: each function that appends to it removes its entry again.
  The recursion depth is a natural number; the code starts at 3 and counts down to 0.
\<close>

section \<open>State\<close>

record localCxt =
  local_idx :: nat
  local_type :: btype
  pre_added :: bool

record labelCxt =
  label_name :: string
  label_type :: btype
  label_pre_added :: bool

record 'g gen_state =
  gs_mod :: bmodule
  gs_locals :: "localCxt list"
  gs_names :: nameGrp
  gs_rng :: 'g
  gs_alloc :: nat

record gen_env =
  ge_op :: op_env
  ge_alloc :: "nat \<Rightarrow> bool"

type_synonym ('g, 'a) gen = "'g gen_state \<Rightarrow> ('a \<times> 'g gen_state) option"

abbreviation ge_grps :: "gen_env \<Rightarrow> InstrGrp list" where
  "ge_grps E \<equiv> oe_grps (ge_op E)"

section \<open>Steps\<close>

definition gret :: "'a \<Rightarrow> ('g, 'a) gen" where
  "gret a = (\<lambda>s. Some (a, s))"

definition gfail :: "('g, 'a) gen" where
  "gfail = (\<lambda>s. None)"

definition gbind :: "('g, 'a) gen \<Rightarrow> ('a \<Rightarrow> ('g, 'b) gen) \<Rightarrow> ('g, 'b) gen" where
  "gbind f k = (\<lambda>s. case f s of None \<Rightarrow> None | Some (a, s1) \<Rightarrow> k a s1)"

fun gmap :: "('a \<Rightarrow> ('g, 'b) gen) \<Rightarrow> 'a list \<Rightarrow> ('g, 'b list) gen" where
  "gmap f [] = gret []"
| "gmap f (x # xs) = gbind (f x) (\<lambda>y. gbind (gmap f xs) (\<lambda>ys. gret (y # ys)))"

definition grand :: "'g rand_ops \<Rightarrow> u32 \<Rightarrow> ('g, u32) gen" where
  "grand R n = (\<lambda>s. let (r, g) = ro_rand_below R (gs_rng s) n in Some (r, s\<lparr> gs_rng := g \<rparr>))"

definition galloc :: "gen_env \<Rightarrow> ('g, bool) gen" where
  "galloc E = (\<lambda>s. Some (ge_alloc E (gs_alloc s), s\<lparr> gs_alloc := Suc (gs_alloc s) \<rparr>))"

definition gname :: "('g, string) gen" where
  "gname = (\<lambda>s. let (n, grp) = wasm_find_available_name (gs_names s) in Some (n, s\<lparr> gs_names := grp \<rparr>))"

definition gmod :: "('g, bmodule) gen" where
  "gmod = (\<lambda>s. Some (gs_mod s, s))"

definition glocals :: "('g, localCxt list) gen" where
  "glocals = (\<lambda>s. Some (gs_locals s, s))"

text \<open>Append a local that the generator introduces; its index is the number of locals so far.\<close>

definition gnew_local :: "btype \<Rightarrow> ('g, nat) gen" where
  "gnew_local t = (\<lambda>s. let i = length (gs_locals s)
     in Some (i, s\<lparr> gs_locals := gs_locals s @ [\<lparr> local_idx = i, local_type = t, pre_added = False \<rparr>] \<rparr>))"

definition gneed :: "bexpr option \<Rightarrow> ('g, bexpr) gen" where
  "gneed e = (case e of None \<Rightarrow> gfail | Some x \<Rightarrow> gret x)"

definition gsimplify :: "gen_env \<Rightarrow> btype \<Rightarrow> ('g, btype) gen" where
  "gsimplify E t = gbind (galloc E) (\<lambda>ok. gret (wasm_simplify_type ok t))"

definition gsimple :: "gen_env \<Rightarrow> 'g rand_ops \<Rightarrow> InstrTy \<Rightarrow> bexpr option list \<Rightarrow> ('g, bexpr option) gen" where
  "gsimple E R i child = (\<lambda>s.
     map_option (\<lambda>(e, m, g). (e, s\<lparr> gs_mod := m, gs_rng := g \<rparr>))
       (wasm_generate_one_simple_expr (oe_binaryen (ge_op E)) (oe_uninit (ge_op E)) R i child (gs_mod s) (gs_rng s)))"

text \<open>
  The loops that look for a match take the first one and replace it by each later one with a coin
  toss; \<open>xs\<close> are the matches.
\<close>

fun coin_pick :: "'g rand_ops \<Rightarrow> 'a list \<Rightarrow> 'a option \<Rightarrow> ('g, 'a option) gen" where
  "coin_pick R [] sel = gret sel"
| "coin_pick R (x # xs) sel =
     (case sel of
        None \<Rightarrow> coin_pick R xs (Some x)
      | Some y \<Rightarrow> gbind (grand R 2) (\<lambda>r. coin_pick R xs (if r \<noteq> 0 then Some x else Some y)))"

text \<open>The values \<open>es\<close> as one operand: a tuple if there are several, possibly NULL if there is one.\<close>

definition gpack :: "bexpr option list \<Rightarrow> ('g, bexpr option) gen" where
  "gpack es = (if length es > 1 then gbind (gmap gneed es) (\<lambda>xs. gret (Some (TupleMake xs))) else gret (hd es))"

text \<open>The \<^verbatim>\<open>switch\<close> over the seven value types.\<close>

definition grand_type :: "'g rand_ops \<Rightarrow> ('g, btype) gen" where
  "grand_type R = gbind (grand R 7) (\<lambda>r.
     gret ([TypeInt32, TypeInt64, TypeFloat32, TypeFloat64, TypeFuncref, TypeExternref, TypeVec128] ! unat r))"

section \<open>Reading a variable\<close>

text \<open>
  Candidates for a result of one value: a variable of that type, or a component of a tuple. Expanding
  a tuple allocates; \<open>None\<close> is the early return with NULL.
\<close>

fun value_cands ::
  "gen_env \<Rightarrow> 'g rand_ops \<Rightarrow> btype \<Rightarrow> ('k \<times> btype) list \<Rightarrow> ('k \<times> btype \<times> nat option) option \<Rightarrow>
   ('g, ('k \<times> btype \<times> nat option) option option) gen" where
  "value_cands E R result [] sel = gret (Some sel)"
| "value_cands E R result ((k, t) # vs) sel =
     (if type_arity t > 1 then
        gbind (galloc E) (\<lambda>ok.
          if \<not> ok then gret None
          else gbind (coin_pick R (map (\<lambda>ind. (k, t, Some ind))
                        (filter (\<lambda>ind. type_expand t ! ind = result) [0..<type_arity t])) sel)
                 (\<lambda>sel'. value_cands E R result vs sel'))
      else if type_arity t = 1 \<and> t = result then
        gbind (coin_pick R [(k, t, None)] sel) (\<lambda>sel'. value_cands E R result vs sel')
      else value_cands E R result vs sel)"

definition read_variable ::
  "gen_env \<Rightarrow> 'g rand_ops \<Rightarrow> btype \<Rightarrow> ('k \<Rightarrow> btype \<Rightarrow> bexpr) \<Rightarrow> ('k \<times> btype) list \<Rightarrow> ('g, bexpr option) gen" where
  "read_variable E R result get vars =
     (if type_arity result > 1 then
        gbind (coin_pick R (filter (\<lambda>(k, t). t = result) vars) None) (\<lambda>sel.
          gret (map_option (\<lambda>(k, t). get k result) sel))
      else
        gbind (value_cands E R result vars None) (\<lambda>sel.
          gret (case sel of
                  Some (Some (k, t, Some ind)) \<Rightarrow> Some (TupleExtract (get k t) ind)
                | Some (Some (k, t, None)) \<Rightarrow> Some (get k t)
                | _ \<Rightarrow> None)))"

definition wasm_generate_one_local_global_get ::
  "gen_env \<Rightarrow> 'g rand_ops \<Rightarrow> btype \<Rightarrow> bool \<Rightarrow> ('g, bexpr option) gen" where
  "wasm_generate_one_local_global_get E R result use_local =
     (if use_local then
        gbind glocals (\<lambda>locals.
          read_variable E R result LocalGet (map (\<lambda>l. (local_idx l, local_type l)) locals))
      else
        gbind gmod (\<lambda>m.
          read_variable E R result GlobalGet (map (\<lambda>g. (g_name g, g_type g)) (m_globals m))))"

section \<open>Writing a variable\<close>

text \<open>\<open>rec\<close> is \<^verbatim>\<open>wasm_generate_instr_seqs_base_case\<close> with the labels and one level less.\<close>

definition wasm_generate_one_local_tee ::
  "gen_env \<Rightarrow> 'g rand_ops \<Rightarrow> (btype \<Rightarrow> ('g, bexpr option) gen) \<Rightarrow> btype \<Rightarrow> ('g, bexpr option) gen" where
  "wasm_generate_one_local_tee E R rec result =
     gbind glocals (\<lambda>locals.
     gbind (coin_pick R (filter (\<lambda>l. local_type l = result) locals) None) (\<lambda>sel.
     gbind (if sel \<noteq> None then gret True else gbind (grand R 2) (\<lambda>r. gret (r \<noteq> 0))) (\<lambda>go.
       if \<not> go then gret None
       else
         gbind (galloc E) (\<lambda>ok.
           if \<not> ok then gret None
           else
             gbind (case sel of Some l \<Rightarrow> gret (local_idx l) | None \<Rightarrow> gnew_local result) (\<lambda>idx.
             gbind (gmap rec (type_expand result)) (\<lambda>es.
             gbind (gpack es) (\<lambda>v.
             gbind (gneed v) (\<lambda>x. gret (Some (LocalTee idx x result))))))))))"

text \<open>A new local of one to three random types, or a random one of the context.\<close>

definition set_new_local ::
  "gen_env \<Rightarrow> 'g rand_ops \<Rightarrow> (btype \<Rightarrow> ('g, bexpr option) gen) \<Rightarrow> ('g, bexpr option) gen" where
  "set_new_local E R rec =
     gbind (grand R 3) (\<lambda>r.
     gbind (galloc E) (\<lambda>ok.
       if \<not> ok then gret None
       else
         gbind (gmap (\<lambda>_. grand_type R) [0..<unat (r + 1)]) (\<lambda>types.
         gbind (galloc E) (\<lambda>ok.
           if \<not> ok then gret None
           else
             gbind (gnew_local (type_create types)) (\<lambda>idx.
             gbind (gmap rec types) (\<lambda>es.
             gbind (gpack es) (\<lambda>v.
             gbind (gneed v) (\<lambda>x. gret (Some (LocalSet idx x))))))))))"

definition set_known ::
  "gen_env \<Rightarrow> (btype \<Rightarrow> ('g, bexpr option) gen) \<Rightarrow> btype \<Rightarrow> (bexpr \<Rightarrow> bexpr) \<Rightarrow> ('g, bexpr option) gen" where
  "set_known E rec type mk =
     (if type_arity type = 0 then gret None
      else
        gbind (galloc E) (\<lambda>ok.
          if \<not> ok then gret None
          else
            gbind (gmap rec (type_expand type)) (\<lambda>es.
            gbind (gpack es) (\<lambda>v.
            gbind (gneed v) (\<lambda>x. gret (Some (mk x)))))))"

text \<open>\<^verbatim>\<open>BinaryenAddGlobal\<close> aborts when the name is taken.\<close>

definition gadd_global :: "string \<Rightarrow> btype \<Rightarrow> bexpr \<Rightarrow> ('g, unit) gen" where
  "gadd_global nm t init = (\<lambda>s.
     if nm \<in> set (map g_name (m_globals (gs_mod s))) then None
     else Some ((), s\<lparr> gs_mod := (gs_mod s)\<lparr> m_globals := m_globals (gs_mod s) @
       [\<lparr> g_name = nm, g_type = t, g_mutable = True, g_init = init \<rparr>] \<rparr> \<rparr>))"

definition init_value :: "gen_env \<Rightarrow> 'g rand_ops \<Rightarrow> btype \<Rightarrow> ('g, bexpr option) gen" where
  "init_value E R type =
     gbind (\<lambda>s. let (i, g) = dumb_instr (ge_op E) R type (gs_rng s) in Some (i, s\<lparr> gs_rng := g \<rparr>)) (\<lambda>i. gsimple E R i [])"

definition set_new_global ::
  "gen_env \<Rightarrow> 'g rand_ops \<Rightarrow> (btype \<Rightarrow> ('g, bexpr option) gen) \<Rightarrow> ('g, bexpr option) gen" where
  "set_new_global E R rec =
     gbind gmod (\<lambda>m.
     gbind (grand R 3) (\<lambda>r.
     gbind (galloc E) (\<lambda>ok.
       if \<not> ok then gret None
       else
         gbind (gmap (\<lambda>_. gbind (grand_type R) (\<lambda>t. gbind (rec t) (\<lambda>e. gbind (init_value E R t) (\<lambda>i. gret (t, e, i)))))
                  [0..<unat (r + 1)]) (\<lambda>tei.
         gbind (gpack (map (fst \<circ> snd) tei)) (\<lambda>v.
         gbind (gpack (map (snd \<circ> snd) tei)) (\<lambda>init.
         gbind (gneed init) (\<lambda>i.
         gbind (gadd_global (nat_string (length (m_globals m))) (type_create (map fst tei)) i) (\<lambda>_.
         gbind (gneed v) (\<lambda>x. gret (Some (GlobalSet (nat_string (length (m_globals m))) x)))))))))))"

text \<open>The loop that draws until the global is mutable.\<close>

partial_function (option) pick_mutable ::
  "'g rand_ops \<Rightarrow> bglobal list \<Rightarrow> 'g gen_state \<Rightarrow> (bglobal \<times> 'g gen_state) option" where
  "pick_mutable R globals s =
     (let (r, g) = ro_rand_below R (gs_rng s) (of_nat (length globals))
      in if unat r < length globals then
           (if g_mutable (globals ! unat r) then Some (globals ! unat r, s\<lparr> gs_rng := g \<rparr>)
            else pick_mutable R globals (s\<lparr> gs_rng := g \<rparr>))
         else None)"

definition wasm_generate_one_local_global_set ::
  "gen_env \<Rightarrow> 'g rand_ops \<Rightarrow> (btype \<Rightarrow> ('g, bexpr option) gen) \<Rightarrow> bool \<Rightarrow> ('g, bexpr option) gen" where
  "wasm_generate_one_local_global_set E R rec use_local =
     (if use_local then
        gbind glocals (\<lambda>locals.
        gbind (if locals = [] then gret True else gbind (grand R 5) (\<lambda>r. gret (r = 0))) (\<lambda>fresh.
          if fresh then set_new_local E R rec
          else
            gbind (coin_pick R locals None) (\<lambda>sel.
              case sel of
                None \<Rightarrow> gret None
              | Some l \<Rightarrow> set_known E rec (local_type l) (LocalSet (local_idx l)))))
      else
        gbind gmod (\<lambda>m.
        gbind (if \<not> list_ex g_mutable (m_globals m) then gret True else gbind (grand R 5) (\<lambda>r. gret (r = 0))) (\<lambda>fresh.
          if fresh then set_new_global E R rec
          else
            gbind (pick_mutable R (m_globals m)) (\<lambda>g. set_known E rec (g_type g) (GlobalSet (g_name g))))))"

section \<open>Calls\<close>

text \<open>A failed \<^verbatim>\<open>realloc\<close> ends the search with the matches so far.\<close>

fun wasm_find_matching_funcs ::
  "gen_env \<Rightarrow> btype \<Rightarrow> btype \<Rightarrow> bool \<Rightarrow> bfunction list \<Rightarrow> bfunction list \<Rightarrow> ('g, bfunction list) gen" where
  "wasm_find_matching_funcs E param result ignore_param [] acc = gret acc"
| "wasm_find_matching_funcs E param result ignore_param (f # fs) acc =
     gbind (gsimplify E (type_create (f_params f))) (\<lambda>param_input.
     gbind (gsimplify E (type_create (f_results f))) (\<lambda>result_output.
       if (ignore_param \<or> param_input = param) \<and> result_output = result then
         gbind (galloc E) (\<lambda>ok.
           if ok then wasm_find_matching_funcs E param result ignore_param fs (acc @ [f]) else gret acc)
       else wasm_find_matching_funcs E param result ignore_param fs acc))"

definition wasm_generate_one_call ::
  "gen_env \<Rightarrow> 'g rand_ops \<Rightarrow> (btype \<Rightarrow> ('g, bexpr option) gen) \<Rightarrow> btype \<Rightarrow> ('g, bexpr option) gen" where
  "wasm_generate_one_call E R rec result =
     gbind gmod (\<lambda>m.
     gbind (wasm_find_matching_funcs E TypeNone result True (m_funcs m) []) (\<lambda>matched.
       if matched = [] then gret None
       else
         gbind (grand R (of_nat (length matched))) (\<lambda>selected.
           (let target = matched ! unat selected;
                target_param = type_create (f_params target)
            in if type_arity target_param > 0 then
                 gbind (galloc E) (\<lambda>ok.
                   if \<not> ok then gret None
                   else
                     gbind (gmap rec (type_expand target_param)) (\<lambda>es.
                     gbind (gmap gneed es) (\<lambda>xs. gret (Some (Call (f_name target) xs)))))
               else gret (Some (Call (f_name target) []))))))"

definition gfunc_table :: "'g rand_ops \<Rightarrow> ('g, string) gen" where
  "gfunc_table R =
     gbind gmod (\<lambda>m.
     gbind (coin_pick R (filter (\<lambda>t. t_type t = TypeFuncref) (m_tables m)) None) (\<lambda>sel.
       case sel of
         Some t \<Rightarrow> gret (t_name t)
       | None \<Rightarrow> (\<lambda>s. let (nm, m') = add_table TypeFuncref (gs_mod s) in Some (nm, s\<lparr> gs_mod := m' \<rparr>))))"

definition wasm_generate_one_call_indirect ::
  "gen_env \<Rightarrow> 'g rand_ops \<Rightarrow> (btype \<Rightarrow> ('g, bexpr option) gen) \<Rightarrow> btype \<Rightarrow> ('g, bexpr option) gen" where
  "wasm_generate_one_call_indirect E R rec result =
     gbind (grand R 5) (\<lambda>r.
     gbind (galloc E) (\<lambda>ok.
       if \<not> ok then gret None
       else
         gbind (gmap (\<lambda>_. gbind (grand_type R) (\<lambda>t. gbind (rec t) (\<lambda>e. gret (t, e)))) [0..<unat (r + 1)]) (\<lambda>params.
         gbind (gfunc_table R) (\<lambda>table_name.
         gbind (rec TypeInt32) (\<lambda>index_expr.
         gbind (gneed index_expr) (\<lambda>x.
         gbind (gmap gneed (map snd params)) (\<lambda>xs.
           gret (Some (CallIndirect table_name xs x (type_create (map fst params)) result)))))))))"

section \<open>Branches\<close>

text \<open>The values a branch carries: nothing, one value, or a tuple. The outer \<open>None\<close> is a failed allocation.\<close>

definition branch_values ::
  "gen_env \<Rightarrow> (btype \<Rightarrow> ('g, bexpr option) gen) \<Rightarrow> btype \<Rightarrow> ('g, bexpr option list option) gen" where
  "branch_values E rec type =
     (if type_arity type > 0 then
        gbind (galloc E) (\<lambda>ok.
          if \<not> ok then gret None else gbind (gmap rec (type_expand type)) (\<lambda>es. gret (Some es)))
      else gret (Some []))"

definition branch_operand :: "bexpr option list \<Rightarrow> ('g, bexpr option) gen" where
  "branch_operand es = (if es = [] then gret None else gpack es)"

text \<open>The further targets of a \<^verbatim>\<open>br_table\<close>; a failed \<^verbatim>\<open>realloc\<close> ends the loop.\<close>

fun select_labels ::
  "gen_env \<Rightarrow> 'g rand_ops \<Rightarrow> btype \<Rightarrow> labelCxt list \<Rightarrow> string list \<Rightarrow> ('g, string list) gen" where
  "select_labels E R type [] acc = gret acc"
| "select_labels E R type (l # ls) acc =
     (if label_type l = type then
        gbind (grand R 2) (\<lambda>r.
          if r \<noteq> 0 then
            gbind (galloc E) (\<lambda>ok. if ok then select_labels E R type ls (acc @ [label_name l]) else gret acc)
          else select_labels E R type ls acc)
      else select_labels E R type ls acc)"

definition gen_br ::
  "gen_env \<Rightarrow> 'g rand_ops \<Rightarrow> (btype \<Rightarrow> ('g, bexpr option) gen) \<Rightarrow> labelCxt list \<Rightarrow> ('g, bexpr option) gen" where
  "gen_br E R rec label_cxt =
     gbind (coin_pick R label_cxt None) (\<lambda>sel.
       case sel of
         None \<Rightarrow> gret None
       | Some l \<Rightarrow>
           gbind (branch_values E rec (label_type l)) (\<lambda>vs.
             case vs of
               None \<Rightarrow> gret None
             | Some es \<Rightarrow> gbind (branch_operand es) (\<lambda>v. gret (Some (Break (label_name l) v None)))))"

definition gen_br_if ::
  "gen_env \<Rightarrow> 'g rand_ops \<Rightarrow> (btype \<Rightarrow> ('g, bexpr option) gen) \<Rightarrow> labelCxt list \<Rightarrow> btype \<Rightarrow> ('g, bexpr option) gen" where
  "gen_br_if E R rec label_cxt result =
     gbind (coin_pick R (filter (\<lambda>l. label_type l = result) label_cxt) None) (\<lambda>sel.
       case sel of
         None \<Rightarrow> gret None
       | Some l \<Rightarrow>
           gbind (branch_values E rec result) (\<lambda>vs.
             case vs of
               None \<Rightarrow> gret None
             | Some es \<Rightarrow>
                 gbind (rec TypeInt32) (\<lambda>cond.
                 gbind (branch_operand es) (\<lambda>v. gret (Some (Break (label_name l) v cond))))))"

definition gen_br_table ::
  "gen_env \<Rightarrow> 'g rand_ops \<Rightarrow> (btype \<Rightarrow> ('g, bexpr option) gen) \<Rightarrow> labelCxt list \<Rightarrow> ('g, bexpr option) gen" where
  "gen_br_table E R rec label_cxt =
     gbind (coin_pick R label_cxt None) (\<lambda>sel.
       case sel of
         None \<Rightarrow> gret None
       | Some l \<Rightarrow>
           gbind (select_labels E R (label_type l) label_cxt []) (\<lambda>targets.
           gbind (branch_values E rec (label_type l)) (\<lambda>vs.
             case vs of
               None \<Rightarrow> gret None
             | Some es \<Rightarrow>
                 gbind (rec TypeInt32) (\<lambda>cond.
                 gbind (branch_operand es) (\<lambda>v.
                 gbind (gneed cond) (\<lambda>c. gret (Some (Switch targets (label_name l) v c))))))))"

definition wasm_generate_one_control_transfer ::
  "gen_env \<Rightarrow> 'g rand_ops \<Rightarrow> (btype \<Rightarrow> ('g, bexpr option) gen) \<Rightarrow> labelCxt list \<Rightarrow> btype \<Rightarrow> ('g, bexpr option) gen" where
  "wasm_generate_one_control_transfer E R rec label_cxt result =
     gbind (grand R 4) (\<lambda>selected.
       if selected = 0 then gen_br E R rec label_cxt
       else if selected = 1 then gen_br_if E R rec label_cxt result
       else if selected = 2 then gen_br_table E R rec label_cxt
       else gret (Some Unreachable))"

section \<open>Plain sequences\<close>

text \<open>The search over the instruction groups; \<open>ok\<close> tells which operands are possible.\<close>

definition pick_group ::
  "gen_env \<Rightarrow> 'g rand_ops \<Rightarrow> (InstrGrp \<Rightarrow> bool) \<Rightarrow> btype \<Rightarrow> ('g, InstrGrp option) gen" where
  "pick_group E R ok result =
     coin_pick R
       (filter (\<lambda>g. ok g \<and> length (produced g) = type_arity result \<and>
                    (type_arity result \<noteq> 0 \<longrightarrow> produced g ! 0 = result)) (ge_grps E)) None"

text \<open>The end of the recursion: a variable, or an instruction without operands.\<close>

definition gen_leaf :: "gen_env \<Rightarrow> 'g rand_ops \<Rightarrow> btype \<Rightarrow> ('g, bexpr option) gen" where
  "gen_leaf E R result =
     gbind (if type_arity result \<ge> 1
            then gbind (grand R 2) (\<lambda>r.
                   if r \<noteq> 0
                   then gbind (grand R 2) (\<lambda>u. wasm_generate_one_local_global_get E R result (u \<noteq> 0))
                   else gret None)
            else gret None) (\<lambda>res.
       case res of
         Some e \<Rightarrow> gret (Some e)
       | None \<Rightarrow>
           gbind (pick_group E R (\<lambda>g. required g = []) result) (\<lambda>sel.
             case sel of
               None \<Rightarrow> gret None
             | Some g \<Rightarrow>
                 gbind (grand R (of_nat (length (groups g)))) (\<lambda>k. gsimple E R (groups g ! unat k) [])))"

text \<open>With probability one in \<open>n\<close> try \<open>act\<close>; go on with \<open>k\<close> when it gives NULL or was not tried.\<close>

definition gtry :: "'g rand_ops \<Rightarrow> u32 \<Rightarrow> ('g, bexpr option) gen \<Rightarrow> ('g, bexpr option) gen \<Rightarrow> ('g, bexpr option) gen" where
  "gtry R n act k =
     gbind (grand R n) (\<lambda>r.
       if r = 0 then gbind act (\<lambda>e. case e of Some x \<Rightarrow> gret (Some x) | None \<Rightarrow> k) else k)"

definition gen_tree ::
  "gen_env \<Rightarrow> 'g rand_ops \<Rightarrow> (btype \<Rightarrow> ('g, bexpr option) gen) \<Rightarrow> btype \<Rightarrow> ('g, bexpr option) gen" where
  "gen_tree E R rec result =
     (if type_arity result \<ge> 2 then
        gbind (galloc E) (\<lambda>ok.
          if \<not> ok then gret None
          else gbind (gmap rec (type_expand result)) (\<lambda>es. gbind (gmap gneed es) (\<lambda>xs. gret (Some (TupleMake xs)))))
      else
        gbind (pick_group E R (\<lambda>g. True) result) (\<lambda>sel.
          case sel of
            None \<Rightarrow> gret None
          | Some g \<Rightarrow>
              gbind (grand R (of_nat (length (groups g)))) (\<lambda>k.
                if required g \<noteq> [] then
                  gbind (galloc E) (\<lambda>ok.
                    if \<not> ok then gret None
                    else gbind (gmap rec (required g)) (\<lambda>child. gsimple E R (groups g ! unat k) child))
                else gsimple E R (groups g ! unat k) [])))"

definition gen_node ::
  "gen_env \<Rightarrow> 'g rand_ops \<Rightarrow> (btype \<Rightarrow> ('g, bexpr option) gen) \<Rightarrow> labelCxt list \<Rightarrow> btype \<Rightarrow> ('g, bexpr option) gen" where
  "gen_node E R rec label_cxt result =
     gtry R 2 (wasm_generate_one_call E R rec result)
      (gbind (grand R 5) (\<lambda>r.
         if r = 0 then wasm_generate_one_call_indirect E R rec result
         else
           gtry R 8 (wasm_generate_one_control_transfer E R rec label_cxt result)
            (if type_arity result \<ge> 1 then
               gtry R 5 (gbind (grand R 2) (\<lambda>u. wasm_generate_one_local_global_get E R result (u \<noteq> 0)))
                (gtry R 5 (wasm_generate_one_local_tee E R rec result) (gen_tree E R rec result))
             else
               gtry R 5 (gbind (grand R 2) (\<lambda>u. wasm_generate_one_local_global_set E R rec (u \<noteq> 0)))
                (gen_tree E R rec result))))"

fun wasm_generate_instr_seqs_base_case ::
  "gen_env \<Rightarrow> 'g rand_ops \<Rightarrow> labelCxt list \<Rightarrow> nat \<Rightarrow> btype \<Rightarrow> ('g, bexpr option) gen" where
  "wasm_generate_instr_seqs_base_case E R label_cxt 0 result =
     gbind (gsimplify E result) (\<lambda>result. gen_leaf E R result)"
| "wasm_generate_instr_seqs_base_case E R label_cxt (Suc depth) result =
     gbind (gsimplify E result) (\<lambda>result.
       gen_node E R (wasm_generate_instr_seqs_base_case E R label_cxt depth) label_cxt result)"

section \<open>Control skeletons\<close>

text \<open>
  A block, loop or conditional of the given type. \<open>rec\<close> generates its parts one level deeper. The
  result \<open>None\<close> is the jump to \<^verbatim>\<open>oom\<close>; where the code does not check the allocation it crashes.
\<close>

definition gen_struct ::
  "gen_env \<Rightarrow> 'g rand_ops \<Rightarrow> (labelCxt list \<Rightarrow> btype \<Rightarrow> ('g, bexpr option) gen) \<Rightarrow> labelCxt list \<Rightarrow> bool \<Rightarrow> btype \<Rightarrow>
   ('g, bexpr option option) gen" where
  "gen_struct E R rec label_cxt checked type =
     gbind (grand R 3) (\<lambda>selected.
       if selected = 0 then gbind (rec label_cxt type) (\<lambda>e. gret (Some e))
       else if selected = 1 then
         gbind gname (\<lambda>sub_label.
         gbind (galloc E) (\<lambda>ok.
           if \<not> ok then (if checked then gret None else gfail)
           else
             gbind (rec (label_cxt @ [\<lparr> label_name = sub_label, label_type = TypeNone, label_pre_added = False \<rparr>]) type) (\<lambda>e.
             gbind (gneed e) (\<lambda>x. gret (Some (Some (Loop (Some sub_label) x)))))))
       else
         gbind (rec label_cxt TypeInt32) (\<lambda>cond.
         gbind (rec label_cxt type) (\<lambda>true_expr.
         gbind (rec label_cxt type) (\<lambda>false_expr.
         gbind (gneed cond) (\<lambda>c.
         gbind (gneed true_expr) (\<lambda>t. gret (Some (Some (If c t false_expr)))))))))"

text \<open>
  The loop over the result types: each round takes some of the remaining ones, at least one, and
  saves the values of a new structured instruction in a new local.
\<close>

function gen_pieces ::
  "gen_env \<Rightarrow> 'g rand_ops \<Rightarrow> (labelCxt list \<Rightarrow> btype \<Rightarrow> ('g, bexpr option) gen) \<Rightarrow> labelCxt list \<Rightarrow> btype list \<Rightarrow>
   bexpr list \<Rightarrow> (nat \<times> btype) list \<Rightarrow> ('g, (bexpr list \<times> (nat \<times> btype) list) option) gen" where
  "gen_pieces E R rec label_cxt results exprs locals =
     (if results = [] then gret (Some (exprs, locals))
      else
        gbind (grand R (of_nat (length results))) (\<lambda>r.
          (let move_steps = Suc (unat r); sub_type = type_create (take move_steps results)
           in gbind (galloc E) (\<lambda>ok.
                if \<not> ok then gret None
                else
                  gbind (gnew_local sub_type) (\<lambda>idx.
                  gbind (gen_struct E R rec label_cxt True sub_type) (\<lambda>res.
                    case res of
                      None \<Rightarrow> gret None
                    | Some new_expr \<Rightarrow>
                        gbind (galloc E) (\<lambda>ok.
                          if \<not> ok then gret None
                          else
                            gbind (gneed new_expr) (\<lambda>x.
                              gen_pieces E R rec label_cxt (drop move_steps results) (exprs @ [LocalSet idx x])
                                (locals @ [(idx, sub_type)]))))))))) "
  by pat_completeness auto
termination
  by (relation "measure (\<lambda>(E, R, rec, label_cxt, results, exprs, locals). length results)") auto

declare gen_pieces.simps [simp del]

text \<open>The reads of the new locals, and the value of the block.\<close>

definition get_locals :: "(nat \<times> btype) list \<Rightarrow> bexpr list" where
  "get_locals locals =
     concat (map (\<lambda>(i, t).
       if type_arity t > 1 then map (TupleExtract (LocalGet i t)) [0..<type_arity t] else [LocalGet i t]) locals)"

definition gen_block ::
  "gen_env \<Rightarrow> 'g rand_ops \<Rightarrow> (labelCxt list \<Rightarrow> btype \<Rightarrow> ('g, bexpr option) gen) \<Rightarrow> labelCxt list \<Rightarrow> string \<Rightarrow> btype \<Rightarrow>
   ('g, bexpr option) gen" where
  "gen_block E R rec label_cxt top_label result =
     gbind (galloc E) (\<lambda>ok.
       if \<not> ok then gret None
       else if type_arity result \<ge> 1 then
         gbind (gen_pieces E R rec label_cxt (type_expand result) [] []) (\<lambda>res.
           case res of
             None \<Rightarrow> gret None
           | Some (exprs, locals) \<Rightarrow>
               gbind (galloc E) (\<lambda>ok.
                 if \<not> ok then gret None
                 else
                   (let gets = get_locals locals
                    in gret (Some (Block (Some top_label)
                         (exprs @ [if type_arity result > 1 then TupleMake gets else hd gets]))))))
       else
         gbind (gen_struct E R rec label_cxt False TypeNone) (\<lambda>res.
           case res of
             None \<Rightarrow> gret None
           | Some e \<Rightarrow> gbind (gneed e) (\<lambda>x. gret (Some (Block (Some top_label) [x])))))"

fun wasm_generate_instr_seqs_top_level ::
  "gen_env \<Rightarrow> 'g rand_ops \<Rightarrow> nat \<Rightarrow> labelCxt list \<Rightarrow> btype \<Rightarrow> ('g, bexpr option) gen" where
  "wasm_generate_instr_seqs_top_level E R 0 label_cxt result =
     gbind (gsimplify E result) (\<lambda>result. wasm_generate_instr_seqs_base_case E R label_cxt 3 result)"
| "wasm_generate_instr_seqs_top_level E R (Suc depth) label_cxt result =
     gbind (gsimplify E result) (\<lambda>result.
     gbind gname (\<lambda>top_label.
     gbind (galloc E) (\<lambda>ok.
       if \<not> ok then wasm_generate_instr_seqs_base_case E R label_cxt 3 result
       else
         (let label_cxt1 = label_cxt @ [\<lparr> label_name = top_label, label_type = result, label_pre_added = False \<rparr>]
          in gbind (gen_block E R (wasm_generate_instr_seqs_top_level E R depth) label_cxt1 top_label result) (\<lambda>top_blk.
               case top_blk of
                 Some e \<Rightarrow> gret (Some e)
               | None \<Rightarrow> wasm_generate_instr_seqs_base_case E R label_cxt1 3 result)))))"

section \<open>A function\<close>

text \<open>\<^verbatim>\<open>BinaryenAddFunction\<close> aborts when the name is taken.\<close>

definition gadd_func :: "bfunction \<Rightarrow> ('g, unit) gen" where
  "gadd_func f = (\<lambda>s.
     if f_name f \<in> set (map f_name (m_funcs (gs_mod s))) then None
     else Some ((), s\<lparr> gs_mod := (gs_mod s)\<lparr> m_funcs := m_funcs (gs_mod s) @ [f] \<rparr> \<rparr>))"

text \<open>
  The locals context starts with the parameters and ends with the function; the locals of the state
  are those of the caller and are put back. The code stores the type of a new local at its index less
  the number of parameters, which is its position among the new ones.
\<close>

definition wasm_generate_one_func ::
  "gen_env \<Rightarrow> 'g rand_ops \<Rightarrow> btype \<Rightarrow> btype \<Rightarrow> ('g, string option) gen" where
  "wasm_generate_one_func E R param result =
     gbind glocals (\<lambda>outer.
     gbind (galloc E) (\<lambda>ok.
       if type_arity param \<ge> 1 \<and> \<not> ok then gret None
       else
         gbind (\<lambda>s. Some ((), s\<lparr> gs_locals :=
             map (\<lambda>(i, t). \<lparr> local_idx = i, local_type = t, pre_added = True \<rparr>)
               (zip [0..<type_arity param] (type_expand param)) \<rparr>)) (\<lambda>_.
         gbind (wasm_generate_instr_seqs_top_level E R 3 [] result) (\<lambda>func_body.
         gbind gmod (\<lambda>m.
         gbind glocals (\<lambda>locals.
         gbind (galloc E) (\<lambda>ok.
         gbind (\<lambda>s. Some ((), s\<lparr> gs_locals := outer \<rparr>)) (\<lambda>_.
           if length locals > type_arity param \<and> \<not> ok then gret None
           else
             (let func_name = nat_string (length (m_funcs m));
                  vars = map local_type (filter (\<lambda>l. \<not> pre_added l) locals)
              in gbind (gadd_func \<lparr> f_name = func_name, f_body = func_body, f_params = type_expand param,
                          f_results = type_expand result, f_vars = vars \<rparr>) (\<lambda>_.
                 gret (Some func_name)))))))))))"

end
