(* ===== verification/Wasm_Seqs_Typed.thy ===== *)
theory Wasm_Seqs_Typed
  imports Wasm_Seqs
begin

text \<open>
  The generators of \<^verbatim>\<open>Wasm_Seqs\<close> are total and type-correct. The proofs follow the code function by
  function, with one judgement: a generator started in a good state returns, keeps the state good,
  uses a bounded number of names and globals, and its result has the type that was asked for.
\<close>

section \<open>Running a generator\<close>

text \<open>
  The invariant of the state: a module the generators can work on, in which the next global names
  are free, locals numbered from 0, and a well-formed pool of names.
\<close>

definition result_type :: "btype \<Rightarrow> bool" where
  "result_type t \<longleftrightarrow> (\<exists>ts. list_all value_type ts \<and> t = type_create ts)"

definition locals_ok :: "localCxt list \<Rightarrow> bool" where
  "locals_ok ls \<longleftrightarrow> map local_idx ls = [0..<length ls] \<and>
     list_all (\<lambda>l. result_type (local_type l) \<and> local_type l \<noteq> TypeNone) ls"

definition gen_inv :: "'g gen_state \<Rightarrow> bool" where
  "gen_inv s \<longleftrightarrow> gen_module (gs_mod s) \<and>
     (\<forall>j \<ge> length (m_globals (gs_mod s)). nat_string j \<notin> set (map g_name (m_globals (gs_mod s)))) \<and>
     locals_ok (gs_locals s) \<and> pool_ok (gs_names s)"

text \<open>Room for \<open>k\<close> more names and \<open>k\<close> more globals.\<close>

definition room :: "'g gen_state \<Rightarrow> nat \<Rightarrow> bool" where
  "room s k \<longleftrightarrow> k \<le> pool_room (gs_names s) \<and> length (m_globals (gs_mod s)) + k < 2 ^ 32"

text \<open>What a generator keeps of the state it starts in.\<close>

definition ext :: "'g gen_state \<Rightarrow> 'g gen_state \<Rightarrow> bool" where
  "ext s s' \<longleftrightarrow> grows (gs_mod s) (gs_mod s') \<and> m_funcs (gs_mod s') = m_funcs (gs_mod s) \<and>
     (\<exists>ls. gs_locals s' = gs_locals s @ ls \<and> list_all (\<lambda>l. \<not> pre_added l) ls) \<and>
     prefix (used_names (gs_names s)) (used_names (gs_names s'))"

lemma ext_refl [simp]: "ext s s"
  by (simp add: ext_def)

lemma ext_trans [trans]: "ext s s1 \<Longrightarrow> ext s1 s2 \<Longrightarrow> ext s s2"
  unfolding ext_def by (elim conjE exE) (auto intro: grows_trans prefix_order.trans)

text \<open>
  \<open>runs s k f Q\<close>: started in \<open>s\<close> with room for \<open>k\<close> names and globals, \<open>f\<close> returns, uses at most that
  room, keeps the invariant, and its result and final state satisfy \<open>Q\<close>.
\<close>

abbreviation num_globals :: "'g gen_state \<Rightarrow> nat" where
  "num_globals s \<equiv> length (m_globals (gs_mod s))"

definition runs :: "'g gen_state \<Rightarrow> nat \<Rightarrow> ('g, 'a) gen \<Rightarrow> ('a \<Rightarrow> 'g gen_state \<Rightarrow> bool) \<Rightarrow> bool" where
  "runs s k f Q \<longleftrightarrow>
     (gen_inv s \<longrightarrow> (\<forall>n. room s (k + n) \<longrightarrow>
        (\<exists>a s'. f s = Some (a, s') \<and> gen_inv s' \<and> ext s s' \<and> room s' n \<and> num_globals s' \<le> num_globals s + k \<and> Q a s')))"

lemma room_mono: "room s k \<Longrightarrow> n \<le> k \<Longrightarrow> room s n"
  by (auto simp: room_def)

lemma runs_inv: "(gen_inv s \<Longrightarrow> runs s k f Q) \<Longrightarrow> runs s k f Q"
  by (simp add: runs_def)

lemma runs_ret: "Q a s \<Longrightarrow> runs s 0 (gret a) Q"
  by (simp add: runs_def gret_def)

lemma runs_weak:
  assumes "runs s k f Q" and "k \<le> k'" and "\<And>a s'. ext s s' \<Longrightarrow> gen_inv s' \<Longrightarrow> Q a s' \<Longrightarrow> Q' a s'"
  shows "runs s k' f Q'"
  unfolding runs_def
proof (intro impI allI)
  fix n assume "gen_inv s" and "room s (k' + n)"
  moreover have "k' + n = k + (k' - k + n)" using assms(2) by simp
  ultimately obtain a s' where "f s = Some (a, s')" "gen_inv s'" "ext s s'" "room s' (k' - k + n)"
      "num_globals s' \<le> num_globals s + k" "Q a s'"
    using assms(1) by (metis runs_def)
  then show "\<exists>a s'. f s = Some (a, s') \<and> gen_inv s' \<and> ext s s' \<and> room s' n \<and> num_globals s' \<le> num_globals s + k' \<and> Q' a s'"
    using assms(2,3) room_mono [of s' "k' - k + n" n] by auto
qed

lemma runs_cost: "runs s k f Q \<Longrightarrow> k \<le> k' \<Longrightarrow> runs s k' f Q"
  by (rule runs_weak)

lemma runs_post: "runs s k f Q \<Longrightarrow> (\<And>a s'. ext s s' \<Longrightarrow> gen_inv s' \<Longrightarrow> Q a s' \<Longrightarrow> Q' a s') \<Longrightarrow> runs s k f Q'"
  by (erule runs_weak) auto

lemma runs_bind:
  assumes "runs s k1 f Q1" and "\<And>a s'. ext s s' \<Longrightarrow> gen_inv s' \<Longrightarrow> Q1 a s' \<Longrightarrow> runs s' k2 (g a) Q"
  shows "runs s (k1 + k2) (gbind f g) Q"
  unfolding runs_def
proof (intro impI allI)
  fix n assume s: "gen_inv s" and r: "room s (k1 + k2 + n)"
  then obtain a s1 where 1: "f s = Some (a, s1)" "gen_inv s1" "ext s s1" "room s1 (k2 + n)"
      "num_globals s1 \<le> num_globals s + k1" "Q1 a s1"
    using assms(1) unfolding runs_def by (metis add.assoc)
  then obtain b s2 where "g a s1 = Some (b, s2)" "gen_inv s2" "ext s1 s2" "room s2 n"
      "num_globals s2 \<le> num_globals s1 + k2" "Q b s2"
    using assms(2) [of s1 a] unfolding runs_def by blast
  then show "\<exists>a s'. gbind f g s = Some (a, s') \<and> gen_inv s' \<and> ext s s' \<and> room s' n \<and>
      num_globals s' \<le> num_globals s + (k1 + k2) \<and> Q a s'"
    using 1 ext_trans [of s s1 s2] by (simp add: gbind_def)
qed

lemma runs_bind0:
  assumes "runs s 0 f Q1" and "\<And>a s'. ext s s' \<Longrightarrow> gen_inv s' \<Longrightarrow> Q1 a s' \<Longrightarrow> runs s' k (g a) Q"
  shows "runs s k (gbind f g) Q"
  using runs_bind [where ?k1.0 = 0 and ?k2.0 = k, OF assms] by simp

lemma runs_bind_ret:
  assumes "runs s k f Q1" and "\<And>a s'. ext s s' \<Longrightarrow> gen_inv s' \<Longrightarrow> Q1 a s' \<Longrightarrow> runs s' 0 (g a) Q"
  shows "runs s k (gbind f g) Q"
  using runs_bind [where ?k1.0 = k and ?k2.0 = 0, OF assms] by simp

lemma runs_step:
  assumes "f s = Some (a, s')" and "gen_inv s \<Longrightarrow> gen_inv s'" and "ext s s'" and "\<And>n. room s n \<Longrightarrow> room s' n"
    and "num_globals s' \<le> num_globals s" and "Q a s'"
  shows "runs s 0 f Q"
  using assms by (auto simp: runs_def)

text \<open>Without a cost no global is added.\<close>

lemma runs_same_globals:
  assumes "runs s 0 f Q"
  shows "runs s 0 f (\<lambda>a s'. m_globals (gs_mod s') = m_globals (gs_mod s) \<and> Q a s')"
  unfolding runs_def
proof (intro impI allI)
  fix n assume "gen_inv s" and "room s (0 + n)"
  then obtain a s' where r: "f s = Some (a, s')" "gen_inv s'" "ext s s'" "room s' n" "num_globals s' \<le> num_globals s" "Q a s'"
    using assms unfolding runs_def by (metis add.right_neutral)
  then have "m_globals (gs_mod s') = m_globals (gs_mod s)" by (auto simp: ext_def grows_def)
  with r show "\<exists>a s'. f s = Some (a, s') \<and> gen_inv s' \<and> ext s s' \<and> room s' n \<and> num_globals s' \<le> num_globals s + 0 \<and>
      m_globals (gs_mod s') = m_globals (gs_mod s) \<and> Q a s'" by auto
qed

lemma gbind_gmod: "gbind gmod f s = f (gs_mod s) s"
  by (simp add: gbind_def gmod_def)

lemma gbind_glocals: "gbind glocals f s = f (gs_locals s) s"
  by (simp add: gbind_def glocals_def)

lemma runs_gmod: "runs s k (f (gs_mod s)) Q \<Longrightarrow> runs s k (gbind gmod f) Q"
  by (simp add: runs_def gbind_gmod)

lemma runs_glocals: "runs s k (f (gs_locals s)) Q \<Longrightarrow> runs s k (gbind glocals f) Q"
  by (simp add: runs_def gbind_glocals)

section \<open>Single steps\<close>

text \<open>Draws: bounded, and every value comes up sooner or later.\<close>

definition draws_all :: "'g rand_ops \<Rightarrow> bool" where
  "draws_all R \<longleftrightarrow>
     (\<forall>g n k. k < n \<longrightarrow> (\<exists>j. fst (ro_rand_below R (((\<lambda>g. snd (ro_rand_below R g n)) ^^ j) g) n) = k))"

definition gen_ok :: "gen_env \<Rightarrow> 'g rand_ops \<Rightarrow> bool" where
  "gen_ok E R \<longleftrightarrow> (\<forall>n. ge_alloc E n) \<and> bounded_rng R \<and> draws_all R"

lemma inv_update [simp]:
  "gen_inv (s\<lparr> gs_rng := g \<rparr>) = gen_inv s" "ext s (s\<lparr> gs_rng := g \<rparr>)" "room (s\<lparr> gs_rng := g \<rparr>) n = room s n"
  "gen_inv (s\<lparr> gs_alloc := a \<rparr>) = gen_inv s" "ext s (s\<lparr> gs_alloc := a \<rparr>)" "room (s\<lparr> gs_alloc := a \<rparr>) n = room s n"
  by (simp_all add: gen_inv_def ext_def room_def)

lemma runs_rand:
  assumes "gen_ok E R"
  shows "runs s 0 (grand R n) (\<lambda>r s'. 0 < n \<longrightarrow> r < n)"
  using assms bounded_rng.rand_below_less [of R n "gs_rng s"]
  by (intro runs_step [where a = "fst (ro_rand_below R (gs_rng s) n)" and s' = "s\<lparr> gs_rng := snd (ro_rand_below R (gs_rng s) n) \<rparr>"])
     (auto simp: grand_def gen_ok_def case_prod_unfold Let_def)

lemma runs_alloc:
  assumes "gen_ok E R"
  shows "runs s 0 (galloc E) (\<lambda>ok s'. ok)"
  using assms by (intro runs_step [where a = True and s' = "s\<lparr> gs_alloc := Suc (gs_alloc s) \<rparr>"]) (auto simp: galloc_def gen_ok_def)

lemma runs_simplify:
  assumes "gen_ok E R" and "result_type t"
  shows "runs s 0 (gsimplify E t) (\<lambda>u s'. u = t)"
proof -
  have "wasm_simplify_type True t = t" using assms(2) by (auto simp: result_type_def)
  then show ?thesis
    unfolding gsimplify_def by (intro runs_bind0 [OF runs_alloc [OF assms(1)]] runs_ret) simp
qed

lemma runs_need: "e = Some x \<Longrightarrow> Q x s \<Longrightarrow> runs s 0 (gneed e) Q"
  by (simp add: gneed_def runs_ret)

lemma runs_new_local:
  assumes "result_type t" and "t \<noteq> TypeNone"
  shows "runs s 0 (gnew_local t) (\<lambda>i s'. i = length (gs_locals s) \<and> i < length (gs_locals s') \<and> local_type (gs_locals s' ! i) = t)"
  by (intro runs_step [where a = "length (gs_locals s)" and
      s' = "s\<lparr> gs_locals := gs_locals s @ [\<lparr> local_idx = length (gs_locals s), local_type = t, pre_added = False \<rparr>] \<rparr>"])
     (use assms in \<open>auto simp: gnew_local_def gen_inv_def locals_ok_def ext_def room_def Let_def\<close>)

lemma runs_name:
  "runs s 1 gname (\<lambda>n s'. n \<notin> set (used_names (gs_names s)) \<and> n \<in> set (used_names (gs_names s')))"
  unfolding runs_def
proof (intro impI allI)
  fix k assume i: "gen_inv s" and r: "room s (1 + k)"
  let ?r = "wasm_find_available_name (gs_names s)"
  have ok: "pool_ok (gs_names s)" and pos: "0 < pool_room (gs_names s)"
    using i r by (auto simp: gen_inv_def room_def)
  have "gname s = Some (fst ?r, s\<lparr> gs_names := snd ?r \<rparr>)" by (simp add: gname_def case_prod_unfold Let_def)
  moreover have "gen_inv (s\<lparr> gs_names := snd ?r \<rparr>)" "ext s (s\<lparr> gs_names := snd ?r \<rparr>)" "room (s\<lparr> gs_names := snd ?r \<rparr>) k"
    using i r pool.take_ok [OF ok pos] pool.take_in_use [of "gs_names s"] pool.take_room [OF ok pos]
    by (auto simp: gen_inv_def ext_def room_def)
  ultimately show "\<exists>a s'. gname s = Some (a, s') \<and> gen_inv s' \<and> ext s s' \<and> room s' k \<and> num_globals s' \<le> num_globals s + 1 \<and>
      a \<notin> set (used_names (gs_names s)) \<and> a \<in> set (used_names (gs_names s'))"
    using pool.take_fresh [OF ok pos] pool.take_in_use [of "gs_names s"] by auto
qed

lemma runs_coin:
  assumes "gen_ok E R"
  shows "runs s 0 (coin_pick R xs sel)
     (\<lambda>r s'. (r = None \<longleftrightarrow> sel = None \<and> xs = []) \<and> (\<forall>x. r = Some x \<longrightarrow> x \<in> set xs \<or> sel = Some x))"
proof (induction xs arbitrary: sel s)
  case Nil
  then show ?case by (simp add: runs_ret)
next
  case (Cons x xs)
  show ?case
  proof (cases sel)
    case None
    then show ?thesis by (auto intro!: runs_post [OF Cons.IH [of _ "Some x"]])
  next
    case (Some y)
    then show ?thesis
      by (auto intro!: runs_bind0 [OF runs_rand [OF assms]] runs_post [OF Cons.IH] split: if_splits)
  qed
qed

lemma runs_grand_type:
  assumes "gen_ok E R"
  shows "runs s 0 (grand_type R) (\<lambda>t s'. value_type t)"
  unfolding grand_type_def
proof (intro runs_bind0 [OF runs_rand [OF assms]] runs_ret, elim impE)
  fix r :: u32
  assume "r < 7"
  then have "unat r < 7" by (simp add: word_less_nat_alt)
  then show "value_type ([TypeInt32, TypeInt64, TypeFloat32, TypeFloat64, TypeFuncref, TypeExternref, TypeVec128] ! unat r)"
    by (auto simp: value_type_def less_Suc_eq numeral_eq_Suc)
qed simp

section \<open>Typed results\<close>

definition wt_in :: "'g gen_state \<Rightarrow> (string \<times> btype) list \<Rightarrow> bexpr \<Rightarrow> btype \<Rightarrow> bool" where
  "wt_in s L e t \<longleftrightarrow> wt (gs_mod s) (map local_type (gs_locals s)) L e t"

definition typed :: "(string \<times> btype) list \<Rightarrow> btype \<Rightarrow> bexpr option \<Rightarrow> 'g gen_state \<Rightarrow> bool" where
  "typed L t e s \<longleftrightarrow> (\<exists>x. e = Some x \<and> wt_in s L x t)"

text \<open>A result that may be NULL.\<close>

definition maybe_typed :: "(string \<times> btype) list \<Rightarrow> btype \<Rightarrow> bexpr option \<Rightarrow> 'g gen_state \<Rightarrow> bool" where
  "maybe_typed L t e s \<longleftrightarrow> (\<forall>x. e = Some x \<longrightarrow> wt_in s L x t)"

lemma wt_in_ext: "wt_in s L e t \<Longrightarrow> ext s s' \<Longrightarrow> wt_in s' L e t"
proof -
  assume w: "wt_in s L e t" and x: "ext s s'"
  then have "grows (gs_mod s) (gs_mod s')" "prefix (map local_type (gs_locals s)) (map local_type (gs_locals s'))"
    by (auto simp: ext_def)
  from wt_weaken [OF w [unfolded wt_in_def] this] show "wt_in s' L e t" by (simp add: wt_in_def)
qed

lemma typed_ext: "typed L t e s \<Longrightarrow> ext s s' \<Longrightarrow> typed L t e s'"
  by (auto simp: typed_def intro: wt_in_ext)

lemma typed_Some [simp]: "typed L t (Some e) s = wt_in s L e t" "maybe_typed L t (Some e) s = wt_in s L e t" "maybe_typed L t None s"
  by (auto simp: typed_def maybe_typed_def)

lemma typed_maybe: "typed L t e s \<Longrightarrow> maybe_typed L t e s"
  by (auto simp: typed_def maybe_typed_def)

text \<open>Operands: one generator for every value type.\<close>

definition gens_values :: "(string \<times> btype) list \<Rightarrow> (btype \<Rightarrow> ('g, bexpr option) gen) \<Rightarrow> bool" where
  "gens_values L rec \<longleftrightarrow> (\<forall>s t. value_type t \<longrightarrow> runs s 0 (rec t) (typed L t))"

definition all_typed :: "(string \<times> btype) list \<Rightarrow> btype list \<Rightarrow> bexpr option list \<Rightarrow> 'g gen_state \<Rightarrow> bool" where
  "all_typed L ts es s \<longleftrightarrow> list_all2 (\<lambda>t e. typed L t e s) ts es"

lemma all_typed_ext: "all_typed L ts es s \<Longrightarrow> ext s s' \<Longrightarrow> all_typed L ts es s'"
  unfolding all_typed_def by (erule list_all2_mono) (rule typed_ext)

text \<open>A step for each element, with a property of each that later steps keep.\<close>

lemma runs_gmap:
  assumes step: "\<And>x s. x \<in> set xs \<Longrightarrow> runs s 0 (f x) (P x)" and keep: "\<And>x y s s'. P x y s \<Longrightarrow> ext s s' \<Longrightarrow> P x y s'"
  shows "runs s 0 (gmap f xs) (\<lambda>ys s'. list_all2 (\<lambda>x y. P x y s') xs ys)"
  using step
proof (induction xs arbitrary: s)
  case Nil
  then show ?case by (simp add: runs_ret)
next
  case (Cons x xs)
  note ih = Cons.IH [OF Cons.prems [OF list.set_intros(2)]]
  show ?case
    by (auto intro!: runs_bind0 [OF Cons.prems [of x]] runs_bind0 [OF ih] runs_ret intro: keep)
qed

lemma runs_operands:
  assumes "gens_values L rec" and "list_all value_type ts"
  shows "runs s 0 (gmap rec ts) (all_typed L ts)"
  unfolding all_typed_def
  by (rule runs_gmap) (use assms in \<open>auto simp: gens_values_def list_all_iff intro: typed_ext\<close>)

lemma all_typed_map:
  assumes "all_typed L ts es s"
  shows "\<exists>xs. es = map Some xs \<and> length xs = length ts \<and> (\<forall>k < length xs. wt_in s L (xs ! k) (ts ! k))"
proof (intro exI conjI allI impI)
  show "es = map Some (map the es)"
    using assms by (auto simp: all_typed_def list_all2_conv_all_nth typed_def intro!: nth_equalityI)
  show "length (map the es) = length ts" using assms by (simp add: all_typed_def list_all2_lengthD)
  show "wt_in s L (map the es ! k) (ts ! k)" if "k < length (map the es)" for k
    using assms that by (auto simp: all_typed_def list_all2_conv_all_nth typed_def)
qed

lemma gmap_gneed: "gmap gneed (map Some xs) = gret xs"
proof (induction xs)
  case (Cons x xs)
  then show ?case by (simp add: gneed_def gbind_def gret_def)
qed simp

lemma runs_need_all:
  assumes "all_typed L ts es s"
  shows "runs s 0 (gmap gneed es) (\<lambda>xs s'. length xs = length ts \<and> (\<forall>k < length xs. wt_in s' L (xs ! k) (ts ! k)))"
proof -
  obtain xs where "es = map Some xs" "length xs = length ts" "\<forall>k < length xs. wt_in s L (xs ! k) (ts ! k)"
    using all_typed_map [OF assms] by blast
  then show ?thesis by (auto simp: gmap_gneed intro!: runs_ret)
qed

lemma wt_in_tuple:
  assumes "length xs = length ts" and "\<forall>k < length xs. wt_in s L (xs ! k) (ts ! k)" and "1 < length ts"
  shows "wt_in s L (TupleMake xs) (type_create ts)"
proof -
  have "type_create ts = TypeTuple ts" using assms(3) by (cases ts rule: remdups_adj.cases) auto
  then show ?thesis using assms by (auto simp: wt_in_def intro!: wt_tuple_make)
qed

lemma runs_pack:
  assumes "all_typed L ts es s" and "ts \<noteq> []"
  shows "runs s 0 (gpack es) (typed L (type_create ts))"
proof (cases "length es > 1")
  case True
  have "length es = length ts" using assms(1) by (simp add: all_typed_def list_all2_lengthD)
  then show ?thesis using True
    by (auto simp: gpack_def intro!: runs_bind0 [OF runs_need_all [OF assms(1)]] runs_ret wt_in_tuple)
next
  case False
  then obtain t e where "ts = [t]" "es = [e]" using assms
    by (cases ts; cases es) (auto simp: all_typed_def)
  then show ?thesis using assms(1) by (auto simp: gpack_def all_typed_def intro!: runs_ret)
qed

text \<open>The values of a type, as one operand of a node.\<close>

lemma runs_values:
  assumes "gens_values L rec" and "result_type t" and "t \<noteq> TypeNone"
    and "\<And>x s'. ext s s' \<Longrightarrow> gen_inv s' \<Longrightarrow> wt_in s' L x t \<Longrightarrow> Q (Some (mk x)) s'"
  shows "runs s 0 (gbind (gmap rec (type_expand t)) (\<lambda>es. gbind (gpack es) (\<lambda>v. gbind (gneed v) (\<lambda>x. gret (Some (mk x)))))) Q"
proof -
  obtain ts where ts: "list_all value_type ts" "t = type_create ts" using assms(2) by (auto simp: result_type_def)
  then have ne: "ts \<noteq> []" and ex: "type_expand t = ts" using assms(3) by auto
  show ?thesis
    unfolding ex
  proof (rule runs_bind0 [OF runs_operands [OF assms(1) ts(1)]])
    fix es s1 assume 1: "ext s s1" "all_typed L ts es s1"
    show "runs s1 0 (gbind (gpack es) (\<lambda>v. gbind (gneed v) (\<lambda>x. gret (Some (mk x))))) Q"
    proof (rule runs_bind0 [OF runs_pack [OF 1(2) ne]])
      fix v s2 assume 2: "ext s1 s2" "gen_inv s2" "typed L (type_create ts) v s2"
      then obtain x where "v = Some x" "wt_in s2 L x t" using ts(2) by (auto simp: typed_def)
      then show "runs s2 0 (gbind (gneed v) (\<lambda>x. gret (Some (mk x)))) Q"
        using assms(4) [OF ext_trans [OF 1(1) 2(1)] 2(2)]
        by (auto simp: gneed_def gbind_def gret_def runs_def)
    qed
  qed
qed

text \<open>A plain instruction around typed operands.\<close>

lemma gs_mod_ext:
  assumes "gen_inv s" and "adds_tables (gs_mod s) m" and "gen_module m"
  shows "gen_inv (s\<lparr> gs_mod := m, gs_rng := g \<rparr>)" "ext s (s\<lparr> gs_mod := m, gs_rng := g \<rparr>)"
    "room s n \<Longrightarrow> room (s\<lparr> gs_mod := m, gs_rng := g \<rparr>) n" "m_globals m = m_globals (gs_mod s)"
proof -
  have same: "m_globals m = m_globals (gs_mod s)" "m_funcs m = m_funcs (gs_mod s)"
    using assms(2) unfolding adds_tables_def by (elim exE, simp)+
  show "gen_inv (s\<lparr> gs_mod := m, gs_rng := g \<rparr>)" "ext s (s\<lparr> gs_mod := m, gs_rng := g \<rparr>)"
    "room s n \<Longrightarrow> room (s\<lparr> gs_mod := m, gs_rng := g \<rparr>) n" "m_globals m = m_globals (gs_mod s)"
    using assms(1,3) same adds_tables_grows [OF assms(2)] by (simp_all add: gen_inv_def ext_def room_def)
qed

lemma runs_simple:
  assumes "gen_ok E R" and "instr_sig i = Some (req, pro)" and "all_typed L req es s"
  shows "runs s 0 (gsimple E R i es) (typed L (type_create pro))"
  unfolding runs_def
proof (intro impI allI)
  fix n assume s: "gen_inv s" and r: "room s (0 + n)"
  obtain cs where cs: "es = map Some cs" "length cs = length req" "\<forall>k < length cs. wt_in s L (cs ! k) (req ! k)"
    using all_typed_map [OF assms(3)] by blast
  have rng: "bounded_rng R" using assms(1) by (simp add: gen_ok_def)
  have gm: "gen_module (gs_mod s)" using s by (simp add: gen_inv_def)
  obtain e m' g' where e: "wasm_generate_one_simple_expr (oe_binaryen (ge_op E)) (oe_uninit (ge_op E)) R i es (gs_mod s) (gs_rng s)
      = Some (Some e, m', g')" "adds_tables (gs_mod s) m'" "gen_module m'"
      "wt m' (map local_type (gs_locals s)) L e (type_create pro)"
    using bounded_rng.generate_wt [OF rng gm assms(2) cs(2) cs(3) [unfolded wt_in_def, rule_format],
        where B = "oe_binaryen (ge_op E)" and U = "oe_uninit (ge_op E)" and g = "gs_rng s"] cs(1)
    by metis
  let ?s = "s\<lparr> gs_mod := m', gs_rng := g' \<rparr>"
  have "gsimple E R i es s = Some (Some e, ?s)" using e(1) by (simp add: gsimple_def)
  moreover have "typed L (type_create pro) (Some e) ?s" using e(4) by (simp add: wt_in_def)
  ultimately show "\<exists>a s'. gsimple E R i es s = Some (a, s') \<and> gen_inv s' \<and> ext s s' \<and> room s' n \<and>
      num_globals s' \<le> num_globals s + 0 \<and> typed L (type_create pro) a s'"
    using gs_mod_ext [OF s e(2,3)] r by auto
qed

section \<open>Variables\<close>

definition cand_ok :: "('k \<times> btype) set \<Rightarrow> btype \<Rightarrow> 'k \<times> btype \<times> nat option \<Rightarrow> bool" where
  "cand_ok V result c \<longleftrightarrow>
     (case c of (k, t, None) \<Rightarrow> (k, t) \<in> V \<and> t = result
      | (k, t, Some ind) \<Rightarrow> (k, t) \<in> V \<and> type_arity t > 1 \<and> ind < type_arity t \<and> type_expand t ! ind = result)"

lemma runs_value_cands:
  assumes ok: "gen_ok E R" and "set vars \<subseteq> V" and "\<forall>c. sel = Some c \<longrightarrow> cand_ok V result c"
  shows "runs s 0 (value_cands E R result vars sel)
     (\<lambda>r s'. \<exists>sel'. r = Some sel' \<and> (\<forall>c. sel' = Some c \<longrightarrow> cand_ok V result c))"
  using assms(2,3)
proof (induction vars arbitrary: sel s)
  case Nil
  then show ?case by (auto intro!: runs_ret)
next
  case (Cons v vars)
  obtain k t where v: "v = (k, t)" by (cases v)
  note ih = Cons.IH [OF subset_trans [OF set_subset_Cons Cons.prems(1)]]
  have pick: "runs s 0 (gbind (coin_pick R xs sel) (\<lambda>sel'. value_cands E R result vars sel'))
     (\<lambda>r s'. \<exists>sel'. r = Some sel' \<and> (\<forall>c. sel' = Some c \<longrightarrow> cand_ok V result c))" if "\<forall>c \<in> set xs. cand_ok V result c" for xs s
    using that Cons.prems(2) by (intro runs_bind0 [OF runs_coin [OF ok]] ih) auto
  have mem: "(k, t) \<in> V" using Cons.prems(1) v by simp
  show ?case
  proof (cases "type_arity t > 1")
    case True
    have "\<forall>c \<in> set (map (\<lambda>ind. (k, t, Some ind)) (filter (\<lambda>ind. type_expand t ! ind = result) [0..<type_arity t])). cand_ok V result c"
      using True mem by (auto simp: cand_ok_def)
    from pick [OF this] show ?thesis using True by (auto simp: v intro!: runs_bind0 [OF runs_alloc [OF ok]])
  next
    case False
    have "\<forall>c \<in> set [(k, t, None)]. cand_ok V result c" if "t = result" using that mem by (simp add: cand_ok_def)
    from pick [OF this] show ?thesis using False ih [OF Cons.prems(2)] by (auto simp: v)
  qed
qed

lemma wt_in_extract:
  assumes "wt_in s L e t" and "result_type t" and "1 < type_arity t" and "i < type_arity t"
  shows "wt_in s L (TupleExtract e i) (type_expand t ! i)"
proof -
  obtain ts where ts: "list_all value_type ts" "t = type_create ts" using assms(2) by (auto simp: result_type_def)
  then have "t = TypeTuple ts" using assms(3) by (cases ts rule: remdups_adj.cases) (auto simp: type_arity_def)
  moreover have "type_expand t = ts" "type_arity t = length ts" using ts by simp_all
  ultimately show ?thesis using assms(1,4) by (simp add: wt_in_def wt_tuple_extract)
qed

lemma runs_read_variable:
  assumes ok: "gen_ok E R" and ty: "\<And>k t. (k, t) \<in> set vars \<Longrightarrow> result_type t"
    and get: "\<And>k t s'. (k, t) \<in> set vars \<Longrightarrow> ext s s' \<Longrightarrow> wt_in s' L (get k t) t"
  shows "runs s 0 (read_variable E R result get vars) (maybe_typed L result)"
proof (cases "type_arity result > 1")
  case True
  have "runs s 0 (gbind (coin_pick R (filter (\<lambda>(k, t). t = result) vars) None) (\<lambda>sel. gret (map_option (\<lambda>(k, t). get k result) sel)))
      (maybe_typed L result)"
    by (intro runs_bind0 [OF runs_coin [OF ok]] runs_ret) (auto simp: maybe_typed_def intro!: get)
  then show ?thesis using True by (simp add: read_variable_def)
next
  case False
  have "maybe_typed L result (case sel of Some (Some (k, t, Some ind)) \<Rightarrow> Some (TupleExtract (get k t) ind)
      | Some (Some (k, t, None)) \<Rightarrow> Some (get k t) | _ \<Rightarrow> None) s'"
    if "ext s s'" and "\<exists>sel'. sel = Some sel' \<and> (\<forall>c. sel' = Some c \<longrightarrow> cand_ok (set vars) result c)" for sel s'
    using that get ty wt_in_extract by (fastforce simp: cand_ok_def split: option.splits)
  then show ?thesis
    using False unfolding read_variable_def
    by (auto intro!: runs_bind0 [OF runs_value_cands [OF ok, of vars "set vars"]] runs_ret)
qed

lemma local_nth:
  assumes "gen_inv s" and "l \<in> set (gs_locals s)" and "ext s s'"
  shows "local_idx l < length (gs_locals s')" "local_type (gs_locals s' ! local_idx l) = local_type l"
    "result_type (local_type l)" "local_type l \<noteq> TypeNone"
proof -
  obtain i where i: "i < length (gs_locals s)" "l = gs_locals s ! i" using assms(2) by (auto simp: in_set_conv_nth)
  have idx: "map local_idx (gs_locals s) = [0..<length (gs_locals s)]" using assms(1) by (simp add: gen_inv_def locals_ok_def)
  have "map local_idx (gs_locals s) ! i = i" unfolding idx using i(1) by simp
  then have "local_idx l = i" using i by simp
  then show "local_idx l < length (gs_locals s')" "local_type (gs_locals s' ! local_idx l) = local_type l"
    using i assms(3) by (auto simp: ext_def nth_append)
  show "result_type (local_type l)" "local_type l \<noteq> TypeNone"
    using assms(1,2) by (auto simp: gen_inv_def locals_ok_def list_all_iff)
qed

lemma global_in:
  assumes "gen_inv s" and "g \<in> set (m_globals (gs_mod s))" and "ext s s'"
  shows "has_global (gs_mod s') (g_name g) (g_type g) (g_mutable g)" "has_global (gs_mod s') (g_name g) (g_type g) False"
    "result_type (g_type g)"
  using assms has_grows(2) [of "gs_mod s" "gs_mod s'" "g_name g" "g_type g" "g_mutable g"]
  by (auto simp: has_global_def gen_inv_def gen_module_def result_type_def ext_def)

lemma runs_get:
  assumes "gen_ok E R"
  shows "runs s 0 (wasm_generate_one_local_global_get E R result use_local) (maybe_typed L result)"
proof (rule runs_inv)
  assume inv: "gen_inv s"
  have "runs s 0 (read_variable E R result LocalGet (map (\<lambda>l. (local_idx l, local_type l)) (gs_locals s))) (maybe_typed L result)"
    using local_nth [OF inv] local_nth(3) [OF inv _ ext_refl] by (intro runs_read_variable [OF assms]) (auto simp: wt_in_def intro!: wt_local_get)
  moreover have "runs s 0 (read_variable E R result GlobalGet (map (\<lambda>g. (g_name g, g_type g)) (m_globals (gs_mod s)))) (maybe_typed L result)"
    using global_in [OF inv] global_in(3) [OF inv _ ext_refl] by (intro runs_read_variable [OF assms]) (auto simp: wt_in_def intro!: wt_global_get)
  ultimately show "runs s 0 (wasm_generate_one_local_global_get E R result use_local) (maybe_typed L result)"
    unfolding wasm_generate_one_local_global_get_def by (auto intro: runs_glocals runs_gmod)
qed

lemma wt_in_tee:
  assumes "i < length (gs_locals s)" and "local_type (gs_locals s ! i) = t" and "ext s s'" and "wt_in s' L x t"
  shows "wt_in s' L (LocalTee i x t) t" "wt_in s' L (LocalSet i x) TypeNone"
proof -
  have "i < length (gs_locals s')" "local_type (gs_locals s' ! i) = t" using assms(1-3) by (auto simp: ext_def nth_append)
  then show "wt_in s' L (LocalTee i x t) t" "wt_in s' L (LocalSet i x) TypeNone"
    using assms(4) by (auto simp: wt_in_def intro!: wt_local_tee wt_local_set)
qed

lemma runs_tee:
  assumes ok: "gen_ok E R" and rec: "gens_values L rec" and t: "result_type result" "result \<noteq> TypeNone"
  shows "runs s 0 (wasm_generate_one_local_tee E R rec result) (maybe_typed L result)"
proof (rule runs_inv)
  assume inv: "gen_inv s"
  have go: "runs s1 0 (if sel \<noteq> None then gret True else gbind (grand R 2) (\<lambda>r. gret (r \<noteq> 0))) (\<lambda>_ _. True)" for s1 and sel :: "localCxt option"
    by (auto intro!: runs_ret runs_bind0 [OF runs_rand [OF ok]])
  have idx: "runs s1 0 (case sel of Some l \<Rightarrow> gret (local_idx l) | None \<Rightarrow> gnew_local result)
      (\<lambda>i s'. i < length (gs_locals s') \<and> local_type (gs_locals s' ! i) = result)"
    if "ext s s1" and "\<forall>x. sel = Some x \<longrightarrow> x \<in> set (gs_locals s) \<and> local_type x = result" for s1 sel
    using that local_nth [OF inv _ that(1)] by (cases sel) (auto intro!: runs_ret runs_post [OF runs_new_local [OF t]])
  show "runs s 0 (wasm_generate_one_local_tee E R rec result) (maybe_typed L result)"
    unfolding wasm_generate_one_local_tee_def
  proof (rule runs_glocals, rule runs_bind0 [OF runs_coin [OF ok]], rule runs_bind0 [OF go])
    fix sel s1 ok1 s2
    assume 1: "ext s s1" "(sel = None \<longleftrightarrow> None = None \<and> filter (\<lambda>l. local_type l = result) (gs_locals s) = []) \<and>
       (\<forall>x. sel = Some x \<longrightarrow> x \<in> set (filter (\<lambda>l. local_type l = result) (gs_locals s)) \<or> None = Some x)" and 2: "ext s1 s2"
    show "runs s2 0 (if \<not> ok1 then gret None
       else gbind (galloc E) (\<lambda>ok. if \<not> ok then gret None
           else gbind (case sel of Some l \<Rightarrow> gret (local_idx l) | None \<Rightarrow> gnew_local result) (\<lambda>idx.
             gbind (gmap rec (type_expand result)) (\<lambda>es. gbind (gpack es) (\<lambda>v.
             gbind (gneed v) (\<lambda>x. gret (Some (LocalTee idx x result)))))))) (maybe_typed L result)"
    proof (cases ok1)
      case False
      then show ?thesis by (simp add: runs_ret)
    next
      case True
      have "runs s3 0 (gbind (case sel of Some l \<Rightarrow> gret (local_idx l) | None \<Rightarrow> gnew_local result) (\<lambda>idx.
             gbind (gmap rec (type_expand result)) (\<lambda>es. gbind (gpack es) (\<lambda>v.
             gbind (gneed v) (\<lambda>x. gret (Some (LocalTee idx x result))))))) (maybe_typed L result)" if "ext s2 s3" for s3
        using 1 2 that by (intro runs_bind0 [OF idx] runs_values [OF rec t]) (auto intro: ext_trans wt_in_tee)
      then show ?thesis using True by (auto intro!: runs_bind0 [OF runs_alloc [OF ok]])
    qed
  qed
qed

lemma runs_set_known:
  assumes ok: "gen_ok E R" and rec: "gens_values L rec" and t: "result_type t"
    and mk: "\<And>x s'. ext s s' \<Longrightarrow> wt_in s' L x t \<Longrightarrow> wt_in s' L (mk x) TypeNone"
  shows "runs s 0 (set_known E rec t mk) (maybe_typed L TypeNone)"
proof (cases "type_arity t = 0")
  case True
  then show ?thesis by (simp add: set_known_def runs_ret)
next
  case False
  then have ne: "t \<noteq> TypeNone" by auto
  have "runs s1 0 (gbind (gmap rec (type_expand t)) (\<lambda>es. gbind (gpack es) (\<lambda>v. gbind (gneed v) (\<lambda>x. gret (Some (mk x))))))
      (maybe_typed L TypeNone)" if "ext s s1" for s1
    using that by (intro runs_values [OF rec t ne]) (auto intro: ext_trans mk)
  then show ?thesis using False by (auto simp: set_known_def intro!: runs_bind0 [OF runs_alloc [OF ok]])
qed

lemma rand_count:
  fixes r n :: u32
  assumes "r < n" and "n < 100"
  shows "0 < unat (r + 1) \<and> unat (r + 1) < 101"
proof -
  have "unat r < unat n" "unat n < 100" using assms by (simp_all add: word_less_nat_alt)
  then show ?thesis by (simp add: unat_plus1_bounded [of r 100])
qed

lemma runs_types:
  assumes ok: "gen_ok E R"
  shows "runs s 0 (gmap (\<lambda>_. grand_type R) xs) (\<lambda>ts s'. list_all value_type ts \<and> length ts = length xs)"
proof -
  have "runs s 0 (gmap (\<lambda>_. grand_type R) xs) (\<lambda>ts s'. list_all2 (\<lambda>x t. value_type t) xs ts)"
    by (rule runs_gmap) (auto intro: runs_grand_type [OF ok])
  then show ?thesis by (rule runs_post) (auto simp: list_all2_conv_all_nth list_all_length)
qed

lemma result_type_create: "list_all value_type ts \<Longrightarrow> result_type (type_create ts)"
  by (auto simp: result_type_def)

lemma runs_set_new_local:
  assumes ok: "gen_ok E R" and rec: "gens_values L rec"
  shows "runs s 0 (set_new_local E R rec) (maybe_typed L TypeNone)"
proof -
  have val: "runs s1 0 (gbind (gnew_local (type_create types)) (\<lambda>idx. gbind (gmap rec types) (\<lambda>es. gbind (gpack es) (\<lambda>v.
      gbind (gneed v) (\<lambda>x. gret (Some (LocalSet idx x))))))) (maybe_typed L TypeNone)"
    if ts: "list_all value_type types" "types \<noteq> []" for s1 types
  proof -
    have t: "result_type (type_create types)" "type_create types \<noteq> TypeNone" using ts by (simp_all add: result_type_create)
    note v = runs_values [OF rec t, unfolded type_expand_create [OF ts(1)]]
    show ?thesis by (auto intro!: runs_bind0 [OF runs_new_local [OF t]] v intro: wt_in_tee)
  qed
  have n: "r < 3 \<Longrightarrow> unat (r + 1) \<noteq> 0" for r :: u32 using rand_count [of r 3] by simp
  show ?thesis
    unfolding set_new_local_def
    by (intro runs_bind0 [OF runs_rand [OF ok]] runs_bind0 [OF runs_alloc [OF ok]])
       (auto simp: n intro!: runs_bind0 [OF runs_types [OF ok]] runs_bind0 [OF runs_alloc [OF ok]] val)
qed

section \<open>Globals\<close>

lemma dumb_instr_sig:
  assumes "value_type t"
  shows "instr_sig (fst (dumb_instr V R t g)) = Some ([], [t])"
  using assms by (auto simp: dumb_instr_def fill_sig opd_sig_def sig_if_def value_type_def case_prod_unfold Let_def)

lemma runs_init_value:
  assumes ok: "gen_ok E R" and t: "value_type t"
  shows "runs s 0 (init_value E R t) (typed [] t)"
proof -
  have 1: "runs s 0 (\<lambda>s. let (i, g) = dumb_instr (ge_op E) R t (gs_rng s) in Some (i, s\<lparr> gs_rng := g \<rparr>))
      (\<lambda>i s'. instr_sig i = Some ([], [t]))"
    by (intro runs_step [where a = "fst (dumb_instr (ge_op E) R t (gs_rng s))" and
        s' = "s\<lparr> gs_rng := snd (dumb_instr (ge_op E) R t (gs_rng s)) \<rparr>"])
       (simp_all add: dumb_instr_sig [OF t] case_prod_unfold Let_def)
  show ?thesis
    unfolding init_value_def
    using runs_simple [OF ok, of _ "[]" "[t]" "[]" "[]"] by (intro runs_bind0 [OF 1]) (simp add: all_typed_def)
qed

lemma nat_string_eq: "nat_string i = nat_string j \<longleftrightarrow> i = j"
  by (metis digits_value_nat_string)

lemma runs_add_global:
  assumes t: "result_type t" and nm: "nm = nat_string (num_globals s)"
  shows "runs s 1 (gadd_global nm t init) (\<lambda>_ s'. has_global (gs_mod s') nm t True)"
  unfolding runs_def
proof (intro impI allI)
  fix n assume i: "gen_inv s" and r: "room s (1 + n)"
  let ?g = "\<lparr> g_name = nm, g_type = t, g_mutable = True, g_init = init \<rparr>"
  let ?m = "(gs_mod s)\<lparr> m_globals := m_globals (gs_mod s) @ [?g] \<rparr>"
  let ?s = "s\<lparr> gs_mod := ?m \<rparr>"
  have "nm \<notin> set (map g_name (m_globals (gs_mod s)))" using i nm by (simp add: gen_inv_def)
  then have f: "gadd_global nm t init s = Some ((), ?s)" by (simp add: gadd_global_def)
  have "gen_module ?m" using i t by (auto simp: gen_inv_def gen_module_def table_room_def result_type_def)
  moreover have "\<forall>j \<ge> num_globals ?s. nat_string j \<notin> set (map g_name (m_globals ?m))"
    using i nm by (auto simp: gen_inv_def nat_string_eq)
  ultimately have "gen_inv ?s" using i unfolding gen_inv_def by simp
  moreover have "ext s ?s" "room ?s n" "num_globals ?s \<le> num_globals s + 1" "has_global (gs_mod ?s) nm t True"
    using r by (simp_all add: ext_def grows_def room_def has_global_def)
  ultimately show "\<exists>a s'. gadd_global nm t init s = Some (a, s') \<and> gen_inv s' \<and> ext s s' \<and> room s' n \<and>
      num_globals s' \<le> num_globals s + 1 \<and> has_global (gs_mod s') nm t True"
    using f by blast
qed

definition init_ok :: "(string \<times> btype) list \<Rightarrow> btype \<times> bexpr option \<times> bexpr option \<Rightarrow> 'g gen_state \<Rightarrow> bool" where
  "init_ok L tei s \<longleftrightarrow> (case tei of (t, e, i) \<Rightarrow> value_type t \<and> typed L t e s \<and> typed [] t i s)"

lemma init_ok_ext: "init_ok L y s \<Longrightarrow> ext s s' \<Longrightarrow> init_ok L y s'"
  by (auto simp: init_ok_def intro: typed_ext split: prod.splits)

lemma runs_init:
  assumes ok: "gen_ok E R" and rec: "gens_values L rec"
  shows "runs s 0 (gbind (grand_type R) (\<lambda>t. gbind (rec t) (\<lambda>e. gbind (init_value E R t) (\<lambda>i. gret (t, e, i)))))
     (init_ok L)"
proof -
  have r: "runs s 0 (rec t) (typed L t)" if "value_type t" for s t using rec that by (simp add: gens_values_def)
  show ?thesis
    by (auto intro!: runs_bind0 [OF runs_grand_type [OF ok]] runs_bind0 [OF r] runs_bind0 [OF runs_init_value [OF ok]] runs_ret
        simp: init_ok_def intro: typed_ext)
qed

lemma init_all_typed:
  assumes "list_all (\<lambda>y. init_ok L y s) tei"
  shows "all_typed L (map fst tei) (map (fst \<circ> snd) tei) s" "all_typed [] (map fst tei) (map (snd \<circ> snd) tei) s"
    "list_all value_type (map fst tei)"
  using assms by (auto simp: all_typed_def list_all2_conv_all_nth list_all_length init_ok_def case_prod_unfold)

lemma wt_in_global_set: "has_global (gs_mod s) nm t True \<Longrightarrow> wt_in s L x t \<Longrightarrow> wt_in s L (GlobalSet nm x) TypeNone"
  by (auto simp: wt_in_def intro!: wt_global_set)

lemma runs_set_new_global:
  assumes ok: "gen_ok E R" and rec: "gens_values L rec"
  shows "runs s 1 (set_new_global E R rec) (maybe_typed L TypeNone)"
proof -
  let ?nm = "nat_string (num_globals s)"
  have n: "r < 3 \<Longrightarrow> unat (r + 1) \<noteq> 0" for r :: u32 using rand_count [of r 3] by simp
  have inits: "runs s1 0 (gmap (\<lambda>_. gbind (grand_type R) (\<lambda>t. gbind (rec t) (\<lambda>e. gbind (init_value E R t) (\<lambda>i. gret (t, e, i))))) xs)
     (\<lambda>tei s'. list_all (\<lambda>y. init_ok L y s') tei \<and> length tei = length xs)" for s1 and xs :: "nat list"
    by (rule runs_post [OF runs_gmap [where P = "\<lambda>_. init_ok L", OF runs_init [OF ok rec]]])
       (auto simp: list_all2_conv_all_nth list_all_length intro: init_ok_ext)
  have rest: "runs s1 1 (gbind (gpack (map (fst \<circ> snd) tei)) (\<lambda>v. gbind (gpack (map (snd \<circ> snd) tei)) (\<lambda>init.
       gbind (gneed init) (\<lambda>i. gbind (gadd_global ?nm (type_create (map fst tei)) i) (\<lambda>_.
       gbind (gneed v) (\<lambda>x. gret (Some (GlobalSet ?nm x)))))))) (maybe_typed L TypeNone)"
    if tei: "list_all (\<lambda>y. init_ok L y s1) tei" "tei \<noteq> []" and same: "m_globals (gs_mod s1) = m_globals (gs_mod s)" for s1 tei
  proof (rule runs_bind0 [OF runs_same_globals [OF runs_pack [OF init_all_typed(1) [OF tei(1)]]]])
    fix v s2 assume 2: "ext s1 s2" "m_globals (gs_mod s2) = m_globals (gs_mod s1) \<and> typed L (type_create (map fst tei)) v s2"
    have tei2: "list_all (\<lambda>y. init_ok L y s2) tei"
      using tei(1) 2(1) by (auto simp: list_all_iff intro: init_ok_ext)
    have t: "result_type (type_create (map fst tei))" using init_all_typed(3) [OF tei2] by (rule result_type_create)
    obtain x where x: "v = Some x" "wt_in s2 L x (type_create (map fst tei))" using 2(2) by (auto simp: typed_def)
    show "runs s2 1 (gbind (gpack (map (snd \<circ> snd) tei)) (\<lambda>init. gbind (gneed init) (\<lambda>i.
       gbind (gadd_global ?nm (type_create (map fst tei)) i) (\<lambda>_. gbind (gneed v) (\<lambda>x. gret (Some (GlobalSet ?nm x)))))))
       (maybe_typed L TypeNone)"
    proof (rule runs_bind0 [OF runs_same_globals [OF runs_pack [OF init_all_typed(2) [OF tei2]]]])
      fix init s3 assume 3: "ext s2 s3" "m_globals (gs_mod s3) = m_globals (gs_mod s2) \<and> typed [] (type_create (map fst tei)) init s3"
      then obtain i where i: "init = Some i" by (auto simp: typed_def)
      have nm: "?nm = nat_string (num_globals s3)" using same 2(2) 3(2) by simp
      have "runs s3 1 (gbind (gadd_global ?nm (type_create (map fst tei)) i) (\<lambda>_. gret (Some (GlobalSet ?nm x)))) (maybe_typed L TypeNone)"
        by (rule runs_bind_ret [OF runs_add_global [OF t nm]], rule runs_ret)
           (use x 3(1) in \<open>auto intro!: wt_in_global_set intro: wt_in_ext ext_trans\<close>)
      then show "runs s3 1 (gbind (gneed init) (\<lambda>i. gbind (gadd_global ?nm (type_create (map fst tei)) i) (\<lambda>_.
          gbind (gneed v) (\<lambda>x. gret (Some (GlobalSet ?nm x)))))) (maybe_typed L TypeNone)"
        by (simp add: i x(1) gneed_def gbind_def gret_def)
    qed (use tei in simp)
  qed (use tei in simp)
  show ?thesis
    unfolding set_new_global_def
    by (intro runs_gmod runs_bind0 [OF runs_same_globals [OF runs_rand [OF ok]]] runs_bind0 [OF runs_same_globals [OF runs_alloc [OF ok]]])
       (auto simp: n simp del: One_nat_def intro!: runs_bind0 [OF runs_same_globals [OF inits]] rest)
qed

text \<open>The search for a mutable global ends, because every global is drawn sooner or later.\<close>

lemma pick_mutable_draw:
  assumes rng: "bounded_rng R" and len: "length globals < 2 ^ 32" and k: "k < length globals" "g_mutable (globals ! k)"
    and draw: "fst (ro_rand_below R (((\<lambda>g. snd (ro_rand_below R g (of_nat (length globals)))) ^^ j) (gs_rng s)) (of_nat (length globals))) = of_nat k"
  shows "\<exists>i g. i < length globals \<and> g_mutable (globals ! i) \<and> pick_mutable R globals s = Some (globals ! i, s\<lparr> gs_rng := g \<rparr>)"
  using draw
proof (induction j arbitrary: s)
  case (0 s)
  have "unat (of_nat k :: u32) = k" using k(1) len by (simp add: unat_of_nat)
  then show ?case
    using 0 k by (subst pick_mutable.simps) (auto simp: case_prod_unfold Let_def)
next
  case (Suc j s)
  obtain r g where rg: "ro_rand_below R (gs_rng s) (of_nat (length globals)) = (r, g)" by fastforce
  have r: "unat r < length globals"
    using bounded_rng.index_bound [OF rng _ len, of "gs_rng s"] k(1) rg by (metis fst_conv length_0_conv less_nat_zero_code)
  show ?case
  proof (cases "g_mutable (globals ! unat r)")
    case True
    then show ?thesis using r rg by (subst pick_mutable.simps) auto
  next
    case False
    have "fst (ro_rand_below R (((\<lambda>g. snd (ro_rand_below R g (of_nat (length globals)))) ^^ j) (gs_rng (s\<lparr> gs_rng := g \<rparr>))) (of_nat (length globals))) = of_nat k"
      using Suc.prems rg by (simp add: funpow_Suc_right del: funpow.simps(2))
    from Suc.IH [OF this] show ?thesis using False r rg by (subst pick_mutable.simps) auto
  qed
qed

lemma runs_pick_mutable:
  assumes ok: "gen_ok E R" and ex: "list_ex g_mutable globals" and len: "length globals < 2 ^ 32"
  shows "runs s 0 (pick_mutable R globals) (\<lambda>g s'. g \<in> set globals \<and> g_mutable g)"
proof -
  have rng: "bounded_rng R" and all: "draws_all R" using ok by (simp_all add: gen_ok_def)
  obtain k where k: "k < length globals" "g_mutable (globals ! k)" using ex by (auto simp: list_ex_length)
  have "(of_nat k :: u32) < of_nat (length globals)" using k(1) len by (simp add: word_less_nat_alt unat_of_nat)
  then obtain j where "fst (ro_rand_below R (((\<lambda>g. snd (ro_rand_below R g (of_nat (length globals)))) ^^ j) (gs_rng s)) (of_nat (length globals))) = of_nat k"
    using all unfolding draws_all_def by blast
  from pick_mutable_draw [OF rng len k this] obtain i g where
    p: "i < length globals" "g_mutable (globals ! i)" "pick_mutable R globals s = Some (globals ! i, s\<lparr> gs_rng := g \<rparr>)" by blast
  show ?thesis by (rule runs_step [where a = "globals ! i" and s' = "s\<lparr> gs_rng := g \<rparr>"]) (use p in simp_all)
qed

lemma runs_set:
  assumes ok: "gen_ok E R" and rec: "gens_values L rec"
  shows "runs s 1 (wasm_generate_one_local_global_set E R rec use_local) (maybe_typed L TypeNone)"
proof (rule runs_inv, cases use_local)
  assume inv: "gen_inv s" and use_local
  have fresh: "runs s1 0 (if b then gret True else gbind (grand R 5) (\<lambda>r. gret (r = 0))) (\<lambda>_ _. True)" for s1 b
    by (auto intro!: runs_ret runs_bind0 [OF runs_rand [OF ok]])
  have known: "runs s2 0 (set_known E rec (local_type l) (LocalSet (local_idx l))) (maybe_typed L TypeNone)"
    if "ext s s2" and "l \<in> set (gs_locals s)" for s2 l
    using local_nth [OF inv that(2) that(1)] by (intro runs_set_known [OF ok rec]) (auto intro: wt_in_tee)
  have "runs s 0 (wasm_generate_one_local_global_set E R rec True) (maybe_typed L TypeNone)"
    unfolding wasm_generate_one_local_global_set_def
    by (auto intro!: runs_glocals runs_bind0 [OF fresh] runs_set_new_local [OF ok rec] runs_bind0 [OF runs_coin [OF ok]] known runs_ret
        split: option.splits) (metis ext_trans)
  then show "runs s 1 (wasm_generate_one_local_global_set E R rec use_local) (maybe_typed L TypeNone)"
    using \<open>use_local\<close> by (auto intro: runs_cost)
next
  assume inv: "gen_inv s" and "\<not> use_local"
  have fresh: "runs s1 0 (if b then gret True else gbind (grand R 5) (\<lambda>r. gret (r = 0))) (\<lambda>r _. b \<longrightarrow> r)" for s1 b
    by (auto intro!: runs_ret runs_bind0 [OF runs_rand [OF ok]])
  have known: "runs s2 0 (set_known E rec (g_type g) (GlobalSet (g_name g))) (maybe_typed L TypeNone)"
    if "ext s s2" and "g \<in> set (m_globals (gs_mod s))" "g_mutable g" for s2 g
    using global_in [OF inv that(2) ext_trans [OF that(1)]] that(3)
    by (intro runs_set_known [OF ok rec] wt_in_global_set global_in(3) [OF inv that(2,1)]) auto
  have "runs s 1 (wasm_generate_one_local_global_set E R rec False) (maybe_typed L TypeNone)" if len: "num_globals s < 2 ^ 32"
    unfolding wasm_generate_one_local_global_set_def
  proof (simp only: if_False, rule runs_gmod, rule runs_bind0 [OF fresh])
    fix b s1 assume 1: "ext s s1" "\<not> list_ex g_mutable (m_globals (gs_mod s)) \<longrightarrow> b"
    have "runs s1 1 (gbind (pick_mutable R (m_globals (gs_mod s))) (\<lambda>g. set_known E rec (g_type g) (GlobalSet (g_name g))))
        (maybe_typed L TypeNone)" if "list_ex g_mutable (m_globals (gs_mod s))"
      using 1(1) by (intro runs_bind0 [OF runs_pick_mutable [OF ok that len]] runs_cost [OF known]) (auto intro: ext_trans)
    then show "runs s1 1 (if b then set_new_global E R rec
        else gbind (pick_mutable R (m_globals (gs_mod s))) (\<lambda>g. set_known E rec (g_type g) (GlobalSet (g_name g))))
        (maybe_typed L TypeNone)"
      using 1(2) runs_set_new_global [OF ok rec, of s1] by auto
  qed
  moreover have "\<not> room s (1 + n)" if "\<not> num_globals s < 2 ^ 32" for n using that by (simp add: room_def)
  ultimately show "runs s 1 (wasm_generate_one_local_global_set E R rec use_local) (maybe_typed L TypeNone)"
    using \<open>\<not> use_local\<close> by (cases "num_globals s < 2 ^ 32") (simp_all add: runs_def)
qed

section \<open>Calls\<close>

lemma runs_find_matching:
  fixes R :: "'g rand_ops" and s :: "'g gen_state"
  assumes ok: "gen_ok E R" and fs: "\<forall>f \<in> set fs. list_all value_type (f_params f) \<and> list_all value_type (f_results f)"
  shows "runs s 0 (wasm_find_matching_funcs E param result True fs acc)
     (\<lambda>r s'. \<exists>xs. r = acc @ xs \<and> length xs \<le> length fs \<and> set xs \<subseteq> {f \<in> set fs. type_create (f_results f) = result})"
  using fs
proof (induction fs arbitrary: acc s)
  case Nil
  then show ?case by (auto intro!: runs_ret)
next
  case (Cons f fs)
  have simpl: "runs s 0 (gsimplify E (type_create (f_params f))) (\<lambda>u s'. u = type_create (f_params f))"
    "runs s 0 (gsimplify E (type_create (f_results f))) (\<lambda>u s'. u = type_create (f_results f))" for s :: "'g gen_state"
    using Cons.prems by (auto intro!: runs_simplify [OF ok] result_type_create)
  have ih: "runs s 0 (wasm_find_matching_funcs E param result True fs acc)
     (\<lambda>r s'. \<exists>xs. r = acc @ xs \<and> length xs \<le> length fs \<and> set xs \<subseteq> {f \<in> set fs. type_create (f_results f) = result})" for s :: "'g gen_state" and acc
    using Cons.IH Cons.prems by simp
  show ?case
  proof (cases "type_create (f_results f) = result")
    case True
    have "runs s 0 (wasm_find_matching_funcs E param result True fs (acc @ [f]))
      (\<lambda>r s'. \<exists>xs. r = acc @ xs \<and> length xs \<le> length (f # fs) \<and> set xs \<subseteq> {g \<in> set (f # fs). type_create (f_results g) = result})" for s :: "'g gen_state"
      by (rule runs_post [OF ih]) (use True in \<open>fastforce\<close>)
    then show ?thesis
      using True by (auto intro!: runs_bind0 [OF simpl(1)] runs_bind0 [OF simpl(2)] runs_bind0 [OF runs_alloc [OF ok]])
  next
    case False
    have "runs s 0 (wasm_find_matching_funcs E param result True fs acc)
      (\<lambda>r s'. \<exists>xs. r = acc @ xs \<and> length xs \<le> length (f # fs) \<and> set xs \<subseteq> {g \<in> set (f # fs). type_create (f_results g) = result})" for s :: "'g gen_state"
      by (rule runs_post [OF ih]) fastforce
    then show ?thesis
      using False by (auto intro!: runs_bind0 [OF simpl(1)] runs_bind0 [OF simpl(2)])
  qed
qed

lemma wt_in_call:
  assumes "gen_inv s" and "f \<in> set (m_funcs (gs_mod s))" and "ext s s'"
    and "length xs = length (f_params f)" and "\<forall>k < length xs. wt_in s' L (xs ! k) (f_params f ! k)"
  shows "wt_in s' L (Call (f_name f) xs) (type_create (f_results f))"
proof -
  have "has_func (gs_mod s') (f_name f) (f_params f) (f_results f)" using assms(2,3) by (auto simp: has_func_def ext_def)
  then show ?thesis using assms(4,5) by (auto simp: wt_in_def intro!: wt_call)
qed

lemma runs_call:
  assumes ok: "gen_ok E R" and rec: "gens_values L rec"
  shows "runs s 0 (wasm_generate_one_call E R rec result) (maybe_typed L result)"
proof (rule runs_inv)
  assume inv: "gen_inv s"
  then have fs: "\<forall>f \<in> set (m_funcs (gs_mod s)). list_all value_type (f_params f) \<and> list_all value_type (f_results f)"
    and len: "length (m_funcs (gs_mod s)) < 2 ^ 32" by (simp_all add: gen_inv_def gen_module_def)
  define body where "body target =
     (if type_arity (type_create (f_params target)) > 0 then
        gbind (galloc E) (\<lambda>ok. if \<not> ok then gret None
          else gbind (gmap rec (type_expand (type_create (f_params target)))) (\<lambda>es.
               gbind (gmap gneed es) (\<lambda>xs. gret (Some (Call (f_name target) xs)))))
      else gret (Some (Call (f_name target) [])))" for target :: bfunction
  have body: "runs s2 0 (body f) (maybe_typed L (type_create (f_results f)))" if "ext s s2" and f: "f \<in> set (m_funcs (gs_mod s))" for s2 f
  proof -
    have ps: "list_all value_type (f_params f)" using fs f by simp
    have "runs s3 0 (gbind (gmap rec (f_params f)) (\<lambda>es. gbind (gmap gneed es) (\<lambda>xs. gret (Some (Call (f_name f) xs)))))
        (maybe_typed L (type_create (f_results f)))" if "ext s2 s3" for s3
      using \<open>ext s s2\<close> that
      by (auto intro!: runs_bind0 [OF runs_operands [OF rec ps]] runs_bind0 [OF runs_need_all] runs_ret wt_in_call [OF inv f])
         (metis ext_trans)
    then show ?thesis
      using ps wt_in_call [OF inv f \<open>ext s s2\<close>, of "[]" L]
      by (auto simp: body_def intro!: runs_bind0 [OF runs_alloc [OF ok]] runs_ret)
  qed
  show "runs s 0 (wasm_generate_one_call E R rec result) (maybe_typed L result)"
    unfolding wasm_generate_one_call_def Let_def body_def [symmetric]
  proof (rule runs_gmod, rule runs_bind0 [OF runs_find_matching [OF ok fs]])
    fix matched s1
    assume 1: "ext s s1" and m: "\<exists>xs. matched = [] @ xs \<and> length xs \<le> length (m_funcs (gs_mod s)) \<and>
      set xs \<subseteq> {f \<in> set (m_funcs (gs_mod s)). type_create (f_results f) = result}"
    have pick: "runs s1 0 (grand R (of_nat (length matched))) (\<lambda>r s'. matched \<noteq> [] \<longrightarrow> unat r < length matched)"
    proof (rule runs_post [OF runs_rand [OF ok]], rule impI)
      fix r :: u32
      assume r: "0 < (of_nat (length matched) :: u32) \<longrightarrow> r < of_nat (length matched)" "matched \<noteq> []"
      have "unat (of_nat (length matched) :: u32) = length matched" using m len by (auto simp: unat_of_nat)
      then show "unat r < length matched" using r by (simp add: word_less_nat_alt)
    qed
    have sel: "matched ! i \<in> set (m_funcs (gs_mod s))" "type_create (f_results (matched ! i)) = result" if "i < length matched" for i
      using m nth_mem [OF that] by auto
    have "runs s1 0 (gbind (grand R (of_nat (length matched))) (\<lambda>r. body (matched ! unat r))) (maybe_typed L result)" if "matched \<noteq> []"
      by (rule runs_bind0 [OF pick]) (use that sel body 1 in \<open>metis ext_trans\<close>)
    then show "runs s1 0 (if matched = [] then gret None
        else gbind (grand R (of_nat (length matched))) (\<lambda>selected. body (matched ! unat selected))) (maybe_typed L result)"
      by (auto intro!: runs_ret)
  qed
qed

lemma runs_func_table:
  assumes ok: "gen_ok E R"
  shows "runs s 0 (gfunc_table R) (\<lambda>nm s'. has_table (gs_mod s') nm TypeFuncref)"
proof (cases "filter (\<lambda>t. t_type t = TypeFuncref) (m_tables (gs_mod s)) = []")
  case True
  then have no: "TypeFuncref \<notin> set (map t_type (m_tables (gs_mod s)))" by (auto simp: filter_empty_conv)
  let ?r = "add_table TypeFuncref (gs_mod s)"
  have "gfunc_table R s = Some (fst ?r, s\<lparr> gs_mod := snd ?r \<rparr>)"
    using True by (simp add: gfunc_table_def gmod_def gbind_def gret_def case_prod_unfold Let_def)
  moreover have "gen_inv s \<Longrightarrow> gen_inv (s\<lparr> gs_mod := snd ?r \<rparr>)"
    using add_table_room [of "gs_mod s", OF _ no] by (simp add: gen_inv_def gen_module_def add_table_def Let_def)
  moreover have "ext s (s\<lparr> gs_mod := snd ?r \<rparr>)" "has_table (snd ?r) (fst ?r) TypeFuncref"
    "room s n \<Longrightarrow> room (s\<lparr> gs_mod := snd ?r \<rparr>) n" for n
    by (simp_all add: ext_def grows_def has_table_def room_def add_table_def Let_def)
  ultimately show ?thesis
    by (intro runs_step [where a = "fst ?r" and s' = "s\<lparr> gs_mod := snd ?r \<rparr>"]) (simp_all add: add_table_def Let_def)
next
  case False
  have "has_table (gs_mod s1) (t_name t) TypeFuncref" if "ext s s1" "t \<in> set (m_tables (gs_mod s))" "t_type t = TypeFuncref" for t s1
    using that has_grows(1) [of "gs_mod s" "gs_mod s1"] by (auto simp: has_table_def ext_def)
  then show ?thesis
    unfolding gfunc_table_def using False
    by (intro runs_gmod runs_bind0 [OF runs_coin [OF ok]]) (auto split: option.splits intro!: runs_ret)
qed

lemma runs_call_indirect:
  assumes ok: "gen_ok E R" and rec: "gens_values L rec"
  shows "runs s 0 (wasm_generate_one_call_indirect E R rec result) (typed L result)"
proof -
  have r: "runs s 0 (rec t) (typed L t)" if "value_type t" for s t using rec that by (simp add: gens_values_def)
  have i32: "value_type TypeInt32" by (simp add: value_type_def)
  have elem: "runs s 0 (gbind (grand_type R) (\<lambda>t. gbind (rec t) (\<lambda>e. gret (t, e)))) (\<lambda>p s'. value_type (fst p) \<and> typed L (fst p) (snd p) s')" for s
    by (auto intro!: runs_bind0 [OF runs_grand_type [OF ok]] runs_bind0 [OF r] runs_ret)
  have params: "runs s 0 (gmap (\<lambda>_. gbind (grand_type R) (\<lambda>t. gbind (rec t) (\<lambda>e. gret (t, e)))) xs)
     (\<lambda>ps s'. list_all value_type (map fst ps) \<and> all_typed L (map fst ps) (map snd ps) s')" for s and xs :: "nat list"
    by (rule runs_post [OF runs_gmap [where P = "\<lambda>_ p s'. value_type (fst p) \<and> typed L (fst p) (snd p) s'", OF elem]])
       (auto simp: all_typed_def list_all2_conv_all_nth list_all_length intro: typed_ext)
  have node: "wt_in s' L (CallIndirect nm xs x (type_create ts) result) result"
    if "list_all value_type ts" "has_table (gs_mod s1) nm TypeFuncref" "ext s1 s'" "wt_in s' L x TypeInt32"
      "length xs = length ts" "\<forall>k < length xs. wt_in s' L (xs ! k) (ts ! k)" for s' s1 nm xs x ts
    using that has_grows(1) [of "gs_mod s1" "gs_mod s'"] by (auto simp: wt_in_def ext_def intro!: wt_call_indirect)
  have rest: "runs s1 0 (gbind (gfunc_table R) (\<lambda>nm. gbind (rec TypeInt32) (\<lambda>idx. gbind (gneed idx) (\<lambda>x. gbind (gmap gneed (map snd ps)) (\<lambda>xs.
       gret (Some (CallIndirect nm xs x (type_create (map fst ps)) result))))))) (typed L result)"
    if ps: "list_all value_type (map fst ps)" "all_typed L (map fst ps) (map snd ps) s1" for s1 ps
  proof (rule runs_bind0 [OF runs_func_table [OF ok]], rule runs_bind0 [OF r [OF i32]])
    fix nm s2 idx s3
    assume 2: "ext s1 s2" "has_table (gs_mod s2) nm TypeFuncref" "ext s2 s3" "typed L TypeInt32 idx s3"
    then obtain x where x: "idx = Some x" "wt_in s3 L x TypeInt32" by (auto simp: typed_def)
    have "all_typed L (map fst ps) (map snd ps) s3" using ps(2) 2 by (metis all_typed_ext ext_trans)
    then have "runs s3 0 (gbind (gmap gneed (map snd ps)) (\<lambda>xs. gret (Some (CallIndirect nm xs x (type_create (map fst ps)) result)))) (typed L result)"
      using ps(1) 2 x by (intro runs_bind0 [OF runs_need_all] runs_ret) (auto intro!: node [of _ s2] intro: ext_trans wt_in_ext)
    then show "runs s3 0 (gbind (gneed idx) (\<lambda>x. gbind (gmap gneed (map snd ps)) (\<lambda>xs.
       gret (Some (CallIndirect nm xs x (type_create (map fst ps)) result))))) (typed L result)"
      by (simp add: x(1) gneed_def gbind_def gret_def)
  qed
  show ?thesis
    unfolding wasm_generate_one_call_indirect_def
    by (intro runs_bind0 [OF runs_rand [OF ok]] runs_bind0 [OF runs_alloc [OF ok]]) (auto intro!: runs_bind0 [OF params] rest)
qed

section \<open>Branches\<close>

text \<open>The labels a branch can name, with the types the enclosing expressions give them.\<close>

definition labels_ok :: "(string \<times> btype) list \<Rightarrow> labelCxt list \<Rightarrow> bool" where
  "labels_ok L cxt \<longleftrightarrow> (\<forall>l \<in> set cxt. map_of L (label_name l) = Some (label_type l) \<and> result_type (label_type l))"

lemma runs_branch_values:
  assumes ok: "gen_ok E R" and rec: "gens_values L rec" and t: "result_type t"
  shows "runs s 0 (branch_values E rec t) (\<lambda>vs s'. \<exists>es. vs = Some es \<and> all_typed L (type_expand t) es s')"
proof -
  obtain ts where ts: "list_all value_type ts" "t = type_create ts" using t by (auto simp: result_type_def)
  have "runs s 0 (gbind (gmap rec ts) (\<lambda>es. gret (Some es))) (\<lambda>vs s'. \<exists>es. vs = Some es \<and> all_typed L ts es s')" for s
    by (auto intro!: runs_bind0 [OF runs_operands [OF rec ts(1)]] runs_ret)
  then show ?thesis
    using ts by (auto simp: branch_values_def all_typed_def intro!: runs_bind0 [OF runs_alloc [OF ok]] runs_ret)
qed

definition operand_ok :: "(string \<times> btype) list \<Rightarrow> btype \<Rightarrow> bexpr option \<Rightarrow> 'g gen_state \<Rightarrow> bool" where
  "operand_ok L t v s \<longleftrightarrow> (v = None \<longleftrightarrow> t = TypeNone) \<and> maybe_typed L t v s"

lemma runs_branch_operand:
  assumes t: "result_type t" and es: "all_typed L (type_expand t) es s"
  shows "runs s 0 (branch_operand es) (operand_ok L t)"
proof -
  obtain ts where ts: "list_all value_type ts" "t = type_create ts" using t by (auto simp: result_type_def)
  then have ex: "type_expand t = ts" and em: "es = [] \<longleftrightarrow> ts = []" using es by (auto simp: all_typed_def)
  show ?thesis
  proof (cases "ts = []")
    case True
    then show ?thesis using em ts by (auto simp: branch_operand_def operand_ok_def intro!: runs_ret)
  next
    case False
    then have "runs s 0 (gpack es) (operand_ok L t)"
      using ts es ex by (intro runs_post [OF runs_pack [of L ts]]) (auto simp: operand_ok_def typed_def)
    then show ?thesis using em False by (simp add: branch_operand_def)
  qed
qed

lemma runs_select_labels:
  assumes ok: "gen_ok E R"
  shows "runs s 0 (select_labels E R t cxt acc) (\<lambda>r s'. set r \<subseteq> set acc \<union> label_name ` {l \<in> set cxt. label_type l = t})"
proof (induction cxt arbitrary: acc s)
  case Nil
  then show ?case by (auto intro!: runs_ret)
next
  case (Cons l cxt)
  have 1: "runs s 0 (select_labels E R t cxt acc) (\<lambda>r s'. set r \<subseteq> set acc \<union> label_name ` {l' \<in> set (l # cxt). label_type l' = t})" for s acc
    by (rule runs_post [OF Cons.IH]) auto
  have 2: "runs s 0 (select_labels E R t cxt (acc @ [label_name l])) (\<lambda>r s'. set r \<subseteq> set acc \<union> label_name ` {l' \<in> set (l # cxt). label_type l' = t})"
    if "label_type l = t" for s acc
    by (rule runs_post [OF Cons.IH]) (use that in auto)
  show ?case
    using 1 2 by (auto intro!: runs_bind0 [OF runs_rand [OF ok]] runs_bind0 [OF runs_alloc [OF ok]])
qed

lemma wt_in_br:
  assumes "map_of L nm = Some t" and "operand_ok L t v s"
  shows "wt_in s L (Break nm v None) u" "wt_in s L c TypeInt32 \<Longrightarrow> wt_in s L (Break nm v (Some c)) t"
    "list_all (\<lambda>n. map_of L n = Some t) ns \<Longrightarrow> wt_in s L c TypeInt32 \<Longrightarrow> wt_in s L (Switch ns nm v c) u"
  using assms by (auto simp: operand_ok_def maybe_typed_def wt_in_def intro!: wt_br wt_br_if wt_br_table)

lemma operand_ok_ext: "operand_ok L t v s \<Longrightarrow> ext s s' \<Longrightarrow> operand_ok L t v s'"
  by (auto simp: operand_ok_def maybe_typed_def intro: wt_in_ext)

lemma gbind_need: "gbind (gneed (Some x)) k = k x"
  by (simp add: gbind_def gneed_def gret_def)

text \<open>The part the branches share: the values, the condition, and the operand.\<close>

lemma runs_cond_operand:
  assumes ok: "gen_ok E R" and rec: "gens_values L rec" and t: "result_type t"
    and k: "\<And>v c s'. ext s s' \<Longrightarrow> operand_ok L t v s' \<Longrightarrow> wt_in s' L c TypeInt32 \<Longrightarrow> runs s' 0 (k v (Some c)) Q"
  shows "runs s 0 (gbind (branch_values E rec t) (\<lambda>vs. case vs of None \<Rightarrow> gret None
     | Some es \<Rightarrow> gbind (rec TypeInt32) (\<lambda>cond. gbind (branch_operand es) (\<lambda>v. k v cond)))) Q"
proof (rule runs_bind0 [OF runs_branch_values [OF ok rec t]])
  fix vs s1 assume 1: "ext s s1" "\<exists>es. vs = Some es \<and> all_typed L (type_expand t) es s1"
  then obtain es where es: "vs = Some es" "all_typed L (type_expand t) es s1" by blast
  have i32: "runs s1 0 (rec TypeInt32) (typed L TypeInt32)" using rec by (simp add: gens_values_def value_type_def)
  have "runs s1 0 (gbind (rec TypeInt32) (\<lambda>cond. gbind (branch_operand es) (\<lambda>v. k v cond))) Q"
  proof (rule runs_bind0 [OF i32])
    fix cond s2 assume 2: "ext s1 s2" "typed L TypeInt32 cond s2"
    then obtain c where c: "cond = Some c" "wt_in s2 L c TypeInt32" by (auto simp: typed_def)
    show "runs s2 0 (gbind (branch_operand es) (\<lambda>v. k v cond)) Q"
      unfolding c(1)
      by (rule runs_bind0 [OF runs_branch_operand [OF t all_typed_ext [OF es(2) 2(1)]]], rule k)
         (use 1(1) 2(1) c(2) in \<open>auto intro: ext_trans wt_in_ext\<close>)
  qed
  then show "runs s1 0 (case vs of None \<Rightarrow> gret None
     | Some es \<Rightarrow> gbind (rec TypeInt32) (\<lambda>cond. gbind (branch_operand es) (\<lambda>v. k v cond))) Q"
    by (simp add: es(1))
qed

lemma runs_control_transfer:
  assumes ok: "gen_ok E R" and rec: "gens_values L rec" and L: "labels_ok L cxt"
  shows "runs s 0 (wasm_generate_one_control_transfer E R rec cxt result) (maybe_typed L result)"
proof -
  have lab: "map_of L (label_name l) = Some (label_type l)" "result_type (label_type l)" if "l \<in> set cxt" for l
    using L that by (auto simp: labels_ok_def)
  have br: "runs s1 0 (gen_br E R rec cxt) (maybe_typed L result)" for s1
  proof -
    have "runs s2 0 (gbind (branch_values E rec (label_type l)) (\<lambda>vs. case vs of None \<Rightarrow> gret None
        | Some es \<Rightarrow> gbind (branch_operand es) (\<lambda>v. gret (Some (Break (label_name l) v None))))) (maybe_typed L result)"
      if "l \<in> set cxt" for l s2
      using lab [OF that]
      by (auto intro!: runs_bind0 [OF runs_branch_values [OF ok rec]] runs_bind0 [OF runs_branch_operand] runs_ret wt_in_br(1))
    then show ?thesis
      unfolding gen_br_def by (intro runs_bind0 [OF runs_coin [OF ok]]) (auto split: option.splits intro!: runs_ret)
  qed
  have br_if: "runs s1 0 (gen_br_if E R rec cxt result) (maybe_typed L result)" for s1
  proof -
    have "runs s2 0 (gbind (branch_values E rec result) (\<lambda>vs. case vs of None \<Rightarrow> gret None
        | Some es \<Rightarrow> gbind (rec TypeInt32) (\<lambda>cond. gbind (branch_operand es) (\<lambda>v. gret (Some (Break (label_name l) v cond))))))
        (maybe_typed L result)" if "l \<in> set cxt" "label_type l = result" for l s2
      using lab [OF that(1)] that(2) by (auto intro!: runs_cond_operand [OF ok rec] runs_ret wt_in_br(2))
    then show ?thesis
      unfolding gen_br_if_def by (intro runs_bind0 [OF runs_coin [OF ok]]) (auto split: option.splits intro!: runs_ret)
  qed
  have br_table: "runs s1 0 (gen_br_table E R rec cxt) (maybe_typed L result)" for s1
  proof -
    have targets: "list_all (\<lambda>n. map_of L n = Some (label_type l)) ns" if "set ns \<subseteq> label_name ` {l' \<in> set cxt. label_type l' = label_type l}" for ns l
      using that lab(1) by (fastforce simp: list_all_iff)
    have "runs s2 0 (gbind (select_labels E R (label_type l) cxt []) (\<lambda>targets. gbind (branch_values E rec (label_type l)) (\<lambda>vs.
        case vs of None \<Rightarrow> gret None | Some es \<Rightarrow> gbind (rec TypeInt32) (\<lambda>cond. gbind (branch_operand es) (\<lambda>v.
          gbind (gneed cond) (\<lambda>c. gret (Some (Switch targets (label_name l) v c)))))))) (maybe_typed L result)"
      if "l \<in> set cxt" for l s2
      using lab [OF that] targets [of _ l]
      by (intro runs_bind0 [OF runs_select_labels [OF ok]] runs_cond_operand [OF ok rec])
         (auto simp: gbind_need intro!: runs_ret wt_in_br(3))
    then show ?thesis
      unfolding gen_br_table_def by (intro runs_bind0 [OF runs_coin [OF ok]]) (auto split: option.splits intro!: runs_ret)
  qed
  show ?thesis
    unfolding wasm_generate_one_control_transfer_def
    by (intro runs_bind0 [OF runs_rand [OF ok]]) (auto intro!: br br_if br_table runs_ret simp: wt_in_def wt_unreachable)
qed

section \<open>Plain sequences\<close>

text \<open>What the searches need of the instruction table.\<close>

lemma grps_gen:
  "list_all (\<lambda>g. list_all value_type (required g) \<and> groups g \<noteq> [] \<and> length (groups g) < 1000) (wasm_init_instr_grps c)"
  by (simp add: grps_defs value_type_def)

lemma grps_leaves:
  "list_all (\<lambda>ts. list_ex (\<lambda>g. required g = [] \<and> produced g = ts) (wasm_init_instr_grps c))
     ([] # map (\<lambda>t. [t]) (num_types @ ref_types))"
  by (simp add: grps_defs)

lemma grps_leaf:
  assumes "value_type t \<and> ts = [t] \<or> ts = []"
  shows "\<exists>g \<in> set (wasm_init_instr_grps c). required g = [] \<and> produced g = ts"
  using grps_leaves [of c] assms unfolding list_ex_iff value_type_def list_all_iff by auto

lemma runs_pick_group:
  assumes ok: "gen_ok E R" and ts: "list_all value_type ts" "length ts \<le> 1" and P: "\<And>g. required g = [] \<Longrightarrow> P g"
  shows "runs s 0 (pick_group E R P (type_create ts))
     (\<lambda>sel s'. \<exists>g. sel = Some g \<and> g \<in> set (ge_grps E) \<and> P g \<and> produced g = ts)"
proof -
  let ?m = "\<lambda>g. P g \<and> length (produced g) = type_arity (type_create ts) \<and>
    (type_arity (type_create ts) \<noteq> 0 \<longrightarrow> produced g ! 0 = type_create ts)"
  have m: "?m g \<longleftrightarrow> P g \<and> produced g = ts" for g
    using ts by (cases ts; cases "produced g") (auto simp: type_arity_def)
  obtain g where "g \<in> set (ge_grps E)" "required g = []" "produced g = ts"
    using grps_leaf [of "hd ts" ts "oe_codes (ge_op E)"] ts by (cases ts) auto
  then have ne: "filter ?m (ge_grps E) \<noteq> []" using m P by (auto simp: filter_empty_conv)
  show ?thesis
    unfolding pick_group_def using ne m by (intro runs_post [OF runs_coin [OF ok]]) auto
qed

lemma runs_member:
  assumes ok: "gen_ok E R" and g: "g \<in> set (ge_grps E)"
  shows "runs s 0 (grand R (of_nat (length (groups g)))) (\<lambda>k s'. instr_sig (groups g ! unat k) = Some (required g, produced g))"
proof (rule runs_post [OF runs_rand [OF ok]])
  fix k :: u32
  assume k: "0 < (of_nat (length (groups g)) :: u32) \<longrightarrow> k < of_nat (length (groups g))"
  have "groups g \<noteq> []" "length (groups g) < 1000" using grps_gen [of "oe_codes (ge_op E)"] g by (auto simp: list_all_iff)
  moreover from this have "unat (of_nat (length (groups g)) :: u32) = length (groups g)" by (simp add: unat_of_nat)
  ultimately have "unat k < length (groups g)" using k by (simp add: word_less_nat_alt)
  then show "instr_sig (groups g ! unat k) = Some (required g, produced g)"
    using group_facts(1) [OF g] by simp
qed

lemma runs_leaf_instr:
  assumes ok: "gen_ok E R" and g: "g \<in> set (ge_grps E)" "required g = []"
  shows "runs s 0 (gbind (grand R (of_nat (length (groups g)))) (\<lambda>k. gsimple E R (groups g ! unat k) [])) (typed L (type_create (produced g)))"
  using g by (intro runs_bind0 [OF runs_member [OF ok g(1)]] runs_simple [OF ok]) (auto simp: all_typed_def)

lemma runs_leaf:
  assumes ok: "gen_ok E R" and ts: "list_all value_type ts" "length ts \<le> 1"
  shows "runs s 0 (gen_leaf E R (type_create ts)) (typed L (type_create ts))"
proof -
  have instr: "runs s 0 (gbind (pick_group E R (\<lambda>g. required g = []) (type_create ts)) (\<lambda>sel. case sel of None \<Rightarrow> gret None
     | Some g \<Rightarrow> gbind (grand R (of_nat (length (groups g)))) (\<lambda>k. gsimple E R (groups g ! unat k) []))) (typed L (type_create ts))" for s
    using runs_leaf_instr [OF ok] by (intro runs_bind0 [OF runs_pick_group [OF ok ts]]) auto
  have var: "runs s 0 (if type_arity (type_create ts) \<ge> 1 then gbind (grand R 2) (\<lambda>r. if r \<noteq> 0
       then gbind (grand R 2) (\<lambda>u. wasm_generate_one_local_global_get E R (type_create ts) (u \<noteq> 0)) else gret None)
     else gret None) (maybe_typed L (type_create ts))"
    by (auto intro!: runs_bind0 [OF runs_rand [OF ok]] runs_get [OF ok] runs_ret)
  show ?thesis
    unfolding gen_leaf_def by (rule runs_bind0 [OF var]) (auto split: option.splits intro!: runs_ret instr)
qed

lemma runs_tree:
  assumes ok: "gen_ok E R" and rec: "gens_values L rec" and t: "result_type t"
  shows "runs s 0 (gen_tree E R rec t) (typed L t)"
proof -
  obtain ts where ts: "list_all value_type ts" "t = type_create ts" using t by (auto simp: result_type_def)
  show ?thesis
  proof (cases "length ts \<ge> 2")
    case True
    have "runs s 0 (gbind (gmap rec ts) (\<lambda>es. gbind (gmap gneed es) (\<lambda>xs. gret (Some (TupleMake xs))))) (typed L t)" for s
      using ts True
      by (auto intro!: runs_bind0 [OF runs_operands [OF rec ts(1)]] runs_bind0 [OF runs_need_all] runs_ret wt_in_tuple)
    then show ?thesis using ts True by (auto simp: gen_tree_def intro!: runs_bind0 [OF runs_alloc [OF ok]])
  next
    case False
    then have len: "length ts \<le> 1" by simp
    have op: "runs s 0 (gbind (gmap rec (required g)) (\<lambda>child. gsimple E R i child)) (typed L (type_create (produced g)))"
      if "g \<in> set (ge_grps E)" "instr_sig i = Some (required g, produced g)" for s g i
    proof -
      have "list_all value_type (required g)" using grps_gen [of "oe_codes (ge_op E)"] that(1) by (auto simp: list_all_iff)
      then show ?thesis by (intro runs_bind0 [OF runs_operands [OF rec]] runs_simple [OF ok that(2)])
    qed
    have all: "runs s 0 (gsimple E R i []) (typed L (type_create (produced g)))"
      if "required g = []" "instr_sig i = Some (required g, produced g)" for s g i
      using runs_simple [OF ok that(2), of L "[]"] that(1) by (simp add: all_typed_def)
    have "runs s 0 (gbind (pick_group E R (\<lambda>g. True) (type_create ts)) (\<lambda>sel. case sel of None \<Rightarrow> gret None
        | Some g \<Rightarrow> gbind (grand R (of_nat (length (groups g)))) (\<lambda>k.
            if required g \<noteq> [] then gbind (galloc E) (\<lambda>ok. if \<not> ok then gret None
              else gbind (gmap rec (required g)) (\<lambda>child. gsimple E R (groups g ! unat k) child))
            else gsimple E R (groups g ! unat k) []))) (typed L (type_create ts))"
      by (rule runs_bind0 [OF runs_pick_group [OF ok ts(1) len]])
         (auto intro!: runs_bind0 [OF runs_member [OF ok]] runs_bind0 [OF runs_alloc [OF ok]] op all)
    then show ?thesis using ts False by (simp add: gen_tree_def)
  qed
qed

lemma runs_try:
  assumes ok: "gen_ok E R" and act: "\<And>s. runs s k1 act (maybe_typed L t)" and k: "\<And>s. runs s k2 k (typed L t)"
  shows "runs s (k1 + k2) (gtry R n act k) (typed L t)"
proof -
  have "runs s (k1 + k2) (gbind act (\<lambda>e. case e of Some x \<Rightarrow> gret (Some x) | None \<Rightarrow> k)) (typed L t)" for s
    by (rule runs_bind [OF act]) (auto split: option.splits intro!: k intro: runs_cost [OF runs_ret])
  moreover have "runs s (k1 + k2) k (typed L t)" for s by (rule runs_cost [OF k]) simp
  ultimately show ?thesis
    unfolding gtry_def by (auto intro!: runs_bind0 [OF runs_rand [OF ok]])
qed

text \<open>One node: the only cost is a new global, for an expression without a value.\<close>

lemma runs_node:
  assumes ok: "gen_ok E R" and rec: "gens_values L rec" and L: "labels_ok L cxt" and t: "result_type t"
  shows "runs s (if t = TypeNone then 1 else 0) (gen_node E R rec cxt t) (typed L t)"
proof -
  note free_try = runs_try [where ?k1.0 = 0, simplified, OF ok]
  have get: "runs s 0 (gbind (grand R 2) (\<lambda>u. wasm_generate_one_local_global_get E R t (u \<noteq> 0))) (maybe_typed L t)" for s
    by (intro runs_bind0 [OF runs_rand [OF ok]] runs_get [OF ok])
  have set: "runs s 1 (gbind (grand R 2) (\<lambda>u. wasm_generate_one_local_global_set E R rec (u \<noteq> 0))) (maybe_typed L TypeNone)" for s
    by (intro runs_bind0 [OF runs_rand [OF ok]] runs_set [OF ok rec])
  have none: "type_arity t \<ge> 1 \<longleftrightarrow> t \<noteq> TypeNone" using t by (auto simp: result_type_def Suc_le_eq)
  have "runs s (if t = TypeNone then 1 else 0)
      (if type_arity t \<ge> 1 then
         gtry R 5 (gbind (grand R 2) (\<lambda>u. wasm_generate_one_local_global_get E R t (u \<noteq> 0)))
           (gtry R 5 (wasm_generate_one_local_tee E R rec t) (gen_tree E R rec t))
       else gtry R 5 (gbind (grand R 2) (\<lambda>u. wasm_generate_one_local_global_set E R rec (u \<noteq> 0))) (gen_tree E R rec t)) (typed L t)" for s
  proof (cases "t = TypeNone")
    case True
    then show ?thesis
      using none runs_try [where ?k2.0 = 0, OF ok set runs_tree [OF ok rec t, unfolded True]] by simp
  next
    case False
    then show ?thesis
      using none by (simp add: free_try [OF get free_try [OF runs_tee [OF ok rec t False] runs_tree [OF ok rec t]]])
  qed
  then have "runs s (if t = TypeNone then 1 else 0) (gtry R 8 (wasm_generate_one_control_transfer E R rec cxt t)
      (if type_arity t \<ge> 1 then
         gtry R 5 (gbind (grand R 2) (\<lambda>u. wasm_generate_one_local_global_get E R t (u \<noteq> 0)))
           (gtry R 5 (wasm_generate_one_local_tee E R rec t) (gen_tree E R rec t))
       else gtry R 5 (gbind (grand R 2) (\<lambda>u. wasm_generate_one_local_global_set E R rec (u \<noteq> 0))) (gen_tree E R rec t))) (typed L t)" for s
    by (rule free_try [OF runs_control_transfer [OF ok rec L]])
  then show ?thesis
    unfolding gen_node_def
    by (intro free_try [OF runs_call [OF ok rec]] runs_bind0 [OF runs_rand [OF ok]])
       (auto intro: runs_cost [OF runs_call_indirect [OF ok rec]])
qed

lemma runs_base_value:
  assumes ok: "gen_ok E R" and L: "labels_ok L cxt"
  shows "gens_values L (wasm_generate_instr_seqs_base_case E R cxt d)"
proof (induction d)
  case 0
  have "runs s 0 (gbind (gsimplify E t) (\<lambda>t. gen_leaf E R t)) (typed L t)" if t: "value_type t" for s t
    using runs_leaf [OF ok, of "[t]"] t
    by (intro runs_bind0 [OF runs_simplify [OF ok]]) (auto simp: result_type_def intro!: exI [of _ "[t]"])
  then show ?case by (simp add: gens_values_def)
next
  case (Suc d)
  have "runs s 0 (wasm_generate_instr_seqs_base_case E R cxt (Suc d) t) (typed L t)" if t: "value_type t" for s t
  proof -
    have r: "result_type t" using t by (auto simp: result_type_def intro!: exI [of _ "[t]"])
    have "t \<noteq> TypeNone" using t by (auto simp: value_type_def)
    then show ?thesis
      using runs_node [OF ok Suc.IH L r] by (auto intro!: runs_bind0 [OF runs_simplify [OF ok r]])
  qed
  then show ?case by (simp add: gens_values_def)
qed

lemma runs_base_case:
  assumes ok: "gen_ok E R" and L: "labels_ok L cxt" and t: "result_type t"
  shows "runs s 1 (wasm_generate_instr_seqs_base_case E R cxt (Suc d) t) (typed L t)"
proof -
  have "runs s 1 (gen_node E R (wasm_generate_instr_seqs_base_case E R cxt d) cxt t) (typed L t)" for s
    by (rule runs_cost [OF runs_node [OF ok runs_base_value [OF ok L] L t]]) simp
  then show ?thesis by (auto intro!: runs_bind0 [OF runs_simplify [OF ok t]])
qed

section \<open>Control skeletons\<close>

text \<open>The labels of the context are names in use, so a new name is none of them.\<close>

definition names_used :: "labelCxt list \<Rightarrow> 'g gen_state \<Rightarrow> bool" where
  "names_used cxt s \<longleftrightarrow> label_name ` set cxt \<subseteq> set (used_names (gs_names s))"

lemma names_used_ext: "names_used cxt s \<Longrightarrow> ext s s' \<Longrightarrow> names_used cxt s'"
  by (auto simp: names_used_def ext_def prefix_def)

lemma labels_ok_add:
  assumes "labels_ok L cxt" and "names_used cxt s" and "nm \<notin> set (used_names (gs_names s))" and "result_type t"
  shows "labels_ok ((nm, t) # L) (cxt @ [\<lparr> label_name = nm, label_type = t, label_pre_added = False \<rparr>])"
  using assms by (auto simp: labels_ok_def names_used_def)

lemma names_used_add:
  assumes "names_used cxt s" and "nm \<in> set (used_names (gs_names s))"
  shows "names_used (cxt @ [\<lparr> label_name = nm, label_type = t, label_pre_added = False \<rparr>]) s"
  using assms by (auto simp: names_used_def)

text \<open>A generator of whole sequences, for results of at most \<open>B\<close> values, at a cost of \<open>c\<close>.\<close>

definition gens_seqs :: "nat \<Rightarrow> nat \<Rightarrow> (labelCxt list \<Rightarrow> btype \<Rightarrow> ('g, bexpr option) gen) \<Rightarrow> bool" where
  "gens_seqs B c rec \<longleftrightarrow>
     (\<forall>L cxt s t. labels_ok L cxt \<and> names_used cxt s \<and> result_type t \<and> type_arity t \<le> B \<longrightarrow> runs s c (rec cxt t) (typed L t))"

lemma gens_seqsD:
  "gens_seqs B c rec \<Longrightarrow> labels_ok L cxt \<Longrightarrow> names_used cxt s \<Longrightarrow> result_type t \<Longrightarrow> type_arity t \<le> B \<Longrightarrow>
   runs s c (rec cxt t) (typed L t)"
  by (simp add: gens_seqs_def)

lemma result_type_simps [simp]: "result_type TypeNone" "result_type TypeInt32" "type_arity TypeInt32 = 1"
proof -
  show "result_type TypeNone" using result_type_create [of "[]"] by simp
  show "result_type TypeInt32" using result_type_create [of "[TypeInt32]"] by (simp add: value_type_def)
  show "type_arity TypeInt32 = 1" by (simp add: type_arity_def value_type_def)
qed

lemma wt_in_control:
  "wt_in s ((nm, TypeNone) # L) e t \<Longrightarrow> wt_in s L (Loop (Some nm) e) t"
  "wt_in s L c TypeInt32 \<Longrightarrow> wt_in s L e t \<Longrightarrow> wt_in s L f t \<Longrightarrow> wt_in s L (If c e (Some f)) t"
  "(\<And>d. d \<in> set ds \<Longrightarrow> wt_in s ((nm, t) # L) d TypeNone) \<Longrightarrow> wt_in s ((nm, t) # L) e t \<Longrightarrow> wt_in s L (Block (Some nm) (ds @ [e])) t"
  by (auto simp: wt_in_def intro!: wt_loop wt_if wt_block)

lemma runs_struct_loop:
  assumes ok: "gen_ok E R" and rec: "gens_seqs B c rec" and L: "labels_ok L cxt" "names_used cxt s"
    and t: "result_type t" "type_arity t \<le> B"
  shows "runs s (1 + c) (gbind gname (\<lambda>sub_label. gbind (galloc E) (\<lambda>ok.
      if \<not> ok then (if checked then gret None else gfail)
      else gbind (rec (cxt @ [\<lparr> label_name = sub_label, label_type = TypeNone, label_pre_added = False \<rparr>]) t) (\<lambda>e.
           gbind (gneed e) (\<lambda>x. gret (Some (Some (Loop (Some sub_label) x)))))))) (\<lambda>r s'. \<exists>e. r = Some e \<and> typed L t e s')"
proof (rule runs_bind [OF runs_name], rule runs_bind0 [OF runs_alloc [OF ok]])
  fix nm s1 ok1 s2
  assume nm: "nm \<notin> set (used_names (gs_names s)) \<and> nm \<in> set (used_names (gs_names s1))" and 1: "ext s s1" "ext s1 s2" and ok1: ok1
  have n2: "names_used (cxt @ [\<lparr> label_name = nm, label_type = TypeNone, label_pre_added = False \<rparr>]) s2"
    by (rule names_used_ext [OF names_used_add [OF names_used_ext [OF L(2) 1(1)]] 1(2)]) (use nm in simp)
  have l2: "labels_ok ((nm, TypeNone) # L) (cxt @ [\<lparr> label_name = nm, label_type = TypeNone, label_pre_added = False \<rparr>])"
    using labels_ok_add [OF L] nm by simp
  have "runs s2 c (gbind (rec (cxt @ [\<lparr> label_name = nm, label_type = TypeNone, label_pre_added = False \<rparr>]) t) (\<lambda>e.
      gbind (gneed e) (\<lambda>x. gret (Some (Some (Loop (Some nm) x)))))) (\<lambda>r s'. \<exists>e. r = Some e \<and> typed L t e s')"
    by (rule runs_bind_ret [OF gens_seqsD [OF rec l2 n2 t]])
       (auto simp: typed_def gbind_need intro!: runs_ret wt_in_control(1))
  then show "runs s2 c (if \<not> ok1 then (if checked then gret None else gfail)
      else gbind (rec (cxt @ [\<lparr> label_name = nm, label_type = TypeNone, label_pre_added = False \<rparr>]) t) (\<lambda>e.
           gbind (gneed e) (\<lambda>x. gret (Some (Some (Loop (Some nm) x)))))) (\<lambda>r s'. \<exists>e. r = Some e \<and> typed L t e s')"
    using ok1 by simp
qed

lemma runs_struct_if:
  assumes rec: "gens_seqs B c rec" and L: "labels_ok L cxt" "names_used cxt s" and t: "result_type t" "type_arity t \<le> B" and B: "1 \<le> B"
  shows "runs s (c + (c + c)) (gbind (rec cxt TypeInt32) (\<lambda>cond. gbind (rec cxt t) (\<lambda>true_expr. gbind (rec cxt t) (\<lambda>false_expr.
      gbind (gneed cond) (\<lambda>x. gbind (gneed true_expr) (\<lambda>y. gret (Some (Some (If x y false_expr)))))))))
      (\<lambda>r s'. \<exists>e. r = Some e \<and> typed L t e s')"
proof (rule runs_bind [OF gens_seqsD [OF rec L]])
  fix cond s1 assume 1: "ext s s1" "typed L TypeInt32 cond s1"
  show "runs s1 (c + c) (gbind (rec cxt t) (\<lambda>true_expr. gbind (rec cxt t) (\<lambda>false_expr.
      gbind (gneed cond) (\<lambda>x. gbind (gneed true_expr) (\<lambda>y. gret (Some (Some (If x y false_expr))))))))
      (\<lambda>r s'. \<exists>e. r = Some e \<and> typed L t e s')"
  proof (rule runs_bind [OF gens_seqsD [OF rec L(1) names_used_ext [OF L(2) 1(1)] t]])
    fix e1 s2 assume 2: "ext s1 s2" "typed L t e1 s2"
    have n2: "names_used cxt s2" using L(2) 1(1) 2(1) by (metis names_used_ext)
    show "runs s2 c (gbind (rec cxt t) (\<lambda>false_expr.
      gbind (gneed cond) (\<lambda>x. gbind (gneed e1) (\<lambda>y. gret (Some (Some (If x y false_expr)))))))
      (\<lambda>r s'. \<exists>e. r = Some e \<and> typed L t e s')"
    proof (rule runs_bind_ret [OF gens_seqsD [OF rec L(1) n2 t]])
      fix e2 s3 assume 3: "ext s2 s3" "typed L t e2 s3"
      have "typed L TypeInt32 cond s3" "typed L t e1 s3" using 1 2 3 by (metis typed_ext ext_trans)+
      then show "runs s3 0 (gbind (gneed cond) (\<lambda>x. gbind (gneed e1) (\<lambda>y. gret (Some (Some (If x y e2))))))
          (\<lambda>r s'. \<exists>e. r = Some e \<and> typed L t e s')"
        using 3(2) by (auto simp: typed_def gbind_need intro!: runs_ret wt_in_control(2))
    qed
  qed
qed (use B in simp_all)

lemma runs_if: "(b \<Longrightarrow> runs s k f Q) \<Longrightarrow> (\<not> b \<Longrightarrow> runs s k g Q) \<Longrightarrow> runs s k (if b then f else g) Q"
  by simp

lemma runs_struct:
  assumes ok: "gen_ok E R" and rec: "gens_seqs B c rec" and L: "labels_ok L cxt" "names_used cxt s"
    and t: "result_type t" "type_arity t \<le> B" and B: "1 \<le> B"
  shows "runs s (1 + 3 * c) (gen_struct E R rec cxt checked t) (\<lambda>r s'. \<exists>e. r = Some e \<and> typed L t e s')"
proof -
  let ?Q = "\<lambda>r s'. \<exists>e. r = Some e \<and> typed L t e s'"
  have plain: "runs s c (gbind (rec cxt t) (\<lambda>e. gret (Some e))) ?Q" if "names_used cxt s" for s
    by (rule runs_bind_ret [OF gens_seqsD [OF rec L(1) that t]]) (auto intro!: runs_ret)
  show ?thesis
    unfolding gen_struct_def
    by (intro runs_bind0 [OF runs_rand [OF ok]] runs_if runs_cost [OF plain] runs_cost [OF runs_struct_loop [OF ok rec L(1)]]
          runs_cost [OF runs_struct_if [OF rec L(1)]] names_used_ext [OF L(2)] t B) simp_all
qed

section \<open>Pieces of a block\<close>

text \<open>A local that holds one piece of the result.\<close>

definition piece_ok :: "'g gen_state \<Rightarrow> nat \<times> btype \<Rightarrow> bool" where
  "piece_ok s p \<longleftrightarrow> (case p of (i, t) \<Rightarrow> i < length (gs_locals s) \<and> local_type (gs_locals s ! i) = t \<and> result_type t \<and> t \<noteq> TypeNone)"

definition pieces_ok :: "(string \<times> btype) list \<Rightarrow> btype list \<Rightarrow> bexpr list \<Rightarrow> (nat \<times> btype) list \<Rightarrow> 'g gen_state \<Rightarrow> bool" where
  "pieces_ok L ts ds ps s \<longleftrightarrow>
     list_all (\<lambda>d. wt_in s L d TypeNone) ds \<and> list_all (piece_ok s) ps \<and> concat (map (type_expand \<circ> snd) ps) = ts"

lemma piece_ok_ext: "piece_ok s p \<Longrightarrow> ext s s' \<Longrightarrow> piece_ok s' p"
  by (auto simp: piece_ok_def ext_def nth_append)

lemma piece_set:
  assumes "piece_ok s (i, t)" and "ext s s'" and "wt_in s' L x t"
  shows "wt_in s' L (LocalSet i x) TypeNone"
  using assms by (auto simp: piece_ok_def intro: wt_in_tee)

text \<open>One round: a new local, the expression for it, and what follows.\<close>

lemma runs_round:
  assumes ok: "gen_ok E R" and rec: "gens_seqs B c rec" and B: "1 \<le> B" and L: "labels_ok L cxt" "names_used cxt s"
    and t: "result_type t" "t \<noteq> TypeNone" "type_arity t \<le> B"
    and k: "\<And>idx x s'. ext s s' \<Longrightarrow> piece_ok s' (idx, t) \<Longrightarrow> wt_in s' L x t \<Longrightarrow> runs s' c2 (k idx x) Q"
  shows "runs s ((1 + 3 * c) + c2) (gbind (galloc E) (\<lambda>ok. if \<not> ok then gret None
     else gbind (gnew_local t) (\<lambda>idx. gbind (gen_struct E R rec cxt True t) (\<lambda>res. case res of None \<Rightarrow> gret None
       | Some new_expr \<Rightarrow> gbind (galloc E) (\<lambda>ok. if \<not> ok then gret None else gbind (gneed new_expr) (\<lambda>x. k idx x)))))) Q"
proof (rule runs_bind0 [OF runs_alloc [OF ok]], rule runs_if)
  fix ok1 s1 assume 1: "ext s s1" "\<not> \<not> ok1"
  show "runs s1 ((1 + 3 * c) + c2) (gbind (gnew_local t) (\<lambda>idx. gbind (gen_struct E R rec cxt True t) (\<lambda>res. case res of None \<Rightarrow> gret None
       | Some new_expr \<Rightarrow> gbind (galloc E) (\<lambda>ok. if \<not> ok then gret None else gbind (gneed new_expr) (\<lambda>x. k idx x))))) Q"
  proof (rule runs_bind0 [OF runs_new_local [OF t(1,2)]])
    fix idx s2 assume 2: "ext s1 s2" "idx = length (gs_locals s1) \<and> idx < length (gs_locals s2) \<and> local_type (gs_locals s2 ! idx) = t"
    have p: "piece_ok s2 (idx, t)" using 2(2) t by (auto simp: piece_ok_def)
    have e2: "ext s s2" using 1(1) 2(1) by (rule ext_trans)
    show "runs s2 ((1 + 3 * c) + c2) (gbind (gen_struct E R rec cxt True t) (\<lambda>res. case res of None \<Rightarrow> gret None
       | Some new_expr \<Rightarrow> gbind (galloc E) (\<lambda>ok. if \<not> ok then gret None else gbind (gneed new_expr) (\<lambda>x. k idx x)))) Q"
      by (rule runs_bind [OF runs_struct [OF ok rec L(1) names_used_ext [OF L(2) e2] t(1,3) B]])
         (use p e2 in \<open>auto simp: typed_def gbind_need intro!: runs_bind0 [OF runs_alloc [OF ok]] k\<close>;
          metis ext_trans piece_ok_ext wt_in_ext)
  qed
qed simp

lemma runs_pieces:
  assumes ok: "gen_ok E R" and rec: "gens_seqs B c rec" and B: "1 \<le> B" "B < 2 ^ 32"
    and L: "labels_ok L cxt" "names_used cxt s" and rs: "list_all value_type rs" "length rs \<le> B"
  shows "runs s (length rs * (1 + 3 * c)) (gen_pieces E R rec cxt rs exprs locals)
     (\<lambda>r s'. \<exists>ds ps. r = Some (exprs @ ds, locals @ ps) \<and> pieces_ok L rs ds ps s')"
  using L(2) rs
proof (induction "length rs" arbitrary: rs exprs locals s rule: less_induct)
  case less
  let ?Q = "\<lambda>r s'. \<exists>ds ps. r = Some (exprs @ ds, locals @ ps) \<and> pieces_ok L rs ds ps s'"
  have rest: "runs s1 ((length rs - n) * (1 + 3 * c))
      (gen_pieces E R rec cxt (drop n rs) (exprs @ [LocalSet idx x]) (locals @ [(idx, type_create (take n rs))])) ?Q"
    if 1: "ext s s1" "piece_ok s1 (idx, type_create (take n rs))" "wt_in s1 L x (type_create (take n rs))" and n: "0 < n" "n \<le> length rs"
    for s1 idx x n
  proof -
    let ?t = "type_create (take n rs)"
    have v: "list_all value_type (take n rs)" "list_all value_type (drop n rs)"
      using less.prems(2) by (auto simp: list_all_iff dest: in_set_takeD in_set_dropD)
    have "runs s1 ((length rs - n) * (1 + 3 * c)) (gen_pieces E R rec cxt (drop n rs) (exprs @ [LocalSet idx x]) (locals @ [(idx, ?t)]))
       (\<lambda>r s'. \<exists>ds ps. r = Some ((exprs @ [LocalSet idx x]) @ ds, (locals @ [(idx, ?t)]) @ ps) \<and> pieces_ok L (drop n rs) ds ps s')"
      using less.hyps [of "drop n rs" s1 "exprs @ [LocalSet idx x]" "locals @ [(idx, ?t)]"] n v less.prems(3)
        names_used_ext [OF less.prems(1) 1(1)] by simp
    then show ?thesis
    proof (rule runs_post)
      fix r s' assume x: "ext s1 s'" and
        "\<exists>ds ps. r = Some ((exprs @ [LocalSet idx x]) @ ds, (locals @ [(idx, ?t)]) @ ps) \<and> pieces_ok L (drop n rs) ds ps s'"
      then obtain ds ps where r: "r = Some (exprs @ LocalSet idx x # ds, locals @ (idx, ?t) # ps)" "pieces_ok L (drop n rs) ds ps s'" by auto
      have "pieces_ok L rs (LocalSet idx x # ds) ((idx, ?t) # ps) s'"
        using r(2) piece_ok_ext [OF 1(2) x] piece_set [OF 1(2) x wt_in_ext [OF 1(3) x]] v(1) by (simp add: pieces_ok_def)
      then show "?Q r s'" using r(1) by blast
    qed
  qed
  have pick: "runs s 0 (grand R (of_nat (length rs))) (\<lambda>r s'. Suc (unat r) \<le> length rs)" if "rs \<noteq> []"
  proof (rule runs_post [OF runs_rand [OF ok]])
    fix r :: u32 assume r: "0 < (of_nat (length rs) :: u32) \<longrightarrow> r < of_nat (length rs)"
    have "unat (of_nat (length rs) :: u32) = length rs" using less.prems(3) B(2) by (simp add: unat_of_nat)
    then show "Suc (unat r) \<le> length rs" using r that by (simp add: word_less_nat_alt Suc_le_eq)
  qed
  have sub: "result_type (type_create (take n rs))" "type_create (take n rs) \<noteq> TypeNone" "type_arity (type_create (take n rs)) \<le> B"
    "(1 + 3 * c) + (length rs - n) * (1 + 3 * c) \<le> length rs * (1 + 3 * c)" if "0 < n" "n \<le> length rs" for n
  proof -
    have "list_all value_type (take n rs)" using less.prems(2) by (auto simp: list_all_iff dest: in_set_takeD)
    then show "result_type (type_create (take n rs))" "type_create (take n rs) \<noteq> TypeNone" "type_arity (type_create (take n rs)) \<le> B"
      using that less.prems(3) by (auto simp: result_type_create)
    have "Suc (length rs - n) * (1 + 3 * c) \<le> length rs * (1 + 3 * c)" using that by (intro mult_right_mono) auto
    then show "(1 + 3 * c) + (length rs - n) * (1 + 3 * c) \<le> length rs * (1 + 3 * c)" by simp
  qed
  show ?case
  proof (subst gen_pieces.simps, rule runs_if)
    assume "rs \<noteq> []"
    then show "runs s (length rs * (1 + 3 * c)) (gbind (grand R (of_nat (length rs))) (\<lambda>r. let move_steps = Suc (unat r);
        sub_type = type_create (take move_steps rs) in gbind (galloc E) (\<lambda>ok. if \<not> ok then gret None
          else gbind (gnew_local sub_type) (\<lambda>idx. gbind (gen_struct E R rec cxt True sub_type) (\<lambda>res. case res of None \<Rightarrow> gret None
            | Some new_expr \<Rightarrow> gbind (galloc E) (\<lambda>ok. if \<not> ok then gret None else gbind (gneed new_expr) (\<lambda>x.
                gen_pieces E R rec cxt (drop move_steps rs) (exprs @ [LocalSet idx x]) (locals @ [(idx, sub_type)])))))))) ?Q"
      unfolding Let_def
      apply (rule runs_bind0 [OF pick])
      subgoal premises prems for r s1
        by (rule runs_cost [OF runs_round [where ?c2.0 = "(length rs - Suc (unat r)) * (1 + 3 * c)",
              OF ok rec B(1) L(1) names_used_ext [OF less.prems(1) prems(1)] sub(1-3) rest] sub(4)])
           (use prems in \<open>auto intro: ext_trans\<close>)
      done
  qed (auto simp: pieces_ok_def intro!: runs_cost [OF runs_ret])
qed

lemma get_locals_typed:
  assumes "list_all (piece_ok s) ps"
  shows "all_typed L (concat (map (type_expand \<circ> snd) ps)) (map Some (get_locals ps)) s"
  using assms
proof (induction ps)
  case Nil
  then show ?case by (simp add: get_locals_def all_typed_def)
next
  case (Cons p ps)
  obtain i t where p: "p = (i, t)" by (cases p)
  have get: "wt_in s L (LocalGet i t) t" and t: "result_type t" "t \<noteq> TypeNone"
    using Cons.prems by (auto simp: p piece_ok_def wt_in_def intro!: wt_local_get)
  obtain ts where ts: "list_all value_type ts" "t = type_create ts" "ts \<noteq> []" using t by (auto simp: result_type_def)
  let ?es = "if type_arity t > 1 then map (TupleExtract (LocalGet i t)) [0..<type_arity t] else [LocalGet i t]"
  have "all_typed L (type_expand t) (map Some ?es) s"
  proof (cases "type_arity t > 1")
    case True
    then show ?thesis
      using wt_in_extract [OF get t(1) True] ts by (simp add: all_typed_def list_all2_conv_all_nth)
  next
    case False
    then obtain u where "ts = [u]" using ts by (cases ts) auto
    then show ?thesis using ts get by (simp add: all_typed_def type_arity_def)
  qed
  with Cons show ?case
    by (simp add: p get_locals_def all_typed_def list_all2_appendI)
qed

lemma block_value_typed:
  assumes "pieces_ok L ts ds ps s" and "list_all value_type ts" "ts \<noteq> []"
  shows "wt_in s L (if 1 < length ts then TupleMake (get_locals ps) else hd (get_locals ps)) (type_create ts)"
proof -
  have g: "all_typed L ts (map Some (get_locals ps)) s"
    using get_locals_typed [of s ps L] assms(1) by (simp add: pieces_ok_def)
  then have len: "length (get_locals ps) = length ts" and el: "\<forall>k < length (get_locals ps). wt_in s L (get_locals ps ! k) (ts ! k)"
    by (auto simp: all_typed_def list_all2_conv_all_nth)
  show ?thesis
  proof (cases "1 < length ts")
    case True
    then show ?thesis using wt_in_tuple [OF len el] by simp
  next
    case False
    then obtain t where "ts = [t]" using assms(3) by (cases ts) auto
    then show ?thesis using len el by (cases "get_locals ps") auto
  qed
qed

lemma runs_block:
  assumes ok: "gen_ok E R" and rec: "gens_seqs B c rec" and B: "1 \<le> B" "B < 2 ^ 32"
    and L: "labels_ok ((nm, t) # L) cxt" "names_used cxt s" and t: "result_type t" "type_arity t \<le> B"
  shows "runs s (B * (1 + 3 * c)) (gen_block E R rec cxt nm t) (typed L t)"
proof -
  obtain ts where ts: "list_all value_type ts" "t = type_create ts" using t(1) by (auto simp: result_type_def)
  have cost: "length ts * (1 + 3 * c) \<le> B * (1 + 3 * c)" "1 + 3 * c \<le> B * (1 + 3 * c)"
    using t(2) ts B(1) by (auto intro: mult_right_mono simp del: mult_Suc_right)
  have ar: "type_arity t = length ts" "type_expand t = ts" using ts by simp_all
  show ?thesis
  proof (cases "ts = []")
    case True
    have "runs s1 (1 + 3 * c) (gbind (gen_struct E R rec cxt False TypeNone) (\<lambda>res. case res of None \<Rightarrow> gret None
       | Some e \<Rightarrow> gbind (gneed e) (\<lambda>x. gret (Some (Block (Some nm) [x]))))) (typed L t)" if "ext s s1" for s1
      by (rule runs_bind_ret [OF runs_struct [OF ok rec L(1) names_used_ext [OF L(2) that] _ _ B(1)]])
         (use True ts in \<open>auto simp: typed_def gbind_need intro!: runs_ret wt_in_control(3) [of "[]", simplified]\<close>)
    then show ?thesis
      using True ts unfolding gen_block_def
      by (intro runs_bind0 [OF runs_alloc [OF ok]] runs_if runs_cost [OF _ cost(2)]) auto
  next
    case False
    have "runs s1 (length ts * (1 + 3 * c)) (gbind (gen_pieces E R rec cxt ts [] []) (\<lambda>res. case res of None \<Rightarrow> gret None
       | Some (exprs, locals) \<Rightarrow> gbind (galloc E) (\<lambda>ok. if \<not> ok then gret None
           else let gets = get_locals locals in gret (Some (Block (Some nm)
                  (exprs @ [if length ts > 1 then TupleMake gets else hd gets])))))) (typed L t)" if "ext s s1" for s1
    proof (rule runs_bind_ret [OF runs_pieces [OF ok rec B L(1) names_used_ext [OF L(2) that] ts(1)]])
      fix r s2
      assume "\<exists>ds ps. r = Some ([] @ ds, [] @ ps) \<and> pieces_ok ((nm, t) # L) ts ds ps s2"
      then obtain ds ps where r: "r = Some (ds, ps)" and p: "pieces_ok ((nm, t) # L) ts ds ps s2" by auto
      have "wt_in s2 L (Block (Some nm) (ds @ [if 1 < length ts then TupleMake (get_locals ps) else hd (get_locals ps)])) t"
        using block_value_typed [OF p ts(1) False] p ts(2) by (intro wt_in_control(3)) (auto simp: pieces_ok_def list_all_iff)
      then show "runs s2 0 (case r of None \<Rightarrow> gret None
        | Some (exprs, locals) \<Rightarrow> gbind (galloc E) (\<lambda>ok. if \<not> ok then gret None
           else let gets = get_locals locals in gret (Some (Block (Some nm)
                  (exprs @ [if length ts > 1 then TupleMake gets else hd gets]))))) (typed L t)"
        unfolding r Let_def option.case prod.case
        by (intro runs_bind0 [OF runs_alloc [OF ok]] runs_if runs_ret) (auto intro: wt_in_ext)
    qed (use t(2) ts in simp)
    then show ?thesis
      using False unfolding gen_block_def ar
      by (intro runs_bind0 [OF runs_alloc [OF ok]] runs_if runs_cost [OF _ cost(1)]) (auto simp: Suc_le_eq)
  qed
qed

text \<open>The cost of a sequence: a name for each block and loop, a global for each leaf.\<close>

fun seq_cost :: "nat \<Rightarrow> nat \<Rightarrow> nat" where
  "seq_cost B 0 = 1"
| "seq_cost B (Suc d) = 1 + B * (1 + 3 * seq_cost B d)"

lemma seqs_typed:
  assumes ok: "gen_ok E R" and B: "1 \<le> B" "B < 2 ^ 32"
  shows "gens_seqs B (seq_cost B d) (wasm_generate_instr_seqs_top_level E R d)"
proof (induction d)
  case 0
  have "runs s 1 (wasm_generate_instr_seqs_top_level E R 0 cxt t) (typed L t)" if "labels_ok L cxt" "result_type t" for L cxt t s
    using runs_base_case [OF ok that, of _ 2] that(2)
    by (auto intro!: runs_bind0 [OF runs_simplify [OF ok]] simp: numeral_3_eq_3 numeral_2_eq_2)
  then show ?case by (simp add: gens_seqs_def)
next
  case (Suc d)
  have "runs s (seq_cost B (Suc d)) (wasm_generate_instr_seqs_top_level E R (Suc d) cxt t) (typed L t)"
    if L: "labels_ok L cxt" "names_used cxt s" and t: "result_type t" "type_arity t \<le> B" for L cxt t s
  proof -
    let ?cxt = "\<lambda>nm. cxt @ [\<lparr> label_name = nm, label_type = t, label_pre_added = False \<rparr>]"
    have "runs s1 (B * (1 + 3 * seq_cost B d)) (gbind (gen_block E R (wasm_generate_instr_seqs_top_level E R d) (?cxt nm) nm t) (\<lambda>top_blk.
        case top_blk of Some e \<Rightarrow> gret (Some e) | None \<Rightarrow> wasm_generate_instr_seqs_base_case E R (?cxt nm) 3 t)) (typed L t)"
      if "labels_ok ((nm, t) # L) (?cxt nm)" "names_used (?cxt nm) s1" for nm s1
      by (rule runs_bind_ret [OF runs_block [OF ok Suc.IH B that t]]) (auto simp: typed_def intro!: runs_ret)
    then have "runs s1 (1 + B * (1 + 3 * seq_cost B d)) (gbind gname (\<lambda>top_label. gbind (galloc E) (\<lambda>ok.
        if \<not> ok then wasm_generate_instr_seqs_base_case E R cxt 3 t
        else gbind (gen_block E R (wasm_generate_instr_seqs_top_level E R d) (?cxt top_label) top_label t) (\<lambda>top_blk.
          case top_blk of Some e \<Rightarrow> gret (Some e) | None \<Rightarrow> wasm_generate_instr_seqs_base_case E R (?cxt top_label) 3 t)))) (typed L t)"
      if n: "names_used cxt s1" for s1
      by (intro runs_bind [OF runs_name] runs_bind0 [OF runs_alloc [OF ok]] runs_if)
         (use n in \<open>auto intro: labels_ok_add [OF L(1) n _ t(1)] names_used_ext [OF names_used_add [OF names_used_ext]]\<close>)
    then show ?thesis
      unfolding wasm_generate_instr_seqs_top_level.simps Let_def
      by (intro runs_bind0 [OF runs_simplify [OF ok t(1)]]) (auto intro: names_used_ext [OF L(2)])
  qed
  then show ?case by (simp add: gens_seqs_def)
qed

section \<open>Properties\<close>


text \<open>A random source that counts, for the witnesses.\<close>

definition demo_counter :: "nat rand_ops" where
  "demo_counter = \<lparr> ro_rand_below = (\<lambda>g n. (of_nat (g mod unat n), Suc g)), ro_rand = (\<lambda>g. (of_nat g, Suc g)), ro_afl = True \<rparr>"

lemma demo_counter_less:
  assumes "0 < (n :: u32)"
  shows "unat (of_nat (g mod unat n) :: u32) = g mod unat n" "of_nat (g mod unat n) < n"
proof -
  have n: "0 < unat n" using assms by (simp add: word_less_nat_alt)
  then have "g mod unat n < unat n" by simp
  also have "unat n < 2 ^ 32" using unsigned_less [of n, where ?'a = nat] by simp
  finally show u: "unat (of_nat (g mod unat n) :: u32) = g mod unat n" by (simp add: unat_of_nat)
  show "of_nat (g mod unat n) < n" using n by (simp add: word_less_nat_alt u)
qed

lemma demo_counter_iterate: "((\<lambda>g. snd (ro_rand_below demo_counter g n)) ^^ j) g = g + j"
  by (induction j) (simp_all add: demo_counter_def)

lemma demo_counter_draws: "draws_all demo_counter"
  unfolding draws_all_def
proof (intro allI impI)
  fix g :: nat and n k :: u32
  assume k: "k < n"
  then have N: "unat k < unat n" by (simp add: word_less_nat_alt)
  define j where "j = unat k + unat n * g - g"
  have "g \<le> unat n * g" using N by (cases "unat n") auto
  then have "g + j = unat k + unat n * g" unfolding j_def by linarith
  then have "(g + j) mod unat n = unat k" using N by simp
  then have "fst (ro_rand_below demo_counter (g + j) n) = k" by (simp add: demo_counter_def)
  then show "\<exists>j. fst (ro_rand_below demo_counter (((\<lambda>g. snd (ro_rand_below demo_counter g n)) ^^ j) g) n) = k"
    unfolding demo_counter_iterate by blast
qed

definition demo_gen_env :: gen_env where
  "demo_gen_env = \<lparr> ge_op = demo_op_env, ge_alloc = (\<lambda>_. True) \<rparr>"

lemma demo_gen_ok: "gen_ok demo_gen_env demo_counter"
proof -
  have "bounded_rng demo_counter" by unfold_locales (simp add: demo_counter_def demo_counter_less(2))
  then show ?thesis using demo_counter_draws by (simp add: gen_ok_def demo_gen_env_def)
qed

definition demo_gen_module :: bmodule where
  "demo_gen_module = \<lparr> m_funcs = [\<lparr> f_name = ''0'', f_body = Some Nop, f_params = [], f_results = [], f_vars = [] \<rparr>],
     m_tables = [], m_globals = [], m_exports = [],
     m_memories = [\<lparr> mem_name = ''0'', mem_initial = 1, mem_max = None, mem_shared = False, mem_is64 = False \<rparr>],
     m_segments = [\<lparr> seg_name = ''0'', seg_passive = True, seg_offset = 0, seg_data = [] \<rparr>], m_features = 0 \<rparr>"

definition demo_gen_state :: "nat gen_state" where
  "demo_gen_state = \<lparr> gs_mod = demo_gen_module, gs_locals = [], gs_names = wasm_init_name_grp, gs_rng = 0, gs_alloc = 0 \<rparr>"

lemma demo_digits: "nat_string 0 = ''0''" "nat_string (Suc 0) = ''1''"
  by (simp_all add: nat_string.simps digit_char_def char_of_def bit_0)

lemma demo_gen_inv: "gen_inv demo_gen_state"
  using init_name_ok
  by (simp add: demo_digits gen_inv_def gen_module_def table_room_def missing_refs_def demo_gen_state_def demo_gen_module_def locals_ok_def)


text \<open>The cost of a new function.\<close>

lemma one_func_params:
  assumes "list_all value_type ps"
  defines "ls \<equiv> map (\<lambda>(i, t). \<lparr> local_idx = i, local_type = t, pre_added = True \<rparr>) (zip [0..<length ps] ps)"
  shows "locals_ok ls" "map local_type ls = ps" "list_all pre_added ls" "length ls = length ps"
proof -
  show len: "length ls = length ps" by (simp add: ls_def)
  show t: "map local_type ls = ps" by (rule nth_equalityI) (simp_all add: ls_def)
  show "list_all pre_added ls" by (auto simp: ls_def list_all_iff)
  have "map local_idx ls = [0..<length ls]" by (rule nth_equalityI) (simp_all add: ls_def)
  moreover have "result_type t \<and> t \<noteq> TypeNone" if "t \<in> set ps" for t
    using assms(1) that result_type_create [of "[t]"] by (auto simp: list_all_iff value_type_def)
  then have "list_all (\<lambda>t. result_type t \<and> t \<noteq> TypeNone) (map local_type ls)" unfolding t by (simp add: list_all_iff)
  then have "list_all (\<lambda>l. result_type (local_type l) \<and> local_type l \<noteq> TypeNone) ls" by (simp add: list.pred_map comp_def)
  ultimately show "locals_ok ls" by (simp add: locals_ok_def)
qed



end
