(* ===== verification/Spec2Isabelle.thy ===== *)
theory Spec2Isabelle
  imports Swam_Mutator Swam_Exploit Afl_Hashmap Afl_Alias Wasm_Interest Wasm_Seqs_Typed
begin

text \<open>
  SWAM is a fuzzer for memory safety in WebAssembly runtimes. It is AFL++ with a custom mutator,
  \<^verbatim>\<open>src/aflpp/custom_mutators/wasm\<close>: AFL++ keeps the queue and the coverage map and calls
  \<^verbatim>\<open>afl_custom_fuzz\<close> for each input; the mutator parses the input with Binaryen, either changes
  its structure (the explore branch) or inserts a probe of one of 600 memory-access scenarios (the
  exploit branch), and the harness runs the result. The probe writes two marker globals, one before
  and one after the access. On the next call the oracle compares the markers with what the
  catalogue says the standard demands, saves modules for which they disagree, and feeds the outcome to a
  bandit that selects the next scenario.

  \<^bold>\<open>Theories and sources.\<close> Paths are relative to \<^verbatim>\<open>src/aflpp/custom_mutators/wasm\<close> unless they
  start with \<^verbatim>\<open>aflpp/\<close>. Definitions have the names of the functions, macros and types they
  model; a part of a function that is a definition of its own (a loop, a long branch) has a name of
  its own.

  \<^item> \<^verbatim>\<open>Prelude\<close>: word types, lists, decimal strings, little-endian bytes, the collections of
    rewrite rules.
  \<^item> \<^verbatim>\<open>Afl_Rand\<close>: \<^verbatim>\<open>aflpp/src/afl-performance.c\<close> and \<^verbatim>\<open>aflpp/include/afl-fuzz.h\<close>, the random numbers.
    Everything that draws numbers takes a record \<open>rand_ops\<close>; the locale of random sources is
    interpreted on AFL's generator.
  \<^item> \<^verbatim>\<open>Swam_Scenarios\<close>, \<^verbatim>\<open>Swam_Profile\<close>: \<^verbatim>\<open>swam_scenarios.h\<close> and \<^verbatim>\<open>swam_profile.c\<close>, the catalogue built
    by the same macros and the runtime profiles.
  \<^item> \<^verbatim>\<open>Swam_Scheduler\<close>: \<^verbatim>\<open>swam_scheduler.c\<close>, the UCB1 bandit. Floating point is a parameter with
    order laws, interpreted on the reals.
  \<^item> \<^verbatim>\<open>Swam_Markers\<close>: \<^verbatim>\<open>swam_markers.c\<close>, the channel through which the harness reports the markers; results
    of system calls are arguments.
  \<^item> \<^verbatim>\<open>Swam_Mutator\<close>: \<^verbatim>\<open>wasm_mutators.c\<close>, the entry points, the oracle and the saving of findings, and
    a step relation of whole campaigns.
  \<^item> \<^verbatim>\<open>Binaryen\<close>: the expressions and modules of Binaryen's IR as far as the repository builds and
    inspects them. Binaryen is not part of the repository: its validator, its typing
    and its numbering of types and operators are parameters.
  \<^item> \<^verbatim>\<open>Wasm_Helpers\<close>: \<^verbatim>\<open>helper_func.c\<close>, reading and replacing the children of a node, shuffling, the
    creation of a memory.
  \<^item> \<^verbatim>\<open>Swam_Strip\<close>, \<^verbatim>\<open>Swam_Probe\<close>, \<^verbatim>\<open>Swam_Exploit\<close>: \<^verbatim>\<open>swam_strip.c\<close>, \<^verbatim>\<open>swam_probe.c\<close>, \<^verbatim>\<open>swam_exploit.c\<close>, removal of
    old probes, construction of a probe with an evaluator of the standard for it, and its
    placement in a module.
  \<^item> \<^verbatim>\<open>Wasm_Names\<close>: the pool of label names of \<^verbatim>\<open>init_func.c\<close> and \<^verbatim>\<open>helper_func.c\<close>, an instance of a name
    supply.
  \<^item> \<^verbatim>\<open>Wasm_Pass\<close>: the traversal all structural mutators share: the functions in shuffled order, each
    with a work list of nodes. A node is a path in the body, because the C code keeps pointers into
    a tree it changes. The locales \<open>worklist_pass\<close> and \<open>module_pass\<close> turn an invariant and a weight of one
    visit into return and correctness of the pass.
  \<^item> \<^verbatim>\<open>Afl_Interesting\<close>, \<^verbatim>\<open>Wasm_Interest\<close>: the corner values of \<^verbatim>\<open>aflpp/include/config.h\<close> and
    \<^verbatim>\<open>wasm_interest_values_mutate\<close>.
  \<^item> \<^verbatim>\<open>Wasm_Instr\<close>, \<^verbatim>\<open>Wasm_Generate\<close>, \<^verbatim>\<open>Wasm_Operators\<close>: the instruction groups of \<^verbatim>\<open>init_func.c\<close>,
    \<^verbatim>\<open>wasm_generate_one_simple_expr\<close> of \<^verbatim>\<open>generator_func.c\<close> and \<^verbatim>\<open>wasm_operators_mutate\<close>.
  \<^item> \<^verbatim>\<open>Wasm_Recursive\<close>: \<^verbatim>\<open>wasm_recursive_mutate\<close>, which wraps structured instructions.
  \<^item> \<^verbatim>\<open>Wasm_Typing\<close>: a specification, the typing of expression trees after the validation rules of the
    standard, as an inductive judgement. \<^verbatim>\<open>Wasm_Seqs\<close>: the other functions of \<^verbatim>\<open>generator_func.c\<close>, which
    generate expression trees and control skeletons, and \<^verbatim>\<open>wasm_generate_one_func\<close>. Their state, that
    is the module, the locals, the names and the random source, is threaded by a state and failure
    monad. \<^verbatim>\<open>Wasm_Seqs_Typed\<close>: their correctness, in a Hoare logic for total correctness that also
    counts the names and globals a generator uses.
  \<^item> \<^verbatim>\<open>Afl_Bitmap\<close>, \<^verbatim>\<open>Afl_Hashmap\<close>: the coverage map of \<^verbatim>\<open>aflpp/src/afl-fuzz-bitmap.c\<close> with
    \<^verbatim>\<open>aflpp/include/coverage-64.h\<close>, and the table of \<^verbatim>\<open>aflpp/src/hashmap.c\<close> that deduplicates comparisons.
  \<^item> \<^verbatim>\<open>Afl_Queue\<close>, \<^verbatim>\<open>Afl_Cull\<close>, \<^verbatim>\<open>Afl_Alias\<close>: \<^verbatim>\<open>aflpp/src/afl-fuzz-queue.c\<close>. The first one has the records of the
    queue and the definitions of scoring and culling, with the invariant of scoring; the second one
    the cover by favored entries; the third one scores, weights, the alias table and the selection of
    the next entry in the build with \<^verbatim>\<open>AFL_SWAM\<close>.

  \<^bold>\<open>What is shown.\<close> Campaigns: every saved bug is a module that ran and contradicted the
  catalogue, the caps hold, and every call of the mutator returns within the size limit. Probes:
  under the standard a probe traps or completes as its catalogue entry says, it is placed in a live
  block, and the module handed on was validated and exports the markers. The scheduler selects only
  scenarios that pass the filter, tries each of them, keeps true statistics and maximises its
  score. Structural passes return, report exactly the number of changes they made, and change
  the module only by the intended replacements; labels they introduce are new. Instruction groups are
  well-typed against the standard, and generating an instruction is inverse to classifying it. The
  generator of instruction sequences returns and gives an expression of the type asked for, and
  generated functions are well-typed. Coverage: novelty verdicts
  and the optimised one-pass check agree with a byte-wise reading. The hash table refines a bag.
  The queue: winners are undominated, the favored entries of a freshly scored queue cover every byte
  that was hit, the alias table selects enabled entries in proportion to their weights, and a faster
  entry never scores less; together, every byte that was reached has a favored entry with a
  chance to be selected, which is the property in this theory. Examples show where culling, scoring again and one schedule fall short.

  \<^bold>\<open>Errors, bounds and fuel.\<close> Machine integers are words of their width and wrap as in C. Crashes,
  aborts and loops without an end are \<open>None\<close>; loops whose end depends on data
  (\<^verbatim>\<open>rand_below\<close>'s rejection, the stage loop, the work lists) are partial functions, for which return
  is proved as a theorem, so no fuel is used. A count of functions is below \<open>2 ^ 32\<close>, the width of
  \<^verbatim>\<open>BinaryenIndex\<close>. Outcomes of \<^verbatim>\<open>malloc\<close> that the code checks are arguments. The recursion of the
  generators is on the depth the code passes; their theorems assume that allocations succeed, that
  every value of a range is drawn sooner or later (the search for a mutable global only ends then),
  and that the pool can hand out \<open>seq_cost\<close> more names, a bound computed from the depth and the number
  of results: 53 names for a function with one result.

  \<^bold>\<open>Not modelled.\<close> In the mutator: the redirection of calls and branches and splicing,
  which depend on Binaryen's typing at every step; \<^verbatim>\<open>binaryen_wrapper.cpp\<close>, exception glue; debug
  logging and the freeing of memory at exit. In AFL++: the storage of the queue with its state files and
  its cache of test cases, the main loop, the havoc stages, forkserver and instrumentation, which are
  upstream code around processes and files. Files under
  \<^verbatim>\<open>custom_mutators\<close> of other projects and vendored code.
\<close>

section \<open>From the coverage to the next entry\<close>

text \<open>
  What the main loop does to the queue before it draws the next entry, in an iteration that does not
  start a new cycle, with the default seed selection.
\<close>

definition prepare_selection :: "'d dbl_ops \<Rightarrow> bool \<Rightarrow> u32 \<Rightarrow> 'd queue_state \<Rightarrow> 'd queue_state option" where
  "prepare_selection D alloc prev_queued_items s =
     (let s1 = cull_queue s
      in if prev_queued_items < of_nat (length (queue_buf s1)) \<or> reinit_table s1 then create_alias_table D alloc s1
         else Some s1)"

definition play_queue :: "real queue_state" where
  "play_queue = (queue_of [entry_of 0 5, entry_of 1 3, entry_of 2 2])\<lparr> n_fuzz := [0] \<rparr>"

text \<open>
  C18. What was reached stays in play. Start from a queue in which nothing was scored, score any entries
  in any order, and let the main loop cull the queue and build the table for the selection. Then for every
  byte of the map that a scored enabled entry hits there is a favored entry that hits it and
  whose probability of being selected next is positive. Arithmetic is exact, redundant entries are not
  disabled, and the schedule is below \<^verbatim>\<open>RARE\<close> and not \<^verbatim>\<open>MMOPT\<close>.
\<close>

theorem reached_bytes_in_play:
  assumes "unscored s" and "set js \<subseteq> {0..<length (queue_buf s)}" and "8 dvd unat (map_size s)" and "\<not> non_instrumented_mode s"
    and "i < unat (map_size s)" and "j \<in> enabled s js" and "T j ! i \<noteq> 0"
    and "\<not> disable_redundant s" and "scorable s" and "schedule s \<notin> set [MMOPT, RARE, SEEK]"
  shows "\<exists>s' f. prepare_selection real_dbl True prev (score_all T js s) = Some s' \<and> f \<in> enabled s js \<and> T f ! i \<noteq> 0 \<and>
    favored (queue_buf s' ! f) \<and> 0 < alias_mass (alias_probability s') (alias_table s') f"
proof -
  let ?s = "score_all T js s" and ?n = "length (queue_buf s)"
  let ?c = "cull_queue ?s"
  note inv = score_all_inv [OF assms(1,2), of T]
  have en: "\<And>t. t \<in> enabled s js \<Longrightarrow> \<not> disabled (queue_buf s ! t)" by (simp add: enabled_def)
  obtain f where f: "f \<in> enabled s js" "favored (queue_buf ?c ! f)" "T f ! i \<noteq> 0"
    using cull_scored [OF inv en assms(3,4,5,6,7)] by blast
  have st: "same_static s ?s" and ch: "score_changed ?s"
    using inv assms(5,6,7) by (auto simp: score_inv_def slot_best_def split: option.splits)
  have go: "\<not> non_instrumented_mode ?s" "\<not> disable_redundant ?s" and nf: "n_fuzz ?s = n_fuzz s" "schedule ?s = schedule s"
    using st assms(4,8) by (simp_all add: same_static_def)
  have keep: "map select_key (queue_buf ?c) = map select_key (queue_buf s)"
    using cull_queue_entries [OF go(2)] scored_keeps [OF st] by simp
  have sc: "scorable ?c" using scorable_cong [OF keep] nf assms(9) by (simp add: cull_queue_keeps)
  have sch: "schedule ?c \<notin> set [MMOPT, RARE, SEEK]" using nf assms(10) by (simp add: cull_queue_keeps)
  have len: "length (queue_buf ?c) = ?n" using keep by (rule map_eq_imp_length_eq)
  have fn: "f < ?n" using f(1) assms(2) by (auto simp: enabled_def)
  obtain s' where s': "create_alias_table real_dbl True ?c = Some s'" "map disabled (queue_buf s') = map disabled (queue_buf ?c)"
    "map favored (queue_buf s') = map favored (queue_buf ?c)"
    and share: "\<forall>i < length (queue_buf ?c). (disabled (queue_buf s' ! i) \<or> 0 < weight (queue_buf s' ! i)) \<and>
       alias_mass (alias_probability s') (alias_table s') i / length (queue_buf ?c) =
         (if disabled (queue_buf s' ! i) then 0
          else weight (queue_buf s' ! i) / (\<Sum>j < length (queue_buf ?c). if disabled (queue_buf s' ! j) then 0 else weight (queue_buf s' ! j)))"
    using alias_table_shares [OF sc sch] by blast
  let ?W = "\<lambda>j. if disabled (queue_buf s' ! j) then 0 else weight (queue_buf s' ! j)"
  have fav: "favored (queue_buf s' ! f)" using map_eq_nth [OF s'(3), of f] f(2) fn len by simp
  have "disabled (queue_buf s' ! f) = disabled (queue_buf ?c ! f)" using map_eq_nth [OF s'(2), of f] fn len by simp
  also have "\<dots> = disabled (queue_buf s ! f)" using map_eq_nth [OF keep, of f] fn by (simp add: select_key_def)
  finally have fd: "\<not> disabled (queue_buf s' ! f)" using en [OF f(1)] by simp
  have w: "0 < ?W f" using share fn fd len by auto
  have "?W f \<le> sum ?W {..<?n}" using share fn len by (intro member_le_sum) (auto simp: less_imp_le)
  then have "0 < ?W f / sum ?W {..<?n}" using w by simp
  then have "0 < alias_mass (alias_probability s') (alias_table s') f / ?n" using share fn fd len by simp
  then have "0 < alias_mass (alias_probability s') (alias_table s') f" using fn by (simp add: zero_less_divide_iff)
  moreover have "prepare_selection real_dbl True prev ?s = Some s'"
    using s'(1) cull_queue_keeps(3) [OF ch go(1)] by (simp add: prepare_selection_def Let_def)
  ultimately show ?thesis using f fav by blast
qed

theorem reached_bytes_in_play_witness:
  "demo_trace 0 ! 1 \<noteq> 0 \<and>
   (\<exists>s' f. prepare_selection real_dbl True 0 (score_all demo_trace [0, 1, 2] play_queue) = Some s' \<and> f \<in> enabled play_queue [0, 1, 2] \<and>
      demo_trace f ! 1 \<noteq> 0 \<and> favored (queue_buf s' ! f) \<and> 0 < alias_mass (alias_probability s') (alias_table s') f)"
proof -
  have t: "demo_trace 0 ! 1 \<noteq> 0" by code_simp
  have h: "unscored play_queue" "set [0, 1, 2] \<subseteq> {0..<length (queue_buf play_queue)}" "8 dvd unat (map_size play_queue)"
    "\<not> non_instrumented_mode play_queue" "1 < unat (map_size play_queue)" "0 \<in> enabled play_queue [0, 1, 2]"
    "\<not> disable_redundant play_queue" "scorable play_queue" "schedule play_queue \<notin> set [MMOPT, RARE, SEEK]"
    by (simp_all add: unscored_def enabled_def scorable_def play_queue_def queue_of_def entry_of_def)
  show ?thesis using reached_bytes_in_play [where T = demo_trace and prev = 0, OF h(1-6) t h(7-9)] t by blast
qed

end
